(* ===== verification/Prelude.thy ===== *)
theory Prelude
  imports Main "HOL-Library.Char_ord" "HOL-Library.List_Lexorder"
begin

text \<open>
  The part of the development every component shares: the C++ exception classes the code
  throws and catches, results that are either an exception or a value, ordered maps
  (\<^verbatim>\<open>std::map\<close>) as sorted association lists, splitting of strings at a
  character, and the lemma collections of the components.

  Conventions.  A \<^verbatim>\<open>std::string\<close> is a list of bytes (\<^typ>\<open>string\<close>) and is ordered
  as \<^verbatim>\<open>std::string::operator<\<close> orders it, lexicographically by unsigned byte.
  Strings that the code hands to a C interface through \<^verbatim>\<open>c_str()\<close> are taken to be
  free of NUL bytes.  An exception is its class and, for a system error, its number, and a
  gRPC status is its code; their texts are in theory \<open>Texts\<close> only.
\<close>

section \<open>Lemma collections\<close>

named_theorems path_simps \<open>evaluation rules of the lexical path operations\<close>
named_theorems smap_simps \<open>laws of the ordered maps\<close>

section \<open>Exceptions and results\<close>

text \<open>
  The status codes of gRPC that the library distinguishes; every other code is
  \<open>OTHER_CODE\<close> with its number.
\<close>

datatype status_code =
    OK
  | UNAVAILABLE
  | NOT_FOUND
  | INTERNAL
  | DATA_LOSS
  | UNIMPLEMENTED
  | OTHER_CODE nat

text \<open>
  The exception classes: \<^verbatim>\<open>std::system_error\<close> and \<^verbatim>\<open>GrpcError\<close> are
  \<^verbatim>\<open>std::runtime_error\<close>s, \<^verbatim>\<open>std::out_of_range\<close> and
  \<^verbatim>\<open>std::invalid_argument\<close> are \<^verbatim>\<open>std::logic_error\<close>s.  \<open>Undefined\<close>
  marks an execution whose behaviour the C++ standard leaves undefined.
\<close>

datatype exn =
    RuntimeError
  | SystemError int
  | GrpcError status_code
  | LogicError
  | OutOfRange
  | InvalidArgument
  | Undefined

fun is_runtime_error :: "exn \<Rightarrow> bool" where
  "is_runtime_error RuntimeError = True"
| "is_runtime_error (SystemError _) = True"
| "is_runtime_error (GrpcError _) = True"
| "is_runtime_error _ = False"

fun is_std_exception :: "exn \<Rightarrow> bool" where
  "is_std_exception Undefined = False"
| "is_std_exception _ = True"

type_synonym 'a result = "exn + 'a"

section \<open>Ordered maps\<close>

text \<open>
  \<^verbatim>\<open>std::map<K, V>\<close> is an association list in strictly ascending key order;
  \<open>smap_set\<close> is \<^verbatim>\<open>m[k] = v\<close>, \<open>smap_find\<close> is \<^verbatim>\<open>m.find(k)\<close> and
  \<open>smap_emplace\<close> is \<^verbatim>\<open>m.emplace(k, v)\<close>, which keeps the entry of a key
  that is present already.
\<close>

type_synonym ('k, 'v) smap = "('k \<times> 'v) list"

fun smap_set :: "'k::linorder \<Rightarrow> 'v \<Rightarrow> ('k, 'v) smap \<Rightarrow> ('k, 'v) smap" where
  "smap_set k v [] = [(k, v)]"
| "smap_set k v ((k', v') # m) =
     (if k < k' then (k, v) # (k', v') # m
      else if k = k' then (k, v) # m
      else (k', v') # smap_set k v m)"

definition smap_find :: "('k, 'v) smap \<Rightarrow> 'k \<Rightarrow> 'v option" where
  "smap_find m k = map_of m k"

definition smap_emplace :: "'k::linorder \<Rightarrow> 'v \<Rightarrow> ('k, 'v) smap \<Rightarrow> ('k, 'v) smap" where
  "smap_emplace k v m = (case smap_find m k of None \<Rightarrow> smap_set k v m | Some _ \<Rightarrow> m)"

definition smap_wf :: "('k::linorder, 'v) smap \<Rightarrow> bool" where
  "smap_wf m \<longleftrightarrow> sorted_wrt (<) (map fst m)"

lemma smap_wf_Nil [simp]: "smap_wf []"
  by (simp add: smap_wf_def)

lemma smap_wf_Cons:
  "smap_wf ((k, v) # m) \<longleftrightarrow> (\<forall>k' \<in> fst ` set m. k < k') \<and> smap_wf m"
  by (simp add: smap_wf_def)

lemma smap_wf_distinct: "smap_wf m \<Longrightarrow> distinct (map fst m)"
  by (simp add: smap_wf_def strict_sorted_iff)

lemma fst_set_smap_set: "fst ` set (smap_set k v m) = insert k (fst ` set m)"
proof (induction m)
  case (Cons p m)
  then show ?case by (cases p) (simp add: insert_commute)
qed simp

lemma set_smap_set: "set (smap_set k v m) \<subseteq> insert (k, v) (set m)"
  by (induction m) (auto split: if_splits)

lemma smap_wf_set [simp]: "smap_wf m \<Longrightarrow> smap_wf (smap_set k v m)"
proof (induction m)
  case (Cons p m)
  then show ?case
    by (cases p) (force simp: smap_wf_Cons fst_set_smap_set)
qed (simp add: smap_wf_Cons)

lemma smap_find_Nil [simp]: "smap_find [] k = None"
  by (simp add: smap_find_def)

lemma smap_find_Cons: "smap_find ((k', v) # m) k = (if k = k' then Some v else smap_find m k)"
  by (simp add: smap_find_def)

lemma smap_find_set [smap_simps]:
  "smap_find (smap_set k v m) k' = (if k' = k then Some v else smap_find m k')"
  by (induction m) (auto simp: smap_find_Cons)

lemma smap_find_None_iff: "smap_find m k = None \<longleftrightarrow> k \<notin> fst ` set m"
  by (simp add: smap_find_def map_of_eq_None_iff)

lemma smap_find_Some_set: "smap_find m k = Some v \<Longrightarrow> (k, v) \<in> set m"
  by (simp add: smap_find_def map_of_SomeD)

lemma smap_find_iff_set: "smap_wf m \<Longrightarrow> smap_find m k = Some v \<longleftrightarrow> (k, v) \<in> set m"
  by (simp add: smap_find_def smap_wf_distinct)

lemma smap_wf_emplace [simp]: "smap_wf m \<Longrightarrow> smap_wf (smap_emplace k v m)"
  by (simp add: smap_emplace_def split: option.split)

lemma smap_find_emplace [smap_simps]:
  "smap_find (smap_emplace k v m) k' =
     (if k' = k \<and> smap_find m k = None then Some v else smap_find m k')"
  by (auto simp: smap_emplace_def smap_simps split: option.split)

text \<open>Two ordered maps with the same lookups are the same list: the representation is canonical.\<close>

lemma smap_set_swap: "a \<noteq> b \<Longrightarrow> smap_set a v (smap_set b w m) = smap_set b w (smap_set a v m)"
  by (induction m) auto

lemma smap_set_set: "smap_set a v (smap_set a w m) = smap_set a v m"
  by (induction m) auto

lemma smap_set_commute:
  "a \<noteq> b \<or> v = w \<Longrightarrow> smap_set a v (smap_set b w m) = smap_set b w (smap_set a v m)"
  by (cases "a = b") (auto intro: smap_set_swap)

lemma smap_set_same: "smap_wf m \<Longrightarrow> smap_find m k = Some v \<Longrightarrow> smap_set k v m = m"
proof (induction m)
  case (Cons p m)
  then show ?case
    by (cases p) (force simp: smap_wf_Cons smap_find_Cons dest: smap_find_Some_set split: if_splits)
qed simp

lemma smap_eqI:
  assumes "smap_wf m" "smap_wf n" "\<And>k. smap_find m k = smap_find n k"
  shows "m = n"
proof -
  have "set m = set n"
    using assms by (auto simp: smap_find_iff_set [symmetric])
  moreover have "sorted (map fst m)" "sorted (map fst n)"
    using assms(1,2) by (auto simp: smap_wf_def intro: strict_sorted_imp_sorted)
  ultimately show ?thesis
    using assms(1,2) smap_wf_distinct map_sorted_distinct_set_unique [of fst m n]
    by (metis Un_absorb distinct_map)
qed

section \<open>Splitting strings\<close>

text \<open>
  \<open>split_at c s\<close> cuts \<open>s\<close> at every occurrence of \<open>c\<close>, as the loops over
  \<^verbatim>\<open>strchr\<close> and \<^verbatim>\<open>find\<close> do; a string without \<open>c\<close> is one piece.
\<close>

function split_at :: "'a \<Rightarrow> 'a list \<Rightarrow> 'a list list" where
  "split_at c s =
     (case dropWhile (\<lambda>x. x \<noteq> c) s of
        [] \<Rightarrow> [takeWhile (\<lambda>x. x \<noteq> c) s]
      | _ # rest \<Rightarrow> takeWhile (\<lambda>x. x \<noteq> c) s # split_at c rest)"
  by pat_completeness auto
termination
proof (relation "measure (\<lambda>(c, s). length s)")
  fix c :: 'a and s x rest
  assume "dropWhile (\<lambda>x. x \<noteq> c) s = x # rest"
  then have "length (x # rest) \<le> length s"
    by (metis length_dropWhile_le)
  then show "((c, rest), (c, s)) \<in> measure (\<lambda>(c, s). length s)"
    by simp
qed simp

declare split_at.simps [simp del]

lemma split_at_no_sep: "c \<notin> set s \<Longrightarrow> split_at c s = [s]"
proof -
  assume "c \<notin> set s"
  then have "dropWhile (\<lambda>x. x \<noteq> c) s = []" and "takeWhile (\<lambda>x. x \<noteq> c) s = s"
    by (auto simp: dropWhile_eq_Nil_conv takeWhile_eq_all_conv)
  then show ?thesis
    by (subst split_at.simps) (simp del: takeWhile_eq_all_conv dropWhile_eq_Nil_conv)
qed

lemma split_at_sep: "c \<notin> set a \<Longrightarrow> split_at c (a @ c # b) = a # split_at c b"
proof -
  assume "c \<notin> set a"
  then have "dropWhile (\<lambda>x. x \<noteq> c) (a @ c # b) = c # b"
    and "takeWhile (\<lambda>x. x \<noteq> c) (a @ c # b) = a"
    by (auto simp: dropWhile_append takeWhile_append dropWhile_eq_Nil_conv takeWhile_eq_all_conv)
  then show ?thesis
    by (simp add: split_at.simps [of c "a @ c # b"])
qed

lemma split_at_Nil [simp]: "split_at c [] = [[]]"
  by (simp add: split_at_no_sep)

lemma split_at_Cons [simp]: "split_at c (c # s) = [] # split_at c s"
  using split_at_sep [of c "[]" s] by simp

lemma split_at_pieces: "p \<in> set (split_at c s) \<Longrightarrow> c \<notin> set p"
proof (induction c s rule: split_at.induct)
  case (1 c s)
  show ?case
    using "1.prems" "1.IH"
    by (subst (asm) split_at.simps) (auto dest: set_takeWhileD split: list.splits)
qed

lemma split_at_not_Nil [simp]: "split_at c s \<noteq> []"
  by (subst split_at.simps) (simp split: list.split)

lemma split_at_append_sep: "split_at c (a @ c # b) = split_at c a @ split_at c b"
proof (induction c a rule: split_at.induct)
  case (1 c s)
  show ?case
  proof (cases "c \<in> set s")
    case False
    then show ?thesis
      by (simp add: split_at_sep split_at_no_sep)
  next
    case True
    then obtain u v where s: "s = u @ c # v" and u: "c \<notin> set u"
      by (meson split_list_first)
    have "dropWhile (\<lambda>x. x \<noteq> c) s = c # v"
      using s u by (auto simp: dropWhile_append dropWhile_eq_Nil_conv)
    then have "split_at c (v @ c # b) = split_at c v @ split_at c b"
      using "1.IH" by blast
    then show ?thesis
      using s u by (simp add: split_at_sep)
  qed
qed

text \<open>\<^verbatim>\<open>rfind\<close>: the index of the last occurrence of a character.\<close>

definition rfind :: "'a \<Rightarrow> 'a list \<Rightarrow> nat option" where
  "rfind c s = (if c \<in> set s then Some (length s - 1 - length (takeWhile (\<lambda>x. x \<noteq> c) (rev s)))
                else None)"

lemma rfind_last: "c \<notin> set x \<Longrightarrow> rfind c (a @ c # x) = Some (length a)"
proof -
  assume "c \<notin> set x"
  then have "takeWhile (\<lambda>y. y \<noteq> c) (rev x @ c # rev a) = rev x"
    by (subst takeWhile_append2) auto
  then show ?thesis by (simp add: rfind_def)
qed

end
