(* ===== verification/Paths.thy ===== *)
theory Paths
  imports Prelude
begin

text \<open>
  The lexical path operations of \<^verbatim>\<open>FileUtils\<close>
  (\<^verbatim>\<open>buildboxcommon_fileutils.cpp\<close>): \<^verbatim>\<open>normalizePath\<close>,
  \<^verbatim>\<open>makePathAbsolute\<close>, \<^verbatim>\<open>makePathRelative\<close>, \<^verbatim>\<open>joinPathSegments\<close>,
  \<^verbatim>\<open>joinPathSegmentsNoEscape\<close> and \<^verbatim>\<open>pathBasename\<close>.

  The abstract specification is lexical resolution: a path walked from a directory
  reaches a location, the list of names from the root, where \<open>..\<close> leaves the last
  name.  Normalisation keeps that location; the clients of normalisation use it through
  the locale \<open>path_normalizer\<close>.
\<close>

abbreviation slash :: char where
  "slash \<equiv> CHR ''/''"

section \<open>normalizePath\<close>

text \<open>What the loop body does with one segment and the vector \<open>segments\<close>.\<close>

definition push_segment :: "bool \<Rightarrow> string list \<Rightarrow> string \<Rightarrow> string list" where
  "push_segment global segments segment =
     (if segment = ''..'' \<and> segments \<noteq> [] \<and> last segments \<noteq> ''..'' then butlast segments
      else if global \<and> segment = ''..'' \<and> segments = [] then segments
      else if segment \<noteq> ''.'' \<and> segment \<noteq> [] then segments @ [segment]
      else segments)"

text \<open>
  The \<^verbatim>\<open>while (path[0] != '\0')\<close> loop: the segment up to the next slash, the
  body, then the rest after that slash, or the end when there is none.
\<close>

function normalize_loop :: "bool \<Rightarrow> string list \<Rightarrow> string \<Rightarrow> string list" where
  "normalize_loop global segments path =
     (if path = [] then segments
      else
        (let segments' = push_segment global segments (takeWhile (\<lambda>c. c \<noteq> slash) path)
         in case dropWhile (\<lambda>c. c \<noteq> slash) path of
              [] \<Rightarrow> segments'
            | _ # rest \<Rightarrow> normalize_loop global segments' rest))"
  by pat_completeness auto
termination
proof (relation "measure (\<lambda>(g, s, p). length p)")
  fix g segments path x segments' c rest
  assume "dropWhile (\<lambda>c. c \<noteq> slash) path = c # rest"
  then have "length (c # rest) \<le> length path"
    by (metis length_dropWhile_le)
  then show "((g, segments', rest), (g, segments, path)) \<in> measure (\<lambda>(g, s, p). length p)"
    by simp
qed simp

declare normalize_loop.simps [simp del]

text \<open>The segments are written out with a slash after each, and the last slash removed.\<close>

definition append_segments :: "string \<Rightarrow> string list \<Rightarrow> string" where
  "append_segments result segments = foldl (\<lambda>r s. r @ s @ [slash]) result segments"

definition normalizePath :: "string \<Rightarrow> string" where
  "normalizePath path =
     (let global = (path \<noteq> [] \<and> hd path = slash);
          segments = normalize_loop global [] path;
          result = (if global then [slash] else [])
      in if segments \<noteq> [] then butlast (append_segments result segments)
         else if \<not> global then ''.''
         else result)"

section \<open>The other path operations\<close>

text \<open>
  \<^verbatim>\<open>front()\<close> and \<^verbatim>\<open>back()\<close> of an empty string are undefined, so an empty
  \<open>path\<close> is \<open>Undefined\<close> here.
\<close>

definition makePathAbsolute :: "string \<Rightarrow> string \<Rightarrow> string result" where
  "makePathAbsolute path cwd =
     (if cwd = [] \<or> hd cwd \<noteq> slash then Inl RuntimeError
      else if path = [] then Inl Undefined
      else
        (let full_path = (if hd path \<noteq> slash then cwd @ [slash] @ path else path);
             normalized_path = normalizePath full_path
         in if last path = slash \<and> last normalized_path \<noteq> slash
            then Inr (normalized_path @ [slash])
            else Inr normalized_path))"

definition joinPathSegments :: "string \<Rightarrow> string \<Rightarrow> bool \<Rightarrow> string result" where
  "joinPathSegments firstSegment secondSegment forceSecondSegmentRelative =
     (if firstSegment = [] \<or> secondSegment = [] then Inl RuntimeError
      else
        (let firstSegmentNormalized = normalizePath firstSegment;
             secondSegmentNormalized = normalizePath secondSegment
         in if \<not> forceSecondSegmentRelative \<and> hd secondSegmentNormalized = slash
            then Inr secondSegmentNormalized
            else Inr (normalizePath
                   (firstSegmentNormalized @ [slash] @ secondSegmentNormalized))))"

text \<open>
  \<^verbatim>\<open>joinedPath.find(base) == 0\<close> says that \<open>base\<close> is a prefix;
  \<^verbatim>\<open>joinedPath.at(n)\<close> throws \<^verbatim>\<open>std::out_of_range\<close> when \<open>n\<close> is not
  an index of the string.
\<close>

definition is_prefix :: "'a list \<Rightarrow> 'a list \<Rightarrow> bool" where
  "is_prefix p s \<longleftrightarrow> take (length p) s = p"

definition path_escapes :: "string \<Rightarrow> string \<Rightarrow> string \<Rightarrow> bool result" where
  "path_escapes joinedPath normalizedBaseDir normalizedPathWithinBaseDir =
     (if joinedPath = normalizedBaseDir then Inr False
      else if normalizedBaseDir = ''/'' \<or> normalizedBaseDir = [] \<or> normalizedBaseDir = ''.''
      then Inr (\<not> (normalizedPathWithinBaseDir \<noteq> ''..'' \<and>
                   take 3 normalizedPathWithinBaseDir \<noteq> ''../''))
      else if is_prefix normalizedBaseDir joinedPath
      then (if length joinedPath \<ge> length normalizedBaseDir
            then (if length normalizedBaseDir < length joinedPath
                  then Inr (joinedPath ! length normalizedBaseDir \<noteq> slash)
                  else Inl OutOfRange)
            else Inr True)
      else Inr True)"

definition joinPathSegmentsNoEscape :: "string \<Rightarrow> string \<Rightarrow> bool \<Rightarrow> string result" where
  "joinPathSegmentsNoEscape basedir pathWithinBasedir forceRelativePathWithinBaseDir =
     (let normalizedBaseDir = normalizePath basedir;
          normalizedPathWithinBaseDir = normalizePath pathWithinBasedir
      in case joinPathSegments basedir normalizedPathWithinBaseDir
                forceRelativePathWithinBaseDir of
           Inl e \<Rightarrow> Inl e
         | Inr joinedPath \<Rightarrow>
             (case path_escapes joinedPath normalizedBaseDir normalizedPathWithinBaseDir of
                Inl e \<Rightarrow> Inl e
              | Inr escapes \<Rightarrow> if escapes then Inl RuntimeError else Inr joinedPath))"

definition pathBasename :: "string \<Rightarrow> string" where
  "pathBasename path =
     (if path = [] \<or> length path = 1 then []
      else
        (let basename = (if last path = slash
                         then take (the (rfind slash path)) path else path)
         in case rfind slash basename of
              None \<Rightarrow> []
            | Some pos \<Rightarrow> drop (pos + 1) basename))"

section \<open>makePathRelative\<close>

text \<open>
  \<^verbatim>\<open>s[i]\<close> of a \<^verbatim>\<open>std::string\<close>: the byte, or NUL at \<^verbatim>\<open>i == s.length()\<close>.
  The indices of the code never go further; they are \<^verbatim>\<open>unsigned int\<close>s, modelled
  as naturals, for paths shorter than \<open>2 ^ 32\<close> bytes.
\<close>

definition char_at :: "string \<Rightarrow> nat \<Rightarrow> char" where
  "char_at s i = (if i < length s then s ! i else CHR 0x00)"

text \<open>
  The first loop.  \<open>Inl\<close> is a \<^verbatim>\<open>return\<close> inside the loop, \<open>Inr\<close> the values of
  \<^verbatim>\<open>pathIndex\<close> and \<^verbatim>\<open>lastMatchingSegmentEnd\<close> when it ends;
  \<^verbatim>\<open>nextPathIndex\<close> is \<^verbatim>\<open>pathIndex + 1\<close> throughout.
\<close>

function match_loop :: "string \<Rightarrow> string \<Rightarrow> nat \<Rightarrow> nat \<Rightarrow> string + nat \<times> nat" where
  "match_loop path cwd pathIndex lastEnd =
     (if pathIndex < length path \<and> char_at path pathIndex = char_at cwd pathIndex then
        (if pathIndex + 1 = length cwd then
           (if length path = pathIndex + 1
            then Inl (if char_at path pathIndex = slash then ''./'' else ''.'')
            else if length path = pathIndex + 2 \<and> char_at path (pathIndex + 1) = slash
            then Inl ''./''
            else if char_at path pathIndex = slash then Inl (drop (pathIndex + 1) path)
            else if char_at path (pathIndex + 1) = slash then Inl (drop (pathIndex + 2) path)
            else match_loop path cwd (pathIndex + 1) lastEnd)
         else if char_at path pathIndex = slash
         then match_loop path cwd (pathIndex + 1) pathIndex
         else match_loop path cwd (pathIndex + 1) lastEnd)
      else Inr (pathIndex, lastEnd))"
  by pat_completeness auto
termination
  by (relation "measure (\<lambda>(path, cwd, i, l). length path - i)") auto

declare match_loop.simps [simp del]

text \<open>The second loop counts the segments of the working directory that are left.\<close>

function dotdots_loop :: "string \<Rightarrow> nat \<Rightarrow> nat \<Rightarrow> nat" where
  "dotdots_loop cwd pathIndex dotdotsNeeded =
     (if pathIndex < length cwd then
        dotdots_loop cwd (pathIndex + 1)
          (if cwd ! pathIndex = slash \<and> char_at cwd (pathIndex + 1) \<noteq> CHR 0x00
           then dotdotsNeeded + 1 else dotdotsNeeded)
      else dotdotsNeeded)"
  by pat_completeness auto
termination
  by (relation "measure (\<lambda>(cwd, i, n). length cwd - i)") auto

declare dotdots_loop.simps [simp del]

text \<open>
  The dots are written over the matching part of the path and every third one, but the
  last, is then overwritten with a slash.
\<close>

definition write_dotdots :: "nat \<Rightarrow> string \<Rightarrow> string" where
  "write_dotdots dotdotsNeeded rest =
     foldl (\<lambda>result j. result[j * 3 + 2 := slash])
       (replicate (dotdotsNeeded * 3 - 1) CHR ''.'' @ rest) [0..<dotdotsNeeded - 1]"

definition makePathRelative :: "string \<Rightarrow> string \<Rightarrow> string result" where
  "makePathRelative path cwd =
     (if cwd = [] \<or> path = [] \<or> hd path \<noteq> slash then Inr path
      else if hd cwd \<noteq> slash then Inl RuntimeError
      else
        (case match_loop path cwd 0 0 of
           Inl r \<Rightarrow> Inr r
         | Inr (pathIndex, lastEnd) \<Rightarrow>
             (if pathIndex = length path \<and> char_at cwd pathIndex = slash then
                (if pathIndex + 1 = length cwd then Inr ''.''
                 else Inr (write_dotdots (dotdots_loop cwd (pathIndex + 1) 1) (drop pathIndex path)))
              else Inr (write_dotdots (dotdots_loop cwd pathIndex 1) (drop lastEnd path)))))"

section \<open>Lexical resolution\<close>

definition walk_seg :: "string list \<Rightarrow> string \<Rightarrow> string list" where
  "walk_seg loc seg =
     (if seg = [] \<or> seg = ''.'' then loc else if seg = ''..'' then butlast loc else loc @ [seg])"

definition is_absolute :: "string \<Rightarrow> bool" where
  "is_absolute path \<longleftrightarrow> path \<noteq> [] \<and> hd path = slash"

definition resolve :: "string list \<Rightarrow> string \<Rightarrow> string list" where
  "resolve cwd path =
     foldl walk_seg (if is_absolute path then [] else cwd) (split_at slash path)"

text \<open>What a vector of segments looks like when the loop is done with it.\<close>

definition plain_name :: "string \<Rightarrow> bool" where
  "plain_name s \<longleftrightarrow> s \<noteq> [] \<and> s \<noteq> ''.'' \<and> slash \<notin> set s"

definition norm_segs :: "bool \<Rightarrow> string list \<Rightarrow> bool" where
  "norm_segs global segs \<longleftrightarrow>
     list_all plain_name segs \<and>
     ''..'' \<notin> set (dropWhile (\<lambda>s. s = ''..'') segs) \<and>
     (global \<longrightarrow> ''..'' \<notin> set segs)"

definition path_segs :: "string \<Rightarrow> string list" where
  "path_segs path = foldl (push_segment (is_absolute path)) [] (split_at slash path)"

definition join_segs :: "string list \<Rightarrow> string" where
  "join_segs segs = butlast (append_segments [] segs)"

text \<open>The string form of a normalised path, from its segments.\<close>

definition show_segs :: "bool \<Rightarrow> string list \<Rightarrow> string" where
  "show_segs global segs =
     (if global then slash # join_segs segs else if segs = [] then ''.'' else join_segs segs)"

section \<open>Segments and their string form\<close>

lemma append_segments_eq: "append_segments r segs = r @ concat (map (\<lambda>s. s @ [slash]) segs)"
  unfolding append_segments_def by (induction segs arbitrary: r) auto

lemma join_segs_Nil [simp]: "join_segs [] = []"
  by (simp add: join_segs_def append_segments_eq)

lemma join_segs_one [simp]: "join_segs [s] = s"
  by (simp add: join_segs_def append_segments_eq)

lemma join_segs_Cons: "segs \<noteq> [] \<Longrightarrow> join_segs (s # segs) = s @ slash # join_segs segs"
  by (cases segs) (auto simp: join_segs_def append_segments_eq butlast_append)

lemma join_segs_append:
  "as \<noteq> [] \<Longrightarrow> bs \<noteq> [] \<Longrightarrow> join_segs (as @ bs) = join_segs as @ slash # join_segs bs"
proof (induction as)
  case (Cons a as)
  then show ?case by (cases "as = []") (simp_all add: join_segs_Cons)
qed simp

lemma split_join_segs:
  assumes "segs \<noteq> []" "\<forall>s \<in> set segs. slash \<notin> set s"
  shows "split_at slash (join_segs segs) = segs"
  using assms
proof (induction segs)
  case (Cons s segs)
  then show ?case
    by (cases "segs = []") (simp_all add: join_segs_Cons split_at_sep split_at_no_sep)
qed simp

lemma join_segs_hd:
  "segs \<noteq> [] \<Longrightarrow> hd segs \<noteq> [] \<Longrightarrow> join_segs segs \<noteq> [] \<and> hd (join_segs segs) = hd (hd segs)"
proof (cases segs)
  case (Cons s ss)
  then show "segs \<noteq> [] \<Longrightarrow> hd segs \<noteq> [] \<Longrightarrow> ?thesis"
    by (cases "ss = []") (auto simp: join_segs_Cons)
qed simp

lemma push_segment_empty [simp]: "push_segment g segs [] = segs"
  by (simp add: push_segment_def)

lemma normalize_loop_eq: "normalize_loop g segs p = foldl (push_segment g) segs (split_at slash p)"
proof (induction g segs p rule: normalize_loop.induct)
  case (1 g segs p)
  show ?case
  proof (cases "p = []")
    case True
    then show ?thesis by (simp add: normalize_loop.simps)
  next
    case False
    show ?thesis
    proof (cases "dropWhile (\<lambda>c. c \<noteq> slash) p")
      case Nil
      then show ?thesis
        using False by (simp only: normalize_loop.simps [of g segs p] split_at.simps [of slash p]) simp
    next
      case (Cons c rest)
      then show ?thesis
        using False "1.IH" [OF False refl Cons]
        by (simp only: normalize_loop.simps [of g segs p] split_at.simps [of slash p]) (simp add: Let_def)
    qed
  qed
qed

lemma normalizePath_eq: "normalizePath p = show_segs (is_absolute p) (path_segs p)"
  by (auto simp: normalizePath_def normalize_loop_eq show_segs_def path_segs_def is_absolute_def
      join_segs_def append_segments_eq Let_def butlast_append)

section \<open>The invariant of the segment vector\<close>

lemma plain_dotdot [simp]: "plain_name ''..''"
  by (simp add: plain_name_def)

lemma norm_segs_Nil [simp]: "norm_segs g []"
  by (simp add: norm_segs_def)

lemma dropWhile_snoc_notin:
  "x \<notin> set (dropWhile (\<lambda>s. s = x) (xs @ [y])) \<longleftrightarrow>
     x \<notin> set (dropWhile (\<lambda>s. s = x) xs) \<and> (y = x \<longrightarrow> (\<forall>s \<in> set xs. s = x))"
  by (induction xs) auto

lemma norm_segs_snoc:
  "norm_segs g (segs @ [s]) \<longleftrightarrow>
     norm_segs g segs \<and> plain_name s \<and> (s = ''..'' \<longrightarrow> \<not> g \<and> (\<forall>t \<in> set segs. t = ''..''))"
  by (auto simp: norm_segs_def dropWhile_snoc_notin)

lemma norm_segs_butlast: "norm_segs g segs \<Longrightarrow> norm_segs g (butlast segs)"
  by (cases segs rule: rev_cases) (auto simp: norm_segs_snoc)

lemma norm_segs_last_dotdot:
  "norm_segs g segs \<Longrightarrow> segs \<noteq> [] \<Longrightarrow> last segs = ''..'' \<Longrightarrow> \<not> g \<and> (\<forall>t \<in> set segs. t = ''..'')"
  by (cases segs rule: rev_cases) (auto simp: norm_segs_snoc)

lemma norm_segs_push:
  assumes "norm_segs g segs" "slash \<notin> set seg"
  shows "norm_segs g (push_segment g segs seg)"
proof (cases "seg = ''..''")
  case True
  then show ?thesis
    using assms norm_segs_last_dotdot [of g segs] norm_segs_snoc [of g "[]" "''..''"]
    by (cases "segs = []") (auto simp: push_segment_def norm_segs_snoc norm_segs_butlast)
next
  case False
  then show ?thesis
    using assms by (auto simp: push_segment_def norm_segs_snoc plain_name_def)
qed

lemma norm_segs_foldl_push:
  "norm_segs g segs \<Longrightarrow> \<forall>s \<in> set ss. slash \<notin> set s \<Longrightarrow> norm_segs g (foldl (push_segment g) segs ss)"
  by (induction ss arbitrary: segs) (auto simp: norm_segs_push)

lemma path_segs_norm: "norm_segs (is_absolute p) (path_segs p)"
  by (auto simp: path_segs_def intro!: norm_segs_foldl_push dest: split_at_pieces)

lemma push_norm_segs:
  "norm_segs g (segs @ [s]) \<Longrightarrow> push_segment g segs s = segs @ [s]"
  by (auto simp: norm_segs_snoc push_segment_def plain_name_def)

lemma foldl_push_norm: "norm_segs g segs \<Longrightarrow> foldl (push_segment g) [] segs = segs"
proof (induction segs rule: rev_induct)
  case (snoc s segs)
  then show ?case using push_norm_segs [of g segs s] by (simp add: norm_segs_snoc)
qed simp

lemma norm_segs_no_slash: "norm_segs g segs \<Longrightarrow> s \<in> set segs \<Longrightarrow> slash \<notin> set s"
  by (auto simp: norm_segs_def list_all_iff plain_name_def)

lemma norm_segs_hd_not_Nil: "norm_segs g segs \<Longrightarrow> segs \<noteq> [] \<Longrightarrow> hd segs \<noteq> []"
  by (cases segs) (auto simp: norm_segs_def plain_name_def)

lemma is_absolute_show [simp]: "norm_segs g segs \<Longrightarrow> is_absolute (show_segs g segs) = g"
proof (cases segs)
  case (Cons s ss)
  assume n: "norm_segs g segs"
  then have "hd segs \<noteq> []" and "slash \<notin> set (hd segs)"
    using Cons norm_segs_hd_not_Nil [OF n] norm_segs_no_slash [OF n, of s] by auto
  then have "hd (join_segs segs) \<noteq> slash"
    using join_segs_hd [of segs] Cons by (metis hd_in_set list.distinct(1))
  then show ?thesis
    using Cons by (simp add: show_segs_def is_absolute_def)
qed (simp add: show_segs_def is_absolute_def)

lemma split_show_segs:
  assumes "norm_segs g segs"
  shows "split_at slash (show_segs g segs) =
     (if g then [] # (if segs = [] then [[]] else segs) else if segs = [] then [''.''] else segs)"
proof -
  have "segs \<noteq> [] \<Longrightarrow> split_at slash (join_segs segs) = segs"
    using assms norm_segs_no_slash split_join_segs by blast
  then show ?thesis
    by (auto simp: show_segs_def split_at_no_sep)
qed

lemma path_segs_show: "norm_segs g segs \<Longrightarrow> path_segs (show_segs g segs) = segs"
  by (auto simp: path_segs_def split_show_segs foldl_push_norm) (simp add: push_segment_def)

lemma path_segs_normalizePath [simp]: "path_segs (normalizePath p) = path_segs p"
  by (simp add: normalizePath_eq path_segs_show path_segs_norm)

lemma is_absolute_normalizePath [simp]: "is_absolute (normalizePath p) = is_absolute p"
  by (simp add: normalizePath_eq path_segs_norm)

section \<open>Resolution of normalised paths\<close>

lemma walk_push:
  assumes "norm_segs g segs" "g \<longrightarrow> loc = []"
  shows "foldl walk_seg loc (push_segment g segs seg) = walk_seg (foldl walk_seg loc segs) seg"
proof (cases segs rule: rev_cases)
  case Nil
  then show ?thesis using assms by (auto simp: push_segment_def walk_seg_def)
next
  case (snoc ss s)
  then have "plain_name s" using assms by (simp add: norm_segs_snoc)
  then show ?thesis
    using snoc by (auto simp: push_segment_def walk_seg_def plain_name_def)
qed

lemma walk_foldl_push:
  assumes "norm_segs g segs" "g \<longrightarrow> loc = []" "\<forall>s \<in> set ss. slash \<notin> set s"
  shows "foldl walk_seg loc (foldl (push_segment g) segs ss) = foldl walk_seg (foldl walk_seg loc segs) ss"
  using assms
proof (induction ss arbitrary: segs)
  case (Cons s ss)
  then show ?case by (simp add: walk_push norm_segs_push)
qed simp

lemma resolve_path_segs:
  "resolve cwd p = foldl walk_seg (if is_absolute p then [] else cwd) (path_segs p)"
proof -
  have "\<forall>s \<in> set (split_at slash p). slash \<notin> set s"
    by (auto dest: split_at_pieces)
  from walk_foldl_push [of "is_absolute p" "[]", OF _ _ this, of "if is_absolute p then [] else cwd"]
  show ?thesis by (simp add: resolve_def path_segs_def)
qed

lemma walk_plain: "list_all plain_name segs \<Longrightarrow> ''..'' \<notin> set segs \<Longrightarrow> foldl walk_seg loc segs = loc @ segs"
  by (induction segs arbitrary: loc) (auto simp: walk_seg_def plain_name_def)

lemma resolve_absolute: "is_absolute p \<Longrightarrow> resolve cwd p = path_segs p"
  using path_segs_norm [of p] by (simp add: resolve_path_segs norm_segs_def walk_plain)

lemma resolve_relative:
  "\<not> is_absolute p \<Longrightarrow> ''..'' \<notin> set (path_segs p) \<Longrightarrow> resolve cwd p = cwd @ path_segs p"
  using path_segs_norm [of p] by (simp add: resolve_path_segs norm_segs_def walk_plain)

lemma resolve_normalize: "resolve cwd (normalizePath p) = resolve cwd p"
  by (simp add: resolve_path_segs)

lemma normalize_idem: "normalizePath (normalizePath p) = normalizePath p"
  by (simp add: normalizePath_eq [of "normalizePath p"]) (simp add: normalizePath_eq)

section \<open>The contract of normalisation\<close>

text \<open>
  What the clients of \<^verbatim>\<open>normalizePath\<close> rely on: it keeps the location a path
  leads to, it keeps whether the path is absolute, and its result is the string form of a
  vector of segments in which \<open>..\<close> occurs only at the start, and not at all in an
  absolute path.
\<close>

lemma norm_segs_dotdot_iff:
  "norm_segs g segs \<Longrightarrow> ''..'' \<in> set segs \<longleftrightarrow> segs \<noteq> [] \<and> hd segs = ''..''"
  by (cases segs) (auto simp: norm_segs_def split: if_splits)

lemma show_segs_goes_up:
  assumes "norm_segs False segs"
  shows "(show_segs False segs = ''..'' \<or> take 3 (show_segs False segs) = ''../'') \<longleftrightarrow>
         ''..'' \<in> set segs"
proof (cases segs)
  case Nil
  then show ?thesis by (simp add: show_segs_def)
next
  case (Cons s ss)
  have plain: "plain_name s" and "slash \<notin> set s"
    using assms Cons by (auto simp: norm_segs_def plain_name_def)
  have up: "''..'' \<in> set segs \<longleftrightarrow> s = ''..''"
    using norm_segs_dotdot_iff [OF assms] Cons by auto
  show ?thesis
  proof (cases "ss = []")
    case True
    then show ?thesis using Cons up \<open>slash \<notin> set s\<close>
      by (auto simp: show_segs_def) (metis in_set_takeD list.set_intros(1,2))
  next
    case False
    have "take 3 (s @ slash # t) = ''../'' \<longleftrightarrow> s = ''..''" for t
    proof
      assume eq: "take 3 (s @ slash # t) = ''../''"
      have "s = takeWhile (\<lambda>c. c \<noteq> slash) (s @ slash # t)"
        using \<open>slash \<notin> set s\<close> by (auto simp: takeWhile_append)
      also have "\<dots> = takeWhile (\<lambda>c. c \<noteq> slash) (''../'' @ drop 3 (s @ slash # t))"
        by (metis eq append_take_drop_id)
      finally show "s = ''..''" by simp
    qed simp
    moreover have "s @ slash # t \<noteq> ''..''" for t
    proof
      assume "s @ slash # t = ''..''"
      then have "slash \<in> set ''..''" by (metis in_set_conv_decomp)
      then show False by simp
    qed
    ultimately show ?thesis
      using False Cons up by (simp add: show_segs_def join_segs_Cons)
  qed
qed

locale path_normalizer =
  fixes norm :: "string \<Rightarrow> string"
  assumes norm_resolve: "resolve cwd (norm p) = resolve cwd p"
    and norm_absolute: "is_absolute (norm p) = is_absolute p"
    and norm_shape: "\<exists>segs. norm_segs (is_absolute p) segs \<and> norm p = show_segs (is_absolute p) segs"
begin

lemma norm_stays_inside:
  assumes rel: "\<not> is_absolute p" and up: "norm p \<noteq> ''..''" "take 3 (norm p) \<noteq> ''../''"
  shows "\<exists>rest. ''..'' \<notin> set rest \<and> resolve cwd p = cwd @ rest"
proof -
  obtain segs where segs: "norm_segs False segs" "norm p = show_segs False segs"
    using norm_shape [of p] rel by auto
  then have "''..'' \<notin> set segs"
    using up show_segs_goes_up [OF segs(1)] by simp
  moreover have "resolve cwd p = cwd @ segs"
    using calculation rel segs norm_resolve [of cwd p] norm_absolute [of p]
    by (simp add: resolve_path_segs path_segs_show norm_segs_def walk_plain)
  ultimately show ?thesis by blast
qed

lemma norm_not_Nil: "norm p \<noteq> []"
proof -
  obtain segs where segs: "norm_segs (is_absolute p) segs" "norm p = show_segs (is_absolute p) segs"
    using norm_shape by blast
  then show ?thesis
    using join_segs_hd [of segs] norm_segs_hd_not_Nil [OF segs(1)]
    by (cases "segs = []") (auto simp: show_segs_def)
qed

lemma resolve_joined:
  "resolve cwd (norm a @ [slash] @ b) = foldl walk_seg (resolve cwd a) (split_at slash b)"
proof -
  have "is_absolute (norm a @ [slash] @ b) = is_absolute a"
    using norm_not_Nil [of a] norm_absolute [of a] by (simp add: is_absolute_def)
  then show ?thesis
    using norm_resolve [of cwd a]
    by (simp add: resolve_def norm_absolute split_at_append_sep)
qed

end

interpretation fnorm: path_normalizer normalizePath
proof unfold_locales
  fix p cwd
  show "resolve cwd (normalizePath p) = resolve cwd p"
    by (rule resolve_normalize)
  show "is_absolute (normalizePath p) = is_absolute p"
    by simp
  show "\<exists>segs. norm_segs (is_absolute p) segs \<and> normalizePath p = show_segs (is_absolute p) segs"
    using path_segs_norm normalizePath_eq by blast
qed

section \<open>Joining paths\<close>

text \<open>
  The location of a joined path: an absolute second segment stands alone unless it is
  forced to be relative; otherwise the second segment is walked from where the first leads.
\<close>

definition join_location :: "string list \<Rightarrow> string \<Rightarrow> string \<Rightarrow> bool \<Rightarrow> string list" where
  "join_location cwd a b force =
     (if \<not> force \<and> is_absolute b then resolve cwd b
      else foldl walk_seg (resolve cwd a) (path_segs b))"

lemma walk_split_normalize:
  "foldl walk_seg loc (split_at slash (normalizePath b)) = foldl walk_seg loc (path_segs b)"
proof -
  have "split_at slash (normalizePath b) =
     (if is_absolute b then [] # (if path_segs b = [] then [[]] else path_segs b)
      else if path_segs b = [] then [''.''] else path_segs b)"
    by (simp add: normalizePath_eq split_show_segs path_segs_norm)
  then show ?thesis
    by (simp add: walk_seg_def)
qed

lemma joinPathSegments_location:
  assumes "joinPathSegments a b force = Inr r"
  shows "resolve cwd r = join_location cwd a b force"
proof -
  have hd: "hd (normalizePath b) = slash \<longleftrightarrow> is_absolute b"
    using fnorm.norm_not_Nil [of b] is_absolute_normalizePath [of b]
    unfolding is_absolute_def [of "normalizePath b"] by blast
  have join: "resolve cwd (normalizePath (normalizePath a @ [slash] @ normalizePath b)) =
      foldl walk_seg (resolve cwd a) (path_segs b)"
    by (simp only: resolve_normalize fnorm.resolve_joined walk_split_normalize)
  show ?thesis
    using assms hd join
    by (auto simp: joinPathSegments_def join_location_def Let_def resolve_normalize split: if_splits)
qed

lemma joinPathSegments_normalized:
  "joinPathSegments a b force = Inr r \<Longrightarrow> normalizePath r = r"
  by (auto simp: joinPathSegments_def Let_def normalize_idem split: if_splits)

lemma joinPathSegments_total:
  "a \<noteq> [] \<Longrightarrow> b \<noteq> [] \<Longrightarrow> \<exists>r. joinPathSegments a b force = Inr r"
  by (simp add: joinPathSegments_def Let_def)

lemma joinPathSegments_normalize_right:
  "b \<noteq> [] \<Longrightarrow> joinPathSegments a (normalizePath b) force = joinPathSegments a b force"
  by (simp add: joinPathSegments_def Let_def normalize_idem fnorm.norm_not_Nil)

lemma is_prefix_iff: "is_prefix p s \<longleftrightarrow> (\<exists>t. s = p @ t)"
  unfolding is_prefix_def by (metis append_take_drop_id append_eq_conv_conj)

lemma is_prefix_longer: "is_prefix p s \<Longrightarrow> s \<noteq> p \<Longrightarrow> length p < length s"
  unfolding is_prefix_iff by auto

lemma path_escapes_total: "path_escapes joined base within \<noteq> Inl e"
  unfolding path_escapes_def using is_prefix_longer [of base joined] by simp

text \<open>
  A normalised path that continues another one with a slash has its segments below the
  segments of that other path.
\<close>

lemma normalized_below:
  assumes r: "normalizePath r = r" and b: "normalizePath b = b"
    and ext: "r = b @ slash # t" and nroot: "path_segs b \<noteq> []"
  shows "is_absolute r = is_absolute b \<and> (\<exists>rest. path_segs r = path_segs b @ rest)"
proof -
  have "b \<noteq> []" using fnorm.norm_not_Nil [of b] b by simp
  then have abs: "is_absolute r = is_absolute b"
    using ext by (simp add: is_absolute_def)
  have split_b: "split_at slash b = (if is_absolute b then [] # path_segs b else path_segs b)"
    using split_show_segs [OF path_segs_norm, of b] b nroot
    by (simp add: normalizePath_eq [symmetric])
  have split_r: "split_at slash r =
     (if is_absolute r then [] # (if path_segs r = [] then [[]] else path_segs r)
      else if path_segs r = [] then [''.''] else path_segs r)"
    using split_show_segs [OF path_segs_norm, of r] r by (simp add: normalizePath_eq [symmetric])
  have app: "split_at slash r = split_at slash b @ split_at slash t"
    by (simp add: ext split_at_append_sep)
  have "path_segs r \<noteq> []"
  proof
    assume "path_segs r = []"
    then have "length (split_at slash r) = (if is_absolute b then 2 else 1)"
      by (simp add: split_r abs)
    moreover have "0 < length (path_segs b)" "0 < length (split_at slash t)"
      using nroot by auto
    ultimately show False
      by (simp add: app split_b split: if_splits del: length_greater_0_conv)
  qed
  then have "\<exists>rest. path_segs r = path_segs b @ rest"
    using app split_b split_r abs by (auto split: if_splits)
  with abs show ?thesis by simp
qed

lemma normalizePath_cases:
  "path_segs p = [] \<longleftrightarrow> normalizePath p = ''/'' \<or> normalizePath p = ''.''"
proof
  assume "path_segs p = []"
  then show "normalizePath p = ''/'' \<or> normalizePath p = ''.''"
    by (auto simp: normalizePath_eq show_segs_def)
next
  assume "normalizePath p = ''/'' \<or> normalizePath p = ''.''"
  then have "path_segs (normalizePath p) = []"
    by (auto simp: path_segs_def split_at_no_sep push_segment_def)
  then show "path_segs p = []" by simp
qed

text \<open>The location of a joined path that the escape check lets through.\<close>

lemma no_escape_cases:
  assumes "joinPathSegmentsNoEscape base p force = Inr r"
  shows "joinPathSegments base (normalizePath p) force = Inr r"
    and "path_escapes r (normalizePath base) (normalizePath p) = Inr False"
  using assms
  by (auto simp: joinPathSegmentsNoEscape_def Let_def split: sum.splits if_splits)

lemma no_escape_below:
  assumes join: "joinPathSegmentsNoEscape base p force = Inr r"
    and nroot: "path_segs base \<noteq> []"
  shows "is_absolute r = is_absolute base \<and> (\<exists>rest. path_segs r = path_segs base @ rest)"
proof (cases "r = normalizePath base")
  case True
  then show ?thesis by simp
next
  case False
  have "normalizePath base \<noteq> ''/''" "normalizePath base \<noteq> ''.''" "normalizePath base \<noteq> []"
    using nroot normalizePath_cases fnorm.norm_not_Nil by auto
  then obtain t where "r = normalizePath base @ slash # t"
    using no_escape_cases(2) [OF join] False
    by (auto simp: path_escapes_def is_prefix_iff nth_append neq_Nil_conv split: if_splits)
  moreover have "normalizePath r = r"
    using no_escape_cases(1) [OF join] joinPathSegments_normalized by blast
  ultimately show ?thesis
    using normalized_below [of r "normalizePath base" t] nroot by (simp add: normalize_idem)
qed

section \<open>Properties of the path operations\<close>

text \<open>
  \<^verbatim>\<open>normalizePath\<close> is sound and canonical.  The simplified path leads to the
  same location as the given one from every working directory, stays absolute or relative,
  and simplifying again changes nothing.
\<close>

theorem normalizePath_correct:
  "resolve cwd (normalizePath p) = resolve cwd p \<and>
   is_absolute (normalizePath p) = is_absolute p \<and>
   normalizePath (normalizePath p) = normalizePath p"
  by (simp add: resolve_normalize normalize_idem)

text \<open>
  The result of \<^verbatim>\<open>normalizePath\<close> has the documented shape: it is \<open>/\<close> or
  \<open>.\<close>, or its slash-separated segments are neither empty nor \<open>.\<close>, \<open>..\<close> occurs
  only before every other segment, and an absolute result has no \<open>..\<close> at all.
\<close>

theorem normalizePath_shape:
  "normalizePath p \<in> {''/'', ''.''} \<or>
   (\<exists>segs. segs \<noteq> [] \<and> norm_segs (is_absolute p) segs \<and>
      split_at slash (normalizePath p) = (if is_absolute p then [] # segs else segs))"
proof (cases "path_segs p = []")
  case True
  then show ?thesis by (simp add: normalizePath_cases)
next
  case False
  then show ?thesis
    using path_segs_norm [of p] split_show_segs [OF path_segs_norm, of p]
    by (auto simp: normalizePath_eq)
qed

text \<open>
  C8: \<^verbatim>\<open>joinPathSegmentsNoEscape\<close> never returns a path outside of the base
  directory, provided the base directory does not itself start above the working directory
  and, when it is the working directory, the joined path is not absolute or is forced to be
  relative: the returned path leads to a location at or below that of the base directory.
\<close>

theorem joinPathSegmentsNoEscape_inside:
  assumes join: "joinPathSegmentsNoEscape base p force = Inr r"
    and up: "''..'' \<notin> set (path_segs base)"
    and here: "normalizePath base = ''.'' \<longrightarrow> force \<or> \<not> is_absolute p"
  shows "\<exists>rest. resolve cwd r = resolve cwd base @ rest"
proof (cases "path_segs base = []")
  case False
  then obtain rest where rest: "is_absolute r = is_absolute base" "path_segs r = path_segs base @ rest"
    using no_escape_below [OF join] by blast
  have "''..'' \<notin> set (path_segs r)"
    using up False rest norm_segs_dotdot_iff [OF path_segs_norm, of r]
    by (metis append_is_Nil_conv hd_append2 hd_in_set)
  then show ?thesis
    using up rest by (cases "is_absolute base") (simp_all add: resolve_absolute resolve_relative)
next
  case True
  show ?thesis
  proof (cases "is_absolute base")
    case True
    then show ?thesis using \<open>path_segs base = []\<close> by (simp add: resolve_absolute)
  next
    case rel: False
    then have base: "normalizePath base = ''.''" and cwd: "resolve cwd base = cwd"
      using True by (auto simp: normalizePath_eq show_segs_def resolve_relative)
    have loc: "resolve cwd r = join_location cwd base (normalizePath p) force"
      using no_escape_cases(1) [OF join] joinPathSegments_location by blast
    have "r = normalizePath base \<or> (normalizePath p \<noteq> ''..'' \<and> take 3 (normalizePath p) \<noteq> ''../'')"
      using no_escape_cases(2) [OF join] base by (auto simp: path_escapes_def split: if_splits)
    then show ?thesis
    proof
      assume "r = normalizePath base"
      then show ?thesis by (simp add: resolve_normalize)
    next
      assume "normalizePath p \<noteq> ''..'' \<and> take 3 (normalizePath p) \<noteq> ''../''"
      then have "''..'' \<notin> set (path_segs p)"
        using show_segs_goes_up [of "path_segs p"] path_segs_norm [of p]
        by (cases "is_absolute p") (auto simp: normalizePath_eq norm_segs_def)
      then have "foldl walk_seg cwd (path_segs p) = cwd @ path_segs p"
        using path_segs_norm [of p] by (simp add: norm_segs_def walk_plain)
      then show ?thesis
        using loc here base cwd by (auto simp: join_location_def)
    qed
  qed
qed

theorem joinPathSegmentsNoEscape_inside_witness:
  "joinPathSegmentsNoEscape ''/base/dir'' ''sub/../x'' False = Inr ''/base/dir/x'' \<and>
   (\<exists>rest. resolve [''home''] ''/base/dir/x'' = resolve [''home''] ''/base/dir'' @ rest)"
proof -
  have join: "joinPathSegmentsNoEscape ''/base/dir'' ''sub/../x'' False = Inr ''/base/dir/x''"
    by code_simp
  have up: "''..'' \<notin> set (path_segs ''/base/dir'')"
    and here: "normalizePath ''/base/dir'' = ''.'' \<longrightarrow> False \<or> \<not> is_absolute ''sub/../x''"
    by code_simp+
  show ?thesis
    using join joinPathSegmentsNoEscape_inside [OF join up here, of "[''home'']"] by blast
qed

lemma join_location_normalize_right [simp]:
  "join_location cwd a (normalizePath b) force = join_location cwd a b force"
  by (simp add: join_location_def resolve_normalize)

text \<open>
  C9: For an absolute base directory other than the root the escape check is exact:
  \<^verbatim>\<open>joinPathSegmentsNoEscape\<close> returns a path precisely when the location of the
  joined path is the base directory or below it, and otherwise throws.
\<close>

theorem joinPathSegmentsNoEscape_exact:
  assumes abs: "is_absolute base" and nroot: "path_segs base \<noteq> []"
  shows "(\<exists>r. joinPathSegmentsNoEscape base p force = Inr r) \<longleftrightarrow>
         (\<exists>rest. join_location cwd base p force = path_segs base @ rest)"
proof
  assume "\<exists>r. joinPathSegmentsNoEscape base p force = Inr r"
  then obtain r where r: "joinPathSegmentsNoEscape base p force = Inr r" by blast
  from no_escape_below [OF r nroot] abs
  obtain rest where rest: "is_absolute r" "path_segs r = path_segs base @ rest" by auto
  have "join_location cwd base p force = resolve cwd r"
    using no_escape_cases(1) [OF r] joinPathSegments_location by (metis join_location_normalize_right)
  then show "\<exists>rest. join_location cwd base p force = path_segs base @ rest"
    using rest by (simp add: resolve_absolute)
next
  assume "\<exists>rest. join_location cwd base p force = path_segs base @ rest"
  then obtain rest where rest: "join_location cwd base p force = path_segs base @ rest" by blast
  have "base \<noteq> []" using abs by (auto simp: is_absolute_def)
  then obtain r where r: "joinPathSegments base (normalizePath p) force = Inr r"
    using joinPathSegments_total fnorm.norm_not_Nil by blast
  have norm_r: "normalizePath r = r" using r joinPathSegments_normalized by blast
  have "is_absolute (normalizePath base @ [slash] @ normalizePath p)"
    using abs is_absolute_normalizePath [of base] by (auto simp: is_absolute_def)
  then have "is_absolute (normalizePath (normalizePath base @ [slash] @ normalizePath p))"
    by simp
  then have "is_absolute r"
    using r fnorm.norm_not_Nil [of p] is_absolute_def [of "normalizePath p"]
    by (auto simp: joinPathSegments_def Let_def normalize_idem split: if_splits)
  then have segs: "path_segs r = path_segs base @ rest"
    using joinPathSegments_location [OF r, of cwd] rest by (simp add: resolve_absolute)
  have base_str: "normalizePath base = slash # join_segs (path_segs base)"
    using abs by (simp add: normalizePath_eq show_segs_def)
  have r_str: "r = slash # join_segs (path_segs base @ rest)"
    using normalizePath_eq [of r] norm_r \<open>is_absolute r\<close> segs by (simp add: show_segs_def)
  have "path_escapes r (normalizePath base) (normalizePath p) = Inr False"
  proof (cases "rest = []")
    case True
    then show ?thesis using r_str base_str by (simp add: path_escapes_def)
  next
    case False
    then have ext: "r = normalizePath base @ slash # join_segs rest"
      using r_str base_str nroot by (simp add: join_segs_append)
    moreover have "normalizePath base \<noteq> ''/''" "normalizePath base \<noteq> ''.''" "normalizePath base \<noteq> []"
      using nroot normalizePath_cases fnorm.norm_not_Nil by auto
    moreover have "is_prefix (normalizePath base) r"
      using ext is_prefix_iff by blast
    ultimately show ?thesis
      by (simp add: path_escapes_def)
  qed
  then show "\<exists>r. joinPathSegmentsNoEscape base p force = Inr r"
    using r by (simp add: joinPathSegmentsNoEscape_def Let_def)
qed

theorem joinPathSegmentsNoEscape_exact_witness:
  "(\<exists>r. joinPathSegmentsNoEscape ''/base/dir'' ''../dir2'' False = Inr r) \<longleftrightarrow>
   (\<exists>rest. join_location [] ''/base/dir'' ''../dir2'' False = path_segs ''/base/dir'' @ rest)"
proof -
  have "is_absolute ''/base/dir''" "path_segs ''/base/dir'' \<noteq> []" by code_simp+
  then show ?thesis by (rule joinPathSegmentsNoEscape_exact)
qed

text \<open>
  The check is not sound for every base directory.  With the base directory \<open>..\<close> the
  path \<open>../x\<close> is accepted although it leads to the parent of the base directory, and with
  the base directory \<open>.\<close> every absolute path is accepted.
\<close>

theorem joinPathSegmentsNoEscape_unsound:
  "joinPathSegmentsNoEscape ''..'' ''../x'' False = Inr ''../../x'' \<and>
   \<not> (\<exists>rest. resolve [''a'', ''b''] ''../../x'' = resolve [''a'', ''b''] ''..'' @ rest) \<and>
   joinPathSegmentsNoEscape ''.'' ''/etc/passwd'' False = Inr ''/etc/passwd'' \<and>
   \<not> (\<exists>rest. resolve [''a'', ''b''] ''/etc/passwd'' = resolve [''a'', ''b''] ''.'' @ rest)"
proof -
  have "resolve [''a'', ''b''] ''../../x'' = [''x'']" "resolve [''a'', ''b''] ''..'' = [''a'']"
    "resolve [''a'', ''b''] ''/etc/passwd'' = [''etc'', ''passwd'']"
    "resolve [''a'', ''b''] ''.'' = [''a'', ''b'']"
    by code_simp+
  moreover have "joinPathSegmentsNoEscape ''..'' ''../x'' False = Inr ''../../x''"
    "joinPathSegmentsNoEscape ''.'' ''/etc/passwd'' False = Inr ''/etc/passwd''"
    by code_simp+
  ultimately show ?thesis by simp
qed

lemma resolve_trailing_slash: "r \<noteq> [] \<Longrightarrow> resolve c (r @ [slash]) = resolve c r"
  by (simp add: resolve_def is_absolute_def split_at_append_sep walk_seg_def)

lemma resolve_below_cwd:
  assumes "is_absolute cwd" "\<not> is_absolute path"
  shows "resolve loc (cwd @ [slash] @ path) = resolve (resolve [] cwd) path"
proof -
  have "is_absolute (cwd @ [slash] @ path)"
    using assms(1) by (auto simp: is_absolute_def)
  then show ?thesis
    using assms by (simp add: resolve_def split_at_append_sep)
qed

text \<open>
  \<^verbatim>\<open>makePathAbsolute\<close> with an absolute working directory and a non-empty path
  returns an absolute path to the location the given path has from that working directory,
  and it keeps a trailing slash.
\<close>

theorem makePathAbsolute_correct:
  assumes "is_absolute cwd" "path \<noteq> []"
  shows "\<exists>r. makePathAbsolute path cwd = Inr r \<and> is_absolute r \<and>
             resolve loc r = resolve (resolve [] cwd) path \<and>
             (last path = slash \<longrightarrow> last r = slash)"
proof -
  define full where "full = (if hd path \<noteq> slash then cwd @ [slash] @ path else path)"
  have abs: "is_absolute full" and loc: "\<And>l. resolve l full = resolve (resolve [] cwd) path"
    using assms resolve_below_cwd [of cwd path]
    by (auto simp: full_def is_absolute_def resolve_def)
  have "is_absolute (normalizePath full @ [slash])"
    using abs fnorm.norm_not_Nil [of full] is_absolute_normalizePath [of full]
    by (simp add: is_absolute_def)
  moreover have "resolve loc (normalizePath full @ [slash]) = resolve (resolve [] cwd) path"
    using loc by (simp add: resolve_trailing_slash fnorm.norm_not_Nil resolve_normalize)
  ultimately show ?thesis
    using assms abs loc
    by (auto simp: makePathAbsolute_def Let_def full_def [symmetric] is_absolute_def [of cwd]
        resolve_normalize)
qed

theorem makePathAbsolute_correct_witness:
  "\<exists>r. makePathAbsolute ''../lib/'' ''/usr/bin'' = Inr r \<and> is_absolute r \<and>
       resolve [] r = resolve (resolve [] ''/usr/bin'') ''../lib/'' \<and>
       (last ''../lib/'' = slash \<longrightarrow> last r = slash)"
  by (rule makePathAbsolute_correct) code_simp+

section \<open>makePathRelative leads back to the path\<close>

lemma length_split_at: "length (split_at c s) = 1 + length (filter (\<lambda>x. x = c) s)"
proof (induction c s rule: split_at.induct)
  case (1 c s)
  show ?case
  proof (cases "c \<in> set s")
    case False
    then show ?thesis by (auto simp: split_at_no_sep filter_empty_conv)
  next
    case True
    then obtain u v where s: "s = u @ c # v" and u: "c \<notin> set u"
      by (meson split_list_first)
    have "dropWhile (\<lambda>x. x \<noteq> c) s = c # v"
      using s u by (auto simp: dropWhile_append dropWhile_eq_Nil_conv)
    then have "length (split_at c v) = 1 + length (filter (\<lambda>x. x = c) v)"
      using "1.IH" by blast
    moreover have "filter (\<lambda>x. x = c) u = []" using u by (auto simp: filter_empty_conv)
    ultimately show ?thesis using s u by (simp add: split_at_sep)
  qed
qed

lemma write_dotdots_aux:
  "k < n \<Longrightarrow> foldl (\<lambda>result j. result[j * 3 + 2 := slash]) (replicate (n * 3 - 1) CHR ''.'' @ rest) [0..<k] =
     join_segs (replicate (Suc k) ''..'') @ replicate (3 * (n - Suc k)) CHR ''.'' @ rest"
proof (induction k)
  case 0
  then obtain m where "n = Suc m" by (cases n) auto
  then show ?case by (simp add: numeral_3_eq_3)
next
  case (Suc k)
  have len: "length (join_segs (replicate (Suc m) ''..'')) = m * 3 + 2" for m
    by (induction m) (simp_all add: join_segs_Cons)
  have snoc: "join_segs (replicate (Suc (Suc k)) ''..'') = join_segs (replicate (Suc k) ''..'') @ ''/..''"
    using join_segs_append [of "replicate (Suc k) ''..''" "[''..'']"]
    by (simp add: replicate_append_same)
  obtain m where m: "n - Suc k = Suc m" "n - Suc (Suc k) = m"
    using Suc.prems by (metis Suc_diff_Suc)
  show ?case
    using Suc len [of k] snoc m by (simp add: list_update_append numeral_3_eq_3)
qed

lemma write_dotdots_eq: "0 < n \<Longrightarrow> write_dotdots n rest = join_segs (replicate n ''..'') @ rest"
  using write_dotdots_aux [of "n - 1" n rest] by (simp add: write_dotdots_def)

lemma dotdots_loop_eq:
  assumes "\<And>j. j < length cwd \<Longrightarrow> cwd ! j = slash \<Longrightarrow> i \<le> j \<Longrightarrow> Suc j < length cwd"
    and "CHR 0x00 \<notin> set cwd"
  shows "dotdots_loop cwd i n = n + length (filter (\<lambda>c. c = slash) (drop i cwd))"
  using assms
proof (induction cwd i n rule: dotdots_loop.induct)
  case (1 cwd i n)
  show ?case
  proof (cases "i < length cwd")
    case False
    then show ?thesis by (simp add: dotdots_loop.simps)
  next
    case True
    then have "drop i cwd = cwd ! i # drop (Suc i) cwd"
      by (simp add: Cons_nth_drop_Suc)
    moreover have "cwd ! i = slash \<Longrightarrow> char_at cwd (Suc i) \<noteq> CHR 0x00"
      using "1.prems"(1) [of i] "1.prems"(2) True by (auto simp: char_at_def) (metis nth_mem)
    ultimately show ?thesis
      using True "1.IH" [OF True] "1.prems" by (subst dotdots_loop.simps) auto
  qed
qed

text \<open>
  What the first loop has established when it stops: the two paths agree up to
  \<open>pathIndex\<close>, and \<open>lastEnd\<close> is the last slash before it.
\<close>

definition matched :: "string \<Rightarrow> string \<Rightarrow> nat \<Rightarrow> nat \<Rightarrow> bool" where
  "matched path cwd i l \<longleftrightarrow>
     i \<le> length path \<and> i \<le> length cwd \<and> take i path = take i cwd \<and>
     (0 < i \<longrightarrow> l < i \<and> path ! l = slash \<and> slash \<notin> set (drop (Suc l) (take i path)))"

lemma matched_step:
  assumes "matched path cwd i l" "i < length path" "i < length cwd" "path ! i = cwd ! i"
    and "i = 0 \<longrightarrow> path ! i = slash"
  shows "matched path cwd (Suc i) (if path ! i = slash then i else l)"
  using assms by (auto simp: matched_def take_Suc_conv_app_nth less_Suc_eq)

definition early_return :: "string \<Rightarrow> string \<Rightarrow> string \<Rightarrow> bool" where
  "early_return path cwd r \<longleftrightarrow>
     ((path = cwd \<or> path = cwd @ [slash]) \<and> r \<in> {''.'', ''./''}) \<or>
     r \<noteq> [] \<and> (last cwd = slash \<and> path = cwd @ r \<or> path = cwd @ slash # r)"

lemma match_loop_last:
  assumes "take (Suc i) path = take (Suc i) cwd" "Suc i = length cwd" "i < length path"
  shows "path = cwd @ drop (Suc i) path" "last cwd = path ! i"
proof -
  show p: "path = cwd @ drop (Suc i) path"
    using assms by (metis append_take_drop_id order_refl take_all)
  have "cwd ! i = path ! i"
    using assms by (metis lessI nth_take)
  moreover have "length cwd - 1 = i" and "cwd \<noteq> []"
    using assms(2) by (auto simp flip: length_greater_0_conv)
  ultimately show "last cwd = path ! i"
    by (simp add: last_conv_nth)
qed

lemma match_loop_spec:
  assumes "matched path cwd i l" "is_absolute path" "is_absolute cwd" "CHR 0x00 \<notin> set path"
  shows "case match_loop path cwd i l of
           Inl r \<Rightarrow> early_return path cwd r
         | Inr (j, m) \<Rightarrow> 0 < j \<and> matched path cwd j m"
  using assms
proof (induction path cwd i l rule: match_loop.induct)
  case (1 path cwd i l)
  show ?case
  proof (cases "i < length path \<and> char_at path i = char_at cwd i")
    case False
    have "0 < i"
      using False "1.prems" by (cases i) (auto simp: is_absolute_def char_at_def hd_conv_nth)
    then show ?thesis
      using False "1.prems" by (subst match_loop.simps) auto
  next
    case True
    have "path ! i \<noteq> CHR 0x00" using True "1.prems"(4) by (metis nth_mem)
    then have i: "i < length path" "i < length cwd" "path ! i = cwd ! i"
      using True by (auto simp: char_at_def split: if_splits)
    have start: "i = 0 \<longrightarrow> path ! i = slash"
      using "1.prems"(2) by (auto simp: is_absolute_def hd_conv_nth)
    note step = matched_step [OF "1.prems"(1) i start]
    show ?thesis
    proof (cases "i + 1 = length cwd")
      case fin: True
      obtain t where path: "path = cwd @ t" and last: "last cwd = path ! i"
        using match_loop_last [of i path cwd] step fin i by (auto simp: matched_def)
      have t: "length path = Suc i + length t" "drop (Suc i) path = t" "drop (Suc (Suc i)) path = tl t"
        "char_at path (Suc i) = (case t of [] \<Rightarrow> CHR 0x00 | c # _ \<Rightarrow> c)" "char_at path i = path ! i"
        using fin i by (auto simp: path char_at_def nth_append drop_Suc split: list.split)
      have unfold: "match_loop path cwd i l =
         (if t = [] then Inl (if path ! i = slash then ''./'' else ''.'')
          else if t = [slash] then Inl ''./''
          else if path ! i = slash then Inl t
          else if hd t = slash then Inl (tl t)
          else match_loop path cwd (i + 1) l)"
        using True fin t by (subst match_loop.simps) (auto split: list.splits)
      have IH: "t \<noteq> [] \<Longrightarrow> t \<noteq> [slash] \<Longrightarrow> path ! i \<noteq> slash \<Longrightarrow> hd t \<noteq> slash \<Longrightarrow>
          case match_loop path cwd (i + 1) l of
            Inl r \<Rightarrow> early_return path cwd r | Inr (j, m) \<Rightarrow> 0 < j \<and> matched path cwd j m"
        using "1.IH"(1) [OF True fin] t step "1.prems" by (cases t) auto
      show ?thesis
        using IH last path unfolding unfold
        by (cases t) (auto simp: early_return_def)
    next
      case False
      show ?thesis
        using True False i step "1.IH"(2,3) [OF True False] "1.prems"
        by (subst match_loop.simps) (auto simp: char_at_def split: if_splits)
    qed
  qed
qed

text \<open>An absolute normalised path has no empty segment but the one before its first slash.\<close>

lemma normalized_split:
  assumes "is_absolute p" "normalizePath p = p" "split_at slash p = as @ bs" "as \<noteq> []" "bs \<noteq> [[]]"
  shows "list_all plain_name bs \<and> ''..'' \<notin> set bs"
proof -
  have split: "split_at slash p = [] # (if path_segs p = [] then [[]] else path_segs p)"
    using split_show_segs [OF path_segs_norm, of p] assms(1,2) normalizePath_eq [of p] by simp
  have segs: "list_all plain_name (path_segs p) \<and> ''..'' \<notin> set (path_segs p)"
    using path_segs_norm [of p] assms(1) by (simp add: norm_segs_def)
  obtain a as' where "as = a # as'"
    using assms(4) by (cases as) auto
  then have "(if path_segs p = [] then [[]] else path_segs p) = as' @ bs"
    using split assms(3) by simp
  then show ?thesis
    using segs assms(5) by (auto simp: append_eq_Cons_conv Cons_eq_append_conv split: if_splits)
qed

lemma normalized_no_double_slash:
  assumes "is_absolute p" "normalizePath p = p"
  shows "p \<noteq> u @ slash # slash # v"
proof
  assume p: "p = u @ slash # slash # v"
  have "split_at slash p = split_at slash u @ [] # split_at slash v"
    by (simp add: p split_at_append_sep)
  then have "list_all plain_name ([] # split_at slash v)"
    using normalized_split [OF assms] by (metis list.inject split_at_not_Nil)
  then show False by (simp add: plain_name_def)
qed

lemma normalized_trailing_slash:
  assumes "is_absolute p" "normalizePath p = p" "p = u @ [slash]"
  shows "u = []"
proof (rule ccontr)
  assume "u \<noteq> []"
  then obtain u' where u: "u = slash # u'"
    using assms by (cases u) (auto simp: is_absolute_def)
  have "split_at slash p = [[]] @ split_at slash u' @ [[]]"
    by (simp add: assms(3) u split_at_append_sep)
  then have "list_all plain_name (split_at slash u' @ [[]])"
    using normalized_split [OF assms(1,2)] by (metis append_self_conv2 list.distinct(1)
        append1_eq_conv split_at_not_Nil self_append_conv2)
  then show False by (simp add: plain_name_def)
qed

lemma walk_ups:
  "list_all plain_name ss \<Longrightarrow> ''..'' \<notin> set ss \<Longrightarrow>
   foldl walk_seg (foldl walk_seg L ss) (replicate (length ss) ''..'') = L"
proof (induction ss rule: rev_induct)
  case (snoc s ss)
  have "foldl walk_seg L (ss @ [s]) = L @ ss @ [s]" "foldl walk_seg L ss = L @ ss"
    using snoc.prems walk_plain [of "ss @ [s]" L] walk_plain [of ss L] by simp_all
  moreover have "walk_seg (L @ ss @ [s]) ''..'' = L @ ss"
    by (simp add: walk_seg_def butlast_append)
  ultimately show ?case using snoc by (simp del: foldl_append)
qed simp

lemma ups_string:
  assumes "0 < n"
  shows "\<not> is_absolute (join_segs (replicate n ''..'') @ rest)"
    and "split_at slash (join_segs (replicate n ''..'')) = replicate n ''..''"
proof -
  show "split_at slash (join_segs (replicate n ''..'')) = replicate n ''..''"
    using assms by (intro split_join_segs) auto
  have "join_segs (replicate n ''..'') \<noteq> []" "hd (join_segs (replicate n ''..'')) = CHR ''.''"
    using join_segs_hd [of "replicate n ''..''"] assms by auto
  then show "\<not> is_absolute (join_segs (replicate n ''..'') @ rest)"
    by (simp add: is_absolute_def)
qed

lemma resolve_dot: "resolve L ''.'' = L" "resolve L ''./'' = L"
  using resolve_trailing_slash [of "''.''" L]
  by (simp_all add: resolve_def is_absolute_def split_at_no_sep walk_seg_def)

lemma resolve_split_absolute:
  "is_absolute (u @ slash # t) \<Longrightarrow>
   resolve L (u @ slash # t) = foldl walk_seg (foldl walk_seg [] (split_at slash u)) (split_at slash t)"
  by (simp add: resolve_def split_at_append_sep)

lemma early_return_correct:
  assumes p: "is_absolute path" "normalizePath path = path"
    and c: "is_absolute cwd" "normalizePath cwd = cwd"
    and r: "early_return path cwd r"
  shows "resolve (resolve [] cwd) r = resolve [] path"
  using r unfolding early_return_def
proof (elim disjE conjE)
  assume "path = cwd" "r \<in> {''.'', ''./''}"
  then show ?thesis by (auto simp: resolve_dot)
next
  assume "path = cwd @ [slash]" "r \<in> {''.'', ''./''}"
  then show ?thesis
    using c(1) by (auto simp: resolve_dot resolve_trailing_slash is_absolute_def)
next
  assume path: "path = cwd @ r" "last cwd = slash" and "r \<noteq> []"
  have "cwd = ''/''"
    using normalized_trailing_slash [OF c, of "butlast cwd"] path(2) c(1)
    by (metis append_butlast_last_id append_Nil is_absolute_def)
  moreover have "\<not> is_absolute r"
    using normalized_no_double_slash [OF p, of "[]" "tl r"] path calculation
    by (cases r) (auto simp: is_absolute_def)
  ultimately show ?thesis
    using path by (simp add: resolve_def is_absolute_def walk_seg_def)
next
  assume path: "path = cwd @ slash # r" and "r \<noteq> []"
  have "\<not> is_absolute r"
    using normalized_no_double_slash [OF p, of cwd "tl r"] path by (cases r) (auto simp: is_absolute_def)
  then show ?thesis
    using path p(1) c(1) by (simp add: resolve_split_absolute) (simp add: resolve_def)
qed

lemma dotdots_loop_normalized:
  assumes c: "is_absolute cwd" "normalizePath cwd = cwd" "CHR 0x00 \<notin> set cwd" and "0 < i"
  shows "dotdots_loop cwd i n = n + length (filter (\<lambda>c. c = slash) (drop i cwd))"
proof (rule dotdots_loop_eq [OF _ c(3)])
  fix j assume j: "j < length cwd" "cwd ! j = slash" "i \<le> j"
  show "Suc j < length cwd"
  proof (rule ccontr)
    assume "\<not> Suc j < length cwd"
    then have "Suc j = length cwd" using j(1) by simp
    then have "cwd = take j cwd @ [slash]"
      using j(1,2) by (metis take_Suc_conv_app_nth order_refl take_all)
    then have "take j cwd = []"
      by (rule normalized_trailing_slash [OF c(1,2)])
    then show False using j \<open>0 < i\<close> by auto
  qed
qed

text \<open>
  Where the loops leave off: both paths continue a common part \<open>u\<close> with a slash, and as
  many parent segments as the working directory has below \<open>u\<close> lead back to \<open>u\<close>.
\<close>

lemma split_at_singleton: "split_at c s = [[]] \<Longrightarrow> s = []"
proof (cases "c \<in> set s")
  case True
  then obtain u v where "s = u @ c # v" by (meson split_list)
  then show "split_at c s = [[]] \<Longrightarrow> s = []"
    by (simp add: split_at_append_sep append_eq_Cons_conv)
qed (simp add: split_at_no_sep)

lemma ups_back:
  assumes c: "is_absolute cwd" "normalizePath cwd = cwd" "cwd = u @ slash # c'"
  shows "foldl walk_seg (resolve [] cwd) (replicate (length (split_at slash c')) ''..'') =
         foldl walk_seg [] (split_at slash u)"
proof (cases "split_at slash c' = [[]]")
  case True
  then have "u = []"
    using normalized_trailing_slash [OF c(1,2), of u] c(3) split_at_singleton [OF True] by simp
  then show ?thesis
    using c split_at_singleton [OF True] by (simp add: resolve_def walk_seg_def)
next
  case False
  have "split_at slash cwd = split_at slash u @ split_at slash c'"
    by (simp add: c(3) split_at_append_sep)
  then have "list_all plain_name (split_at slash c') \<and> ''..'' \<notin> set (split_at slash c')"
    using normalized_split [OF c(1,2)] False by simp
  then show ?thesis
    using c(1) walk_ups by (simp add: c(3) resolve_split_absolute)
qed

lemma matched_start: "matched path cwd 0 0"
  by (simp add: matched_def)

lemma matched_continues:
  assumes mt: "matched path cwd j m"
  shows "j = length path \<and> char_at cwd j = slash \<Longrightarrow>
           \<exists>c'. cwd = path @ slash # c' \<and> drop (Suc j) cwd = c'"
    and "0 < j \<Longrightarrow> \<exists>u p' c'. path = u @ slash # p' \<and> cwd = u @ slash # c' \<and> drop m path = slash # p' \<and>
           filter (\<lambda>c. c = slash) (drop j cwd) = filter (\<lambda>c. c = slash) c'"
proof -
  assume j: "j = length path \<and> char_at cwd j = slash"
  then have "j < length cwd" "cwd ! j = slash"
    by (auto simp: char_at_def split: if_splits)
  moreover have "take j cwd = path" using j mt by (simp add: matched_def)
  ultimately have "cwd = path @ slash # drop (Suc j) cwd"
    by (metis append_take_drop_id Cons_nth_drop_Suc)
  then show "\<exists>c'. cwd = path @ slash # c' \<and> drop (Suc j) cwd = c'" by blast
next
  assume "0 < j"
  with mt have m: "m < j" "j \<le> length path" "j \<le> length cwd" "take j path = take j cwd"
    "path ! m = slash" "slash \<notin> set (drop (Suc m) (take j path))"
    by (auto simp: matched_def)
  have tm: "take m path = take m cwd"
    using m(1,4) by (metis min.strict_order_iff take_take)
  have cm: "cwd ! m = slash"
    using m(1,4,5) by (metis nth_take)
  have dp: "drop m path = slash # drop (Suc m) path" and dc: "drop m cwd = slash # drop (Suc m) cwd"
    using m(1,2,3,5) cm by (metis Cons_nth_drop_Suc less_le_trans)+
  have "drop (Suc m) cwd = drop (Suc m) (take j cwd) @ drop j cwd"
    using m(1,3) by (metis Suc_leI append_take_drop_id drop_append length_take min.absorb2
        diff_is_0_eq drop_0)
  then have "filter (\<lambda>c. c = slash) (drop (Suc m) cwd) = filter (\<lambda>c. c = slash) (drop j cwd)"
    using m(4,6) by (auto simp: filter_empty_conv)
  moreover have "path = take m path @ slash # drop (Suc m) path" "cwd = take m path @ slash # drop (Suc m) cwd"
    using dp dc tm by (metis append_take_drop_id)+
  ultimately show "\<exists>u p' c'. path = u @ slash # p' \<and> cwd = u @ slash # c' \<and> drop m path = slash # p' \<and>
           filter (\<lambda>c. c = slash) (drop j cwd) = filter (\<lambda>c. c = slash) c'"
    using dp by metis
qed

lemma resolve_ups:
  "0 < n \<Longrightarrow> resolve L (write_dotdots n []) = foldl walk_seg L (replicate n ''..'')"
  using ups_string(1) [of n "[]"] ups_string(2) [of n] by (simp add: write_dotdots_eq resolve_def)

lemma resolve_ups_down:
  "0 < n \<Longrightarrow> resolve L (write_dotdots n (slash # t)) =
     foldl walk_seg (foldl walk_seg L (replicate n ''..'')) (split_at slash t)"
  using ups_string(1) [of n "slash # t"] ups_string(2) [of n] by (simp add: write_dotdots_eq resolve_def split_at_append_sep)

text \<open>
  \<^verbatim>\<open>makePathRelative\<close> of a simplified absolute path and a simplified absolute
  working directory returns, without an error, a path that leads from that working directory
  to the location of the given path.
\<close>

theorem makePathRelative_correct:
  assumes p: "is_absolute path" "normalizePath path = path" "CHR 0x00 \<notin> set path"
    and c: "is_absolute cwd" "normalizePath cwd = cwd" "CHR 0x00 \<notin> set cwd"
  shows "\<exists>r. makePathRelative path cwd = Inr r \<and> resolve (resolve [] cwd) r = resolve [] path"
proof (cases "match_loop path cwd 0 0")
  case (Inl r)
  then have "early_return path cwd r"
    using match_loop_spec [OF matched_start p(1) c(1) p(3)] by simp
  then show ?thesis
    using Inl p c early_return_correct [OF p(1,2) c(1,2)]
    by (auto simp: makePathRelative_def is_absolute_def)
next
  case (Inr jm)
  then obtain j m where jm: "match_loop path cwd 0 0 = Inr (j, m)" by (cases jm) auto
  then have "0 < j" and mt: "matched path cwd j m"
    using match_loop_spec [OF matched_start p(1) c(1) p(3)] by simp_all
  show ?thesis
  proof (cases "j = length path \<and> char_at cwd j = slash")
    case True
    then obtain c' where cwd: "cwd = path @ slash # c'" and c': "drop (Suc j) cwd = c'"
      using matched_continues(1) [OF mt] by blast
    have "dotdots_loop cwd (j + 1) 1 = length (split_at slash c')"
      using dotdots_loop_normalized [OF c, of "j + 1" 1] c' by (simp add: length_split_at)
    then have "resolve (resolve [] cwd) (write_dotdots (dotdots_loop cwd (j + 1) 1) []) = resolve [] path"
      using ups_back [OF c(1,2) cwd] resolve_ups [of "length (split_at slash c')"] p(1)
      by (simp add: resolve_def [of _ path])
    moreover have "c' = [] \<Longrightarrow> resolve [] cwd = resolve [] path"
      using cwd p(1) resolve_trailing_slash [of path "[]"] by (auto simp: is_absolute_def)
    ultimately show ?thesis
      using True jm p c c' by (auto simp: makePathRelative_def is_absolute_def resolve_dot)
  next
    case False
    obtain u p' c' where path: "path = u @ slash # p'" and cwd: "cwd = u @ slash # c'"
      and m: "drop m path = slash # p'"
      and count: "filter (\<lambda>c. c = slash) (drop j cwd) = filter (\<lambda>c. c = slash) c'"
      using matched_continues(2) [OF mt \<open>0 < j\<close>] by blast
    have n: "dotdots_loop cwd j 1 = length (split_at slash c')"
      using dotdots_loop_normalized [OF c \<open>0 < j\<close>, of 1] count by (simp add: length_split_at)
    have "resolve (resolve [] cwd) (write_dotdots (dotdots_loop cwd j 1) (slash # p')) = resolve [] path"
      using ups_back [OF c(1,2) cwd] resolve_ups_down [of "length (split_at slash c')"] p(1) n
      by (simp add: path resolve_split_absolute)
    then show ?thesis
      using False jm p c m by (auto simp: makePathRelative_def is_absolute_def)
  qed
qed

theorem makePathRelative_correct_witness:
  "\<exists>r. makePathRelative ''/a/b/c'' ''/a/d/e'' = Inr r \<and>
       resolve (resolve [] ''/a/d/e'') r = resolve [] ''/a/b/c''"
  by (rule makePathRelative_correct) code_simp+

text \<open>
  A path that shares only the root with the working directory is not returned unmodified,
  as the comment of \<^verbatim>\<open>makePathRelative\<close> has it, but made relative through the root;
  and \<^verbatim>\<open>pathBasename\<close> of a path without a slash is empty although that path is its
  own last segment.
\<close>

theorem path_docs_diverge:
  "makePathRelative ''/x/y'' ''/a/b'' = Inr ''../../x/y'' \<and> pathBasename ''name'' = [] \<and>
   pathBasename ''dir/name'' = ''name''"
  by code_simp

end
