(* ===== verification/Protos.thy ===== *)
theory Protos
  imports Prelude
begin

text \<open>
  The messages of the remote execution API that the library reads and writes, as records
  with the fields the code uses, the comparison operators \<^verbatim>\<open>buildboxcommon_protos.h\<close>
  defines on \<^verbatim>\<open>Digest\<close>, and the hash maps keyed by digests.

  A \<^verbatim>\<open>std::unordered_map<Digest, std::string>\<close> is an association list whose keys
  are pairwise different under the comparison operator.  The order of the list stands for
  the iteration order, which the standard leaves open: what the code computes from an
  iteration is shown not to depend on it where that matters.
\<close>

section \<open>Digests\<close>

record digest =
  hash_other :: string
  size_bytes :: int
  hash_blake3zcc :: string

definition empty_digest :: digest where
  "empty_digest = \<lparr>hash_other = [], size_bytes = 0, hash_blake3zcc = []\<rparr>"

text \<open>The comparison operators look at \<^verbatim>\<open>hash_other\<close> and \<^verbatim>\<open>size_bytes\<close> only.\<close>

definition digest_eq :: "digest \<Rightarrow> digest \<Rightarrow> bool" where
  "digest_eq a b \<longleftrightarrow> hash_other a = hash_other b \<and> size_bytes a = size_bytes b"

definition digest_less :: "digest \<Rightarrow> digest \<Rightarrow> bool" where
  "digest_less a b \<longleftrightarrow>
     (if hash_other a \<noteq> hash_other b then hash_other a < hash_other b
      else size_bytes a < size_bytes b)"

text \<open>\<^verbatim>\<open>std::to_string\<close> of an integer in decimal.\<close>

fun show_nat :: "nat \<Rightarrow> string" where
  "show_nat n = (if n < 10 then [char_of (48 + n)] else show_nat (n div 10) @ [char_of (48 + n mod 10)])"

declare show_nat.simps [simp del]

definition show_int :: "int \<Rightarrow> string" where
  "show_int i = (if i < 0 then CHR ''-'' # show_nat (nat (- i)) else show_nat (nat i))"

definition digest_toString :: "digest \<Rightarrow> string" where
  "digest_toString d = hash_other d @ ''/'' @ show_int (size_bytes d)"

section \<open>Directory messages\<close>

type_synonym timestamp = "int \<times> int" \<comment> \<open>seconds and nanoseconds\<close>

record file_node =
  fn_name :: string
  fn_digest :: digest
  fn_is_executable :: bool
  fn_mtime :: "timestamp option"

record symlink_node =
  sn_name :: string
  sn_target :: string

record directory_node =
  dn_name :: string
  dn_digest :: digest

record directory =
  files :: "file_node list"
  symlinks :: "symlink_node list"
  directories :: "directory_node list"

definition empty_directory :: directory where
  "empty_directory = \<lparr>files = [], symlinks = [], directories = []\<rparr>"

record tree =
  root :: directory
  children :: "directory list"

section \<open>Maps keyed by digests\<close>

type_synonym 'v digest_map = "(digest \<times> 'v) list"
type_synonym digest_string_map = "string digest_map"

fun dmap_find :: "'v digest_map \<Rightarrow> digest \<Rightarrow> 'v option" where
  "dmap_find [] d = None"
| "dmap_find ((k, v) # m) d = (if digest_eq k d then Some v else dmap_find m d)"

text \<open>\<^verbatim>\<open>m[d] = v\<close> keeps the key object of an entry that exists.\<close>

fun dmap_set :: "digest \<Rightarrow> 'v \<Rightarrow> 'v digest_map \<Rightarrow> 'v digest_map" where
  "dmap_set d v [] = [(d, v)]"
| "dmap_set d v ((k, w) # m) = (if digest_eq k d then (k, v) # m else (k, w) # dmap_set d v m)"

definition dmap_emplace :: "digest \<Rightarrow> 'v \<Rightarrow> 'v digest_map \<Rightarrow> 'v digest_map" where
  "dmap_emplace d v m = (case dmap_find m d of None \<Rightarrow> m @ [(d, v)] | Some _ \<Rightarrow> m)"

definition digest_key :: "digest \<Rightarrow> string \<times> int" where
  "digest_key d = (hash_other d, size_bytes d)"

definition dmap_wf :: "'v digest_map \<Rightarrow> bool" where
  "dmap_wf m \<longleftrightarrow> distinct (map (\<lambda>e. digest_key (fst e)) m)"

section \<open>Laws\<close>

lemma digest_eq_refl [simp]: "digest_eq d d"
  by (simp add: digest_eq_def)

lemma digest_eq_sym: "digest_eq a b \<longleftrightarrow> digest_eq b a"
  by (auto simp: digest_eq_def)

lemma digest_eq_trans: "digest_eq a b \<Longrightarrow> digest_eq b c \<Longrightarrow> digest_eq a c"
  by (simp add: digest_eq_def)

lemma dmap_find_cong: "digest_eq a b \<Longrightarrow> dmap_find m a = dmap_find m b"
  by (induction m) (auto simp: digest_eq_def)

lemma dmap_find_set [smap_simps]:
  "dmap_find (dmap_set d v m) e = (if digest_eq d e then Some v else dmap_find m e)"
  by (induction m) (auto simp: digest_eq_def)

lemma dmap_find_append: "dmap_find (m @ n) d = (case dmap_find m d of None \<Rightarrow> dmap_find n d | Some v \<Rightarrow> Some v)"
  by (induction m) auto

lemma dmap_find_emplace [smap_simps]:
  "dmap_find (dmap_emplace d v m) e =
     (if digest_eq d e \<and> dmap_find m d = None then Some v else dmap_find m e)"
  using dmap_find_cong [of d e m]
  by (auto simp: dmap_emplace_def dmap_find_append split: option.splits)

lemma dmap_find_None_iff: "dmap_find m d = None \<longleftrightarrow> (\<forall>k \<in> fst ` set m. \<not> digest_eq k d)"
  by (induction m) (auto split: if_splits)

lemma dmap_find_Some_iff_key: "(\<exists>v. dmap_find m d = Some v) \<longleftrightarrow> (\<exists>k \<in> fst ` set m. digest_eq k d)"
  using dmap_find_None_iff [of m d] by (cases "dmap_find m d") auto

lemma digest_eq_key: "digest_eq a b \<longleftrightarrow> digest_key a = digest_key b"
  by (simp add: digest_eq_def digest_key_def)

lemma dmap_set_keys:
  "(\<lambda>e. digest_key (fst e)) ` set (dmap_set d v m) =
   insert (digest_key d) ((\<lambda>e. digest_key (fst e)) ` set m)"
proof (induction m)
  case (Cons p m)
  then show ?case by (cases p) (auto simp: digest_eq_key insert_commute)
qed simp

lemma dmap_wf_set [simp]: "dmap_wf m \<Longrightarrow> dmap_wf (dmap_set d v m)"
proof (induction m)
  case (Cons p m)
  then show ?case
    using dmap_set_keys [of d v m] by (cases p) (force simp: dmap_wf_def digest_eq_key)
qed (simp add: dmap_wf_def)

lemma show_digit: "m < 10 \<Longrightarrow> char_of (48 + m) \<in> set ''0123456789''" for m :: nat
proof -
  have "list_all (\<lambda>m::nat. char_of (48 + m) \<in> set ''0123456789'') [0..<10]"
    by code_simp
  then show "m < 10 \<Longrightarrow> ?thesis"
    by (simp only: list_all_iff set_upt) (metis atLeastLessThan_iff le0)
qed

lemma show_nat_digits: "c \<in> set (show_nat n) \<Longrightarrow> c \<in> set ''0123456789''"
proof (induction n rule: show_nat.induct)
  case (1 n)
  show ?case
  proof (cases "n < 10")
    case True
    then have "show_nat n = [char_of (48 + n)]" by (simp add: show_nat.simps)
    then have "c = char_of (48 + n)" using "1.prems" by simp
    then show ?thesis using show_digit [OF True] by (simp only:)
  next
    case False
    then have "show_nat n = show_nat (n div 10) @ [char_of (48 + n mod 10)]"
      by (subst show_nat.simps) simp
    then consider "c \<in> set (show_nat (n div 10))" | "c = char_of (48 + n mod 10)"
      using "1.prems" by auto
    then show ?thesis
    proof cases
      case 1
      then show ?thesis using "1.IH" [OF False] by (simp only:)
    next
      case 2
      then show ?thesis using show_digit [of "n mod 10"] by (simp only: mod_less_divisor)
    qed
  qed
qed

lemma show_nat_not_Nil [simp]: "show_nat n \<noteq> []"
  by (subst show_nat.simps) simp

end
