(* ===== verification/Merklize.thy ===== *)
theory Merklize
  imports Protos "HOL-Library.Multiset"
begin

text \<open>
  \<^verbatim>\<open>buildboxcommon_merklize.cpp\<close>: the nested directories from which the Merkle tree
  of a directory is built, and their conversion to \<^verbatim>\<open>Directory\<close> and
  \<^verbatim>\<open>Tree\<close> messages.

  Protobuf serialisation (\<open>serialize\<close>) and the digest of a blob (\<open>make_digest\<close>) are
  parameters.  The three operations that add an entry at a path are shown to be one
  update at a list of directory names; from that follows what a lookup finds after an
  addition, that the additions keep the maps ordered, and that the order in which entries
  are added is irrelevant.
\<close>

section \<open>Files and nested directories\<close>

text \<open>\<^verbatim>\<open>d_mtime\<close> is the time point when \<^verbatim>\<open>d_mtime_set\<close> holds.\<close>

record file_entry =
  d_digest :: digest
  d_executable :: bool
  d_mtime :: "int option"

datatype nested_directory = NestedDirectory
  (d_subdirs: "(string \<times> nested_directory) list")
  (d_files: "(string \<times> file_entry) list")
  (d_symlinks: "(string \<times> string) list")

definition empty_nested :: nested_directory where
  "empty_nested = NestedDirectory [] [] []"

text \<open>
  \<open>make_timestamp\<close> is \<^verbatim>\<open>TimeUtils::make_timestamp\<close>, a parameter here.
\<close>

definition to_filenode :: "(int \<Rightarrow> timestamp) \<Rightarrow> file_entry \<Rightarrow> string \<Rightarrow> file_node" where
  "to_filenode make_timestamp f name =
     \<lparr>fn_name = name, fn_digest = d_digest f, fn_is_executable = d_executable f,
      fn_mtime = map_option make_timestamp (d_mtime f)\<rparr>"

text \<open>\<^verbatim>\<open>(*d_subdirs)[key]\<close> makes an empty directory when there is none.\<close>

definition subdir_or_new :: "string \<Rightarrow> (string \<times> nested_directory) list \<Rightarrow> nested_directory" where
  "subdir_or_new key subdirs = (case smap_find subdirs key of None \<Rightarrow> empty_nested | Some nd \<Rightarrow> nd)"

abbreviation not_slash :: "char \<Rightarrow> bool" where
  "not_slash c \<equiv> c \<noteq> CHR ''/''"

lemma rest_shorter: "dropWhile P s = c # rest \<Longrightarrow> length rest < length s"
  by (metis length_dropWhile_le length_Cons less_le_trans lessI)

function nd_add :: "file_entry \<Rightarrow> string \<Rightarrow> nested_directory \<Rightarrow> nested_directory" where
  "nd_add file relativePath nd =
     (case dropWhile not_slash relativePath of
        _ # rest \<Rightarrow>
          (let subdirKey = takeWhile not_slash relativePath
           in if subdirKey = [] then nd_add file rest nd
              else NestedDirectory
                     (smap_set subdirKey (nd_add file rest (subdir_or_new subdirKey (d_subdirs nd)))
                        (d_subdirs nd))
                     (d_files nd) (d_symlinks nd))
      | [] \<Rightarrow> NestedDirectory (d_subdirs nd) (smap_set relativePath file (d_files nd)) (d_symlinks nd))"
  by pat_completeness auto
termination
  by (relation "measure (\<lambda>(f, p, nd). length p)") (auto dest: rest_shorter)

function nd_addSymlink :: "string \<Rightarrow> string \<Rightarrow> nested_directory \<Rightarrow> nested_directory" where
  "nd_addSymlink target relativePath nd =
     (case dropWhile not_slash relativePath of
        _ # rest \<Rightarrow>
          (let subdirKey = takeWhile not_slash relativePath
           in if subdirKey = [] then nd_addSymlink target rest nd
              else NestedDirectory
                     (smap_set subdirKey
                        (nd_addSymlink target rest (subdir_or_new subdirKey (d_subdirs nd)))
                        (d_subdirs nd))
                     (d_files nd) (d_symlinks nd))
      | [] \<Rightarrow> NestedDirectory (d_subdirs nd) (d_files nd) (smap_set relativePath target (d_symlinks nd)))"
  by pat_completeness auto
termination
  by (relation "measure (\<lambda>(t, p, nd). length p)") (auto dest: rest_shorter)

function nd_addDirectory :: "string \<Rightarrow> nested_directory \<Rightarrow> nested_directory" where
  "nd_addDirectory directory nd =
     (if directory = ''/'' then nd
      else
        (case dropWhile not_slash directory of
           _ # rest \<Rightarrow>
             (let subdirKey = takeWhile not_slash directory
              in if subdirKey = [] then nd_addDirectory rest nd
                 else NestedDirectory
                        (smap_set subdirKey
                           (nd_addDirectory rest (subdir_or_new subdirKey (d_subdirs nd)))
                           (d_subdirs nd))
                        (d_files nd) (d_symlinks nd))
         | [] \<Rightarrow>
             (if smap_find (d_subdirs nd) directory = None
              then NestedDirectory (smap_set directory empty_nested (d_subdirs nd))
                     (d_files nd) (d_symlinks nd)
              else nd)))"
  by pat_completeness auto
termination
  by (relation "measure (\<lambda>(p, nd). length p)") (auto dest: rest_shorter)

declare nd_add.simps [simp del] nd_addSymlink.simps [simp del] nd_addDirectory.simps [simp del]

section \<open>Conversion to messages\<close>

definition file_nodes :: "(int \<Rightarrow> timestamp) \<Rightarrow> (string \<times> file_entry) list \<Rightarrow> file_node list" where
  "file_nodes ts fs = map (\<lambda>(name, f). to_filenode ts f name) fs"

definition symlink_nodes :: "(string \<times> string) list \<Rightarrow> symlink_node list" where
  "symlink_nodes ss = map (\<lambda>(name, target). \<lparr>sn_name = name, sn_target = target\<rparr>) ss"

text \<open>
  \<^verbatim>\<open>digestMap\<close> may be null; when it is not, the blob of every directory is stored
  in it, the subdirectories first.
\<close>

definition store_blob ::
  "digest \<Rightarrow> string \<Rightarrow> digest_string_map option \<Rightarrow> digest_string_map option" where
  "store_blob d blob digestMap = map_option (dmap_set d blob) digestMap"

function (sequential) to_digest ::
  "(directory \<Rightarrow> string) \<Rightarrow> (string \<Rightarrow> digest) \<Rightarrow> (int \<Rightarrow> timestamp) \<Rightarrow> nested_directory \<Rightarrow>
   digest_string_map option \<Rightarrow> digest \<times> digest_string_map option"
and subdir_digests ::
  "(directory \<Rightarrow> string) \<Rightarrow> (string \<Rightarrow> digest) \<Rightarrow> (int \<Rightarrow> timestamp) \<Rightarrow>
   (string \<times> nested_directory) list \<Rightarrow> digest_string_map option \<Rightarrow>
   directory_node list \<times> digest_string_map option"
where
  "to_digest serialize make_digest ts (NestedDirectory subdirs fs ss) digestMap =
     (let (nodes, digestMap') = subdir_digests serialize make_digest ts subdirs digestMap;
          blob = serialize \<lparr>files = file_nodes ts fs, symlinks = symlink_nodes ss, directories = nodes\<rparr>;
          digest = make_digest blob
      in (digest, store_blob digest blob digestMap'))"
| "subdir_digests serialize make_digest ts [] digestMap = ([], digestMap)"
| "subdir_digests serialize make_digest ts ((name, nd) # subdirs) digestMap =
     (let (subdirDigest, digestMap') = to_digest serialize make_digest ts nd digestMap;
          (nodes, digestMap'') = subdir_digests serialize make_digest ts subdirs digestMap'
      in (\<lparr>dn_name = name, dn_digest = subdirDigest\<rparr> # nodes, digestMap''))"
  by pat_completeness auto
termination
  by (relation "measure (case_sum (\<lambda>(s, h, t, nd, m). size nd)
        (\<lambda>(s, h, t, subs, m). size_list (size_prod (\<lambda>_. 0) size) subs))")
    auto

function (sequential) to_tree ::
  "(directory \<Rightarrow> string) \<Rightarrow> (string \<Rightarrow> digest) \<Rightarrow> (int \<Rightarrow> timestamp) \<Rightarrow> nested_directory \<Rightarrow> tree"
and subdir_trees ::
  "(directory \<Rightarrow> string) \<Rightarrow> (string \<Rightarrow> digest) \<Rightarrow> (int \<Rightarrow> timestamp) \<Rightarrow>
   (string \<times> nested_directory) list \<Rightarrow> directory_node list \<times> directory list"
where
  "to_tree serialize make_digest ts (NestedDirectory subdirs fs ss) =
     (let (nodes, kids) = subdir_trees serialize make_digest ts subdirs
      in \<lparr>root = \<lparr>files = file_nodes ts fs, symlinks = symlink_nodes ss, directories = nodes\<rparr>,
          children = kids\<rparr>)"
| "subdir_trees serialize make_digest ts [] = ([], [])"
| "subdir_trees serialize make_digest ts ((name, nd) # subdirs) =
     (let subtree = to_tree serialize make_digest ts nd;
          (nodes, kids) = subdir_trees serialize make_digest ts subdirs
      in (\<lparr>dn_name = name, dn_digest = make_digest (serialize (root subtree))\<rparr> # nodes,
          children subtree @ [root subtree] @ kids))"
  by pat_completeness auto
termination
  by (relation "measure (case_sum (\<lambda>(s, h, t, nd). size nd)
        (\<lambda>(s, h, t, subs). size_list (size_prod (\<lambda>_. 0) size) subs))")
    auto

text \<open>\<^verbatim>\<open>NestedDirectory::print\<close>, as the text it writes.\<close>

definition print_prefix :: "string \<Rightarrow> string" where
  "print_prefix dirName = (if dirName = [] then [] else dirName @ ''/'')"

definition print_quoted :: "string \<Rightarrow> string" where
  "print_quoted s = CHR 0x22 # s @ [CHR 0x22]"

function (sequential) nd_print :: "nested_directory \<Rightarrow> string \<Rightarrow> string"
and nd_print_subdirs :: "(string \<times> nested_directory) list \<Rightarrow> string \<Rightarrow> string"
where
  "nd_print (NestedDirectory subdirs fs ss) dirName =
     ''directory: '' @ print_quoted dirName @ [CHR 0x0A] @
     show_nat (length fs) @ '' files'' @ [CHR 0x0A] @
     concat (map (\<lambda>it. ''    '' @ print_quoted (print_prefix dirName @ fst it) @ [CHR 0x0A]) fs) @
     show_nat (length ss) @ '' symlinks'' @ [CHR 0x0A] @
     concat (map (\<lambda>it. ''    '' @ print_quoted (print_prefix dirName @ fst it) @ '', '' @
                        print_quoted (snd it) @ [CHR 0x0A]) ss) @
     show_nat (length subdirs) @ '' sub-directories'' @ [CHR 0x0A, CHR 0x0A] @
     nd_print_subdirs subdirs (print_prefix dirName)"
| "nd_print_subdirs [] prefix = []"
| "nd_print_subdirs ((name, nd) # subdirs) prefix =
     nd_print nd (prefix @ name) @ nd_print_subdirs subdirs prefix"
  by pat_completeness auto
termination
  by (relation "measure (case_sum (\<lambda>(nd, p). size nd) (\<lambda>(subs, p). size_list (size_prod (\<lambda>_. 0) size) subs))")
    auto

section \<open>The additions as one update\<close>

text \<open>
  The directory names of a path and the name of its last component: empty segments before
  the last slash are skipped, the part after it is taken as it is.
\<close>

definition path_dirs :: "string \<Rightarrow> string list" where
  "path_dirs p = filter (\<lambda>s. s \<noteq> []) (butlast (split_at (CHR ''/'') p))"

definition path_name :: "string \<Rightarrow> string" where
  "path_name p = last (split_at (CHR ''/'') p)"

datatype leaf = PutFile string file_entry | PutSymlink string string | MakeDirectory

fun apply_leaf :: "leaf \<Rightarrow> nested_directory \<Rightarrow> nested_directory" where
  "apply_leaf (PutFile n f) nd = NestedDirectory (d_subdirs nd) (smap_set n f (d_files nd)) (d_symlinks nd)"
| "apply_leaf (PutSymlink n t) nd = NestedDirectory (d_subdirs nd) (d_files nd) (smap_set n t (d_symlinks nd))"
| "apply_leaf MakeDirectory nd = nd"

fun nd_update :: "leaf \<Rightarrow> string list \<Rightarrow> nested_directory \<Rightarrow> nested_directory" where
  "nd_update l [] nd = apply_leaf l nd"
| "nd_update l (d # ds) nd =
     NestedDirectory (smap_set d (nd_update l ds (subdir_or_new d (d_subdirs nd))) (d_subdirs nd))
       (d_files nd) (d_symlinks nd)"

fun nd_wf :: "nested_directory \<Rightarrow> bool" where
  "nd_wf (NestedDirectory subdirs fs ss) \<longleftrightarrow>
     smap_wf subdirs \<and> smap_wf fs \<and> smap_wf ss \<and> list_all (\<lambda>p. nd_wf (snd p)) subdirs"

fun nd_dir :: "nested_directory \<Rightarrow> string list \<Rightarrow> nested_directory option" where
  "nd_dir nd [] = Some nd"
| "nd_dir nd (d # ds) =
     (case smap_find (d_subdirs nd) d of None \<Rightarrow> None | Some sub \<Rightarrow> nd_dir sub ds)"

definition file_at :: "nested_directory \<Rightarrow> string list \<Rightarrow> string \<Rightarrow> file_entry option" where
  "file_at nd ds n = (case nd_dir nd ds of None \<Rightarrow> None | Some d \<Rightarrow> smap_find (d_files d) n)"

definition symlink_at :: "nested_directory \<Rightarrow> string list \<Rightarrow> string \<Rightarrow> string option" where
  "symlink_at nd ds n = (case nd_dir nd ds of None \<Rightarrow> None | Some d \<Rightarrow> smap_find (d_symlinks d) n)"

lemma split_path_slash:
  "dropWhile not_slash p = c # rest \<Longrightarrow>
   path_dirs p = filter (\<lambda>s. s \<noteq> []) [takeWhile not_slash p] @ path_dirs rest \<and> path_name p = path_name rest"
  by (simp add: path_dirs_def path_name_def split_at.simps [of _ p])

lemma split_path_no_slash:
  "dropWhile not_slash p = [] \<Longrightarrow> path_dirs p = [] \<and> path_name p = p"
proof -
  assume "dropWhile not_slash p = []"
  then have "CHR ''/'' \<notin> set p" by (auto simp: dropWhile_eq_Nil_conv)
  then show ?thesis by (simp add: path_dirs_def path_name_def split_at_no_sep)
qed

lemma nd_add_update: "nd_add f p nd = nd_update (PutFile (path_name p) f) (path_dirs p) nd"
proof (induction f p nd rule: nd_add.induct)
  case (1 f p nd)
  show ?case
  proof (cases "dropWhile not_slash p")
    case Nil
    then show ?thesis
      by (simp only: nd_add.simps [of f p nd] list.case split_path_no_slash nd_update.simps apply_leaf.simps)
  next
    case (Cons c rest)
    then show ?thesis
      using "1.IH" [OF Cons] split_path_slash [OF Cons]
      by (simp only: nd_add.simps [of f p nd] list.case Let_def) simp
  qed
qed

lemma nd_addSymlink_update:
  "nd_addSymlink t p nd = nd_update (PutSymlink (path_name p) t) (path_dirs p) nd"
proof (induction t p nd rule: nd_addSymlink.induct)
  case (1 t p nd)
  show ?case
  proof (cases "dropWhile not_slash p")
    case Nil
    then show ?thesis
      by (simp only: nd_addSymlink.simps [of t p nd] list.case split_path_no_slash nd_update.simps apply_leaf.simps)
  next
    case (Cons c rest)
    then show ?thesis
      using "1.IH" [OF Cons] split_path_slash [OF Cons]
      by (simp only: nd_addSymlink.simps [of t p nd] list.case Let_def) simp
  qed
qed

lemma subdir_or_new_set:
  "subdir_or_new k (smap_set k' v m) = (if k = k' then v else subdir_or_new k m)"
  by (simp add: subdir_or_new_def smap_simps)

lemma empty_nested_sel [simp]:
  "d_subdirs empty_nested = []" "d_files empty_nested = []" "d_symlinks empty_nested = []"
  "nd_wf empty_nested"
  by (simp_all add: empty_nested_def)

lemma nd_wf_iff:
  "nd_wf nd \<longleftrightarrow> smap_wf (d_subdirs nd) \<and> smap_wf (d_files nd) \<and> smap_wf (d_symlinks nd) \<and>
     (\<forall>p \<in> set (d_subdirs nd). nd_wf (snd p))"
  by (cases nd) (simp add: list_all_iff)

lemma nd_wf_subdir_or_new: "nd_wf nd \<Longrightarrow> nd_wf (subdir_or_new d (d_subdirs nd))"
  by (force simp: subdir_or_new_def nd_wf_iff [of nd] dest: smap_find_Some_set split: option.split)

lemma nd_wf_apply_leaf: "nd_wf nd \<Longrightarrow> nd_wf (apply_leaf l nd)"
  by (cases l) (auto simp: nd_wf_iff [of nd] list_all_iff)

lemma nd_wf_update: "nd_wf nd \<Longrightarrow> nd_wf (nd_update l ds nd)"
proof (induction ds arbitrary: nd)
  case (Cons d ds)
  have "nd_wf (nd_update l ds (subdir_or_new d (d_subdirs nd)))"
    using Cons nd_wf_subdir_or_new by blast
  then show ?case
    using Cons.prems set_smap_set [of d _ "d_subdirs nd"]
    by (fastforce simp: nd_wf_iff [of nd] list_all_iff)
qed (simp add: nd_wf_apply_leaf)

text \<open>
  A directory path with a last component is added by the same update, below that component;
  the check for an entry that exists already makes no difference on ordered maps.
\<close>

lemma nd_addDirectory_update:
  assumes "nd_wf nd" "p \<noteq> []" "last p \<noteq> CHR ''/''"
  shows "nd_addDirectory p nd = nd_update MakeDirectory (path_dirs p @ [path_name p]) nd"
  using assms
proof (induction p nd rule: nd_addDirectory.induct)
  case (1 p nd)
  have "p \<noteq> ''/''" using "1.prems" by auto
  show ?case
  proof (cases "dropWhile not_slash p")
    case Nil
    have eta: "NestedDirectory (d_subdirs nd) (d_files nd) (d_symlinks nd) = nd"
      by (cases nd) simp
    have "nd_update MakeDirectory [p] nd =
       (if smap_find (d_subdirs nd) p = None
        then NestedDirectory (smap_set p empty_nested (d_subdirs nd)) (d_files nd) (d_symlinks nd) else nd)"
    proof (cases "smap_find (d_subdirs nd) p")
      case (Some sub)
      then have "smap_set p sub (d_subdirs nd) = d_subdirs nd"
        using "1.prems"(1) by (simp add: nd_wf_iff [of nd] smap_set_same)
      then show ?thesis using Some eta by (simp add: subdir_or_new_def)
    qed (simp add: subdir_or_new_def)
    then show ?thesis
      using \<open>p \<noteq> ''/''\<close> split_path_no_slash [OF Nil]
      by (simp only: nd_addDirectory.simps [of p nd] Nil list.case if_False append_Nil)
  next
    case (Cons c rest)
    have "p = takeWhile not_slash p @ c # rest"
      using Cons by (metis takeWhile_dropWhile_id)
    moreover have "c = CHR ''/''"
      using Cons by (metis (full_types) hd_dropWhile list.distinct(1) list.sel(1))
    ultimately have "rest \<noteq> []" "last rest \<noteq> CHR ''/''"
      using "1.prems"(3) by (metis last_snoc, metis last_appendR last_ConsR list.distinct(1) last_snoc)
    then show ?thesis
      using "1.IH" [OF \<open>p \<noteq> ''/''\<close> Cons refl] "1.prems"(1) \<open>p \<noteq> ''/''\<close>
        split_path_slash [OF Cons] nd_wf_subdir_or_new [OF "1.prems"(1), of "takeWhile not_slash p"]
      by (simp only: nd_addDirectory.simps [of p nd] Cons list.case Let_def if_False) simp
  qed
qed

section \<open>Lookups after an addition\<close>

lemma nd_dir_subdir_or_new:
  "smap_find subs d = None \<Longrightarrow> nd_dir (subdir_or_new d subs) ds = (if ds = [] then Some empty_nested else None)"
  by (cases ds) (simp_all add: subdir_or_new_def)

lemma file_at_Cons: "file_at nd (d # ds) n = file_at (subdir_or_new d (d_subdirs nd)) ds n"
proof (cases "smap_find (d_subdirs nd) d")
  case None
  then show ?thesis by (cases ds) (simp_all add: file_at_def subdir_or_new_def)
qed (simp add: file_at_def subdir_or_new_def)

lemma symlink_at_Cons: "symlink_at nd (d # ds) n = symlink_at (subdir_or_new d (d_subdirs nd)) ds n"
proof (cases "smap_find (d_subdirs nd) d")
  case None
  then show ?thesis by (cases ds) (simp_all add: symlink_at_def subdir_or_new_def)
qed (simp add: symlink_at_def subdir_or_new_def)

lemma file_at_update:
  "file_at (nd_update l ds nd) es n =
     (case l of PutFile m f \<Rightarrow> if es = ds \<and> n = m then Some f else file_at nd es n
      | _ \<Rightarrow> file_at nd es n)"
proof (induction ds arbitrary: nd es)
  case Nil
  show ?case
  proof (cases es)
    case Nil
    then show ?thesis by (cases l) (simp_all add: file_at_def smap_simps)
  next
    case (Cons e es')
    then show ?thesis by (cases l) (simp_all add: file_at_Cons)
  qed
next
  case (Cons d ds)
  show ?case
  proof (cases es)
    case Nil
    then show ?thesis by (cases l) (simp_all add: file_at_def)
  next
    case (Cons e es')
    then show ?thesis
      using Cons.IH [of "subdir_or_new d (d_subdirs nd)" es']
      by (cases l) (auto simp: file_at_Cons subdir_or_new_set)
  qed
qed

lemma symlink_at_update:
  "symlink_at (nd_update l ds nd) es n =
     (case l of PutSymlink m t \<Rightarrow> if es = ds \<and> n = m then Some t else symlink_at nd es n
      | _ \<Rightarrow> symlink_at nd es n)"
proof (induction ds arbitrary: nd es)
  case Nil
  show ?case
  proof (cases es)
    case Nil
    then show ?thesis by (cases l) (simp_all add: symlink_at_def smap_simps)
  next
    case (Cons e es')
    then show ?thesis by (cases l) (simp_all add: symlink_at_Cons)
  qed
next
  case (Cons d ds)
  show ?case
  proof (cases es)
    case Nil
    then show ?thesis by (cases l) (simp_all add: symlink_at_def)
  next
    case (Cons e es')
    then show ?thesis
      using Cons.IH [of "subdir_or_new d (d_subdirs nd)" es']
      by (cases l) (auto simp: symlink_at_Cons subdir_or_new_set)
  qed
qed

section \<open>The order of additions\<close>

fun leaf_compat :: "leaf \<Rightarrow> leaf \<Rightarrow> bool" where
  "leaf_compat (PutFile n f) (PutFile m g) \<longleftrightarrow> n \<noteq> m \<or> f = g"
| "leaf_compat (PutSymlink n t) (PutSymlink m u) \<longleftrightarrow> n \<noteq> m \<or> t = u"
| "leaf_compat _ _ \<longleftrightarrow> True"

lemma apply_leaf_commute:
  "leaf_compat l k \<Longrightarrow> apply_leaf l (apply_leaf k nd) = apply_leaf k (apply_leaf l nd)"
  by (cases l; cases k) (simp_all add: smap_set_commute)

lemma apply_leaf_update:
  "apply_leaf l (nd_update k (d # ds) nd) = nd_update k (d # ds) (apply_leaf l nd)"
  by (cases l) simp_all

lemma nd_update_commute:
  "(ds = es \<longrightarrow> leaf_compat l k) \<Longrightarrow>
   nd_update l ds (nd_update k es nd) = nd_update k es (nd_update l ds nd)"
proof (induction ds arbitrary: es nd)
  case Nil
  then show ?case
    by (cases es) (simp_all add: apply_leaf_commute apply_leaf_update del: nd_update.simps(2))
next
  case (Cons d ds)
  show ?case
  proof (cases es)
    case Nil
    then show ?thesis by (simp add: apply_leaf_update del: nd_update.simps(2))
  next
    case (Cons e es')
    show ?thesis
    proof (cases "d = e")
      case True
      then show ?thesis
        using Cons Cons.IH [of es' "subdir_or_new e (d_subdirs nd)"] Cons.prems
        by (simp add: subdir_or_new_set smap_set_set)
    next
      case False
      then show ?thesis
        using Cons by (simp add: subdir_or_new_set smap_set_swap)
    qed
  qed
qed

text \<open>An entry to add, as \<^verbatim>\<open>NodeMetaData::addToNestedDirectory\<close> adds it.\<close>

datatype nd_entry =
    FileEntry string file_entry
  | SymlinkEntry string string
  | DirectoryEntry string

fun add_entry :: "nd_entry \<Rightarrow> nested_directory \<Rightarrow> nested_directory" where
  "add_entry (FileEntry path f) nd = nd_add f path nd"
| "add_entry (SymlinkEntry path target) nd = nd_addSymlink target path nd"
| "add_entry (DirectoryEntry path) nd = nd_addDirectory path nd"

fun entry_path :: "nd_entry \<Rightarrow> string" where
  "entry_path (FileEntry path _) = path"
| "entry_path (SymlinkEntry path _) = path"
| "entry_path (DirectoryEntry path) = path"

definition clean_entry :: "nd_entry \<Rightarrow> bool" where
  "clean_entry e \<longleftrightarrow> entry_path e \<noteq> [] \<and> last (entry_path e) \<noteq> CHR ''/''"

fun entry_update :: "nd_entry \<Rightarrow> leaf \<times> string list" where
  "entry_update (FileEntry path f) = (PutFile (path_name path) f, path_dirs path)"
| "entry_update (SymlinkEntry path target) = (PutSymlink (path_name path) target, path_dirs path)"
| "entry_update (DirectoryEntry path) = (MakeDirectory, path_dirs path @ [path_name path])"

text \<open>Two entries conflict when both are files, or both symlinks, of the same place and differ.\<close>

definition entries_compat :: "nd_entry \<Rightarrow> nd_entry \<Rightarrow> bool" where
  "entries_compat a b \<longleftrightarrow>
     snd (entry_update a) = snd (entry_update b) \<longrightarrow> leaf_compat (fst (entry_update a)) (fst (entry_update b))"

lemma add_entry_update:
  "nd_wf nd \<Longrightarrow> clean_entry e \<Longrightarrow> add_entry e nd = nd_update (fst (entry_update e)) (snd (entry_update e)) nd"
  by (cases e) (simp_all add: nd_add_update nd_addSymlink_update nd_addDirectory_update clean_entry_def)

lemma fold_add_entry:
  assumes "nd_wf nd" "\<forall>e \<in> set es. clean_entry e"
  shows "fold add_entry es nd = fold (\<lambda>e. nd_update (fst (entry_update e)) (snd (entry_update e))) es nd"
  using assms
proof (induction es arbitrary: nd)
  case (Cons e es)
  then have "nd_wf (add_entry e nd)" by (simp add: add_entry_update nd_wf_update)
  then show ?case using Cons by (simp add: add_entry_update [of nd e])
qed simp

text \<open>
  Building a nested directory does not depend on the order of its entries: any two
  orders of the same entries, added to the same well-formed directory, give the same
  directory, provided no two entries put different files, or different symlinks, at one place.
\<close>

theorem add_entries_order:
  assumes "mset es = mset es'" "nd_wf nd"
    and "\<forall>e \<in> set es. clean_entry e"
    and "\<forall>a \<in> set es. \<forall>b \<in> set es. entries_compat a b"
  shows "fold add_entry es nd = fold add_entry es' nd"
proof -
  let ?f = "\<lambda>e. nd_update (fst (entry_update e)) (snd (entry_update e))"
  have "?f a \<circ> ?f b = ?f b \<circ> ?f a" if "a \<in> set es" "b \<in> set es" for a b
    using that assms(4) by (auto simp: entries_compat_def intro!: ext nd_update_commute)
  then have "fold ?f es = fold ?f es'"
    using assms(1) by (intro fold_multiset_equiv) auto
  then show ?thesis
    using assms mset_eq_setD [OF assms(1)] by (simp add: fold_add_entry)
qed

theorem add_entries_order_witness:
  "fold add_entry [FileEntry ''src/a.c'' \<lparr>d_digest = empty_digest, d_executable = False, d_mtime = None\<rparr>,
                   DirectoryEntry ''src'', SymlinkEntry ''src/b'' ''a.c''] empty_nested =
   fold add_entry [SymlinkEntry ''src/b'' ''a.c'', DirectoryEntry ''src'',
                   FileEntry ''src/a.c'' \<lparr>d_digest = empty_digest, d_executable = False, d_mtime = None\<rparr>]
     empty_nested"
proof (rule add_entries_order)
  let ?es = "[FileEntry ''src/a.c'' \<lparr>d_digest = empty_digest, d_executable = False, d_mtime = None\<rparr>,
                   DirectoryEntry ''src'', SymlinkEntry ''src/b'' ''a.c'']"
  show "\<forall>e \<in> set ?es. clean_entry e" by code_simp
  show "\<forall>a \<in> set ?es. \<forall>b \<in> set ?es. entries_compat a b" by code_simp
qed simp_all

text \<open>
  After a file is added at a path it is found there and nothing else changes: every other
  file, and every symlink, is found as before, and the maps stay ordered.
\<close>

theorem nd_add_lookup:
  "file_at (nd_add f p nd) ds n =
     (if ds = path_dirs p \<and> n = path_name p then Some f else file_at nd ds n) \<and>
   symlink_at (nd_add f p nd) ds n = symlink_at nd ds n \<and>
   (nd_wf nd \<longrightarrow> nd_wf (nd_add f p nd))"
  by (simp add: nd_add_update file_at_update symlink_at_update nd_wf_update)

theorem nd_add_lookup_witness:
  "file_at (nd_add \<lparr>d_digest = empty_digest, d_executable = True, d_mtime = None\<rparr> ''/x//y'' empty_nested)
      [''x''] ''y'' = Some \<lparr>d_digest = empty_digest, d_executable = True, d_mtime = None\<rparr> \<and>
   nd_wf (nd_add \<lparr>d_digest = empty_digest, d_executable = True, d_mtime = None\<rparr> ''/x//y'' empty_nested)"
proof -
  have p: "path_dirs ''/x//y'' = [''x'']" "path_name ''/x//y'' = ''y''" by code_simp+
  show ?thesis
    using nd_add_lookup [of "\<lparr>d_digest = empty_digest, d_executable = True, d_mtime = None\<rparr>" "''/x//y''" empty_nested
        "[''x'']" "''y''"]
    by (simp add: p)
qed

section \<open>A concrete encoding\<close>

text \<open>
  An instance of the parameters for evaluation on concrete inputs: directories are encoded by
  their names and digests, and a blob is its own hash.
\<close>

definition plain_digest :: "string \<Rightarrow> digest" where
  "plain_digest s = \<lparr>hash_other = s, size_bytes = int (length s), hash_blake3zcc = []\<rparr>"

definition plain_serialize :: "directory \<Rightarrow> string" where
  "plain_serialize d =
     concat (map (\<lambda>f. ''f'' @ fn_name f @ ''='' @ hash_other (fn_digest f) @ '';'') (files d)) @
     concat (map (\<lambda>l. ''l'' @ sn_name l @ ''='' @ sn_target l @ '';'') (symlinks d)) @
     concat (map (\<lambda>n. ''d'' @ dn_name n @ ''='' @ hash_other (dn_digest n) @ '';'') (directories d))"

definition sample_file :: file_entry where
  "sample_file = \<lparr>d_digest = plain_digest ''data'', d_executable = True, d_mtime = None\<rparr>"

definition sample_nested :: nested_directory where
  "sample_nested = nd_addDirectory ''e'' (nd_addSymlink ''b'' ''d/s/a'' (nd_add sample_file ''d/s/b'' empty_nested))"

section \<open>Digests and trees\<close>

text \<open>The directories of a tree in the order in which \<^verbatim>\<open>to_digest\<close> stores them.\<close>

definition tree_dirs :: "tree \<Rightarrow> directory list" where
  "tree_dirs t = children t @ [root t]"

definition store_dirs ::
  "(directory \<Rightarrow> string) \<Rightarrow> (string \<Rightarrow> digest) \<Rightarrow> directory list \<Rightarrow> digest_string_map \<Rightarrow> digest_string_map" where
  "store_dirs S H ds m = fold (\<lambda>d. dmap_set (H (S d)) (S d)) ds m"

lemma to_digest_eq_tree:
  "fst (to_digest S H ts nd m) = H (S (root (to_tree S H ts nd)))"
  "fst (subdir_digests S H ts subs m) = fst (subdir_trees S H ts subs)"
proof (induction S H ts nd m and S H ts subs m rule: to_digest_subdir_digests.induct)
  case (3 S H ts name nd subdirs m)
  then show ?case
    using "3.IH"(2) [OF refl prod.collapse] by (simp add: Let_def case_prod_beta)
qed (simp_all add: Let_def case_prod_beta)

lemma to_digest_map:
  "snd (to_digest S H ts nd m) = map_option (store_dirs S H (tree_dirs (to_tree S H ts nd))) m"
  "snd (subdir_digests S H ts subs m) = map_option (store_dirs S H (snd (subdir_trees S H ts subs))) m"
proof (induction S H ts nd m and S H ts subs m rule: to_digest_subdir_digests.induct)
  case (1 S H ts subdirs fs ss m)
  then show ?case
    by (cases m)
      (simp_all add: Let_def case_prod_beta store_blob_def store_dirs_def tree_dirs_def to_digest_eq_tree)
next
  case (2 S H ts m)
  then show ?case by (cases m) (simp_all add: store_dirs_def)
next
  case (3 S H ts name nd subdirs m)
  have "snd (subdir_digests S H ts ((name, nd) # subdirs) m) =
      map_option (store_dirs S H (snd (subdir_trees S H ts subdirs))) (snd (to_digest S H ts nd m))"
    using "3.IH"(2) [OF refl prod.collapse] by (simp add: Let_def case_prod_beta)
  then show ?case
    using "3.IH"(1) by (cases m) (simp_all add: Let_def case_prod_beta store_dirs_def tree_dirs_def)
qed

definition closed_under ::
  "(directory \<Rightarrow> string) \<Rightarrow> (string \<Rightarrow> digest) \<Rightarrow> directory list \<Rightarrow> directory list \<Rightarrow> bool" where
  "closed_under S H ds cs \<longleftrightarrow>
     (\<forall>d \<in> set ds. \<forall>dn \<in> set (directories d). \<exists>c \<in> set cs. dn_digest dn = H (S c))"

lemma to_tree_closed:
  "closed_under S H (tree_dirs (to_tree S H ts nd)) (children (to_tree S H ts nd))"
  "(\<forall>dn \<in> set (fst (subdir_trees S H ts subs)).
      \<exists>c \<in> set (snd (subdir_trees S H ts subs)). dn_digest dn = H (S c)) \<and>
   closed_under S H (snd (subdir_trees S H ts subs)) (snd (subdir_trees S H ts subs))"
proof (induction S H ts nd and S H ts subs rule: to_tree_subdir_trees.induct)
  case (1 S H ts subdirs fs ss)
  then show ?case by (auto simp: Let_def case_prod_beta closed_under_def tree_dirs_def)
next
  case (2 S H ts)
  then show ?case by (simp add: closed_under_def)
next
  case (3 S H ts name nd subdirs)
  then show ?case by (fastforce simp: Let_def case_prod_beta closed_under_def tree_dirs_def)
qed

definition canonical_dir :: "directory \<Rightarrow> bool" where
  "canonical_dir d \<longleftrightarrow>
     sorted_wrt (<) (map fn_name (files d)) \<and> sorted_wrt (<) (map sn_name (symlinks d)) \<and>
     sorted_wrt (<) (map dn_name (directories d))"

lemma node_names:
  "map fn_name (file_nodes ts fs) = map fst fs" "map sn_name (symlink_nodes ss) = map fst ss"
  "map dn_name (fst (subdir_trees S H ts subs)) = map fst subs"
proof -
  show "map fn_name (file_nodes ts fs) = map fst fs"
    by (simp add: file_nodes_def to_filenode_def case_prod_beta comp_def)
  show "map sn_name (symlink_nodes ss) = map fst ss"
    by (simp add: symlink_nodes_def case_prod_beta comp_def)
  show "map dn_name (fst (subdir_trees S H ts subs)) = map fst subs"
    by (induction subs) (auto simp: Let_def case_prod_beta)
qed

lemma to_tree_canonical:
  "nd_wf nd \<Longrightarrow> \<forall>d \<in> set (tree_dirs (to_tree S H ts nd)). canonical_dir d"
  "\<forall>p \<in> set subs. nd_wf (snd p) \<Longrightarrow> \<forall>d \<in> set (snd (subdir_trees S H ts subs)). canonical_dir d"
proof (induction S H ts nd and S H ts subs rule: to_tree_subdir_trees.induct)
  case (1 S H ts subdirs fs ss)
  then show ?case
    using node_names
    by (auto simp: Let_def case_prod_beta tree_dirs_def canonical_dir_def smap_wf_def list_all_iff)
next
  case (3 S H ts name nd subdirs)
  then show ?case by (auto simp: Let_def case_prod_beta tree_dirs_def)
qed simp

text \<open>The digests of the stored directories tell their blobs apart.\<close>

definition no_collision :: "(directory \<Rightarrow> string) \<Rightarrow> (string \<Rightarrow> digest) \<Rightarrow> directory list \<Rightarrow> bool" where
  "no_collision S H ds \<longleftrightarrow> (\<forall>d \<in> set ds. \<forall>e \<in> set ds. digest_eq (H (S d)) (H (S e)) \<longrightarrow> S d = S e)"

lemma store_dirs_find:
  assumes "no_collision S H ds" "d \<in> set ds"
  shows "dmap_find (store_dirs S H ds m) (H (S d)) = Some (S d)"
  using assms
proof (induction ds rule: rev_induct)
  case (snoc e ds)
  show ?case
  proof (cases "digest_eq (H (S e)) (H (S d))")
    case True
    then have "S e = S d" using snoc.prems by (auto simp: no_collision_def)
    then show ?thesis by (simp add: store_dirs_def dmap_find_set)
  next
    case False
    then have "d \<in> set ds" using snoc.prems by auto
    moreover have "no_collision S H ds" using snoc.prems by (simp add: no_collision_def)
    ultimately show ?thesis using snoc.IH False by (simp add: store_dirs_def dmap_find_set)
  qed
qed simp

text \<open>
  C14: \<^verbatim>\<open>NestedDirectory::to_digest\<close> and \<^verbatim>\<open>NestedDirectory::to_tree\<close> describe
  the same Merkle tree: the digest is that of the serialised root of the tree, and the blobs
  put into the digest map are exactly the serialised directories of the tree, children first.
\<close>

theorem to_digest_refines_to_tree:
  "to_digest S H ts nd (Some m) =
     (H (S (root (to_tree S H ts nd))), Some (store_dirs S H (tree_dirs (to_tree S H ts nd)) m)) \<and>
   to_digest S H ts nd None = (H (S (root (to_tree S H ts nd))), None)"
  using to_digest_eq_tree(1) [of S H ts nd] to_digest_map(1) [of S H ts nd]
  by (metis option.map(1,2) prod.collapse)

text \<open>
  The digest map that \<^verbatim>\<open>to_digest\<close> fills is a complete Merkle tree: unless two of
  its directories collide, the returned digest finds the root, every directory of the tree is
  found under its digest, and the digest of every subdirectory mentioned in one of them is
  found too.
\<close>

theorem to_digest_complete:
  assumes "no_collision S H (tree_dirs (to_tree S H ts nd))"
    and "to_digest S H ts nd (Some m) = (dg, Some m')"
  shows "dmap_find m' dg = Some (S (root (to_tree S H ts nd))) \<and>
         (\<forall>d \<in> set (tree_dirs (to_tree S H ts nd)).
            dmap_find m' (H (S d)) = Some (S d) \<and>
            (\<forall>dn \<in> set (directories d). \<exists>c \<in> set (children (to_tree S H ts nd)).
               dmap_find m' (dn_digest dn) = Some (S c)))"
proof -
  have dg: "dg = H (S (root (to_tree S H ts nd)))"
    and m': "m' = store_dirs S H (tree_dirs (to_tree S H ts nd)) m"
    using assms(2) to_digest_eq_tree(1) [of S H ts nd "Some m"] to_digest_map(1) [of S H ts nd "Some m"]
    by simp_all
  have found: "dmap_find m' (H (S d)) = Some (S d)" if "d \<in> set (tree_dirs (to_tree S H ts nd))" for d
    unfolding m' using store_dirs_find [OF assms(1) that] .
  have child: "c \<in> set (children t) \<Longrightarrow> c \<in> set (tree_dirs t)" "root t \<in> set (tree_dirs t)" for c t
    by (simp_all add: tree_dirs_def)
  show ?thesis
    using found child dg to_tree_closed(1) [of S H ts nd] unfolding closed_under_def by metis
qed

theorem to_digest_complete_witness:
  "dmap_find (the (snd (to_digest plain_serialize plain_digest (\<lambda>t. (t, 0)) sample_nested (Some []))))
     (fst (to_digest plain_serialize plain_digest (\<lambda>t. (t, 0)) sample_nested (Some []))) =
   Some (plain_serialize (root (to_tree plain_serialize plain_digest (\<lambda>t. (t, 0)) sample_nested))) \<and>
   no_collision plain_serialize plain_digest
     (tree_dirs (to_tree plain_serialize plain_digest (\<lambda>t. (t, 0)) sample_nested))"
proof -
  let ?r = "to_digest plain_serialize plain_digest (\<lambda>t. (t, 0)) sample_nested (Some [])"
  have n: "no_collision plain_serialize plain_digest
     (tree_dirs (to_tree plain_serialize plain_digest (\<lambda>t. (t, 0)) sample_nested))"
    by code_simp
  have r: "?r = (fst ?r, Some (the (snd ?r)))" by code_simp
  show ?thesis using to_digest_complete [OF n r] n by blast
qed

text \<open>
  In every directory message made from a well-formed nested directory the files, the
  symlinks and the subdirectories are each in strictly ascending order of their names, as
  the remote execution API requires.
\<close>

theorem to_tree_sorted:
  assumes "nd_wf nd" "d \<in> set (tree_dirs (to_tree S H ts nd))"
  shows "canonical_dir d"
  using to_tree_canonical(1) [OF assms(1)] assms(2) by blast

theorem to_tree_sorted_witness:
  "canonical_dir (root (to_tree plain_serialize plain_digest (\<lambda>t. (t, 0)) sample_nested)) \<and>
   map dn_name (directories (root (to_tree plain_serialize plain_digest (\<lambda>t. (t, 0)) sample_nested))) = [''d'', ''e'']"
proof
  have wf: "nd_wf sample_nested" by code_simp
  show "canonical_dir (root (to_tree plain_serialize plain_digest (\<lambda>t. (t, 0)) sample_nested))"
    by (rule to_tree_sorted [OF wf, where S = plain_serialize and H = plain_digest and ts = "\<lambda>t. (t, 0)"])
      (simp add: tree_dirs_def)
  show "map dn_name (directories (root (to_tree plain_serialize plain_digest (\<lambda>t. (t, 0)) sample_nested))) = [''d'', ''e'']"
    by code_simp
qed

section \<open>Trailing slashes\<close>

text \<open>
  A slash at the end of a path is not ignored: adding a directory \<^verbatim>\<open>name/\<close> adds a directory without a name below \<^verbatim>\<open>name\<close>, and
  adding a file there a file without a name.
\<close>

theorem trailing_slash_empty_name:
  assumes "name \<noteq> []" "CHR ''/'' \<notin> set name"
  shows "nd_addDirectory (name @ ''/'') empty_nested =
      NestedDirectory [(name, NestedDirectory [([], empty_nested)] [] [])] [] [] \<and>
    nd_add file (name @ ''/'') empty_nested = NestedDirectory [(name, NestedDirectory [] [([], file)] [])] [] []"
proof -
  have split: "takeWhile not_slash (name @ ''/'') = name" "dropWhile not_slash (name @ ''/'') = ''/''"
    using assms(2) by (induction name) auto
  have "name @ ''/'' \<noteq> ''/''" using assms(1) by simp
  then have "nd_addDirectory (name @ ''/'') empty_nested = NestedDirectory [(name, NestedDirectory [([], empty_nested)] [] [])] [] []"
    using assms(1) by (simp add: nd_addDirectory.simps [of "name @ ''/''"] nd_addDirectory.simps [of "[]"] split subdir_or_new_def empty_nested_def Let_def)
  moreover have "nd_add file (name @ ''/'') empty_nested = NestedDirectory [(name, NestedDirectory [] [([], file)] [])] [] []"
    using assms(1) by (simp add: nd_add.simps [of _ "name @ ''/''"] nd_add.simps [of _ "[]"] split subdir_or_new_def empty_nested_def Let_def)
  ultimately show ?thesis ..
qed

theorem trailing_slash_empty_name_witness:
  "nd_addDirectory ''out/'' empty_nested = NestedDirectory [(''out'', NestedDirectory [([], empty_nested)] [] [])] [] []"
  using trailing_slash_empty_name [of "''out''"] by simp

end
