(* ===== verification/Merklize_Fs.thy ===== *)
theory Merklize_Fs
  imports Merklize
begin

text \<open>
  \<^verbatim>\<open>make_nesteddirectory\<close> of \<^verbatim>\<open>buildboxcommon_merklize.cpp\<close>: reading a directory of
  the file system into a nested directory.

  A directory is the list of its entries in the order \<^verbatim>\<open>readdir\<close> gives them, the
  entries \<^verbatim>\<open>.\<close> and \<^verbatim>\<open>..\<close> included where the system lists them.  A node carries
  the error number with which opening or reading it fails, if it does.  The target of a
  symbolic link is its text and the node it leads to, if any; links that lead to a directory
  above themselves have no such finite node and are outside of the model.
\<close>

datatype fs_node =
    FsDir "int option" "(string \<times> fs_node) list"
  | FsFile "int option" string bool int      \<comment> \<open>open error, contents, executable, mtime\<close>
  | FsLink "int option" string "fs_node option"
  | FsSpecial
  | FsGone                                   \<comment> \<open>\<^verbatim>\<open>fstatat\<close> fails\<close>

definition ENOTDIR :: int where
  "ENOTDIR = 20"

text \<open>What \<^verbatim>\<open>fstatat\<close> finds, with and without \<^verbatim>\<open>AT_SYMLINK_NOFOLLOW\<close>.\<close>

fun stat_node :: "bool \<Rightarrow> fs_node \<Rightarrow> fs_node option" where
  "stat_node followSymlinks FsGone = None"
| "stat_node followSymlinks (FsLink e target leads) =
     (if followSymlinks
      then (case leads of None \<Rightarrow> None | Some n \<Rightarrow> stat_node followSymlinks n)
      else Some (FsLink e target leads))"
| "stat_node followSymlinks n = Some n"

lemma stat_node_size: "stat_node fl n = Some n' \<Longrightarrow> size n' \<le> size n"
  by (induction fl n rule: stat_node.induct) (auto split: if_splits option.splits)

text \<open>
  The constructor \<^verbatim>\<open>File(dirfd, path, fileDigestFunc, capture_properties)\<close>;
  \<open>fileDigest\<close> is \<^verbatim>\<open>fileDigestFunc\<close> on the contents of the opened file, which may
  throw.
\<close>

definition read_file ::
  "(string \<Rightarrow> digest result) \<Rightarrow> string list \<Rightarrow> int option \<Rightarrow> string \<Rightarrow> bool \<Rightarrow> int \<Rightarrow> file_entry result" where
  "read_file fileDigest capture_properties open_error contents executable mtime =
     (case open_error of
        Some e \<Rightarrow> Inl (SystemError e)
      | None \<Rightarrow>
          (case fileDigest contents of
             Inl e \<Rightarrow> Inl e
           | Inr d \<Rightarrow> Inr \<lparr>d_digest = d, d_executable = executable,
                          d_mtime = (if ''mtime'' \<in> set capture_properties then Some mtime else None)\<rparr>))"

type_synonym walk_state = "nested_directory \<times> digest_string_map option"

function (sequential) make_nesteddirectory ::
  "(string \<Rightarrow> digest result) \<Rightarrow> string list \<Rightarrow> bool \<Rightarrow> string \<Rightarrow> string \<Rightarrow> fs_node \<Rightarrow>
   digest_string_map option \<Rightarrow> walk_state result"
and read_entries ::
  "(string \<Rightarrow> digest result) \<Rightarrow> string list \<Rightarrow> bool \<Rightarrow> string \<Rightarrow> (string \<times> fs_node) list \<Rightarrow>
   nested_directory \<Rightarrow> digest_string_map option \<Rightarrow> walk_state result"
where
  "make_nesteddirectory fileDigest props followSymlinks pre path (FsDir open_error entries) fileMap =
     (case open_error of
        Some e \<Rightarrow> Inl (SystemError e)
      | None \<Rightarrow> read_entries fileDigest props followSymlinks (pre @ path @ ''/'') entries empty_nested fileMap)"
| "make_nesteddirectory fileDigest props followSymlinks pre path _ fileMap = Inl (SystemError ENOTDIR)"
| "read_entries fileDigest props followSymlinks newprefix [] nd fileMap = Inr (nd, fileMap)"
| "read_entries fileDigest props followSymlinks newprefix ((name, node) # entries) nd fileMap =
     (if name = ''.'' \<or> name = ''..''
      then read_entries fileDigest props followSymlinks newprefix entries nd fileMap
      else
        (case stat_node followSymlinks node of
           None \<Rightarrow> read_entries fileDigest props followSymlinks newprefix entries nd fileMap
         | Some (FsDir e es) \<Rightarrow>
             (case make_nesteddirectory fileDigest props followSymlinks newprefix name (FsDir e es) fileMap of
                Inl ex \<Rightarrow> Inl ex
              | Inr (sub, fileMap') \<Rightarrow>
                  read_entries fileDigest props followSymlinks newprefix entries
                    (NestedDirectory (smap_set name sub (d_subdirs nd)) (d_files nd) (d_symlinks nd)) fileMap')
         | Some (FsFile e contents executable mtime) \<Rightarrow>
             (case read_file fileDigest props e contents executable mtime of
                Inl ex \<Rightarrow> Inl ex
              | Inr f \<Rightarrow>
                  read_entries fileDigest props followSymlinks newprefix entries
                    (NestedDirectory (d_subdirs nd) (smap_set name f (d_files nd)) (d_symlinks nd))
                    (map_option (dmap_set (d_digest f) (newprefix @ name)) fileMap))
         | Some (FsLink e target _) \<Rightarrow>
             (case e of
                Some err \<Rightarrow> Inl (SystemError err)
              | None \<Rightarrow>
                  read_entries fileDigest props followSymlinks newprefix entries
                    (NestedDirectory (d_subdirs nd) (d_files nd) (smap_set name target (d_symlinks nd))) fileMap)
         | Some _ \<Rightarrow> read_entries fileDigest props followSymlinks newprefix entries nd fileMap))"
  by pat_completeness auto
termination
  by (relation "measure (case_sum (\<lambda>(h, p, fl, pre, path, n, m). size n)
        (\<lambda>(h, p, fl, pre, es, nd, m). size_list (size_prod (\<lambda>_. 0) size) es))")
    (auto dest!: stat_node_size)

section \<open>What the walk reads\<close>

text \<open>
  The regular file at a path below a node, as the walk sees it: through directories only,
  and through symbolic links when they are followed.
\<close>

definition entry_file ::
  "(string \<Rightarrow> digest result) \<Rightarrow> string list \<Rightarrow> bool \<Rightarrow> fs_node \<Rightarrow> file_entry option" where
  "entry_file fileDigest props followSymlinks n =
     (case stat_node followSymlinks n of
        Some (FsFile e contents executable mtime) \<Rightarrow>
          (case read_file fileDigest props e contents executable mtime of Inl _ \<Rightarrow> None | Inr f \<Rightarrow> Some f)
      | _ \<Rightarrow> None)"

fun fs_file ::
  "(string \<Rightarrow> digest result) \<Rightarrow> string list \<Rightarrow> bool \<Rightarrow> (string \<times> fs_node) list \<Rightarrow> string list \<Rightarrow> string \<Rightarrow>
   file_entry option" where
  "fs_file h props fl entries [] name =
     (if name = ''.'' \<or> name = ''..'' then None
      else case map_of entries name of None \<Rightarrow> None | Some n \<Rightarrow> entry_file h props fl n)"
| "fs_file h props fl entries (d # ds) name =
     (if d = ''.'' \<or> d = ''..'' then None
      else case map_of entries d of None \<Rightarrow> None
      | Some n \<Rightarrow>
          (case stat_node fl n of Some (FsDir _ es) \<Rightarrow> fs_file h props fl es ds name | _ \<Rightarrow> None))"

text \<open>The names in a directory are different.\<close>

fun fs_wf :: "fs_node \<Rightarrow> bool" where
  "fs_wf (FsDir _ entries) \<longleftrightarrow> distinct (map fst entries) \<and> list_all (\<lambda>p. fs_wf (snd p)) entries"
| "fs_wf (FsLink _ _ (Some n)) \<longleftrightarrow> fs_wf n"
| "fs_wf _ \<longleftrightarrow> True"

lemma stat_node_wf: "stat_node fl n = Some n' \<Longrightarrow> fs_wf n \<Longrightarrow> fs_wf n'"
  by (induction fl n rule: stat_node.induct) (auto split: if_splits option.splits)

text \<open>The first name that a lookup of \<open>ds\<close> and \<open>n\<close> compares with the entries.\<close>

definition first_key :: "string list \<Rightarrow> string \<Rightarrow> string" where
  "first_key ds n = (case ds of [] \<Rightarrow> n | d # _ \<Rightarrow> d)"

lemma fs_file_other: "first_key ds n \<notin> fst ` set entries \<Longrightarrow> fs_file h p fl entries ds n = None"
  using map_of_eq_None_iff [of entries "first_key ds n"] by (cases ds) (simp_all add: first_key_def)

lemma fs_file_Cons:
  "fs_file h p fl ((name, node) # entries) ds n =
     (if first_key ds n = name then fs_file h p fl [(name, node)] ds n else fs_file h p fl entries ds n)"
  by (cases ds) (simp_all add: first_key_def)

definition fresh_names :: "nested_directory \<Rightarrow> string set \<Rightarrow> bool" where
  "fresh_names nd ns \<longleftrightarrow>
     (\<forall>n \<in> ns. smap_find (d_subdirs nd) n = None \<and> smap_find (d_files nd) n = None)"

lemma file_at_fresh: "fresh_names nd ns \<Longrightarrow> first_key ds n \<in> ns \<Longrightarrow> file_at nd ds n = None"
  by (cases ds) (auto simp: fresh_names_def first_key_def file_at_def)

text \<open>What reading one entry adds to the lookups of the directory.\<close>

definition adds_entry ::
  "(string \<Rightarrow> digest result) \<Rightarrow> string list \<Rightarrow> bool \<Rightarrow> string \<Rightarrow> fs_node \<Rightarrow> nested_directory \<Rightarrow> nested_directory \<Rightarrow> bool" where
  "adds_entry h p fl name node nd nd' \<longleftrightarrow>
     (\<forall>ds n. file_at nd' ds n =
        (if first_key ds n = name then fs_file h p fl [(name, node)] ds n else file_at nd ds n)) \<and>
     (\<forall>ns. fresh_names nd ns \<longrightarrow> name \<notin> ns \<longrightarrow> fresh_names nd' ns)"

lemma adds_entry_skip:
  assumes "fresh_names nd {name}"
    and "name = ''.'' \<or> name = ''..'' \<or>
      (\<forall>e c x m. stat_node fl node \<noteq> Some (FsFile e c x m)) \<and> (\<forall>e es. stat_node fl node \<noteq> Some (FsDir e es))"
    and "d_files nd' = d_files nd" "d_subdirs nd' = d_subdirs nd"
  shows "adds_entry h p fl name node nd nd'"
proof -
  have same: "file_at nd' ds n = file_at nd ds n" for ds n
    using assms(3,4) by (cases ds) (simp_all add: file_at_def)
  have none: "fs_file h p fl [(name, node)] ds n = None" for ds n
    using assms(2) by (cases ds) (auto simp: entry_file_def split: option.split fs_node.split)
  show ?thesis
    using same none file_at_fresh [OF assms(1)] assms(3,4) by (auto simp: adds_entry_def fresh_names_def)
qed

lemma adds_entry_file:
  assumes "fresh_names nd {name}" "name \<noteq> ''.''" "name \<noteq> ''..''"
    and "stat_node fl node = Some (FsFile e c x m)" "read_file h p e c x m = Inr f"
  shows "adds_entry h p fl name node nd
           (NestedDirectory (d_subdirs nd) (smap_set name f (d_files nd)) ss)"
proof -
  have "file_at (NestedDirectory (d_subdirs nd) (smap_set name f (d_files nd)) ss) ds n =
      (if first_key ds n = name then fs_file h p fl [(name, node)] ds n else file_at nd ds n)" for ds n
  proof (cases ds)
    case Nil
    then show ?thesis using assms by (simp add: file_at_def first_key_def smap_simps entry_file_def)
  next
    case (Cons d ds')
    then show ?thesis
      using assms by (auto simp: file_at_def first_key_def fresh_names_def)
  qed
  then show ?thesis by (auto simp: adds_entry_def fresh_names_def smap_simps)
qed

lemma adds_entry_dir:
  assumes "fresh_names nd {name}" "name \<noteq> ''.''" "name \<noteq> ''..''"
    and "stat_node fl node = Some (FsDir e es)" "\<And>ds n. file_at sub ds n = fs_file h p fl es ds n"
  shows "adds_entry h p fl name node nd
           (NestedDirectory (smap_set name sub (d_subdirs nd)) (d_files nd) ss)"
proof -
  have "file_at (NestedDirectory (smap_set name sub (d_subdirs nd)) (d_files nd) ss) ds n =
      (if first_key ds n = name then fs_file h p fl [(name, node)] ds n else file_at nd ds n)" for ds n
  proof (cases ds)
    case Nil
    then show ?thesis
      using assms by (auto simp: file_at_def first_key_def entry_file_def fresh_names_def)
  next
    case (Cons d ds')
    then show ?thesis
      using assms by (auto simp: file_at_Cons first_key_def subdir_or_new_set)
  qed
  then show ?thesis by (auto simp: adds_entry_def fresh_names_def smap_simps)
qed

lemma adds_entry_compose:
  assumes add: "adds_entry h p fl name node nd nd1"
    and names: "name \<notin> fst ` set entries" "fresh_names nd (fst ` set ((name, node) # entries))"
    and rest: "\<And>ds n. file_at nd' ds n =
       (case fs_file h p fl entries ds n of Some f \<Rightarrow> Some f | None \<Rightarrow> file_at nd1 ds n)"
  shows "file_at nd' ds n =
     (case fs_file h p fl ((name, node) # entries) ds n of Some f \<Rightarrow> Some f | None \<Rightarrow> file_at nd ds n)"
proof (cases "first_key ds n = name")
  case True
  then have "fs_file h p fl entries ds n = None" "file_at nd ds n = None"
    using names fs_file_other file_at_fresh [OF names(2)] by auto
  then show ?thesis
    using add rest [of ds n] True fs_file_Cons [of h p fl name node entries ds n]
    by (auto simp: adds_entry_def split: option.split)
next
  case False
  then show ?thesis
    using add rest [of ds n] fs_file_Cons [of h p fl name node entries ds n]
    by (auto simp: adds_entry_def split: option.split)
qed

lemma fresh_subset: "fresh_names nd ns \<Longrightarrow> ms \<subseteq> ns \<Longrightarrow> fresh_names nd ms"
  by (auto simp: fresh_names_def)

lemma walk_reads:
  "make_nesteddirectory h p fl pre path node fm = Inr (nd', fm') \<Longrightarrow> fs_wf node \<Longrightarrow>
     \<exists>e es. node = FsDir e es \<and> (\<forall>ds n. file_at nd' ds n = fs_file h p fl es ds n)"
  "read_entries h p fl newprefix entries nd fm = Inr (nd', fm') \<Longrightarrow>
     distinct (map fst entries) \<Longrightarrow> list_all (\<lambda>q. fs_wf (snd q)) entries \<Longrightarrow>
     fresh_names nd (fst ` set entries) \<Longrightarrow>
     \<forall>ds n. file_at nd' ds n =
       (case fs_file h p fl entries ds n of Some f \<Rightarrow> Some f | None \<Rightarrow> file_at nd ds n)"
proof (induction h p fl pre path node fm and h p fl newprefix entries nd fm
    arbitrary: nd' fm' and nd' fm' rule: make_nesteddirectory_read_entries.induct)
  case (1 h p fl pre path open_error entries fm)
  have "file_at empty_nested ds n = None" for ds n
    by (cases ds) (simp_all add: file_at_def)
  then show ?case
    using 1 by (auto simp: fresh_names_def split: option.splits)
next
  case (3 h p fl newprefix nd fm)
  have "fs_file h p fl [] ds n = None" for ds n
    by (rule fs_file_other) simp
  then show ?case using 3 by simp
next
  case (4 h p fl newprefix name node entries nd fm)
  have names: "name \<notin> fst ` set entries" "distinct (map fst entries)"
    and wf: "list_all (\<lambda>q. fs_wf (snd q)) entries" "fs_wf node"
    using "4.prems"(2,3) by auto
  note fresh = "4.prems"(4)
  have fresh1: "fresh_names nd {name}" using fresh by (rule fresh_subset) simp
  have fresh': "fresh_names nd (fst ` set entries)" using fresh by (rule fresh_subset) auto
  have goal: ?case
    if "adds_entry h p fl name node nd nd1" "read_entries h p fl newprefix entries nd1 fm1 = Inr (nd', fm')"
      and "\<And>nd' fm'. read_entries h p fl newprefix entries nd1 fm1 = Inr (nd', fm') \<Longrightarrow>
        distinct (map fst entries) \<Longrightarrow> list_all (\<lambda>q. fs_wf (snd q)) entries \<Longrightarrow>
        fresh_names nd1 (fst ` set entries) \<Longrightarrow>
        \<forall>ds n. file_at nd' ds n =
          (case fs_file h p fl entries ds n of Some f \<Rightarrow> Some f | None \<Rightarrow> file_at nd1 ds n)" for nd1 fm1
  proof -
    have "fresh_names nd1 (fst ` set entries)"
      using that(1) fresh' names(1) by (auto simp: adds_entry_def)
    then show ?thesis
      using that(2,3) names(2) wf(1) adds_entry_compose [OF that(1) names(1) fresh] by blast
  qed
  show ?case
  proof (cases "name = ''.'' \<or> name = ''..''")
    case True
    then show ?thesis
      using goal [of nd fm] adds_entry_skip [OF fresh1, where fl = fl and node = node] "4.IH"(1) "4.prems"(1)
      by auto
  next
    case dots: False
    show ?thesis
    proof (cases "stat_node fl node")
      case None
      then show ?thesis
        using goal [of nd fm] adds_entry_skip [OF fresh1, where fl = fl and node = node] dots
          "4.IH"(2) [OF dots None] "4.prems"(1) by auto
    next
      case (Some n')
      note wf' = stat_node_wf [OF Some wf(2)]
      note IH = "4.IH"(3-) [OF dots Some]
      show ?thesis
      proof (cases n')
        case (FsDir e es)
        obtain sub fm1 where sub: "make_nesteddirectory h p fl newprefix name n' fm = Inr (sub, fm1)"
          and rest: "read_entries h p fl newprefix entries
            (NestedDirectory (smap_set name sub (d_subdirs nd)) (d_files nd) (d_symlinks nd)) fm1 = Inr (nd', fm')"
          using "4.prems"(1) dots Some FsDir
          by (simp del: make_nesteddirectory.simps split: sum.splits prod.splits)
        have "adds_entry h p fl name node nd
            (NestedDirectory (smap_set name sub (d_subdirs nd)) (d_files nd) (d_symlinks nd))"
          using adds_entry_dir [OF fresh1, where es = es] dots Some FsDir wf' IH(1) sub by fastforce
        then show ?thesis
          using goal rest IH(2) [OF FsDir] sub FsDir by simp
      next
        case (FsFile e c x mt)
        obtain f where f: "read_file h p e c x mt = Inr f"
          and rest: "read_entries h p fl newprefix entries
            (NestedDirectory (d_subdirs nd) (smap_set name f (d_files nd)) (d_symlinks nd))
            (map_option (dmap_set (d_digest f) (newprefix @ name)) fm) = Inr (nd', fm')"
          using "4.prems"(1) dots Some FsFile by (simp split: sum.splits)
        show ?thesis
          using goal [OF adds_entry_file [OF fresh1 _ _ _ f] rest] IH(3) [OF FsFile f] dots Some FsFile by blast
      next
        case (FsLink e target leads)
        have rest: "e = None" "read_entries h p fl newprefix entries
            (NestedDirectory (d_subdirs nd) (d_files nd) (smap_set name target (d_symlinks nd))) fm = Inr (nd', fm')"
          using "4.prems"(1) dots Some FsLink by (simp_all split: option.splits)
        have "adds_entry h p fl name node nd
            (NestedDirectory (d_subdirs nd) (d_files nd) (smap_set name target (d_symlinks nd)))"
          using Some FsLink by (intro adds_entry_skip [OF fresh1]) simp_all
        then show ?thesis
          using goal rest(2) IH(4) [OF FsLink rest(1)] by blast
      next
        case FsSpecial
        have "adds_entry h p fl name node nd nd"
          using Some FsSpecial by (intro adds_entry_skip [OF fresh1]) simp_all
        then show ?thesis
          using goal [of nd fm] IH(5) [OF FsSpecial] "4.prems"(1) dots Some FsSpecial by simp
      next
        case FsGone
        have "adds_entry h p fl name node nd nd"
          using Some FsGone by (intro adds_entry_skip [OF fresh1]) simp_all
        then show ?thesis
          using goal [of nd fm] IH(6) [OF FsGone] "4.prems"(1) dots Some FsGone by simp
      qed
    qed
  qed
qed simp_all


lemma walk_wf:
  "make_nesteddirectory h p fl pre path node fm = Inr (nd', fm') \<Longrightarrow> nd_wf nd'"
  "read_entries h p fl newprefix entries nd fm = Inr (nd', fm') \<Longrightarrow> nd_wf nd \<Longrightarrow> nd_wf nd'"
proof (induction h p fl pre path node fm and h p fl newprefix entries nd fm
    arbitrary: nd' fm' and nd' fm' rule: make_nesteddirectory_read_entries.induct)
  case (4 h p fl newprefix name node entries nd fm)
  have wf: "smap_wf (d_subdirs nd)" "smap_wf (d_files nd)" "smap_wf (d_symlinks nd)"
    "\<forall>q \<in> set (d_subdirs nd). nd_wf (snd q)"
    using "4.prems"(2) nd_wf_iff [of nd] by auto
  have sub: "nd_wf (NestedDirectory (smap_set name sub (d_subdirs nd)) (d_files nd) (d_symlinks nd))"
    if "nd_wf sub" for sub
    using wf that set_smap_set [of name sub "d_subdirs nd"] by (auto simp: list_all_iff)
  have fls: "nd_wf (NestedDirectory (d_subdirs nd) (smap_set name f (d_files nd)) (d_symlinks nd))"
    and lnk: "nd_wf (NestedDirectory (d_subdirs nd) (d_files nd) (smap_set name t (d_symlinks nd)))" for f t
    using wf by (simp_all add: list_all_iff)
  note step = read_entries.simps(2) [of h p fl newprefix name node entries nd fm]
  show ?case
  proof (cases "(name = ''.'' \<or> name = ''..'') \<or> stat_node fl node = None")
    case True
    then show ?thesis using "4.IH"(1,2) "4.prems" by (simp split: if_splits)
  next
    case False
    then obtain n' where st: "\<not> (name = ''.'' \<or> name = ''..'')" "stat_node fl node = Some n'" by blast
    note IH = "4.IH"(3-) [OF st] and run = "4.prems"(1) [unfolded step if_not_P [OF st(1)] st(2) option.case]
    show ?thesis
    proof (cases n')
      case (FsDir e es)
      then show ?thesis
        using run IH(1) [OF FsDir] IH(2) [OF FsDir _ refl] sub
        by (simp del: make_nesteddirectory.simps nd_wf.simps split: sum.splits prod.splits)
    next
      case (FsFile e c x m)
      then show ?thesis using run IH(3) [OF FsFile] fls by (simp del: nd_wf.simps split: sum.splits)
    next
      case (FsLink e t l)
      then show ?thesis using run IH(4) [OF FsLink] lnk by (simp del: nd_wf.simps split: option.splits)
    qed (use run IH(5,6) "4.prems"(2) in simp_all)
  qed
qed (auto split: option.splits)


definition sample_fs :: "(string \<times> fs_node) list" where
  "sample_fs =
     [(''.'', FsSpecial), (''src'', FsDir None [(''main.c'', FsFile None ''int'' False 7)]),
      (''lib'', FsLink None ''src'' (Some (FsDir None [(''main.c'', FsFile None ''int'' False 7)]))),
      (''sock'', FsSpecial)]"


end
