(* ===== verification/Mergeutil.thy ===== *)
theory Mergeutil
  imports Merklize
begin

text \<open>
  \<^verbatim>\<open>buildboxcommon_mergeutil.cpp\<close>: merging two directory trees.  Both trees are
  flattened into one map from paths to nodes, where collisions are detected, and the merged
  tree is built from the map.

  The flattening follows subdirectory digests through the map of the serialised directories,
  so its recursion is bounded only if no directory contains itself; the model has a fuel
  argument, the depth of the recursion, and \<open>None\<close> is the result of a recursion that is
  deeper.  Serialisation, parsing and the digest of a blob are parameters, and so is the order
  in which the iteration over a \<^verbatim>\<open>std::unordered_map\<close> visits the entries.
\<close>

section \<open>Nodes of the flattened tree\<close>

datatype node_meta_data =
    FileNodeMetaData string digest bool
  | SymlinkNodeMetaData string string
  | DirNodeMetaData string digest

fun meta_path :: "node_meta_data \<Rightarrow> string" where
  "meta_path (FileNodeMetaData p _ _) = p"
| "meta_path (SymlinkNodeMetaData p _) = p"
| "meta_path (DirNodeMetaData p _) = p"

fun meta_digest :: "node_meta_data \<Rightarrow> digest" where
  "meta_digest (FileNodeMetaData _ d _) = d"
| "meta_digest (SymlinkNodeMetaData _ _) = empty_digest"
| "meta_digest (DirNodeMetaData _ d) = d"

fun meta_isExecutable :: "node_meta_data \<Rightarrow> bool" where
  "meta_isExecutable (FileNodeMetaData _ _ x) = x"
| "meta_isExecutable _ = False"

text \<open>\<^verbatim>\<open>operator==(const NodeMetaData &, const FileNode &)\<close>.\<close>

definition meta_eq_file :: "node_meta_data \<Rightarrow> file_node \<Rightarrow> bool" where
  "meta_eq_file obj fileNode \<longleftrightarrow>
     digest_eq (meta_digest obj) (fn_digest fileNode) \<and> meta_isExecutable obj = fn_is_executable fileNode"

fun addToNestedDirectory :: "node_meta_data \<Rightarrow> nested_directory \<Rightarrow> nested_directory" where
  "addToNestedDirectory (FileNodeMetaData p d x) nd =
     nd_add \<lparr>d_digest = d, d_executable = x, d_mtime = None\<rparr> p nd"
| "addToNestedDirectory (SymlinkNodeMetaData p t) nd = nd_addSymlink t p nd"
| "addToNestedDirectory (DirNodeMetaData p d) nd = nd_addDirectory p nd"

definition show_bool :: "bool \<Rightarrow> string" where
  "show_bool b = (if b then ''true'' else ''false'')"

fun meta_print :: "node_meta_data \<Rightarrow> string" where
  "meta_print (FileNodeMetaData p d x) =
     ''file:    '' @ p @ '' ['' @ digest_toString d @ '', executable = '' @ show_bool x @ '']'' @ [CHR 0x0A]"
| "meta_print (SymlinkNodeMetaData p t) = ''symlink: '' @ p @ '', '' @ t @ [CHR 0x0A]"
| "meta_print (DirNodeMetaData p d) = ''dir:     '' @ p @ '' ['' @ digest_toString d @ '']'' @ [CHR 0x0A]"

section \<open>Flattening\<close>

type_synonym path_map = "(string \<times> node_meta_data) list"

text \<open>\<^verbatim>\<open>emplace\<close> keeps the node of a path that is present already.\<close>

definition pm_emplace :: "string \<Rightarrow> node_meta_data \<Rightarrow> path_map \<Rightarrow> path_map" where
  "pm_emplace k v m = (case map_of m k of None \<Rightarrow> m @ [(k, v)] | Some _ \<Rightarrow> m)"

definition genNewPath :: "string \<Rightarrow> string \<Rightarrow> string" where
  "genNewPath dirName nodeName = (if dirName = [] then nodeName else dirName @ ''/'' @ nodeName)"

fun flatten_files :: "string \<Rightarrow> file_node list \<Rightarrow> path_map \<Rightarrow> path_map result" where
  "flatten_files dirName [] m = Inr m"
| "flatten_files dirName (node # nodes) m =
     (let newFile = genNewPath dirName (fn_name node)
      in if (case map_of m newFile of None \<Rightarrow> False | Some obj \<Rightarrow> \<not> meta_eq_file obj node)
         then Inl RuntimeError
         else flatten_files dirName nodes
                (pm_emplace newFile (FileNodeMetaData newFile (fn_digest node) (fn_is_executable node)) m))"

fun flatten_symlinks :: "string \<Rightarrow> symlink_node list \<Rightarrow> path_map \<Rightarrow> path_map result" where
  "flatten_symlinks dirName [] m = Inr m"
| "flatten_symlinks dirName (node # nodes) m =
     (let newSymlinkName = genNewPath dirName (sn_name node)
      in if (case map_of m newSymlinkName of
               Some (SymlinkNodeMetaData _ target) \<Rightarrow> target \<noteq> sn_target node
             | _ \<Rightarrow> False)
         then Inl RuntimeError
         else flatten_symlinks dirName nodes
                (pm_emplace newSymlinkName (SymlinkNodeMetaData newSymlinkName (sn_target node)) m))"

text \<open>The loop over the subdirectories; \<open>rec\<close> is the recursive call.\<close>

fun flatten_subdirs ::
  "(directory \<Rightarrow> string \<Rightarrow> path_map \<Rightarrow> path_map result option) \<Rightarrow> (string \<Rightarrow> directory) \<Rightarrow>
   digest_string_map \<Rightarrow> string \<Rightarrow> directory_node list \<Rightarrow> path_map \<Rightarrow> path_map result option" where
  "flatten_subdirs rec parse dsMap dirName [] m = Some (Inr m)"
| "flatten_subdirs rec parse dsMap dirName (node # nodes) m =
     (let newDirectoryPath = genNewPath dirName (dn_name node);
          m' = pm_emplace newDirectoryPath (DirNodeMetaData newDirectoryPath (dn_digest node)) m
      in case dmap_find dsMap (dn_digest node) of
           None \<Rightarrow> flatten_subdirs rec parse dsMap dirName nodes m'
         | Some blob \<Rightarrow>
             (case rec (parse blob) newDirectoryPath m' of
                None \<Rightarrow> None
              | Some (Inl e) \<Rightarrow> Some (Inl e)
              | Some (Inr m'') \<Rightarrow> flatten_subdirs rec parse dsMap dirName nodes m''))"

primrec buildFlattenedPath ::
  "nat \<Rightarrow> (string \<Rightarrow> directory) \<Rightarrow> digest_string_map \<Rightarrow> directory \<Rightarrow> string \<Rightarrow> path_map \<Rightarrow>
   path_map result option" where
  "buildFlattenedPath 0 parse dsMap directory dirName m = None"
| "buildFlattenedPath (Suc fuel) parse dsMap directory dirName m =
     (case flatten_files dirName (files directory) m of
        Inl e \<Rightarrow> Some (Inl e)
      | Inr m1 \<Rightarrow>
          (case flatten_symlinks dirName (symlinks directory) m1 of
             Inl e \<Rightarrow> Some (Inl e)
           | Inr m2 \<Rightarrow>
               flatten_subdirs (buildFlattenedPath fuel parse dsMap) parse dsMap dirName
                 (directories directory) m2))"

fun buildDigestDirectoryMap ::
  "(directory \<Rightarrow> string) \<Rightarrow> (string \<Rightarrow> digest) \<Rightarrow> directory list \<Rightarrow> digest_string_map \<Rightarrow> digest_string_map" where
  "buildDigestDirectoryMap serialize make_digest [] dsMap = dsMap"
| "buildDigestDirectoryMap serialize make_digest (directory # tree) dsMap =
     (let serialized = serialize directory
      in buildDigestDirectoryMap serialize make_digest tree
           (dmap_emplace (make_digest serialized) serialized dsMap))"

section \<open>Merging\<close>

text \<open>The \<^verbatim>\<open>try\<close> block: \<^verbatim>\<open>std::vector::at\<close> throws \<^verbatim>\<open>std::out_of_range\<close>.\<close>

definition at0 :: "directory list \<Rightarrow> directory result" where
  "at0 tree = (case tree of [] \<Rightarrow> Inl OutOfRange | d # _ \<Rightarrow> Inr d)"

definition flatten_both ::
  "nat \<Rightarrow> (string \<Rightarrow> directory) \<Rightarrow> digest_string_map \<Rightarrow> directory list \<Rightarrow> directory list \<Rightarrow> path_map result option" where
  "flatten_both fuel parse dsMap inputTree templateTree =
     (case at0 inputTree of
        Inl e \<Rightarrow> Some (Inl e)
      | Inr input \<Rightarrow>
          (case buildFlattenedPath fuel parse dsMap input [] [] of
             None \<Rightarrow> None
           | Some (Inl e) \<Rightarrow> Some (Inl e)
           | Some (Inr m) \<Rightarrow>
               (case at0 templateTree of
                  Inl e \<Rightarrow> Some (Inl e)
                | Inr template \<Rightarrow> buildFlattenedPath fuel parse dsMap template [] m)))"

definition merge_dsMap ::
  "(directory \<Rightarrow> string) \<Rightarrow> (string \<Rightarrow> digest) \<Rightarrow> directory list \<Rightarrow> directory list \<Rightarrow> digest_string_map" where
  "merge_dsMap serialize make_digest inputTree templateTree =
     buildDigestDirectoryMap serialize make_digest templateTree
       (buildDigestDirectoryMap serialize make_digest inputTree [])"

definition merged_directory :: "(path_map \<Rightarrow> path_map) \<Rightarrow> path_map \<Rightarrow> nested_directory" where
  "merged_directory order m = fold (\<lambda>it. addToNestedDirectory (snd it)) (order m) empty_nested"

text \<open>
  What a successful merge writes: \<^verbatim>\<open>*rootDigest\<close>, \<^verbatim>\<open>*newDirectoryBlobs\<close> and
  \<^verbatim>\<open>*mergedDirectoryList\<close>.  The last two may be null pointers.
\<close>

record merge_out =
  mo_rootDigest :: digest
  mo_newDirectoryBlobs :: "digest_string_map option"
  mo_mergedDirectoryList :: "digest list option"

definition write_merged ::
  "(directory \<Rightarrow> string) \<Rightarrow> (string \<Rightarrow> digest) \<Rightarrow> (int \<Rightarrow> timestamp) \<Rightarrow>
   (digest_string_map \<Rightarrow> digest_string_map) \<Rightarrow> digest_string_map \<Rightarrow> nested_directory \<Rightarrow>
   digest_string_map option \<Rightarrow> digest list option \<Rightarrow> merge_out result" where
  "write_merged serialize make_digest ts blob_order dsMap nd newDirectoryBlobs mergedDirectoryList =
     (let (rootDigest, blobs) = to_digest serialize make_digest ts nd newDirectoryBlobs
      in case mergedDirectoryList of
           None \<Rightarrow> Inr \<lparr>mo_rootDigest = rootDigest, mo_newDirectoryBlobs = blobs, mo_mergedDirectoryList = None\<rparr>
         | Some l \<Rightarrow>
             (case blobs of
                None \<Rightarrow> Inl Undefined
              | Some b \<Rightarrow>
                  Inr \<lparr>mo_rootDigest = rootDigest, mo_newDirectoryBlobs = blobs,
                       mo_mergedDirectoryList =
                         Some (l @ filter (\<lambda>d. dmap_find dsMap d = None) (map fst (blob_order b)))\<rparr>))"

text \<open>The result \<open>Inr None\<close> is \<^verbatim>\<open>false\<close>.\<close>

definition createMergedDigest ::
  "nat \<Rightarrow> (directory \<Rightarrow> string) \<Rightarrow> (string \<Rightarrow> directory) \<Rightarrow> (string \<Rightarrow> digest) \<Rightarrow> (int \<Rightarrow> timestamp) \<Rightarrow>
   (path_map \<Rightarrow> path_map) \<Rightarrow> (digest_string_map \<Rightarrow> digest_string_map) \<Rightarrow>
   directory list \<Rightarrow> directory list \<Rightarrow> digest_string_map option \<Rightarrow> digest list option \<Rightarrow>
   merge_out option result option" where
  "createMergedDigest fuel serialize parse make_digest ts order blob_order
      inputTree templateTree newDirectoryBlobs mergedDirectoryList =
     (if inputTree = [] \<and> templateTree = [] then Some (Inr None)
      else
        (let dsMap = merge_dsMap serialize make_digest inputTree templateTree
         in case flatten_both fuel parse dsMap inputTree templateTree of
              None \<Rightarrow> None
            | Some (Inl e) \<Rightarrow> if is_runtime_error e then Some (Inr None) else Some (Inl e)
            | Some (Inr m) \<Rightarrow>
                Some (map_sum id Some
                  (write_merged serialize make_digest ts blob_order dsMap (merged_directory order m)
                     newDirectoryBlobs mergedDirectoryList))))"

section \<open>Printing\<close>

text \<open>\<^verbatim>\<open>operator<<\<close> of a \<^verbatim>\<open>DirectoryTree\<close>: the text written.\<close>

definition print_tree ::
  "nat \<Rightarrow> (directory \<Rightarrow> string) \<Rightarrow> (string \<Rightarrow> directory) \<Rightarrow> (string \<Rightarrow> digest) \<Rightarrow>
   (path_map \<Rightarrow> path_map) \<Rightarrow> directory list \<Rightarrow> string result option" where
  "print_tree fuel serialize parse make_digest order tree =
     (case tree of
        [] \<Rightarrow> Some (Inr [])
      | directory # _ \<Rightarrow>
          map_option (map_sum id (\<lambda>m. concat (map (\<lambda>p. meta_print (snd p)) (order m))))
            (buildFlattenedPath fuel parse (buildDigestDirectoryMap serialize make_digest tree []) directory [] []))"

definition print_numbered :: "('a \<Rightarrow> string) \<Rightarrow> string \<Rightarrow> string \<Rightarrow> 'a list \<Rightarrow> string" where
  "print_numbered body head kind nodes =
     concat (map (\<lambda>(j, node). head @ kind @ ''['' @ show_nat j @ '']: '' @ body node @ [CHR 0x0A])
       (enumerate 0 nodes))"

definition print_directories :: "(directory \<Rightarrow> string) \<Rightarrow> (string \<Rightarrow> digest) \<Rightarrow> directory list \<Rightarrow> string" where
  "print_directories serialize make_digest tree =
     concat (map (\<lambda>(i, directory).
       (let head = ''Directory['' @ show_nat i @ ''](''  @ digest_toString (make_digest (serialize directory)) @ '') --> ''
        in print_numbered (\<lambda>f. ''name = '' @ print_quoted (fn_name f) @ '', digest = '' @
               print_quoted (digest_toString (fn_digest f)) @ '', executable = '' @ show_bool (fn_is_executable f))
             head ''FileNode'' (files directory) @
           print_numbered (\<lambda>l. ''name = '' @ print_quoted (sn_name l) @ '', target = '' @ print_quoted (sn_target l))
             head ''SymlinkNode'' (symlinks directory) @
           print_numbered (\<lambda>d. ''name = '' @ print_quoted (dn_name d) @ '', digest = '' @
               print_quoted (digest_toString (dn_digest d)))
             head ''DirectoryNode'' (directories directory)))
       (enumerate 0 tree))"

section \<open>What the flattened map holds\<close>

text \<open>
  \<open>at_path parse dsMap dir segs d\<close>: below the directory \<open>dir\<close>, the subdirectory names
  \<open>segs\<close> lead to the directory message \<open>d\<close>.
\<close>

inductive at_path ::
  "(string \<Rightarrow> directory) \<Rightarrow> digest_string_map \<Rightarrow> directory \<Rightarrow> string list \<Rightarrow> directory \<Rightarrow> bool"
  for parse dsMap where
  at_root: "at_path parse dsMap dir [] dir"
| at_sub: "node \<in> set (directories dir) \<Longrightarrow> dmap_find dsMap (dn_digest node) = Some blob \<Longrightarrow>
     at_path parse dsMap (parse blob) segs d \<Longrightarrow> at_path parse dsMap dir (dn_name node # segs) d"

inductive_simps at_path_Nil [simp]: "at_path parse dsMap dir [] d"
inductive_simps at_path_Cons: "at_path parse dsMap dir (s # segs) d"

definition path_of :: "string \<Rightarrow> string list \<Rightarrow> string" where
  "path_of dirName segs = fold (\<lambda>s p. genNewPath p s) segs dirName"

lemma path_of_simps [simp]:
  "path_of dirName [] = dirName" "path_of dirName (s # segs) = path_of (genNewPath dirName s) segs"
  "path_of dirName (segs @ [n]) = genNewPath (path_of dirName segs) n"
  by (simp_all add: path_of_def)

definition pm_ext :: "path_map \<Rightarrow> path_map \<Rightarrow> bool" where
  "pm_ext m m' \<longleftrightarrow> (\<forall>k v. map_of m k = Some v \<longrightarrow> map_of m' k = Some v)"

lemma pm_ext_refl [simp]: "pm_ext m m"
  by (simp add: pm_ext_def)

lemma pm_ext_trans: "pm_ext a b \<Longrightarrow> pm_ext b c \<Longrightarrow> pm_ext a c"
  by (simp add: pm_ext_def)

lemma pm_extD: "pm_ext m m' \<Longrightarrow> map_of m k = Some v \<Longrightarrow> map_of m' k = Some v"
  by (simp add: pm_ext_def)

lemma map_of_emplace:
  "map_of (pm_emplace k v m) k' =
     (if k' = k then Some (case map_of m k of None \<Rightarrow> v | Some w \<Rightarrow> w) else map_of m k')"
  by (auto simp: pm_emplace_def map_add_def split: option.splits)

lemma pm_ext_emplace [simp]: "pm_ext m (pm_emplace k v m)"
  by (auto simp: pm_ext_def map_of_emplace)

lemma distinct_emplace:
  "distinct (map fst m) \<Longrightarrow> distinct (map fst (pm_emplace k v m))"
  using map_of_eq_None_iff [of m k] by (auto simp: pm_emplace_def split: option.split)

text \<open>The node a directory message contributes at a path, and agreement of a map with a node.\<close>

definition file_flat :: "path_map \<Rightarrow> string \<Rightarrow> file_node \<Rightarrow> bool" where
  "file_flat m p f \<longleftrightarrow> (\<exists>obj. map_of m p = Some obj \<and> meta_eq_file obj f)"

fun symlink_agrees :: "node_meta_data \<Rightarrow> symlink_node \<Rightarrow> bool" where
  "symlink_agrees (SymlinkNodeMetaData _ target) l \<longleftrightarrow> target = sn_target l"
| "symlink_agrees _ l \<longleftrightarrow> True"

definition symlink_flat :: "path_map \<Rightarrow> string \<Rightarrow> symlink_node \<Rightarrow> bool" where
  "symlink_flat m p l \<longleftrightarrow> (\<exists>obj. map_of m p = Some obj \<and> symlink_agrees obj l)"

lemma flat_ext:
  "pm_ext m m' \<Longrightarrow> file_flat m p f \<Longrightarrow> file_flat m' p f"
  "pm_ext m m' \<Longrightarrow> symlink_flat m p l \<Longrightarrow> symlink_flat m' p l"
  by (auto simp: file_flat_def symlink_flat_def dest: pm_extD)

lemma flatten_files_flat:
  "flatten_files dirName nodes m = Inr m' \<Longrightarrow>
   pm_ext m m' \<and> (\<forall>f \<in> set nodes. file_flat m' (genNewPath dirName (fn_name f)) f)"
proof (induction dirName nodes m arbitrary: m' rule: flatten_files.induct)
  case (2 dirName node nodes m)
  let ?p = "genNewPath dirName (fn_name node)"
  let ?m1 = "pm_emplace ?p (FileNodeMetaData ?p (fn_digest node) (fn_is_executable node)) m"
  have ok: "\<not> (case map_of m ?p of None \<Rightarrow> False | Some obj \<Rightarrow> \<not> meta_eq_file obj node)"
    and rest: "flatten_files dirName nodes ?m1 = Inr m'"
    using "2.prems" by (auto simp: Let_def split: if_splits)
  have IH: "pm_ext ?m1 m'" "\<forall>f \<in> set nodes. file_flat m' (genNewPath dirName (fn_name f)) f"
    using "2.IH" [OF refl ok rest] by auto
  have "file_flat ?m1 ?p node"
    using ok by (auto simp: file_flat_def map_of_emplace meta_eq_file_def split: option.splits)
  then show ?case
    using IH flat_ext(1) pm_ext_trans [OF pm_ext_emplace IH(1)] by auto
qed simp

lemma flatten_symlinks_flat:
  "flatten_symlinks dirName nodes m = Inr m' \<Longrightarrow>
   pm_ext m m' \<and> (\<forall>l \<in> set nodes. symlink_flat m' (genNewPath dirName (sn_name l)) l)"
proof (induction dirName nodes m arbitrary: m' rule: flatten_symlinks.induct)
  case (2 dirName node nodes m)
  let ?p = "genNewPath dirName (sn_name node)"
  let ?m1 = "pm_emplace ?p (SymlinkNodeMetaData ?p (sn_target node)) m"
  have ok: "\<not> (case map_of m ?p of Some (SymlinkNodeMetaData _ t) \<Rightarrow> t \<noteq> sn_target node | _ \<Rightarrow> False)"
    and rest: "flatten_symlinks dirName nodes ?m1 = Inr m'"
    using "2.prems" by (auto simp: Let_def split: if_splits)
  have IH: "pm_ext ?m1 m'" "\<forall>l \<in> set nodes. symlink_flat m' (genNewPath dirName (sn_name l)) l"
    using "2.IH" [OF refl ok rest] by auto
  have "symlink_flat ?m1 ?p node"
    using ok by (auto simp: symlink_flat_def map_of_emplace split: option.splits node_meta_data.splits)
  then show ?case
    using IH flat_ext(2) pm_ext_trans [OF pm_ext_emplace IH(1)] by auto
qed simp

text \<open>All nodes below a directory are in the map, under the path of the directory.\<close>

definition all_flat ::
  "(string \<Rightarrow> directory) \<Rightarrow> digest_string_map \<Rightarrow> directory \<Rightarrow> string \<Rightarrow> path_map \<Rightarrow> bool" where
  "all_flat parse dsMap dir dirName m \<longleftrightarrow>
     (\<forall>segs d. at_path parse dsMap dir segs d \<longrightarrow>
        (\<forall>f \<in> set (files d). file_flat m (path_of dirName (segs @ [fn_name f])) f) \<and>
        (\<forall>l \<in> set (symlinks d). symlink_flat m (path_of dirName (segs @ [sn_name l])) l) \<and>
        (\<forall>n \<in> set (directories d). map_of m (path_of dirName (segs @ [dn_name n])) \<noteq> None))"

lemma all_flat_ext: "pm_ext m m' \<Longrightarrow> all_flat parse dsMap dir dirName m \<Longrightarrow> all_flat parse dsMap dir dirName m'"
  unfolding all_flat_def using flat_ext [of m m'] by (fastforce dest: pm_extD)

lemma flatten_subdirs_flat:
  assumes rec: "\<And>dir dirName m m'. rec dir dirName m = Some (Inr m') \<Longrightarrow>
      pm_ext m m' \<and> all_flat parse dsMap dir dirName m'"
  shows "flatten_subdirs rec parse dsMap dirName nodes m = Some (Inr m') \<Longrightarrow>
    pm_ext m m' \<and>
    (\<forall>n \<in> set nodes. map_of m' (genNewPath dirName (dn_name n)) \<noteq> None \<and>
       (\<forall>blob. dmap_find dsMap (dn_digest n) = Some blob \<longrightarrow>
          all_flat parse dsMap (parse blob) (genNewPath dirName (dn_name n)) m'))"
proof (induction nodes arbitrary: m)
  case (Cons node nodes)
  let ?p = "genNewPath dirName (dn_name node)"
  let ?m1 = "pm_emplace ?p (DirNodeMetaData ?p (dn_digest node)) m"
  have here: "map_of ?m1 ?p \<noteq> None" by (simp add: map_of_emplace)
  show ?case
  proof (cases "dmap_find dsMap (dn_digest node)")
    case None
    then have IH: "pm_ext ?m1 m'" using Cons.IH [of ?m1] Cons.prems by (simp add: Let_def)
    then show ?thesis
      using Cons.IH [of ?m1] Cons.prems None here pm_ext_trans [OF pm_ext_emplace IH] pm_extD [OF IH, of ?p]
      by (auto simp: Let_def)
  next
    case (Some blob)
    then obtain m2 where m2: "rec (parse blob) ?p ?m1 = Some (Inr m2)"
      and rest: "flatten_subdirs rec parse dsMap dirName nodes m2 = Some (Inr m')"
      using Cons.prems by (auto simp: Let_def split: option.splits sum.splits)
    note sub = rec [OF m2] and IH = Cons.IH [OF rest]
    have ext: "pm_ext m m'" using sub IH pm_ext_emplace pm_ext_trans by blast
    have "map_of m' ?p \<noteq> None" using here sub IH by (auto dest: pm_extD)
    then show ?thesis
      using Some IH sub all_flat_ext [of m2 m'] ext by simp
  qed
qed simp

lemma buildFlattenedPath_flat:
  "buildFlattenedPath fuel parse dsMap dir dirName m = Some (Inr m') \<Longrightarrow>
   pm_ext m m' \<and> all_flat parse dsMap dir dirName m'"
proof (induction fuel arbitrary: dir dirName m m')
  case (Suc fuel)
  obtain m1 m2 where m1: "flatten_files dirName (files dir) m = Inr m1"
    and m2: "flatten_symlinks dirName (symlinks dir) m1 = Inr m2"
    and m3: "flatten_subdirs (buildFlattenedPath fuel parse dsMap) parse dsMap dirName (directories dir) m2 = Some (Inr m')"
    using Suc.prems by (auto split: sum.splits)
  note fs = flatten_files_flat [OF m1] and ss = flatten_symlinks_flat [OF m2]
    and ds = flatten_subdirs_flat [OF Suc.IH m3]
  have ext: "pm_ext m m'" "pm_ext m1 m'" using fs ss ds pm_ext_trans by blast+
  have "(\<forall>f \<in> set (files d). file_flat m' (path_of dirName (segs @ [fn_name f])) f) \<and>
        (\<forall>l \<in> set (symlinks d). symlink_flat m' (path_of dirName (segs @ [sn_name l])) l) \<and>
        (\<forall>n \<in> set (directories d). map_of m' (path_of dirName (segs @ [dn_name n])) \<noteq> None)"
    if at: "at_path parse dsMap dir segs d" for segs d
  proof (cases segs)
    case Nil
    then show ?thesis
      using at fs ss ds flat_ext(1) [OF ext(2)] flat_ext(2) by auto
  next
    case (Cons s segs')
    then obtain node blob where "node \<in> set (directories dir)" "s = dn_name node"
      "dmap_find dsMap (dn_digest node) = Some blob" "at_path parse dsMap (parse blob) segs' d"
      using at by (auto simp: at_path_Cons)
    then show ?thesis
      using ds Cons unfolding all_flat_def by (simp add: path_of_def)
  qed
  then show ?case using ext by (simp add: all_flat_def)
qed simp

text \<open>Conversely every new entry of the map is a node below the directory.\<close>

definition from_tree ::
  "(string \<Rightarrow> directory) \<Rightarrow> digest_string_map \<Rightarrow> directory \<Rightarrow> string \<Rightarrow> string \<times> node_meta_data \<Rightarrow> bool" where
  "from_tree parse dsMap dir dirName e \<longleftrightarrow>
     (\<exists>segs d. at_path parse dsMap dir segs d \<and>
        ((\<exists>f \<in> set (files d). fst e = path_of dirName (segs @ [fn_name f]) \<and>
            snd e = FileNodeMetaData (fst e) (fn_digest f) (fn_is_executable f)) \<or>
         (\<exists>l \<in> set (symlinks d). fst e = path_of dirName (segs @ [sn_name l]) \<and>
            snd e = SymlinkNodeMetaData (fst e) (sn_target l)) \<or>
         (\<exists>n \<in> set (directories d). fst e = path_of dirName (segs @ [dn_name n]) \<and>
            snd e = DirNodeMetaData (fst e) (dn_digest n))))"

lemma from_tree_file:
  "f \<in> set (files dir) \<Longrightarrow> from_tree parse dsMap dir dirName (genNewPath dirName (fn_name f),
     FileNodeMetaData (genNewPath dirName (fn_name f)) (fn_digest f) (fn_is_executable f))"
  unfolding from_tree_def by (rule exI [of _ "[]"], rule exI [of _ dir]) auto

lemma from_tree_symlink:
  "l \<in> set (symlinks dir) \<Longrightarrow> from_tree parse dsMap dir dirName (genNewPath dirName (sn_name l),
     SymlinkNodeMetaData (genNewPath dirName (sn_name l)) (sn_target l))"
  unfolding from_tree_def by (rule exI [of _ "[]"], rule exI [of _ dir]) auto

lemma from_tree_dir:
  "n \<in> set (directories dir) \<Longrightarrow> from_tree parse dsMap dir dirName (genNewPath dirName (dn_name n),
     DirNodeMetaData (genNewPath dirName (dn_name n)) (dn_digest n))"
  unfolding from_tree_def by (rule exI [of _ "[]"], rule exI [of _ dir]) auto

lemma from_tree_sub:
  assumes "from_tree parse dsMap (parse blob) (genNewPath dirName (dn_name node)) e"
    and "node \<in> set (directories dir)" "dmap_find dsMap (dn_digest node) = Some blob"
  shows "from_tree parse dsMap dir dirName e"
proof -
  obtain segs d where at: "at_path parse dsMap (parse blob) segs d"
    and e: "(\<exists>f \<in> set (files d). fst e = path_of (genNewPath dirName (dn_name node)) (segs @ [fn_name f]) \<and>
            snd e = FileNodeMetaData (fst e) (fn_digest f) (fn_is_executable f)) \<or>
         (\<exists>l \<in> set (symlinks d). fst e = path_of (genNewPath dirName (dn_name node)) (segs @ [sn_name l]) \<and>
            snd e = SymlinkNodeMetaData (fst e) (sn_target l)) \<or>
         (\<exists>n \<in> set (directories d). fst e = path_of (genNewPath dirName (dn_name node)) (segs @ [dn_name n]) \<and>
            snd e = DirNodeMetaData (fst e) (dn_digest n))"
    using assms(1) unfolding from_tree_def by blast
  show ?thesis
    unfolding from_tree_def
    by (rule exI [of _ "dn_name node # segs"], rule exI [of _ d]) (use at_sub [OF assms(2,3) at] e in \<open>simp add: path_of_def\<close>)
qed

text \<open>\<open>grown P m m'\<close>: the entries of \<open>m'\<close> are old or satisfy \<open>P\<close>, and keys stay different.\<close>

definition grown :: "(string \<times> node_meta_data \<Rightarrow> bool) \<Rightarrow> path_map \<Rightarrow> path_map \<Rightarrow> bool" where
  "grown P m m' \<longleftrightarrow>
     (\<forall>e \<in> set m'. e \<in> set m \<or> P e) \<and> (distinct (map fst m) \<longrightarrow> distinct (map fst m'))"

lemma grown_refl [simp]: "grown P m m"
  by (simp add: grown_def)

lemma grown_trans: "grown P a b \<Longrightarrow> grown P b c \<Longrightarrow> grown P a c"
  by (auto simp: grown_def)

lemma grown_mono: "grown P a b \<Longrightarrow> (\<And>e. P e \<Longrightarrow> Q e) \<Longrightarrow> grown Q a b"
  by (auto simp: grown_def)

lemma grown_emplace: "P (k, v) \<Longrightarrow> grown P m (pm_emplace k v m)"
  using distinct_emplace [of m k v] by (auto simp: grown_def pm_emplace_def split: option.splits)

lemma flatten_files_grown:
  "flatten_files dirName nodes m = Inr m' \<Longrightarrow>
   (\<And>f. f \<in> set nodes \<Longrightarrow> P (genNewPath dirName (fn_name f),
      FileNodeMetaData (genNewPath dirName (fn_name f)) (fn_digest f) (fn_is_executable f))) \<Longrightarrow> grown P m m'"
  by (induction dirName nodes m arbitrary: m' rule: flatten_files.induct)
    (auto simp: Let_def intro: grown_trans [OF grown_emplace] split: if_splits)

lemma flatten_symlinks_grown:
  "flatten_symlinks dirName nodes m = Inr m' \<Longrightarrow>
   (\<And>l. l \<in> set nodes \<Longrightarrow> P (genNewPath dirName (sn_name l),
      SymlinkNodeMetaData (genNewPath dirName (sn_name l)) (sn_target l))) \<Longrightarrow> grown P m m'"
  by (induction dirName nodes m arbitrary: m' rule: flatten_symlinks.induct)
    (auto simp: Let_def intro: grown_trans [OF grown_emplace] split: if_splits)

lemma flatten_subdirs_grown:
  assumes rec: "\<And>dir dirName m m'. rec dir dirName m = Some (Inr m') \<Longrightarrow> grown (from_tree parse dsMap dir dirName) m m'"
    and sub: "set nodes \<subseteq> set (directories dir)"
  shows "flatten_subdirs rec parse dsMap dirName nodes m = Some (Inr m') \<Longrightarrow>
    grown (from_tree parse dsMap dir dirName) m m'"
  using sub
proof (induction nodes arbitrary: m)
  case (Cons node nodes)
  let ?p = "genNewPath dirName (dn_name node)"
  let ?m1 = "pm_emplace ?p (DirNodeMetaData ?p (dn_digest node)) m"
  have "from_tree parse dsMap dir dirName (?p, DirNodeMetaData ?p (dn_digest node))"
    using Cons.prems(2) by (intro from_tree_dir) simp
  then have g1: "grown (from_tree parse dsMap dir dirName) m ?m1" by (rule grown_emplace)
  show ?case
  proof (cases "dmap_find dsMap (dn_digest node)")
    case None
    then show ?thesis using Cons g1 grown_trans by (auto simp: Let_def)
  next
    case (Some blob)
    then obtain m2 where m2: "rec (parse blob) ?p ?m1 = Some (Inr m2)"
      and rest: "flatten_subdirs rec parse dsMap dirName nodes m2 = Some (Inr m')"
      using Cons.prems by (auto simp: Let_def split: option.splits sum.splits)
    have "grown (from_tree parse dsMap dir dirName) ?m1 m2"
      using from_tree_sub [OF _ _ Some] Cons.prems(2) by (intro grown_mono [OF rec [OF m2]]) simp
    then show ?thesis
      using Cons.IH [OF rest] Cons.prems(2) grown_trans [OF g1 grown_trans] by simp
  qed
qed simp

lemma buildFlattenedPath_grown:
  "buildFlattenedPath fuel parse dsMap dir dirName m = Some (Inr m') \<Longrightarrow>
   grown (from_tree parse dsMap dir dirName) m m'"
proof (induction fuel arbitrary: dir dirName m m')
  case (Suc fuel)
  obtain m1 m2 where m1: "flatten_files dirName (files dir) m = Inr m1"
    and m2: "flatten_symlinks dirName (symlinks dir) m1 = Inr m2"
    and m3: "flatten_subdirs (buildFlattenedPath fuel parse dsMap) parse dsMap dirName (directories dir) m2 = Some (Inr m')"
    using Suc.prems by (auto split: sum.splits)
  have "grown (from_tree parse dsMap dir dirName) m m1"
    by (rule flatten_files_grown [OF m1]) (rule from_tree_file)
  moreover have "grown (from_tree parse dsMap dir dirName) m1 m2"
    by (rule flatten_symlinks_grown [OF m2]) (rule from_tree_symlink)
  ultimately show ?case
    using flatten_subdirs_grown [OF Suc.IH subset_refl m3] grown_trans by blast
qed simp

text \<open>The recursion ends when the fuel exceeds the depth of the tree, and throws collisions only.\<close>

lemma flatten_subdirs_returns:
  assumes "\<And>node blob m dirName. node \<in> set nodes \<Longrightarrow> dmap_find dsMap (dn_digest node) = Some blob \<Longrightarrow>
      \<exists>r. rec (parse blob) dirName m = Some r"
  shows "\<exists>r. flatten_subdirs rec parse dsMap dirName nodes m = Some r"
  using assms
proof (induction nodes arbitrary: m)
  case (Cons node nodes)
  have IH: "\<exists>r. flatten_subdirs rec parse dsMap dirName nodes m = Some r" for m
    by (rule Cons.IH) (rule Cons.prems, simp_all)
  show ?case
  proof (cases "dmap_find dsMap (dn_digest node)")
    case None
    then show ?thesis using IH by (simp add: Let_def)
  next
    case (Some blob)
    obtain r where "rec (parse blob) (genNewPath dirName (dn_name node))
        (pm_emplace (genNewPath dirName (dn_name node))
          (DirNodeMetaData (genNewPath dirName (dn_name node)) (dn_digest node)) m) = Some r"
      using Cons.prems [OF _ Some] by auto
    then show ?thesis using IH Some by (cases r) (simp_all add: Let_def)
  qed
qed simp

lemma buildFlattenedPath_returns:
  assumes "\<forall>segs d. at_path parse dsMap dir segs d \<longrightarrow> length segs < fuel"
  shows "\<exists>r. buildFlattenedPath fuel parse dsMap dir dirName m = Some r"
  using assms
proof (induction fuel arbitrary: dir dirName m)
  case 0
  then show ?case by (metis at_root less_nat_zero_code)
next
  case (Suc fuel)
  have "\<exists>r. buildFlattenedPath fuel parse dsMap (parse blob) dirName' m' = Some r"
    if "node \<in> set (directories dir)" "dmap_find dsMap (dn_digest node) = Some blob" for node blob dirName' m'
    using Suc.prems at_sub [OF that] by (intro Suc.IH) fastforce
  then show ?case
    using flatten_subdirs_returns by (auto split: sum.split)
qed

lemma flatten_error:
  "flatten_files dirName fs m = Inl e \<Longrightarrow> e = RuntimeError"
  "flatten_symlinks dirName ss m = Inl e \<Longrightarrow> e = RuntimeError"
proof -
  show "flatten_files dirName fs m = Inl e \<Longrightarrow> e = RuntimeError"
    by (induction dirName fs m rule: flatten_files.induct) (auto simp: Let_def split: if_splits)
  show "flatten_symlinks dirName ss m = Inl e \<Longrightarrow> e = RuntimeError"
    by (induction dirName ss m rule: flatten_symlinks.induct) (auto simp: Let_def split: if_splits)
qed

lemma flatten_subdirs_error:
  "flatten_subdirs rec parse dsMap dirName nodes m = Some (Inl e) \<Longrightarrow>
   (\<And>d n m e. rec d n m = Some (Inl e) \<Longrightarrow> e = RuntimeError) \<Longrightarrow> e = RuntimeError"
  by (induction nodes arbitrary: m) (auto simp: Let_def split: option.splits sum.splits)

lemma buildFlattenedPath_error:
  "buildFlattenedPath fuel parse dsMap dir dirName m = Some (Inl e) \<Longrightarrow> e = RuntimeError"
proof (induction fuel arbitrary: dir dirName m e)
  case (Suc fuel)
  then show ?case
    using flatten_error flatten_subdirs_error [of "buildFlattenedPath fuel parse dsMap"]
    by (auto split: sum.splits)
qed simp

section \<open>Paths of the flattened map\<close>

definition good_name :: "string \<Rightarrow> bool" where
  "good_name n \<longleftrightarrow> n \<noteq> [] \<and> CHR ''/'' \<notin> set n"

definition good_dir :: "directory \<Rightarrow> bool" where
  "good_dir d \<longleftrightarrow>
     (\<forall>f \<in> set (files d). good_name (fn_name f)) \<and> (\<forall>l \<in> set (symlinks d). good_name (sn_name l)) \<and>
     (\<forall>n \<in> set (directories d). good_name (dn_name n))"

definition good_tree :: "(string \<Rightarrow> directory) \<Rightarrow> digest_string_map \<Rightarrow> directory \<Rightarrow> bool" where
  "good_tree parse dsMap dir \<longleftrightarrow> (\<forall>segs d. at_path parse dsMap dir segs d \<longrightarrow> good_dir d)"

definition good_trees :: "(string \<Rightarrow> directory) \<Rightarrow> digest_string_map \<Rightarrow> directory list \<Rightarrow> bool" where
  "good_trees parse dsMap roots \<longleftrightarrow> (\<forall>r \<in> set roots. good_tree parse dsMap r)"

lemma split_path_of:
  assumes "segs \<noteq> []" "\<forall>s \<in> set segs. good_name s"
  shows "split_at (CHR ''/'') (path_of [] segs) = segs"
  using assms
proof (induction segs rule: rev_induct)
  case (snoc s segs)
  then have s: "good_name s" by simp
  show ?case
  proof (cases "segs = []")
    case True
    then show ?thesis using s by (simp add: genNewPath_def good_name_def split_at_no_sep)
  next
    case False
    then have IH: "split_at (CHR ''/'') (path_of [] segs) = segs" using snoc by simp
    then have "path_of [] segs \<noteq> []" using snoc.prems False by (auto simp: good_name_def)
    then show ?thesis
      using IH s by (simp add: genNewPath_def split_at_append_sep good_name_def split_at_no_sep)
  qed
qed simp

lemma path_of_dirs:
  assumes "\<forall>s \<in> set segs. good_name s" "good_name n"
  shows "path_dirs (path_of [] (segs @ [n])) = segs" "path_name (path_of [] (segs @ [n])) = n"
  using split_path_of [of "segs @ [n]"] assms
  by (auto simp: path_dirs_def path_name_def good_name_def simp del: path_of_simps)

lemma path_of_clean:
  assumes "\<forall>s \<in> set segs. good_name s" "good_name n"
  shows "path_of [] (segs @ [n]) \<noteq> []" "last (path_of [] (segs @ [n])) \<noteq> CHR ''/''"
proof -
  have "n \<noteq> []" "last n \<noteq> CHR ''/''" using assms(2) last_in_set unfolding good_name_def by metis+
  then show "path_of [] (segs @ [n]) \<noteq> []" "last (path_of [] (segs @ [n])) \<noteq> CHR ''/''"
    by (auto simp: genNewPath_def)
qed

lemma good_tree_segs:
  "at_path parse dsMap dir segs d \<Longrightarrow> good_tree parse dsMap dir \<Longrightarrow> (\<forall>s \<in> set segs. good_name s) \<and> good_dir d"
proof (induction rule: at_path.induct)
  case (at_root dir)
  then show ?case by (auto simp: good_tree_def intro: at_path.at_root)
next
  case (at_sub node dir blob segs d)
  then have "good_tree parse dsMap (parse blob)"
    unfolding good_tree_def using at_path.at_sub [OF at_sub.hyps(1,2)] by blast
  moreover have "good_name (dn_name node)"
    using at_sub.prems at_sub.hyps(1) at_path.at_root [of parse dsMap dir]
    unfolding good_tree_def good_dir_def by blast
  ultimately show ?case using at_sub.IH by simp
qed

text \<open>Names can be checked on the blobs.\<close>

lemma dmap_find_Some_set: "dmap_find m d = Some v \<Longrightarrow> v \<in> snd ` set m"
  by (induction m) (auto split: if_splits)

lemma good_tree_blobs:
  assumes "good_dir dir" "\<forall>e \<in> set dsMap. good_dir (parse (snd e))"
  shows "good_tree parse dsMap dir"
proof -
  have "at_path parse dsMap dir segs d \<Longrightarrow> good_dir dir \<Longrightarrow> good_dir d" for dir segs d
  proof (induction rule: at_path.induct)
    case (at_sub node dir blob segs d)
    then show ?case using assms(2) by (auto dest: dmap_find_Some_set)
  qed
  then show ?thesis using assms(1) by (auto simp: good_tree_def)
qed

text \<open>The entry a node of the map adds to the merged directory.\<close>

fun meta_entry :: "node_meta_data \<Rightarrow> nd_entry" where
  "meta_entry (FileNodeMetaData p d x) = FileEntry p \<lparr>d_digest = d, d_executable = x, d_mtime = None\<rparr>"
| "meta_entry (SymlinkNodeMetaData p t) = SymlinkEntry p t"
| "meta_entry (DirNodeMetaData p d) = DirectoryEntry p"

lemma addToNestedDirectory_entry: "addToNestedDirectory obj = add_entry (meta_entry obj)"
  by (cases obj) auto

lemma merged_directory_entries:
  "merged_directory order m = fold add_entry (map (\<lambda>it. meta_entry (snd it)) (order m)) empty_nested"
  by (simp add: merged_directory_def addToNestedDirectory_entry fold_map comp_def)

text \<open>A map whose keys are different and are the paths of their nodes, made of good names.\<close>

definition good_path :: "string \<Rightarrow> bool" where
  "good_path p \<longleftrightarrow> (\<exists>segs n. p = path_of [] (segs @ [n]) \<and> (\<forall>s \<in> set segs. good_name s) \<and> good_name n)"

definition pm_wf :: "path_map \<Rightarrow> bool" where
  "pm_wf m \<longleftrightarrow> distinct (map fst m) \<and> (\<forall>e \<in> set m. meta_path (snd e) = fst e \<and> good_path (fst e))"

lemma from_tree_good:
  assumes "from_tree parse dsMap dir [] e" "good_tree parse dsMap dir"
  shows "meta_path (snd e) = fst e \<and> good_path (fst e)"
proof -
  obtain segs d n where at: "at_path parse dsMap dir segs d" and e: "fst e = path_of [] (segs @ [n])"
    "meta_path (snd e) = fst e" "n \<in> fn_name ` set (files d) \<union> sn_name ` set (symlinks d) \<union> dn_name ` set (directories d)"
    using assms(1) unfolding from_tree_def by (auto simp del: path_of_simps)
  have "good_name n" "\<forall>s \<in> set segs. good_name s"
    using good_tree_segs [OF at assms(2)] e(3) by (auto simp: good_dir_def)
  then show ?thesis using e unfolding good_path_def by blast
qed

lemma flatten_both_SomeD:
  assumes "flatten_both fuel parse dsMap inputTree templateTree = Some (Inr m)"
  obtains input irest template trest m0 where
    "inputTree = input # irest" "templateTree = template # trest"
    "buildFlattenedPath fuel parse dsMap input [] [] = Some (Inr m0)"
    "buildFlattenedPath fuel parse dsMap template [] m0 = Some (Inr m)"
  using assms by (auto simp: flatten_both_def at0_def split: list.splits option.splits sum.splits)

lemma flatten_both_wf:
  assumes "flatten_both fuel parse dsMap (input # irest) (template # trest) = Some (Inr m)"
    and "good_tree parse dsMap input" "good_tree parse dsMap template"
  shows "pm_wf m"
proof -
  obtain m0 where m0: "buildFlattenedPath fuel parse dsMap input [] [] = Some (Inr m0)"
    and m: "buildFlattenedPath fuel parse dsMap template [] m0 = Some (Inr m)"
    using flatten_both_SomeD [OF assms(1)] by (metis list.inject)
  have "distinct (map fst m) \<and> (\<forall>e \<in> set m. from_tree parse dsMap input [] e \<or> from_tree parse dsMap template [] e)"
    using buildFlattenedPath_grown [OF m0] buildFlattenedPath_grown [OF m] by (auto simp: grown_def)
  then show ?thesis
    using from_tree_good assms(2,3) unfolding pm_wf_def by blast
qed

lemma pm_wf_clean: "pm_wf m \<Longrightarrow> e \<in> set m \<Longrightarrow> clean_entry (meta_entry (snd e))"
proof -
  assume "pm_wf m" "e \<in> set m"
  then have "meta_path (snd e) = fst e" "good_path (fst e)" by (auto simp: pm_wf_def)
  moreover have "entry_path (meta_entry obj) = meta_path obj" for obj by (cases obj) simp_all
  ultimately show ?thesis
    using path_of_clean unfolding clean_entry_def good_path_def by metis
qed

lemma good_path_eqI:
  assumes "good_path p" "good_path q" "path_dirs p = path_dirs q" "path_name p = path_name q"
  shows "p = q"
  using assms path_of_dirs unfolding good_path_def by metis

lemma pm_wf_compat:
  assumes "pm_wf m" "a \<in> set m" "b \<in> set m"
  shows "entries_compat (meta_entry (snd a)) (meta_entry (snd b))"
proof (cases "fst a = fst b")
  case True
  then have "a = b" using assms eq_key_imp_eq_value [of m "fst a" "snd a" "snd b"]
    by (metis pm_wf_def prod.collapse)
  moreover have "leaf_compat l l" for l by (cases l) simp_all
  ultimately show ?thesis by (simp add: entries_compat_def)
next
  case False
  have "\<not> (path_dirs (fst a) = path_dirs (fst b) \<and> path_name (fst a) = path_name (fst b))"
    using False assms good_path_eqI unfolding pm_wf_def by blast
  moreover have "meta_path (snd a) = fst a" "meta_path (snd b) = fst b" using assms by (auto simp: pm_wf_def)
  ultimately show ?thesis
    by (cases "snd a"; cases "snd b") (auto simp: entries_compat_def)
qed

section \<open>Concrete trees\<close>

definition sample_sub :: directory where
  "sample_sub = \<lparr>files = [\<lparr>fn_name = ''a'', fn_digest = plain_digest ''1'', fn_is_executable = True, fn_mtime = None\<rparr>],
     symlinks = [], directories = []\<rparr>"

definition sample_input :: directory where
  "sample_input = \<lparr>files = [], symlinks = [\<lparr>sn_name = ''l'', sn_target = ''d/a''\<rparr>],
     directories = [\<lparr>dn_name = ''d'', dn_digest = plain_digest (plain_serialize sample_sub)\<rparr>]\<rparr>"

definition sample_template :: directory where
  "sample_template = \<lparr>files = [\<lparr>fn_name = ''b'', fn_digest = plain_digest ''2'', fn_is_executable = False, fn_mtime = None\<rparr>],
     symlinks = [], directories = []\<rparr>"

definition sample_clash :: directory where
  "sample_clash = \<lparr>files = [\<lparr>fn_name = ''b'', fn_digest = plain_digest ''3'', fn_is_executable = False, fn_mtime = None\<rparr>],
     symlinks = [], directories = []\<rparr>"

definition sample_parse :: "string \<Rightarrow> directory" where
  "sample_parse blob = (if blob = plain_serialize sample_sub then sample_sub else empty_directory)"

abbreviation sample_merge ::
  "(path_map \<Rightarrow> path_map) \<Rightarrow> directory list \<Rightarrow> directory list \<Rightarrow> merge_out option result option" where
  "sample_merge order i t \<equiv>
     createMergedDigest 5 plain_serialize sample_parse plain_digest (\<lambda>t. (t, 0)) order id i t (Some []) (Some [])"

lemma sample_good:
  "good_trees sample_parse (merge_dsMap plain_serialize plain_digest [sample_input, sample_sub] [sample_template])
     [sample_input, sample_template]"
proof -
  have "\<forall>e \<in> set (merge_dsMap plain_serialize plain_digest [sample_input, sample_sub] [sample_template]).
      good_dir (sample_parse (snd e))" "good_dir sample_input" "good_dir sample_template"
    by code_simp+
  then show ?thesis by (auto simp: good_trees_def intro: good_tree_blobs)
qed

section \<open>What a merge does\<close>

lemma fold_add_entry_file:
  assumes "nd_wf nd" "\<forall>e \<in> set es. clean_entry e" "\<forall>a \<in> set es. \<forall>b \<in> set es. entries_compat a b"
  shows "e \<in> set es \<Longrightarrow> entry_update e = (PutFile n f, ds) \<Longrightarrow> file_at (fold add_entry es nd) ds n = Some f"
    and "file_at (fold add_entry es nd) ds n = Some g \<Longrightarrow>
      file_at nd ds n = Some g \<or> (\<exists>e \<in> set es. entry_update e = (PutFile n g, ds))"
proof -
  let ?upd = "\<lambda>e. nd_update (fst (entry_update e)) (snd (entry_update e))"
  have found: "e \<in> set es \<Longrightarrow> entry_update e = (PutFile n f, ds) \<Longrightarrow> file_at (fold ?upd es nd) ds n = Some f"
    using assms(3)
  proof (induction es rule: rev_induct)
    case (snoc a es)
    show ?case
    proof (cases "\<exists>h. entry_update a = (PutFile n h, ds)")
      case True
      moreover have "entries_compat e a" using snoc.prems by auto
      ultimately show ?thesis
        using snoc.prems(2) by (auto simp: entries_compat_def file_at_update)
    next
      case False
      then have "e \<in> set es" using snoc.prems by auto
      then have "file_at (fold ?upd es nd) ds n = Some f" using snoc by simp
      then show ?thesis
        using False by (cases "entry_update a") (auto simp: file_at_update split: leaf.split)
    qed
  qed simp
  have origin: "file_at (fold ?upd es nd) ds n = Some g \<Longrightarrow>
      file_at nd ds n = Some g \<or> (\<exists>e \<in> set es. entry_update e = (PutFile n g, ds))"
  proof (induction es rule: rev_induct)
    case (snoc a es)
    then show ?case
      by (cases "entry_update a") (auto simp: file_at_update split: leaf.splits if_splits)
  qed simp
  show "e \<in> set es \<Longrightarrow> entry_update e = (PutFile n f, ds) \<Longrightarrow> file_at (fold add_entry es nd) ds n = Some f"
    using found fold_add_entry [OF assms(1,2)] by simp
  show "file_at (fold add_entry es nd) ds n = Some g \<Longrightarrow>
      file_at nd ds n = Some g \<or> (\<exists>e \<in> set es. entry_update e = (PutFile n g, ds))"
    using origin fold_add_entry [OF assms(1,2)] by simp
qed

lemma merged_directory_file:
  assumes "pm_wf m" "mset (order m) = mset m"
  shows "file_at (merged_directory order m) segs n = Some g \<longleftrightarrow>
    d_mtime g = None \<and> (\<exists>q. (q, FileNodeMetaData q (d_digest g) (d_executable g)) \<in> set m \<and>
      path_dirs q = segs \<and> path_name q = n)"
proof -
  let ?es = "map (\<lambda>it. meta_entry (snd it)) (order m)"
  have es: "\<forall>e \<in> set ?es. clean_entry e" "\<forall>a \<in> set ?es. \<forall>b \<in> set ?es. entries_compat a b"
    using pm_wf_clean [OF assms(1)] pm_wf_compat [OF assms(1)] mset_eq_setD [OF assms(2)] by auto
  have sel: "entry_update (meta_entry obj) = (PutFile n g, segs) \<longleftrightarrow>
      (\<exists>q. obj = FileNodeMetaData q (d_digest g) (d_executable g) \<and> d_mtime g = None \<and>
        path_name q = n \<and> path_dirs q = segs)" for obj
    by (cases obj; cases g) auto
  have none: "file_at empty_nested segs n = None" by (cases segs) (simp_all add: file_at_def)
  have "file_at (merged_directory order m) segs n = Some g \<longleftrightarrow>
      (\<exists>e \<in> set ?es. entry_update e = (PutFile n g, segs))"
    unfolding merged_directory_entries
    using fold_add_entry_file [OF empty_nested_sel(4) es] none by (metis option.distinct(1))
  also have "\<dots> \<longleftrightarrow> (\<exists>e \<in> set m. entry_update (meta_entry (snd e)) = (PutFile n g, segs))"
    using mset_eq_setD [OF assms(2)] by simp
  also have "\<dots> \<longleftrightarrow> d_mtime g = None \<and> (\<exists>q. (q, FileNodeMetaData q (d_digest g) (d_executable g)) \<in> set m \<and>
      path_dirs q = segs \<and> path_name q = n)"
    using assms(1) by (auto simp: sel pm_wf_def) (metis meta_path.simps(1) fst_conv snd_conv)+
  finally show ?thesis .
qed

lemma createMergedDigest_SomeD:
  assumes "createMergedDigest fuel S parse H ts order blob_order inputTree templateTree blobs merged = Some (Inr (Some out))"
  obtains m where
    "flatten_both fuel parse (merge_dsMap S H inputTree templateTree) inputTree templateTree = Some (Inr m)"
    "mo_rootDigest out = fst (to_digest S H ts (merged_directory order m) blobs)"
  using assms
  by (auto simp: createMergedDigest_def Let_def write_merged_def case_prod_beta
      split: if_splits option.splits sum.splits)

lemma flatten_both_flat:
  assumes "flatten_both fuel parse dsMap (input # irest) (template # trest) = Some (Inr m)"
  shows "all_flat parse dsMap input [] m \<and> all_flat parse dsMap template [] m \<and>
    (\<forall>e \<in> set m. from_tree parse dsMap input [] e \<or> from_tree parse dsMap template [] e)"
proof -
  obtain m0 where m0: "buildFlattenedPath fuel parse dsMap input [] [] = Some (Inr m0)"
    and m: "buildFlattenedPath fuel parse dsMap template [] m0 = Some (Inr m)"
    using flatten_both_SomeD [OF assms] by (metis list.inject)
  show ?thesis
    using buildFlattenedPath_flat [OF m0] buildFlattenedPath_flat [OF m] all_flat_ext
      buildFlattenedPath_grown [OF m0] buildFlattenedPath_grown [OF m] by (auto simp: grown_def)
qed

lemma flatten_both_distinct:
  assumes "flatten_both fuel parse dsMap (input # irest) (template # trest) = Some (Inr m)"
  shows "distinct (map fst m)"
proof -
  obtain m0 where m0: "buildFlattenedPath fuel parse dsMap input [] [] = Some (Inr m0)"
    and m: "buildFlattenedPath fuel parse dsMap template [] m0 = Some (Inr m)"
    using flatten_both_SomeD [OF assms] by (metis list.inject)
  show ?thesis
    using buildFlattenedPath_grown [OF m0] buildFlattenedPath_grown [OF m] by (simp add: grown_def)
qed

text \<open>
  The merge does not depend on the order in which the hash map of the paths is iterated:
  with every two orders of the same entries \<^verbatim>\<open>createMergedDigest\<close> gives the same
  result, digests and blobs included, when the names in the directories are non-empty and
  have no slash.
\<close>

theorem createMergedDigest_order:
  assumes "\<forall>m. mset (order m) = mset m" "\<forall>m. mset (order' m) = mset m"
    and "good_tree parse (merge_dsMap S H (input # irest) (template # trest)) input"
    and "good_tree parse (merge_dsMap S H (input # irest) (template # trest)) template"
  shows "createMergedDigest fuel S parse H ts order blob_order (input # irest) (template # trest) blobs merged =
         createMergedDigest fuel S parse H ts order' blob_order (input # irest) (template # trest) blobs merged"
proof -
  let ?ds = "merge_dsMap S H (input # irest) (template # trest)"
  have "merged_directory order m = merged_directory order' m"
    if "flatten_both fuel parse ?ds (input # irest) (template # trest) = Some (Inr m)" for m
  proof -
    have "pm_wf m" by (rule flatten_both_wf [OF that assms(3,4)])
    moreover have "set (order m) = set m" using assms(1) by (meson mset_eq_setD)
    ultimately show ?thesis
      unfolding merged_directory_entries using pm_wf_clean pm_wf_compat assms(1,2)
      by (intro add_entries_order) auto
  qed
  then show ?thesis
    by (simp add: createMergedDigest_def Let_def split: option.split sum.split)
qed

theorem createMergedDigest_order_witness:
  "sample_merge id [sample_input, sample_sub] [sample_template] =
   sample_merge rev [sample_input, sample_sub] [sample_template]"
proof -
  have "good_tree sample_parse (merge_dsMap plain_serialize plain_digest [sample_input, sample_sub] [sample_template])
      sample_input"
    "good_tree sample_parse (merge_dsMap plain_serialize plain_digest [sample_input, sample_sub] [sample_template])
      sample_template"
    using sample_good by (simp_all add: good_trees_def)
  then show ?thesis by (intro createMergedDigest_order) simp_all
qed

text \<open>The files and subdirectories that are reached from the roots of the two trees.\<close>

definition has_file ::
  "(string \<Rightarrow> directory) \<Rightarrow> digest_string_map \<Rightarrow> directory list \<Rightarrow> string list \<Rightarrow> file_node \<Rightarrow> bool" where
  "has_file parse dsMap roots segs f \<longleftrightarrow>
     (\<exists>r \<in> set roots. \<exists>d. at_path parse dsMap r segs d \<and> f \<in> set (files d))"

definition has_subdir ::
  "(string \<Rightarrow> directory) \<Rightarrow> digest_string_map \<Rightarrow> directory list \<Rightarrow> string list \<Rightarrow> directory_node \<Rightarrow> bool" where
  "has_subdir parse dsMap roots segs n \<longleftrightarrow>
     (\<exists>r \<in> set roots. \<exists>d. at_path parse dsMap r segs d \<and> n \<in> set (directories d))"

definition same_file :: "file_entry \<Rightarrow> file_node \<Rightarrow> bool" where
  "same_file g f \<longleftrightarrow> digest_eq (d_digest g) (fn_digest f) \<and> d_executable g = fn_is_executable f"

lemma good_trees_names:
  assumes "good_trees parse dsMap roots" "r \<in> set roots" "at_path parse dsMap r segs d"
  shows "\<forall>s \<in> set segs. good_name s"
    "f \<in> set (files d) \<Longrightarrow> good_name (fn_name f)" "n \<in> set (directories d) \<Longrightarrow> good_name (dn_name n)"
  using good_tree_segs [OF assms(3)] assms(1,2) by (auto simp: good_trees_def good_dir_def)

lemma flatten_has_file:
  assumes "flatten_both fuel parse dsMap (input # irest) (template # trest) = Some (Inr m)"
    and "has_file parse dsMap [input, template] segs f"
  shows "\<exists>obj. (path_of [] (segs @ [fn_name f]), obj) \<in> set m \<and> meta_eq_file obj f"
proof -
  obtain r d where r: "r = input \<or> r = template" "at_path parse dsMap r segs d" "f \<in> set (files d)"
    using assms(2) by (auto simp: has_file_def)
  then have "all_flat parse dsMap r [] m" using flatten_both_flat [OF assms(1)] by auto
  then have "file_flat m (path_of [] (segs @ [fn_name f])) f"
    using r(2,3) unfolding all_flat_def by blast
  then show ?thesis unfolding file_flat_def by (blast dest: map_of_SomeD)
qed

lemma flatten_file_origin:
  assumes "flatten_both fuel parse dsMap (input # irest) (template # trest) = Some (Inr m)"
    and "good_trees parse dsMap [input, template]" "(q, FileNodeMetaData q d x) \<in> set m"
  shows "\<exists>f. has_file parse dsMap [input, template] (path_dirs q) f \<and> fn_name f = path_name q \<and>
    fn_digest f = d \<and> fn_is_executable f = x"
proof -
  obtain r segs dir f where r: "r \<in> set [input, template]" "at_path parse dsMap r segs dir" "f \<in> set (files dir)"
    and q: "q = path_of [] (segs @ [fn_name f])" "fn_digest f = d" "fn_is_executable f = x"
    using flatten_both_flat [OF assms(1)] assms(3) unfolding from_tree_def
    by (fastforce simp del: path_of_simps)
  show ?thesis
    using path_of_dirs good_trees_names(1,2) [OF assms(2) r(1,2)] r q unfolding has_file_def by metis
qed

lemma flatten_subdir_origin:
  assumes "flatten_both fuel parse dsMap (input # irest) (template # trest) = Some (Inr m)"
    and "good_trees parse dsMap [input, template]" "(q, DirNodeMetaData p d) \<in> set m"
  shows "\<exists>n. has_subdir parse dsMap [input, template] (path_dirs q) n \<and> dn_name n = path_name q \<and> dn_digest n = d"
proof -
  obtain r segs dir n where r: "r \<in> set [input, template]" "at_path parse dsMap r segs dir" "n \<in> set (directories dir)"
    and q: "q = path_of [] (segs @ [dn_name n])" "dn_digest n = d"
    using flatten_both_flat [OF assms(1)] assms(3) unfolding from_tree_def
    by (fastforce simp del: path_of_simps)
  show ?thesis
    using path_of_dirs good_trees_names(1,3) [OF assms(2) r(1,2)] r q unfolding has_subdir_def by metis
qed

lemma merged_has_file:
  assumes "flatten_both fuel parse dsMap (input # irest) (template # trest) = Some (Inr m)"
    and "good_trees parse dsMap [input, template]" "mset (order m) = mset m"
    and "has_file parse dsMap [input, template] segs f"
  shows "(\<exists>g. file_at (merged_directory order m) segs (fn_name f) = Some g \<and> same_file g f) \<or>
    \<not> fn_is_executable f \<and>
    (digest_eq empty_digest (fn_digest f) \<or>
     (\<exists>n. has_subdir parse dsMap [input, template] segs n \<and> dn_name n = fn_name f \<and>
          digest_eq (dn_digest n) (fn_digest f)))"
proof -
  have wf: "pm_wf m" using flatten_both_wf [OF assms(1)] assms(2) by (simp add: good_trees_def)
  obtain obj where obj: "(path_of [] (segs @ [fn_name f]), obj) \<in> set m" "meta_eq_file obj f"
    using flatten_has_file [OF assms(1,4)] by blast
  have names: "\<forall>s \<in> set segs. good_name s" "good_name (fn_name f)"
    using assms(4) good_trees_names [OF assms(2)] unfolding has_file_def by blast+
  note path = path_of_dirs [OF names]
  show ?thesis
  proof (cases obj)
    case (FileNodeMetaData p d x)
    then have "p = path_of [] (segs @ [fn_name f])" using obj(1) wf by (auto simp: pm_wf_def)
    then have "file_at (merged_directory order m) segs (fn_name f) =
        Some \<lparr>d_digest = d, d_executable = x, d_mtime = None\<rparr>"
      using merged_directory_file [of m order] wf assms(3) obj(1) FileNodeMetaData path by auto
    then show ?thesis using obj(2) FileNodeMetaData by (auto simp: same_file_def meta_eq_file_def)
  next
    case (SymlinkNodeMetaData p t)
    then show ?thesis using obj(2) by (auto simp: meta_eq_file_def)
  next
    case (DirNodeMetaData p d)
    then show ?thesis
      using obj flatten_subdir_origin [OF assms(1,2)] path by (fastforce simp: meta_eq_file_def)
  qed
qed

text \<open>
  C30: A merge that succeeds loses no file: for every file of either tree the merged tree has
  at the same path a file with the same digest and executable flag, unless a symlink or
  directory node with the same digest hides it.  It has no other files either.
\<close>

theorem createMergedDigest_files:
  assumes "createMergedDigest fuel S parse H ts order blob_order (input # irest) (template # trest) blobs merged =
      Some (Inr (Some out))"
    and "\<forall>m. mset (order m) = mset m"
    and "good_trees parse (merge_dsMap S H (input # irest) (template # trest)) [input, template]"
  shows "\<exists>nd. mo_rootDigest out = fst (to_digest S H ts nd blobs) \<and>
    (\<forall>segs f. has_file parse (merge_dsMap S H (input # irest) (template # trest)) [input, template] segs f \<longrightarrow>
       (\<exists>g. file_at nd segs (fn_name f) = Some g \<and> same_file g f) \<or>
       \<not> fn_is_executable f \<and>
       (digest_eq empty_digest (fn_digest f) \<or>
        (\<exists>n. has_subdir parse (merge_dsMap S H (input # irest) (template # trest)) [input, template] segs n \<and>
             dn_name n = fn_name f \<and> digest_eq (dn_digest n) (fn_digest f)))) \<and>
    (\<forall>segs n g. file_at nd segs n = Some g \<longrightarrow>
       (\<exists>f. has_file parse (merge_dsMap S H (input # irest) (template # trest)) [input, template] segs f \<and>
            fn_name f = n \<and> same_file g f))"
proof -
  obtain m where m: "flatten_both fuel parse (merge_dsMap S H (input # irest) (template # trest))
      (input # irest) (template # trest) = Some (Inr m)"
    and out: "mo_rootDigest out = fst (to_digest S H ts (merged_directory order m) blobs)"
    by (rule createMergedDigest_SomeD [OF assms(1)])
  have wf: "pm_wf m" using flatten_both_wf [OF m] assms(3) by (simp add: good_trees_def)
  show ?thesis
  proof (intro exI [of _ "merged_directory order m"] conjI allI impI, goal_cases)
    case (2 segs f)
    then show ?case using merged_has_file [OF m assms(3)] assms(2) by blast
  next
    case (3 segs n g)
    then show ?case
      using flatten_file_origin [OF m assms(3)] merged_directory_file [of m order] wf assms(2)
      by (fastforce simp: same_file_def)
  qed (rule out)
qed

theorem createMergedDigest_files_witness:
  "\<exists>out nd g. sample_merge rev [sample_input, sample_sub] [sample_template] = Some (Inr (Some out)) \<and>
     mo_rootDigest out = fst (to_digest plain_serialize plain_digest (\<lambda>t. (t, 0)) nd (Some [])) \<and>
     file_at nd [''d''] ''a'' = Some g \<and> d_executable g"
proof -
  let ?ds = "merge_dsMap plain_serialize plain_digest [sample_input, sample_sub] [sample_template]"
  let ?f = "\<lparr>fn_name = ''a'', fn_digest = plain_digest ''1'', fn_is_executable = True, fn_mtime = None\<rparr>"
  have "\<not> (case sample_merge rev [sample_input, sample_sub] [sample_template] of Some (Inr (Some out)) \<Rightarrow> False | _ \<Rightarrow> True)"
    by code_simp
  then obtain out where out: "sample_merge rev [sample_input, sample_sub] [sample_template] = Some (Inr (Some out))"
    by (auto split: option.splits sum.splits)
  have find: "dmap_find ?ds (plain_digest (plain_serialize sample_sub)) = Some (plain_serialize sample_sub)"
    by code_simp
  have "at_path sample_parse ?ds sample_input [''d''] sample_sub"
    using at_sub [of "\<lparr>dn_name = ''d'', dn_digest = plain_digest (plain_serialize sample_sub)\<rparr>" sample_input
        ?ds "plain_serialize sample_sub" sample_parse "[]" sample_sub] find
    by (simp add: sample_input_def sample_parse_def)
  then have "has_file sample_parse ?ds [sample_input, sample_template] [''d''] ?f"
    unfolding has_file_def by (intro bexI [of _ sample_input] exI [of _ sample_sub]) (simp_all add: sample_sub_def)
  then show ?thesis
    using createMergedDigest_files [OF out _ sample_good] out by (fastforce simp: same_file_def)
qed

text \<open>
  C40: Collisions are detected, and the merge always returns: when two reached files have the same
  path and different digests or executable flags, \<^verbatim>\<open>createMergedDigest\<close> returns
  \<^verbatim>\<open>false\<close>, provided the recursion depth is enough for the depth of both trees.
\<close>

theorem createMergedDigest_detects_collision:
  assumes "has_file parse (merge_dsMap S H (input # irest) (template # trest)) [input, template] segs f"
    and "has_file parse (merge_dsMap S H (input # irest) (template # trest)) [input, template] segs f'"
    and "fn_name f = fn_name f'"
    and "\<not> digest_eq (fn_digest f) (fn_digest f') \<or> fn_is_executable f \<noteq> fn_is_executable f'"
    and "\<forall>r \<in> {input, template}. \<forall>segs d.
      at_path parse (merge_dsMap S H (input # irest) (template # trest)) r segs d \<longrightarrow> length segs < fuel"
  shows "createMergedDigest fuel S parse H ts order blob_order (input # irest) (template # trest) blobs merged =
    Some (Inr None)"
proof -
  let ?ds = "merge_dsMap S H (input # irest) (template # trest)"
  have none: "flatten_both fuel parse ?ds (input # irest) (template # trest) \<noteq> Some (Inr m)" for m
  proof
    assume m: "flatten_both fuel parse ?ds (input # irest) (template # trest) = Some (Inr m)"
    obtain a b where ab: "(path_of [] (segs @ [fn_name f]), a) \<in> set m" "meta_eq_file a f"
      "(path_of [] (segs @ [fn_name f]), b) \<in> set m" "meta_eq_file b f'"
      using flatten_has_file [OF m assms(1)] flatten_has_file [OF m assms(2)] assms(3) by auto
    then have "a = b" using flatten_both_distinct [OF m] eq_key_imp_eq_value by metis
    then show False using ab(2,4) assms(4) by (auto simp: meta_eq_file_def digest_eq_def)
  qed
  obtain r0 where r0: "buildFlattenedPath fuel parse ?ds input [] [] = Some r0"
    using buildFlattenedPath_returns [of parse ?ds input fuel] assms(5) by blast
  have r1: "\<exists>r. buildFlattenedPath fuel parse ?ds template [] m = Some r" for m
    using buildFlattenedPath_returns [of parse ?ds template fuel] assms(5) by blast
  have "flatten_both fuel parse ?ds (input # irest) (template # trest) = Some (Inl RuntimeError)"
  proof (cases r0)
    case (Inl e)
    then show ?thesis using r0 buildFlattenedPath_error [of fuel parse ?ds input] by (auto simp: flatten_both_def at0_def)
  next
    case (Inr m)
    obtain r where r: "buildFlattenedPath fuel parse ?ds template [] m = Some r" using r1 by blast
    have both: "flatten_both fuel parse ?ds (input # irest) (template # trest) = Some r"
      using r0 Inr r by (simp add: flatten_both_def at0_def)
    then show ?thesis
      using none buildFlattenedPath_error [of fuel parse ?ds template "[]" m] r by (cases r) auto
  qed
  then show ?thesis by (simp add: createMergedDigest_def Let_def)
qed

theorem createMergedDigest_detects_collision_witness:
  "sample_merge id [sample_template] [sample_clash] = Some (Inr None)"
proof -
  let ?ds = "merge_dsMap plain_serialize plain_digest [sample_template] [sample_clash]"
  have at: "at_path sample_parse ?ds r segs d \<longleftrightarrow> segs = [] \<and> d = r" if "r = sample_template \<or> r = sample_clash" for r segs d
    using that by (cases segs) (auto simp: at_path_Cons sample_template_def sample_clash_def)
  have f: "has_file sample_parse ?ds [sample_template, sample_clash] [] (hd (files sample_template))"
    "has_file sample_parse ?ds [sample_template, sample_clash] [] (hd (files sample_clash))"
    by (simp_all add: has_file_def at, simp_all add: sample_template_def sample_clash_def)
  show ?thesis
    by (rule createMergedDigest_detects_collision [OF f])
      (simp_all add: at, simp_all add: sample_template_def sample_clash_def digest_eq_def plain_digest_def)
qed

text \<open>
  What \<^verbatim>\<open>createMergedDigest\<close> does outside of the documented results.  With exactly one
  empty tree it does not return but throws \<^verbatim>\<open>std::out_of_range\<close>; a symlink of the
  template is dropped silently where the input has a file; and an empty file of the template is
  dropped silently where the input has an empty directory, since both have the digest of the
  empty blob.
\<close>

theorem createMergedDigest_undocumented:
  "sample_merge id [sample_input] [] = Some (Inl OutOfRange) \<and>
   map_option (map_sum id (map_option mo_rootDigest)) (sample_merge id [sample_template]
     [\<lparr>files = [], symlinks = [\<lparr>sn_name = ''b'', sn_target = ''x''\<rparr>], directories = []\<rparr>]) =
   map_option (map_sum id (map_option mo_rootDigest)) (sample_merge id [sample_template] [empty_directory]) \<and>
   map_option (map_sum id (map_option mo_rootDigest)) (sample_merge id
     [\<lparr>files = [], symlinks = [], directories = [\<lparr>dn_name = ''b'', dn_digest = plain_digest []\<rparr>]\<rparr>, empty_directory]
     [\<lparr>files = [\<lparr>fn_name = ''b'', fn_digest = plain_digest [], fn_is_executable = False, fn_mtime = None\<rparr>],
       symlinks = [], directories = []\<rparr>]) =
   map_option (map_sum id (map_option mo_rootDigest)) (sample_merge id
     [\<lparr>files = [], symlinks = [], directories = [\<lparr>dn_name = ''b'', dn_digest = plain_digest []\<rparr>]\<rparr>, empty_directory]
     [empty_directory])"
  by (intro conjI; code_simp)

end
