(* ===== verification/Retrier.thy ===== *)
theory Retrier
  imports Prelude Complex_Main
begin

text \<open>
  \<^verbatim>\<open>buildboxcommon_grpcretrier.cpp\<close> and \<^verbatim>\<open>buildboxcommon_grpcretry.cpp\<close>: issuing a
  gRPC request until it has a final answer or a limit of attempts is reached.

  A call is a function of the client context and of the state of the world (the server, the
  files and the variables the call captures by reference); it returns a status or throws, and
  the new state.  The delay between attempts is the base times the powers of \<open>1.6\<close>, as a
  rational number of milliseconds; the rounding of the floating point type is not modelled.
  Both loops are total: the attempts that remain decrease.

  The locale \<open>retried_call\<close> is the contract with which the clients of the retriers reason
  about a request: what one call keeps and establishes, the whole request does.
\<close>

section \<open>Calls\<close>

text \<open>
  A status and, when its error details hold a \<^verbatim>\<open>RetryInfo\<close> message, the delay the
  server asks for in milliseconds.
\<close>

record grpc_status =
  error_code :: status_code
  retry_info :: "int option"

definition ok :: "grpc_status \<Rightarrow> bool" where
  "ok st \<longleftrightarrow> error_code st = OK"

definition status_of :: "status_code \<Rightarrow> grpc_status" where
  "status_of c = \<lparr>error_code = c, retry_info = None\<rparr>"

text \<open>A client context is the list of the metadata added to it.\<close>

type_synonym client_context = "(string \<times> string) list"
type_synonym 's call = "client_context \<Rightarrow> 's \<Rightarrow> grpc_status result \<times> 's"
type_synonym attacher = "client_context \<Rightarrow> client_context"

section \<open>GrpcRetrier\<close>

record grpc_retrier =
  d_retryLimit :: nat
  d_retryDelayBase :: int
  d_retryableStatusCodes :: "status_code list"
  d_metadataAttacher :: "attacher option"
  d_status :: grpc_status
  d_retryAttempts :: nat

text \<open>The constructor always adds \<^verbatim>\<open>UNAVAILABLE\<close>.\<close>

definition new_retrier :: "nat \<Rightarrow> int \<Rightarrow> status_code list \<Rightarrow> grpc_retrier" where
  "new_retrier retryLimit retryDelayBase retryableStatusCodes =
     \<lparr>d_retryLimit = retryLimit, d_retryDelayBase = retryDelayBase,
      d_retryableStatusCodes = List.insert UNAVAILABLE retryableStatusCodes,
      d_metadataAttacher = None, d_status = status_of OK, d_retryAttempts = 0\<rparr>"

definition setMetadataAttacher :: "attacher \<Rightarrow> grpc_retrier \<Rightarrow> grpc_retrier" where
  "setMetadataAttacher a r = r\<lparr>d_metadataAttacher := Some a\<rparr>"

definition statusIsRetryable :: "grpc_retrier \<Rightarrow> grpc_status \<Rightarrow> bool" where
  "statusIsRetryable r st \<longleftrightarrow> error_code st \<in> set (d_retryableStatusCodes r)"

definition attach :: "attacher option \<Rightarrow> client_context" where
  "attach a = (case a of None \<Rightarrow> [] | Some f \<Rightarrow> f [])"

definition override_delay :: "grpc_retrier \<Rightarrow> grpc_retrier" where
  "override_delay r =
     (case retry_info (d_status r) of
        Some serverDelay \<Rightarrow>
          if d_retryAttempts r = 0 \<and> serverDelay > 0 then r\<lparr>d_retryDelayBase := serverDelay\<rparr> else r
      | None \<Rightarrow> r)"

definition retry_delay :: "int \<Rightarrow> nat \<Rightarrow> rat" where
  "retry_delay base n = of_int base * (8 / 5) ^ n"

text \<open>\<^verbatim>\<open>static_cast<int>\<close> of a delay drops the fraction.\<close>

definition truncate_delay :: "rat \<Rightarrow> rat" where
  "truncate_delay q = of_int (if q < 0 then \<lceil>q\<rceil> else \<lfloor>q\<rfloor>)"

text \<open>The result of a request: whether it was answered, the retrier, the state and the delays slept.\<close>

record 's issued =
  i_result :: "bool result"
  i_retrier :: grpc_retrier
  i_state :: 's
  i_sleeps :: "rat list"

lemma override_delay_sel [simp]:
  "d_retryLimit (override_delay r) = d_retryLimit r"
  "d_retryAttempts (override_delay r) = d_retryAttempts r"
  "d_retryableStatusCodes (override_delay r) = d_retryableStatusCodes r"
  "d_metadataAttacher (override_delay r) = d_metadataAttacher r"
  "d_status (override_delay r) = d_status r"
  by (simp_all add: override_delay_def split: option.split)

function issue_loop :: "'s call \<Rightarrow> grpc_retrier \<Rightarrow> 's \<Rightarrow> rat list \<Rightarrow> 's issued" where
  "issue_loop call r s sleeps =
     (case call (attach (d_metadataAttacher r)) s of
        (Inl e, s') \<Rightarrow> \<lparr>i_result = Inl e, i_retrier = r, i_state = s', i_sleeps = sleeps\<rparr>
      | (Inr st, s') \<Rightarrow>
          (let r1 = r\<lparr>d_status := st\<rparr>
           in if ok st \<or> \<not> statusIsRetryable r1 st
              then \<lparr>i_result = Inr True, i_retrier = r1, i_state = s', i_sleeps = sleeps\<rparr>
              else
                (let r2 = override_delay r1
                 in if d_retryAttempts r2 \<ge> d_retryLimit r2
                    then \<lparr>i_result = Inr False, i_retrier = r2, i_state = s', i_sleeps = sleeps\<rparr>
                    else issue_loop call (r2\<lparr>d_retryAttempts := d_retryAttempts r2 + 1\<rparr>) s'
                           (sleeps @ [retry_delay (d_retryDelayBase r2) (d_retryAttempts r2)]))))"
  by pat_completeness auto

termination
  by (relation "measure (\<lambda>(call, r, s, sl). d_retryLimit r - d_retryAttempts r)") auto

declare issue_loop.simps [simp del]

definition issueRequest :: "'s call \<Rightarrow> grpc_retrier \<Rightarrow> 's \<Rightarrow> 's issued" where
  "issueRequest call r s = issue_loop call (r\<lparr>d_retryAttempts := 0\<rparr>) s []"

text \<open>Every attempt of a request is made with the context that the attacher of the retrier makes.\<close>

lemma issue_loop_context:
  "d_metadataAttacher r = a \<Longrightarrow> issue_loop call r s sl = issue_loop (\<lambda>_. call (attach a)) r s sl"
proof (induction call r s sl rule: issue_loop.induct)
  case (1 call r s sl)
  then show ?case by (subst (1 2) issue_loop.simps) (auto simp: Let_def split: prod.split sum.split)
qed

text \<open>What every call keeps, a request keeps.\<close>

lemma issue_loop_keeps:
  fixes keep :: "'s \<Rightarrow> bool"
  assumes "\<And>c s. keep s \<Longrightarrow> keep (snd (call c s))"
  shows "keep s \<Longrightarrow> keep (i_state (issue_loop call r s sl))"
  using assms
proof (induction call r s sl rule: issue_loop.induct)
  case (1 call r s sl)
  obtain res s' where call: "call (attach (d_metadataAttacher r)) s = (res, s')" by fastforce
  then have keep: "keep s'" using "1.prems" by (metis snd_conv)
  show ?case
    using call keep "1.IH" [OF call [symmetric] _ refl _ refl _ keep "1.prems"(2)]
    by (cases res) (auto simp: issue_loop.simps [of call r s sl] Let_def)
qed

text \<open>\<^verbatim>\<open>GrpcRetrierFactory\<close>.\<close>

record grpc_retrier_factory =
  f_retryLimit :: nat
  f_retryDelayBase :: int
  f_metadataAttacher :: "attacher option"

definition factory_makeRetrier :: "grpc_retrier_factory \<Rightarrow> status_code list \<Rightarrow> grpc_retrier" where
  "factory_makeRetrier f retryableStatusCodes =
     (let retrier = new_retrier (f_retryLimit f) (f_retryDelayBase f) retryableStatusCodes
      in case f_metadataAttacher f of None \<Rightarrow> retrier | Some a \<Rightarrow> setMetadataAttacher a retrier)"

section \<open>GrpcRetry\<close>

text \<open>
  The older interface throws a \<^verbatim>\<open>GrpcError\<close> for every answer that is not OK.
  \<open>grpcRetryLimit\<close> is a signed integer.
\<close>

function retry_loop ::
  "'s call \<Rightarrow> int \<Rightarrow> int \<Rightarrow> attacher \<Rightarrow> status_code list \<Rightarrow> int \<Rightarrow> 's \<Rightarrow> rat list \<Rightarrow> unit result \<times> 's \<times> rat list" where
  "retry_loop call grpcRetryLimit grpcRetryDelay metadataAttacher errorsToRetryOn nAttempts s sleeps =
     (case call (metadataAttacher []) s of
        (Inl e, s') \<Rightarrow> (Inl e, s', sleeps)
      | (Inr st, s') \<Rightarrow>
          if ok st then (Inr (), s', sleeps)
          else if error_code st \<in> set errorsToRetryOn
          then
            (let sleeps' = (if nAttempts < grpcRetryLimit
                            then sleeps @ [truncate_delay (retry_delay grpcRetryDelay (nat nAttempts))] else sleeps);
                 nAttempts' = nAttempts + 1
             in if nAttempts' < grpcRetryLimit + 1
                then retry_loop call grpcRetryLimit grpcRetryDelay metadataAttacher errorsToRetryOn nAttempts' s' sleeps'
                else (Inl (GrpcError (error_code st)), s', sleeps'))
          else (Inl (GrpcError (error_code st)), s', sleeps))"
  by pat_completeness auto
termination
  by (relation "measure (\<lambda>(call, lim, del, a, cs, n, s, sl). nat (lim + 1 - n))") auto

declare retry_loop.simps [simp del]

definition grpcRetry ::
  "'s call \<Rightarrow> int \<Rightarrow> int \<Rightarrow> attacher \<Rightarrow> status_code list \<Rightarrow> 's \<Rightarrow> unit result \<times> 's \<times> rat list" where
  "grpcRetry call grpcRetryLimit grpcRetryDelay metadataAttacher errorsToRetryOn s =
     retry_loop call grpcRetryLimit grpcRetryDelay metadataAttacher
       (List.insert UNAVAILABLE errorsToRetryOn) 0 s []"

text \<open>The forms without a metadata attacher pass one that does nothing.\<close>

definition grpcRetry_plain ::
  "'s call \<Rightarrow> int \<Rightarrow> int \<Rightarrow> status_code list \<Rightarrow> 's \<Rightarrow> unit result \<times> 's \<times> rat list" where
  "grpcRetry_plain call grpcRetryLimit grpcRetryDelay errorsToRetryOn =
     grpcRetry call grpcRetryLimit grpcRetryDelay (\<lambda>context. context) errorsToRetryOn"

section \<open>Issuing a request and throwing on errors\<close>

text \<open>
  \<^verbatim>\<open>Client::issueRequestAndThrowOnErrors\<close>, for a retrier that has been configured:
  the status of every request that is not answered with OK is thrown as a
  \<^verbatim>\<open>GrpcError\<close>.
\<close>

definition issueRequestAndThrowOnErrors :: "grpc_retrier \<Rightarrow> 's call \<Rightarrow> 's \<Rightarrow> unit result \<times> 's" where
  "issueRequestAndThrowOnErrors r call s =
     (let i = issueRequest call r s
      in case i_result i of
           Inl e \<Rightarrow> (Inl e, i_state i)
         | Inr answered \<Rightarrow>
             if \<not> answered \<or> \<not> ok (d_status (i_retrier i))
             then (Inl (GrpcError (error_code (d_status (i_retrier i)))), i_state i)
             else (Inr (), i_state i))"

section \<open>The sequence of answers\<close>

text \<open>The state before the \<open>k\<close>-th call of a sequence of calls and the answer of that call.\<close>

primrec after :: "'s call \<Rightarrow> client_context \<Rightarrow> 's \<Rightarrow> nat \<Rightarrow> 's" where
  "after call c s 0 = s"
| "after call c s (Suc k) = snd (call c (after call c s k))"

definition answer :: "'s call \<Rightarrow> client_context \<Rightarrow> 's \<Rightarrow> nat \<Rightarrow> grpc_status result" where
  "answer call c s k = fst (call c (after call c s k))"

definition transient :: "status_code list \<Rightarrow> grpc_status result \<Rightarrow> bool" where
  "transient codes a \<longleftrightarrow> (case a of Inl _ \<Rightarrow> False | Inr st \<Rightarrow> \<not> ok st \<and> error_code st \<in> set codes)"

text \<open>The base of the delays: the one of the retrier unless the first answer overrides it.\<close>

definition base_after :: "int \<Rightarrow> grpc_status result \<Rightarrow> int" where
  "base_after base a =
     (case a of Inr st \<Rightarrow> (case retry_info st of Some d \<Rightarrow> if d > 0 then d else base | None \<Rightarrow> base) | Inl _ \<Rightarrow> base)"

lemma after_shift: "after call c (snd (call c s)) k = after call c s (Suc k)"
  by (induction k) simp_all

lemma answer_shift: "answer call c (snd (call c s)) k = answer call c s (Suc k)"
  by (simp add: answer_def after_shift del: after.simps)

lemma after_1: "after call c (after call c s (Suc 0)) k = after call c s (Suc k)"
  using after_shift [of call c s k] by simp

lemma answer_0: "answer call c s 0 = fst (call c s)"
  by (simp add: answer_def)

definition loop_base :: "grpc_retrier \<Rightarrow> grpc_status result \<Rightarrow> int" where
  "loop_base r a = (if d_retryAttempts r = 0 then base_after (d_retryDelayBase r) a else d_retryDelayBase r)"

text \<open>One turn of the loop, after a transient answer and after a final one.\<close>

lemma issue_loop_transient:
  assumes "transient (d_retryableStatusCodes r) (answer call (attach (d_metadataAttacher r)) s 0)"
    and "d_retryAttempts r < d_retryLimit r"
  shows "\<exists>r'. issue_loop call r s sleeps =
      issue_loop call r' (after call (attach (d_metadataAttacher r)) s 1)
        (sleeps @ [retry_delay (d_retryDelayBase r') (d_retryAttempts r)]) \<and>
      d_retryAttempts r' = d_retryAttempts r + 1 \<and> d_retryLimit r' = d_retryLimit r \<and>
      d_retryableStatusCodes r' = d_retryableStatusCodes r \<and> d_metadataAttacher r' = d_metadataAttacher r \<and>
      d_retryDelayBase r' = loop_base r (answer call (attach (d_metadataAttacher r)) s 0)"
proof -
  obtain st s' where call: "call (attach (d_metadataAttacher r)) s = (Inr st, s')"
    and st: "\<not> ok st" "error_code st \<in> set (d_retryableStatusCodes r)"
    using assms(1) by (cases "call (attach (d_metadataAttacher r)) s")
      (auto simp: answer_0 transient_def split: sum.splits)
  let ?r = "override_delay (r\<lparr>d_status := st\<rparr>)"
  show ?thesis
  proof (intro exI conjI)
    show "issue_loop call r s sleeps =
      issue_loop call (?r\<lparr>d_retryAttempts := d_retryAttempts ?r + 1\<rparr>) (after call (attach (d_metadataAttacher r)) s 1)
        (sleeps @ [retry_delay (d_retryDelayBase (?r\<lparr>d_retryAttempts := d_retryAttempts ?r + 1\<rparr>)) (d_retryAttempts r)])"
      using call st assms(2) by (subst issue_loop.simps) (simp add: Let_def statusIsRetryable_def)
  qed (use call in \<open>simp_all add: loop_base_def base_after_def answer_0 override_delay_def split: option.split\<close>)
qed

lemma issue_loop_last:
  assumes "\<not> transient (d_retryableStatusCodes r) (answer call (attach (d_metadataAttacher r)) s 0)"
  shows "i_result (issue_loop call r s sleeps) = map_sum id (\<lambda>_. True) (answer call (attach (d_metadataAttacher r)) s 0) \<and>
    i_state (issue_loop call r s sleeps) = after call (attach (d_metadataAttacher r)) s 1 \<and>
    d_retryAttempts (i_retrier (issue_loop call r s sleeps)) = d_retryAttempts r \<and>
    (\<forall>st. answer call (attach (d_metadataAttacher r)) s 0 = Inr st \<longrightarrow> d_status (i_retrier (issue_loop call r s sleeps)) = st) \<and>
    i_sleeps (issue_loop call r s sleeps) = sleeps"
  using assms
  by (cases "call (attach (d_metadataAttacher r)) s")
    (auto simp: issue_loop.simps [of call r s sleeps] Let_def answer_0 transient_def statusIsRetryable_def split: sum.splits)

lemma issue_loop_limit:
  assumes "transient (d_retryableStatusCodes r) (answer call (attach (d_metadataAttacher r)) s 0)"
    and "d_retryAttempts r \<ge> d_retryLimit r"
  shows "i_result (issue_loop call r s sleeps) = Inr False \<and>
    i_state (issue_loop call r s sleeps) = after call (attach (d_metadataAttacher r)) s 1 \<and>
    d_retryAttempts (i_retrier (issue_loop call r s sleeps)) = d_retryAttempts r \<and>
    answer call (attach (d_metadataAttacher r)) s 0 = Inr (d_status (i_retrier (issue_loop call r s sleeps))) \<and>
    i_sleeps (issue_loop call r s sleeps) = sleeps"
  using assms
  by (cases "call (attach (d_metadataAttacher r)) s")
    (auto simp: issue_loop.simps [of call r s sleeps] Let_def answer_0 transient_def statusIsRetryable_def split: sum.splits)

text \<open>The loop after \<open>k\<close> transient answers.\<close>

lemma issue_loop_skip:
  assumes "\<forall>j<k. transient (d_retryableStatusCodes r) (answer call (attach (d_metadataAttacher r)) s j)"
    and "d_retryAttempts r + k \<le> d_retryLimit r"
  shows "\<exists>r'. issue_loop call r s sleeps =
      issue_loop call r' (after call (attach (d_metadataAttacher r)) s k)
        (sleeps @ map (\<lambda>j. retry_delay (loop_base r (answer call (attach (d_metadataAttacher r)) s 0)) (d_retryAttempts r + j)) [0..<k]) \<and>
      d_retryAttempts r' = d_retryAttempts r + k \<and> d_retryLimit r' = d_retryLimit r \<and>
      d_retryableStatusCodes r' = d_retryableStatusCodes r \<and> d_metadataAttacher r' = d_metadataAttacher r"
  using assms
proof (induction k arbitrary: r s sleeps)
  case (Suc k)
  let ?c = "attach (d_metadataAttacher r)"
  obtain r1 where r1: "issue_loop call r s sleeps = issue_loop call r1 (after call ?c s 1)
        (sleeps @ [retry_delay (d_retryDelayBase r1) (d_retryAttempts r)])"
    and f1: "d_retryAttempts r1 = d_retryAttempts r + 1" "d_retryLimit r1 = d_retryLimit r"
      "d_retryableStatusCodes r1 = d_retryableStatusCodes r" "d_metadataAttacher r1 = d_metadataAttacher r"
      "d_retryDelayBase r1 = loop_base r (answer call ?c s 0)"
    using issue_loop_transient [of r call s sleeps] Suc.prems by auto
  have base: "loop_base r1 a = loop_base r (answer call ?c s 0)" for a
    using f1 by (simp add: loop_base_def [of r1])
  have tr: "\<forall>j<k. transient (d_retryableStatusCodes r1) (answer call (attach (d_metadataAttacher r1)) (after call ?c s 1) j)"
    using Suc.prems(1) f1 by (auto simp: answer_shift)
  have upt: "[0..<Suc k] = 0 # map Suc [0..<k]" by (simp add: upt_conv_Cons map_Suc_upt del: upt_Suc)
  show ?case
    using Suc.IH [OF tr, of "sleeps @ [retry_delay (d_retryDelayBase r1) (d_retryAttempts r)]"] Suc.prems(2) f1
    unfolding r1 base by (simp add: upt after_1 comp_def del: upt_Suc after.simps)
qed (auto intro: exI [of _ r])

text \<open>A server that answers from the third call on, for evaluation.\<close>

definition flaky :: "nat \<Rightarrow> nat call" where
  "flaky n c k = (Inr (if k < n then \<lparr>error_code = UNAVAILABLE, retry_info = Some 40\<rparr> else status_of OK), k + 1)"

lemma flaky_after: "after (flaky n) c 0 k = k"
  by (induction k) (simp_all add: flaky_def)

lemma flaky_transient: "transient [UNAVAILABLE] (answer (flaky n) c 0 k) \<longleftrightarrow> k < n"
  by (simp add: answer_def flaky_after) (simp add: flaky_def transient_def ok_def status_of_def)

lemma issue_answered:
  fixes call :: "'s call"
  assumes "k \<le> d_retryLimit r"
    and "\<forall>j<k. transient (d_retryableStatusCodes r) (answer call (attach (d_metadataAttacher r)) s j)"
    and "\<not> transient (d_retryableStatusCodes r) (answer call (attach (d_metadataAttacher r)) s k)"
  shows "i_result (issueRequest call r s) = map_sum id (\<lambda>_. True) (answer call (attach (d_metadataAttacher r)) s k) \<and>
    i_state (issueRequest call r s) = after call (attach (d_metadataAttacher r)) s (Suc k) \<and>
    d_retryAttempts (i_retrier (issueRequest call r s)) = k \<and>
    (\<forall>st. answer call (attach (d_metadataAttacher r)) s k = Inr st \<longrightarrow> d_status (i_retrier (issueRequest call r s)) = st) \<and>
    i_sleeps (issueRequest call r s) =
      map (retry_delay (base_after (d_retryDelayBase r) (answer call (attach (d_metadataAttacher r)) s 0))) [0..<k]"
proof -
  let ?r = "r\<lparr>d_retryAttempts := 0\<rparr>" and ?c = "attach (d_metadataAttacher r)"
  obtain r' where r': "issueRequest call r s = issue_loop call r' (after call ?c s k)
      (map (retry_delay (base_after (d_retryDelayBase r) (answer call ?c s 0))) [0..<k])"
    "d_retryAttempts r' = k" "d_retryableStatusCodes r' = d_retryableStatusCodes r" "d_metadataAttacher r' = d_metadataAttacher r"
    using issue_loop_skip [of k ?r call s "[]"] assms by (auto simp: issueRequest_def loop_base_def)
  have "answer call ?c (after call ?c s k) 0 = answer call ?c s k" by (simp add: answer_def)
  then show ?thesis
    using issue_loop_last [of r' call "after call ?c s k"] assms(3) r' by simp
qed

lemma request_outcome:
  fixes call :: "'s call"
  assumes "k \<le> d_retryLimit r"
    and "\<forall>j<k. transient (d_retryableStatusCodes r) (answer call (attach (d_metadataAttacher r)) s j)"
    and "\<not> transient (d_retryableStatusCodes r) (answer call (attach (d_metadataAttacher r)) s k)"
  shows "issueRequestAndThrowOnErrors r call s =
    (case answer call (attach (d_metadataAttacher r)) s k of
       Inl e \<Rightarrow> Inl e
     | Inr st \<Rightarrow> if ok st then Inr () else Inl (GrpcError (error_code st)),
     after call (attach (d_metadataAttacher r)) s (Suc k))"
  using issue_answered [OF assms]
  by (auto simp: issueRequestAndThrowOnErrors_def Let_def split: sum.split simp del: after.simps)

text \<open>
  \<^verbatim>\<open>GrpcRetrier::issueRequest\<close> stops at the first answer that is not a retryable
  error, if that is among the first \<^verbatim>\<open>retryLimit + 1\<close> calls: exactly those calls are made,
  the request counts as answered (or the exception of the call is passed on), \<^verbatim>\<open>status()\<close>
  is the last status, \<^verbatim>\<open>retryAttempts()\<close> the number of repetitions, and the delays
  between the calls grow by the factor \<open>1.6\<close> from the base, which the first answer of
  the server may override.
\<close>

theorem issueRequest_answered:
  fixes call :: "'s call"
  assumes "k \<le> d_retryLimit r"
    and "\<forall>j<k. transient (d_retryableStatusCodes r) (answer call (attach (d_metadataAttacher r)) s j)"
    and "\<not> transient (d_retryableStatusCodes r) (answer call (attach (d_metadataAttacher r)) s k)"
  shows "i_result (issueRequest call r s) = map_sum id (\<lambda>_. True) (answer call (attach (d_metadataAttacher r)) s k) \<and>
    i_state (issueRequest call r s) = after call (attach (d_metadataAttacher r)) s (Suc k) \<and>
    d_retryAttempts (i_retrier (issueRequest call r s)) = k \<and>
    (\<forall>st. answer call (attach (d_metadataAttacher r)) s k = Inr st \<longrightarrow> d_status (i_retrier (issueRequest call r s)) = st) \<and>
    i_sleeps (issueRequest call r s) =
      map (retry_delay (base_after (d_retryDelayBase r) (answer call (attach (d_metadataAttacher r)) s 0))) [0..<k]"
  using issue_answered [OF assms] .

theorem issueRequest_answered_witness:
  "i_result (issueRequest (flaky 2) (new_retrier 3 100 []) 0) = Inr True \<and>
   i_state (issueRequest (flaky 2) (new_retrier 3 100 []) 0) = 3 \<and>
   i_sleeps (issueRequest (flaky 2) (new_retrier 3 100 []) 0) = [40, 64]"
proof -
  have "answer (flaky 2) [] 0 2 = Inr (status_of OK)"
    "answer (flaky 2) [] 0 0 = Inr \<lparr>error_code = UNAVAILABLE, retry_info = Some 40\<rparr>"
    by (simp_all add: answer_def flaky_after) (simp_all add: flaky_def)
  moreover have "\<forall>j<2. transient [UNAVAILABLE] (answer (flaky 2) [] 0 j)"
    "\<not> transient [UNAVAILABLE] (answer (flaky 2) [] 0 2)"
    by (simp_all only: flaky_transient) simp
  ultimately show ?thesis
    using issueRequest_answered [of 2 "new_retrier 3 100 []" "flaky 2" 0]
    by (simp add: new_retrier_def attach_def flaky_after base_after_def retry_delay_def upt_rec del: after.simps)
qed

text \<open>
  When the first \<^verbatim>\<open>retryLimit + 1\<close> answers are all retryable errors,
  \<^verbatim>\<open>issueRequest\<close> makes exactly these calls and returns \<^verbatim>\<open>false\<close> with the
  last of the errors as its status.
\<close>

theorem issueRequest_exhausted:
  fixes call :: "'s call"
  assumes "\<forall>j\<le>d_retryLimit r. transient (d_retryableStatusCodes r) (answer call (attach (d_metadataAttacher r)) s j)"
  shows "i_result (issueRequest call r s) = Inr False \<and>
    i_state (issueRequest call r s) = after call (attach (d_metadataAttacher r)) s (Suc (d_retryLimit r)) \<and>
    d_retryAttempts (i_retrier (issueRequest call r s)) = d_retryLimit r \<and>
    answer call (attach (d_metadataAttacher r)) s (d_retryLimit r) = Inr (d_status (i_retrier (issueRequest call r s)))"
proof -
  let ?r = "r\<lparr>d_retryAttempts := 0\<rparr>" and ?c = "attach (d_metadataAttacher r)" and ?k = "d_retryLimit r"
  obtain r' sl where r': "issueRequest call r s = issue_loop call r' (after call ?c s ?k) sl"
    "d_retryAttempts r' = ?k" "d_retryLimit r' = ?k" "d_retryableStatusCodes r' = d_retryableStatusCodes r"
    "d_metadataAttacher r' = d_metadataAttacher r"
    using issue_loop_skip [of ?k ?r call s "[]"] assms by (auto simp: issueRequest_def)
  have "answer call ?c (after call ?c s ?k) 0 = answer call ?c s ?k" by (simp add: answer_def)
  then show ?thesis
    using issue_loop_limit [of r' call "after call ?c s ?k" sl] assms r' by simp
qed

theorem issueRequest_exhausted_witness:
  "i_result (issueRequest (flaky 5) (new_retrier 3 100 []) 0) = Inr False \<and>
   i_state (issueRequest (flaky 5) (new_retrier 3 100 []) 0) = 4"
  using issueRequest_exhausted [of "new_retrier 3 100 []" "flaky 5" 0]
  by (simp add: new_retrier_def attach_def flaky_transient flaky_after del: after.simps)

section \<open>The older interface\<close>

lemma retry_loop_issue:
  assumes "d_metadataAttacher r = Some a" "d_retryAttempts r \<le> d_retryLimit r"
  shows "(case retry_loop call (int (d_retryLimit r)) delay a (d_retryableStatusCodes r) (int (d_retryAttempts r)) s sl
          of (res, s', sl') \<Rightarrow> (res, s')) =
    (let i = issue_loop call r s sl'
     in case i_result i of
          Inl e \<Rightarrow> (Inl e, i_state i)
        | Inr answered \<Rightarrow>
            if \<not> answered \<or> \<not> ok (d_status (i_retrier i))
            then (Inl (GrpcError (error_code (d_status (i_retrier i)))), i_state i)
            else (Inr (), i_state i))"
  using assms
proof (induction call r s sl' arbitrary: sl rule: issue_loop.induct)
  case (1 call r s sl')
  obtain res s' where call: "call (a []) s = (res, s')" by fastforce
  have ctx: "attach (d_metadataAttacher r) = a []" using "1.prems"(1) by (simp add: attach_def)
  note loops = retry_loop.simps [of call _ _ _ _ "int (d_retryAttempts r)"] issue_loop.simps [of call r s]
  show ?case
  proof (cases res)
    case (Inl e)
    then show ?thesis using call ctx by (simp add: loops)
  next
    case (Inr st)
    let ?r = "override_delay (r\<lparr>d_status := st\<rparr>)"
    show ?thesis
    proof (cases "ok st \<or> error_code st \<notin> set (d_retryableStatusCodes r) \<or> d_retryLimit r \<le> d_retryAttempts r")
      case True
      then show ?thesis
        using call ctx Inr "1.prems"(2) by (auto simp: loops Let_def statusIsRetryable_def)
    next
      case False
      let ?r' = "?r\<lparr>d_retryAttempts := d_retryAttempts ?r + 1\<rparr>"
      let ?sl = "sl @ [truncate_delay (retry_delay delay (d_retryAttempts r))]"
      let ?sl' = "sl' @ [retry_delay (d_retryDelayBase ?r) (d_retryAttempts ?r)]"
      have old: "retry_loop call (int (d_retryLimit r)) delay a (d_retryableStatusCodes r) (int (d_retryAttempts r)) s sl =
          retry_loop call (int (d_retryLimit ?r')) delay a (d_retryableStatusCodes ?r') (int (d_retryAttempts ?r')) s' ?sl"
        using call Inr False by (simp add: loops(1) [of "int (d_retryLimit r)"] Let_def add.commute)
      have new: "issue_loop call r s sl' = issue_loop call ?r' s' ?sl'"
        using call ctx Inr False by (simp add: loops(2) Let_def statusIsRetryable_def)
      show ?thesis
        unfolding old new using call ctx Inr False "1.prems"
        by (intro "1.IH" [OF _ Inr refl _ refl]) (simp_all add: statusIsRetryable_def)
    qed
  qed
qed


section \<open>The contract of a request\<close>

text \<open>
  A call keeps \<open>inv\<close> when its answer is an error, so that it can be repeated, and establishes
  \<open>post\<close> when its answer is OK.
\<close>

locale retried_call =
  fixes call :: "'s call" and inv :: "'s \<Rightarrow> bool" and post :: "'s \<Rightarrow> bool"
  assumes call_keeps: "inv s \<Longrightarrow> fst (call c s) = Inr st \<Longrightarrow> \<not> ok st \<Longrightarrow> inv (snd (call c s))"
    and call_establishes: "inv s \<Longrightarrow> fst (call c s) = Inr st \<Longrightarrow> ok st \<Longrightarrow> post (snd (call c s))"
begin

lemma loop_establishes:
  "inv s \<Longrightarrow> i_result (issue_loop call r s sl) = Inr True \<Longrightarrow>
   ok (d_status (i_retrier (issue_loop call r s sl))) \<Longrightarrow> post (i_state (issue_loop call r s sl))"
  using call_keeps call_establishes
proof (induction call r s sl rule: issue_loop.induct)
  case (1 call r s sl)
  let ?c = "attach (d_metadataAttacher r)"
  obtain res s' where call: "call ?c s = (res, s')" by fastforce
  show ?case
  proof (cases res)
    case (Inl e)
    then show ?thesis using call "1.prems"(2) by (simp add: issue_loop.simps [of call r s sl])
  next
    case (Inr st)
    show ?thesis
    proof (cases "ok st")
      case True
      then show ?thesis
        using call Inr "1.prems"(1) "1.prems"(5) [of s ?c st] by (simp add: issue_loop.simps [of call r s sl] Let_def)
    next
      case False
      then have inv: "inv s'" using call Inr "1.prems"(1) "1.prems"(4) [of s ?c st] by simp
      show ?thesis
        using call Inr False "1.prems"(2,3) "1.IH" [OF call [symmetric] Inr refl _ refl _ inv _ _ "1.prems"(4,5)]
        by (auto simp: issue_loop.simps [of call r s sl] Let_def split: if_splits)
    qed
  qed
qed

lemma request_establishes:
  "inv s \<Longrightarrow> fst (issueRequestAndThrowOnErrors r call s) = Inr () \<Longrightarrow>
   post (snd (issueRequestAndThrowOnErrors r call s))"
  using loop_establishes [of s "r\<lparr>d_retryAttempts := 0\<rparr>" "[]"]
  by (auto simp: issueRequestAndThrowOnErrors_def issueRequest_def Let_def split: sum.splits if_splits)

end

end
