(* ===== verification/Blake3_Compress.thy ===== *)
theory Blake3_Compress
  imports Prelude "HOL-Library.Word"
begin

unbundle bit_operations_syntax

text \<open>
  \<^verbatim>\<open>blake3_impl.h\<close> and \<^verbatim>\<open>blake3_portable.cpp\<close>: the bit operations, the conversions between bytes and words
  and the compression function of BLAKE3, with \<^verbatim>\<open>blake3_dispatch.cpp\<close>, where only the portable functions are left.

  Bytes are \<open>8 word\<close>, the words of the state \<open>32 word\<close>; arrays are lists of their size.  Counts of bytes and
  chunks are natural numbers.  As in the code, the compression does not use the counter it is given.
\<close>

type_synonym byte = "8 word"
type_synonym cv_words = "32 word list"

section \<open>Flags and constants\<close>

definition CHUNK_START :: byte where "CHUNK_START = 1"
definition CHUNK_END :: byte where "CHUNK_END = 2"
definition PARENT :: byte where "PARENT = 4"
definition ROOT :: byte where "ROOT = 8"
definition KEYED_HASH :: byte where "KEYED_HASH = 16"
definition DERIVE_KEY_CONTEXT :: byte where "DERIVE_KEY_CONTEXT = 32"
definition DERIVE_KEY_MATERIAL :: byte where "DERIVE_KEY_MATERIAL = 64"

definition IV :: cv_words where
  "IV = [0x6A09E667, 0xBB67AE85, 0x3C6EF372, 0xA54FF53A, 0x510E527F, 0x9B05688C, 0x1F83D9AB, 0x5BE0CD19]"

definition MSG_SCHEDULE :: "nat list list" where
  "MSG_SCHEDULE =
     [[0, 1, 2, 3, 4, 5, 6, 7, 8, 9, 10, 11, 12, 13, 14, 15],
      [2, 6, 3, 10, 7, 0, 4, 13, 1, 11, 12, 5, 9, 14, 15, 8],
      [3, 4, 10, 12, 13, 2, 7, 14, 6, 5, 9, 0, 11, 15, 8, 1],
      [10, 7, 12, 9, 14, 3, 13, 15, 4, 0, 11, 2, 5, 8, 1, 6],
      [12, 13, 9, 11, 15, 10, 14, 8, 7, 2, 5, 3, 0, 1, 6, 4],
      [9, 14, 11, 5, 8, 12, 15, 1, 13, 3, 0, 10, 2, 6, 4, 7],
      [11, 15, 5, 0, 1, 9, 8, 6, 14, 10, 2, 12, 3, 4, 7, 13]]"

section \<open>Bits\<close>

text \<open>The branch for compilers without an intrinsic, on a 64-bit number.\<close>

definition highest_one :: "nat \<Rightarrow> nat" where
  "highest_one x =
     (let (x, c) = if x AND 0xffffffff00000000 \<noteq> 0 then (x div 2 ^ 32, 0 + 32) else (x, 0);
          (x, c) = if x AND 0x00000000ffff0000 \<noteq> 0 then (x div 2 ^ 16, c + 16) else (x, c);
          (x, c) = if x AND 0x000000000000ff00 \<noteq> 0 then (x div 2 ^ 8, c + 8) else (x, c);
          (x, c) = if x AND 0x00000000000000f0 \<noteq> 0 then (x div 2 ^ 4, c + 4) else (x, c);
          (x, c) = if x AND 0x000000000000000c \<noteq> 0 then (x div 2 ^ 2, c + 2) else (x, c)
      in if x AND 2 \<noteq> 0 then c + 1 else c)"

lemma clear_lowest_less:
  assumes "0 < x"
  shows "x AND (x - 1) < (x :: nat)"
proof -
  have "x AND (x - 1) \<le> x - 1" using AND_upper2 [of "int (x - 1)" "int x"] by (simp flip: of_nat_and_eq)
  then show ?thesis using assms by simp
qed

function popcnt :: "nat \<Rightarrow> nat" where
  "popcnt x = (if x = 0 then 0 else 1 + popcnt (x AND (x - 1)))"
  by auto

termination
  by (relation "measure id") (simp_all only: clear_lowest_less in_measure id_apply wf_measure neq0_conv)

declare popcnt.simps [simp del]

definition round_down_to_power_of_2 :: "nat \<Rightarrow> nat" where
  "round_down_to_power_of_2 x = 2 ^ highest_one (x OR 1)"

section \<open>Bytes and words\<close>

definition load32 :: "byte list \<Rightarrow> 32 word" where
  "load32 p =
     ucast (p ! 0) OR push_bit 8 (ucast (p ! 1)) OR push_bit 16 (ucast (p ! 2)) OR push_bit 24 (ucast (p ! 3))"

definition store32 :: "32 word \<Rightarrow> byte list" where
  "store32 w = [ucast w, ucast (drop_bit 8 w), ucast (drop_bit 16 w), ucast (drop_bit 24 w)]"

definition load_key_words :: "byte list \<Rightarrow> cv_words" where
  "load_key_words key = map (\<lambda>i. load32 (drop (i * 4) key)) [0, 1, 2, 3, 4, 5, 6, 7]"

definition store_cv_words :: "cv_words \<Rightarrow> byte list" where
  "store_cv_words cv = concat (map (\<lambda>i. store32 (cv ! i)) [0, 1, 2, 3, 4, 5, 6, 7])"

section \<open>Compression\<close>

definition rotr32 :: "32 word \<Rightarrow> nat \<Rightarrow> 32 word" where
  "rotr32 w c = drop_bit c w OR push_bit (32 - c) w"

definition g :: "32 word list \<Rightarrow> nat \<Rightarrow> nat \<Rightarrow> nat \<Rightarrow> nat \<Rightarrow> 32 word \<Rightarrow> 32 word \<Rightarrow> 32 word list" where
  "g state a b c d x y =
     (let state = state[a := state ! a + state ! b + x];
          state = state[d := rotr32 (state ! d XOR state ! a) 16];
          state = state[c := state ! c + state ! d];
          state = state[b := rotr32 (state ! b XOR state ! c) 12];
          state = state[a := state ! a + state ! b + y];
          state = state[d := rotr32 (state ! d XOR state ! a) 8];
          state = state[c := state ! c + state ! d];
          state = state[b := rotr32 (state ! b XOR state ! c) 7]
      in state)"

definition round_fn :: "32 word list \<Rightarrow> 32 word list \<Rightarrow> nat \<Rightarrow> 32 word list" where
  "round_fn state msg round =
     (let schedule = MSG_SCHEDULE ! round; m = (\<lambda>i. msg ! (schedule ! i));
          state = g state 0 4 8 12 (m 0) (m 1);
          state = g state 1 5 9 13 (m 2) (m 3);
          state = g state 2 6 10 14 (m 4) (m 5);
          state = g state 3 7 11 15 (m 6) (m 7);
          state = g state 0 5 10 15 (m 8) (m 9);
          state = g state 1 6 11 12 (m 10) (m 11);
          state = g state 2 7 8 13 (m 12) (m 13);
          state = g state 3 4 9 14 (m 14) (m 15)
      in state)"

definition counter_low :: "64 word \<Rightarrow> 32 word" where
  "counter_low counter = ucast counter"

definition counter_high :: "64 word \<Rightarrow> 32 word" where
  "counter_high counter = ucast (drop_bit 32 counter)"

definition compress_pre :: "cv_words \<Rightarrow> byte list \<Rightarrow> byte \<Rightarrow> 64 word \<Rightarrow> byte \<Rightarrow> 32 word list" where
  "compress_pre cv block block_len counter flags =
     (let block_words = map (\<lambda>i. load32 (drop (4 * i) block)) [0, 1, 2, 3, 4, 5, 6, 7, 8, 9, 10, 11, 12, 13, 14, 15];
          state = map ((!) cv) [0, 1, 2, 3, 4, 5, 6, 7] @ map ((!) IV) [0, 1, 2, 3] @
            [counter_low 0, counter_high 0, ucast block_len, ucast flags]
      in fold (\<lambda>round state. round_fn state block_words round) [0, 1, 2, 3, 4, 5, 6] state)"

definition blake3_compress_in_place_portable :: "cv_words \<Rightarrow> byte list \<Rightarrow> byte \<Rightarrow> 64 word \<Rightarrow> byte \<Rightarrow> cv_words" where
  "blake3_compress_in_place_portable cv block block_len counter flags =
     (let state = compress_pre cv block block_len 0 flags
      in map (\<lambda>i. state ! i XOR state ! (i + 8)) [0, 1, 2, 3, 4, 5, 6, 7])"

definition blake3_compress_xof_portable :: "cv_words \<Rightarrow> byte list \<Rightarrow> byte \<Rightarrow> 64 word \<Rightarrow> byte \<Rightarrow> byte list" where
  "blake3_compress_xof_portable cv block block_len counter flags =
     (let state = compress_pre cv block block_len 0 flags
      in concat (map (\<lambda>i. store32 (state ! i XOR state ! (i + 8))) [0, 1, 2, 3, 4, 5, 6, 7] @
                 map (\<lambda>i. store32 (state ! (i + 8) XOR cv ! i)) [0, 1, 2, 3, 4, 5, 6, 7]))"

text \<open>The loop over the blocks of one input, of 64 bytes each.\<close>

fun hash_blocks :: "byte list \<Rightarrow> nat \<Rightarrow> cv_words \<Rightarrow> byte \<Rightarrow> byte \<Rightarrow> byte \<Rightarrow> cv_words" where
  "hash_blocks input 0 cv flags block_flags flags_end = cv"
| "hash_blocks input (Suc blocks) cv flags block_flags flags_end =
     hash_blocks (drop 64 input) blocks
       (blake3_compress_in_place_portable cv (take 64 input) 64 0
         (if Suc blocks = 1 then block_flags OR flags_end else block_flags))
       flags flags flags_end"

definition hash_one_portable :: "byte list \<Rightarrow> nat \<Rightarrow> cv_words \<Rightarrow> 64 word \<Rightarrow> byte \<Rightarrow> byte \<Rightarrow> byte \<Rightarrow> byte list" where
  "hash_one_portable input blocks key counter flags flags_start flags_end =
     store_cv_words (hash_blocks input blocks key flags (flags OR flags_start) flags_end)"

text \<open>The outputs are written one after the other; here they are a list of 32 bytes each.\<close>

fun blake3_hash_many_portable ::
  "byte list list \<Rightarrow> nat \<Rightarrow> cv_words \<Rightarrow> 64 word \<Rightarrow> bool \<Rightarrow> byte \<Rightarrow> byte \<Rightarrow> byte \<Rightarrow> byte list list" where
  "blake3_hash_many_portable [] blocks key counter increment_counter flags flags_start flags_end = []"
| "blake3_hash_many_portable (input # inputs) blocks key counter increment_counter flags flags_start flags_end =
     hash_one_portable input blocks key 0 flags flags_start flags_end #
     blake3_hash_many_portable inputs blocks key (if increment_counter then counter + 1 else counter) increment_counter
       flags flags_start flags_end"

definition blake3_compress_in_place :: "cv_words \<Rightarrow> byte list \<Rightarrow> byte \<Rightarrow> 64 word \<Rightarrow> byte \<Rightarrow> cv_words" where
  "blake3_compress_in_place cv block block_len counter flags = blake3_compress_in_place_portable cv block block_len counter flags"

definition blake3_compress_xof :: "cv_words \<Rightarrow> byte list \<Rightarrow> byte \<Rightarrow> 64 word \<Rightarrow> byte \<Rightarrow> byte list" where
  "blake3_compress_xof cv block block_len counter flags = blake3_compress_xof_portable cv block block_len counter flags"

definition blake3_hash_many ::
  "byte list list \<Rightarrow> nat \<Rightarrow> cv_words \<Rightarrow> 64 word \<Rightarrow> bool \<Rightarrow> byte \<Rightarrow> byte \<Rightarrow> byte \<Rightarrow> byte list list" where
  "blake3_hash_many inputs blocks key counter increment_counter flags flags_start flags_end =
     blake3_hash_many_portable inputs blocks key counter increment_counter flags flags_start flags_end"

definition blake3_simd_degree :: nat where
  "blake3_simd_degree = 1"

section \<open>Bits are counted and found\<close>

lemma high_half:
  assumes "x < 2 ^ (2 * k)"
  shows "x AND push_bit k (mask k) \<noteq> (0 :: nat) \<longleftrightarrow> 2 ^ k \<le> x"
proof -
  have "x AND push_bit k (mask k) = push_bit k (drop_bit k x)"
  proof (rule bit_eqI)
    fix n
    have "take_bit (2 * k) x = x" using assms by (simp add: take_bit_nat_eq_self)
    then have "bit x n \<Longrightarrow> n < 2 * k" by (metis bit_take_bit_iff)
    then show "bit (x AND push_bit k (mask k)) n \<longleftrightarrow> bit (push_bit k (drop_bit k x)) n"
      by (auto simp: bit_simps)
  qed
  then show ?thesis by (simp add: push_bit_eq_0_iff drop_bit_eq_div div_eq_0_iff not_less)
qed

definition halve :: "nat \<Rightarrow> nat \<times> nat \<Rightarrow> nat \<times> nat" where
  "halve k = (\<lambda>(x, c). if x AND push_bit k (mask k) \<noteq> 0 then (x div 2 ^ k, c + k) else (x, c))"

definition found :: "nat \<Rightarrow> nat \<Rightarrow> nat \<times> nat \<Rightarrow> bool" where
  "found y k p \<longleftrightarrow> fst p = y div 2 ^ snd p \<and> 0 < fst p \<and> fst p < 2 ^ k"

lemma halve_found: "found y (2 * k) p \<Longrightarrow> found y k (halve k p)"
proof (cases p)
  case (Pair x c)
  assume f: "found y (2 * k) p"
  then have x: "x = y div 2 ^ c" "0 < x" "x < 2 ^ (2 * k)" by (simp_all add: found_def Pair)
  show ?thesis
  proof (cases "2 ^ k \<le> x")
    case True
    have "x div 2 ^ k < 2 ^ k" using x(3) by (intro less_mult_imp_div_less) (simp add: power_mult power2_eq_square mult.commute [of 2])
    then show ?thesis using True high_half [OF x(3)] x(1)
      by (simp add: halve_def found_def Pair div_mult2_eq power_add div_greater_zero_iff)
  next
    case False
    then show ?thesis using high_half [OF x(3)] x by (simp add: halve_def found_def Pair)
  qed
qed

lemma halve_simps:
  "(if x AND 0xffffffff00000000 \<noteq> 0 then (x div 2 ^ 32, c + 32) else (x, c)) = halve 32 (x, c)"
  "(if x AND 0x00000000ffff0000 \<noteq> 0 then (x div 2 ^ 16, c + 16) else (x, c)) = halve 16 (x, c)"
  "(if x AND 0x000000000000ff00 \<noteq> 0 then (x div 2 ^ 8, c + 8) else (x, c)) = halve 8 (x, c)"
  "(if x AND 0x00000000000000f0 \<noteq> 0 then (x div 2 ^ 4, c + 4) else (x, c)) = halve 4 (x, c)"
  "(if x AND 0x000000000000000c \<noteq> 0 then (x div 2 ^ 2, c + 2) else (x, c)) = halve 2 (x, c)"
  "(if x AND 2 \<noteq> 0 then c + 1 else c) = snd (halve 1 (x, c))"
  by (simp_all add: halve_def push_bit_eq_mult mask_eq_exp_minus_1)

lemma highest_one_halve: "highest_one x = snd (halve 1 (halve 2 (halve 4 (halve 8 (halve 16 (halve 32 (x, 0)))))))"
  unfolding highest_one_def halve_simps Let_def case_prod_eta prod.case_distrib [symmetric]
  by (simp only: case_prod_beta prod.collapse)

lemma or_one: "x OR Suc 0 = (if even x then x + 1 else x)"
  by (simp add: or_Suc_0_eq)

lemma highest_one_exact:
  assumes "0 < y" "y < 2 ^ 64"
  shows "2 ^ highest_one y \<le> y \<and> y < 2 * 2 ^ highest_one y"
proof -
  have "found y 64 (y, 0)" using assms by (simp add: found_def)
  then have "found y 1 (halve 1 (halve 2 (halve 4 (halve 8 (halve 16 (halve 32 (y, 0)))))))"
    using halve_found [of y 32] halve_found [of y 16] halve_found [of y 8] halve_found [of y 4] halve_found [of y 2] halve_found [of y 1]
    by simp
  then have "y div 2 ^ highest_one y = 1" by (simp add: found_def highest_one_halve)
  then show ?thesis using dividend_less_div_times [of "2 ^ highest_one y" y] div_greater_zero_iff [of y "2 ^ highest_one y"] by auto
qed

lemma power_of_two_unique:
  assumes "2 ^ a \<le> (x :: nat)" "x < 2 * 2 ^ a" "2 ^ b \<le> x" "x < 2 * 2 ^ b"
  shows "a = b"
proof -
  have "(2 :: nat) ^ a < 2 ^ Suc b" "(2 :: nat) ^ b < 2 ^ Suc a" using assms by auto
  then show ?thesis using power_less_imp_less_exp [of "2 :: nat" a "Suc b"] power_less_imp_less_exp [of "2 :: nat" b "Suc a"] by simp
qed

lemma round_down_bounds:
  assumes "0 < x" "x < 2 ^ 64"
  shows "round_down_to_power_of_2 x \<le> x \<and> x < 2 * round_down_to_power_of_2 x"
proof (cases "even x")
  case True
  let ?p = "(2 :: nat) ^ highest_one (x + 1)"
  have "x + 1 < 2 ^ 64" using assms(2) True by (metis Suc_eq_plus1 Suc_lessI even_Suc even_power even_numeral zero_less_numeral)
  then have "?p \<le> x + 1" "x + 1 < 2 * ?p" using highest_one_exact [of "x + 1"] by simp_all
  moreover have "?p \<noteq> x + 1"
  proof
    assume "?p = x + 1"
    then have "odd ?p" using True by simp
    then show False using \<open>?p = x + 1\<close> assms(1) by simp
  qed
  ultimately show ?thesis using True by (simp add: round_down_to_power_of_2_def or_one)
next
  case False
  then show ?thesis using highest_one_exact [OF assms] by (simp add: round_down_to_power_of_2_def or_one)
qed

lemma round_down_power:
  assumes "2 ^ k \<le> x" "x < 2 * 2 ^ k" "x < 2 ^ 64"
  shows "round_down_to_power_of_2 x = 2 ^ k"
proof -
  have "0 < x" using assms(1) by (metis less_le_trans zero_less_numeral zero_less_power)
  then show ?thesis
    using round_down_bounds [OF _ assms(3)] power_of_two_unique [OF assms(1,2), of "highest_one (x OR 1)"]
    by (simp add: round_down_to_power_of_2_def)
qed

lemma popcnt_0 [simp]: "popcnt 0 = 0"
  by (simp add: popcnt.simps)

lemma bit_odd: "bit (2 * x + 1 :: nat) n \<longleftrightarrow> n = 0 \<or> bit x (n - 1)"
  by (subst bit_rec) simp

lemma bit_even: "bit (2 * x :: nat) n \<longleftrightarrow> n \<noteq> 0 \<and> bit x (n - 1)"
  by (subst bit_rec) simp

lemma popcnt_odd: "popcnt (2 * x + 1) = popcnt (2 * x) + 1"
proof -
  have "(2 * x + 1) AND (2 * x) = 2 * x" by (rule bit_eqI) (auto simp only: bit_and_iff bit_odd bit_even)
  then show ?thesis by (subst popcnt.simps) simp
qed

lemma popcnt_double: "popcnt (2 * x) = popcnt x"
proof (induction x rule: less_induct)
  case (less x)
  show ?case
  proof (cases "x = 0")
    case False
    have "2 * x - 1 = 2 * (x - 1) + 1" using False by simp
    then have "2 * x AND (2 * x - 1) = 2 * (x AND (x - 1))"
      by (auto intro!: bit_eqI simp only: bit_and_iff bit_odd bit_even)
    moreover have "x AND (x - 1) < x" using False clear_lowest_less by simp
    ultimately show ?thesis using False less popcnt.simps [of x] popcnt.simps [of "2 * x"] by simp
  qed simp
qed

text \<open>
  The loop that clears the lowest bit counts the bits: it agrees with the recursion over the binary
  digits of the number.
\<close>

theorem popcnt_digits: "popcnt x = (if x = 0 then 0 else x mod 2 + popcnt (x div 2))"
proof (cases "even x")
  case True
  then show ?thesis using popcnt_double [of "x div 2"] by simp
next
  case False
  then have "x = 2 * (x div 2) + 1" by simp
  then show ?thesis using popcnt_odd [of "x div 2"] popcnt_double [of "x div 2"] False by (metis add.commute odd_iff_mod_2_eq_one odd_pos less_irrefl)
qed

section \<open>Words are stored and loaded\<close>

lemma load_store32 [simp]: "load32 (store32 w @ rest) = w"
proof (rule bit_word_eqI)
  fix n
  assume "n < LENGTH(32)"
  then consider "n < 8" | "8 \<le> n" "n < 16" | "16 \<le> n" "n < 24" | "24 \<le> n" "n < 32" by fastforce
  then show "bit (load32 (store32 w @ rest)) n = bit w n"
    by cases (auto simp: load32_def store32_def bit_simps nth_append)
qed

lemma length_store32 [simp]: "length (store32 w) = 4"
  by (simp add: store32_def)

lemma length_store_cv_words [simp]: "length (store_cv_words cv) = 32"
  by (simp add: store_cv_words_def)

lemma length_compress_in_place [simp]: "length (blake3_compress_in_place cv block block_len counter flags) = 8"
  by (simp add: blake3_compress_in_place_def blake3_compress_in_place_portable_def Let_def)

text \<open>A chaining value is stored as 32 bytes from which loading it as a key gives it back.\<close>

theorem load_store_cv_words: "length cv = 8 \<Longrightarrow> load_key_words (store_cv_words cv) = cv"
  using load_store32 [where rest = "[]"]
  by (auto simp: length_Suc_conv numeral_eq_Suc load_key_words_def store_cv_words_def)

lemma rotr32_word_rotr:
  assumes "0 < c" "c < 32"
  shows "rotr32 w c = word_rotr c w"
proof (rule bit_word_eqI)
  fix n
  assume n: "n < LENGTH(32)"
  show "bit (rotr32 w c) n = bit (word_rotr c w) n"
  proof (cases "n + c < 32")
    case True
    then show ?thesis using n assms by (auto simp: rotr32_def bit_simps add.commute)
  next
    case False
    then have "(n + c) mod 32 = n + c - 32" using n assms by (simp add: mod_if)
    moreover have "\<not> bit w (c + n)" using False by (auto dest: bit_imp_le_length simp: add.commute)
    ultimately show ?thesis using n assms False by (auto simp: rotr32_def bit_simps)
  qed
qed

section \<open>The rounds lose nothing\<close>

text \<open>The steps of \<open>g\<close>, each of which can be undone.\<close>

definition add_step :: "nat \<Rightarrow> nat \<Rightarrow> 32 word \<Rightarrow> 32 word list \<Rightarrow> 32 word list" where
  "add_step a b x s = s[a := s ! a + s ! b + x]"

definition mix_step :: "nat \<Rightarrow> nat \<Rightarrow> nat \<Rightarrow> 32 word list \<Rightarrow> 32 word list" where
  "mix_step d a c s = s[d := rotr32 (s ! d XOR s ! a) c]"

lemma g_steps:
  "g s a b c d x y =
   mix_step b c 7 (add_step c d 0 (mix_step d a 8 (add_step a b y (mix_step b c 12 (add_step c d 0 (mix_step d a 16 (add_step a b x s)))))))"
  by (simp add: g_def mix_step_def add_step_def Let_def)

lemma length_steps [simp]: "length (add_step a b x s) = length s" "length (mix_step d a c s) = length s"
  by (simp_all add: add_step_def mix_step_def)

lemma update_inj:
  assumes "s[a := f (s ! a) (s ! b)] = t[a := f (t ! a) (t ! b)]" "a \<noteq> b" "a < length s"
    and "\<And>u v w. f u w = f v w \<Longrightarrow> u = v"
  shows "s = (t :: 'x list)"
proof -
  have len: "length s = length t" using arg_cong [OF assms(1), of length] by simp
  have others: "s ! i = t ! i" if "i \<noteq> a" for i using arg_cong [OF assms(1), of "\<lambda>l. l ! i"] that by simp
  have "f (s ! a) (s ! b) = f (t ! a) (t ! b)" using arg_cong [OF assms(1), of "\<lambda>l. l ! a"] assms(3) len by simp
  then have "s ! a = t ! a" using assms(2,4) others [of b] by metis
  then show ?thesis using others len by (metis nth_equalityI)
qed

lemma rotr32_inj: "0 < c \<Longrightarrow> c < 32 \<Longrightarrow> rotr32 u c = rotr32 v c \<Longrightarrow> u = v"
  by (metis rotr32_word_rotr word_rot_gal)

lemma add_step_eq: "a \<noteq> b \<Longrightarrow> a < length s \<Longrightarrow> add_step a b x s = add_step a b x t \<longleftrightarrow> s = t"
  using update_inj [where f = "\<lambda>u v. u + v + x" and s = s and t = t and a = a and b = b] by (auto simp: add_step_def)

lemma xor_inj: "u XOR w = v XOR w \<Longrightarrow> u = (v :: 32 word)"
proof -
  assume "u XOR w = v XOR w"
  then have "(u XOR w) XOR w = (v XOR w) XOR w" by simp
  then show "u = v" by (simp add: xor.assoc)
qed

lemma mix_step_eq:
  "d \<noteq> a \<Longrightarrow> d < length s \<Longrightarrow> 0 < c \<Longrightarrow> c < 32 \<Longrightarrow> mix_step d a c s = mix_step d a c t \<longleftrightarrow> s = t"
  using update_inj [where f = "\<lambda>u v. rotr32 (u XOR v) c" and s = s and t = t and a = d and b = a]
  by (auto simp: mix_step_def dest: rotr32_inj xor_inj)

lemma length_g [simp]: "length (g s a b c d x y) = length s"
  by (simp add: g_steps)

lemma g_eq:
  assumes "a \<noteq> b" "c \<noteq> d" "d \<noteq> a" "b \<noteq> c" "a < length s" "b < length s" "c < length s" "d < length s"
  shows "g s a b c d x y = g t a b c d x y \<longleftrightarrow> s = t"
  unfolding g_steps using assms by (simp add: add_step_eq mix_step_eq)

lemma length_round_fn [simp]: "length (round_fn s msg r) = length s"
  by (simp add: round_fn_def Let_def)

lemma round_fn_eq: "length s = 16 \<Longrightarrow> round_fn s msg r = round_fn t msg r \<longleftrightarrow> s = t"
  by (simp add: round_fn_def Let_def g_eq)

lemma rounds_eq:
  "length s = 16 \<Longrightarrow> fold (\<lambda>r s. round_fn s msg r) rs s = fold (\<lambda>r s. round_fn s msg r) rs t \<longleftrightarrow> s = t"
  by (induction rs arbitrary: s t) (simp_all add: round_fn_eq)

lemma byte_word_inj:
  assumes "(ucast u :: 32 word) = ucast v"
  shows "u = (v :: byte)"
proof (rule bit_word_eqI)
  fix n
  assume "n < LENGTH(8)"
  then show "bit u n = bit v n" using arg_cong [OF assms, of "\<lambda>w. bit w n"] by (simp add: bit_simps)
qed

text \<open>
  The rounds lose nothing of the state: for the same block, different chaining values, lengths or
  flags give different states after the seven rounds.
\<close>

theorem compress_pre_injective:
  assumes "compress_pre cv block block_len counter flags = compress_pre cv' block block_len' counter' flags'"
    and "length cv = 8" "length cv' = 8"
  shows "cv = cv' \<and> block_len = block_len' \<and> flags = flags'"
proof -
  have "map ((!) cv) [0, 1, 2, 3, 4, 5, 6, 7] @ map ((!) IV) [0, 1, 2, 3] @ [counter_low 0, counter_high 0, ucast block_len, ucast flags] =
      map ((!) cv') [0, 1, 2, 3, 4, 5, 6, 7] @ map ((!) IV) [0, 1, 2, 3] @ [counter_low 0, counter_high 0, ucast block_len', ucast flags']"
    by (rule iffD1 [OF rounds_eq assms(1) [unfolded compress_pre_def Let_def]]) simp
  then have init: "map ((!) cv) [0, 1, 2, 3, 4, 5, 6, 7] = map ((!) cv') [0, 1, 2, 3, 4, 5, 6, 7]"
    "(ucast block_len :: 32 word) = ucast block_len'" "(ucast flags :: 32 word) = ucast flags'"
    by simp_all
  have "cv = map ((!) cv) [0, 1, 2, 3, 4, 5, 6, 7]" if "length cv = 8" for cv :: cv_words
    using that by (auto simp: length_Suc_conv numeral_eq_Suc)
  then show ?thesis using init assms(2,3) by (auto dest: byte_word_inj)
qed

text \<open>The rows of the schedule are the powers of the permutation in the second row.\<close>

lemma schedule_powers:
  "\<forall>i < 6. MSG_SCHEDULE ! Suc i = map (\<lambda>j. MSG_SCHEDULE ! i ! (MSG_SCHEDULE ! 1 ! j)) [0..<16]"
  by code_simp


end
