(* ===== verification/Blake3.thy ===== *)
theory Blake3
  imports Blake3_Compress
begin

text \<open>
  \<^verbatim>\<open>blake3.cpp\<close>: the state of one chunk, the compression of subtrees and the incremental hasher.

  The \<^verbatim>\<open>uint8_t\<close> and \<^verbatim>\<open>uint64_t\<close> counters are natural numbers with the wrap-around written out.  Arrays of
  chaining values are lists of 32 bytes each; the stack of the hasher is the list of its
  \<^verbatim>\<open>cv_stack_len\<close> entries, the top last.  \<open>None\<close> is undefined behaviour: an access in front of the stack or
  behind its 55 entries.
\<close>

section \<open>Chunks\<close>

record blake3_chunk_state =
  cs_cv :: cv_words
  cs_chunk_counter :: nat
  cs_buf :: "byte list"
  cs_buf_len :: nat
  cs_blocks_compressed :: nat
  cs_flags :: byte

definition chunk_state_init :: "cv_words \<Rightarrow> byte \<Rightarrow> blake3_chunk_state" where
  "chunk_state_init key flags =
     \<lparr>cs_cv = key, cs_chunk_counter = 0, cs_buf = replicate 64 0, cs_buf_len = 0, cs_blocks_compressed = 0, cs_flags = flags\<rparr>"

text \<open>The counter is set to zero, not to the argument.\<close>

definition chunk_state_reset :: "blake3_chunk_state \<Rightarrow> cv_words \<Rightarrow> nat \<Rightarrow> blake3_chunk_state" where
  "chunk_state_reset self key chunk_counter =
     self\<lparr>cs_cv := key, cs_chunk_counter := 0, cs_blocks_compressed := 0, cs_buf := replicate 64 0, cs_buf_len := 0\<rparr>"

definition chunk_state_len :: "blake3_chunk_state \<Rightarrow> nat" where
  "chunk_state_len self = 64 * cs_blocks_compressed self + cs_buf_len self"

definition chunk_state_fill_buf :: "blake3_chunk_state \<Rightarrow> byte list \<Rightarrow> nat \<times> blake3_chunk_state" where
  "chunk_state_fill_buf self input =
     (let space = 64 - cs_buf_len self; n = (if space > length input then length input else space)
      in (n, self\<lparr>cs_buf := take (cs_buf_len self) (cs_buf self) @ take n input @ drop (cs_buf_len self + n) (cs_buf self),
                  cs_buf_len := (cs_buf_len self + n) mod 256\<rparr>))"

definition chunk_state_maybe_start_flag :: "blake3_chunk_state \<Rightarrow> byte" where
  "chunk_state_maybe_start_flag self = (if cs_blocks_compressed self = 0 then CHUNK_START else 0)"

record output_t =
  out_input_cv :: cv_words
  out_counter :: nat
  out_block :: "byte list"
  out_block_len :: byte
  out_flags :: byte

definition make_output :: "cv_words \<Rightarrow> byte list \<Rightarrow> byte \<Rightarrow> nat \<Rightarrow> byte \<Rightarrow> output_t" where
  "make_output input_cv block block_len counter flags =
     \<lparr>out_input_cv = input_cv, out_counter = counter, out_block = block, out_block_len = block_len, out_flags = flags\<rparr>"

definition output_chaining_value :: "output_t \<Rightarrow> byte list" where
  "output_chaining_value self =
     store_cv_words (blake3_compress_in_place (out_input_cv self) (out_block self) (out_block_len self) 0 (out_flags self))"

text \<open>The counter of the loop is counted and not used.\<close>

function root_bytes_loop :: "output_t \<Rightarrow> 64 word \<Rightarrow> nat \<Rightarrow> nat \<Rightarrow> byte list" where
  "root_bytes_loop self output_block_counter offset_within_block out_len =
     (if out_len = 0 then []
      else
        (let wide_buf = blake3_compress_xof (out_input_cv self) (out_block self) (out_block_len self) 0 (out_flags self OR ROOT);
             available_bytes = 64 - offset_within_block;
             memcpy_len = (if out_len > available_bytes then available_bytes else out_len)
         in take memcpy_len (drop offset_within_block wide_buf) @
            root_bytes_loop self (output_block_counter + 1) 0 (out_len - memcpy_len)))"
  by pat_completeness auto

termination
  by (relation "measures [\<lambda>(self, counter, offset, n). n, \<lambda>(self, counter, offset, n). offset]") auto

declare root_bytes_loop.simps [simp del]

definition output_root_bytes :: "output_t \<Rightarrow> nat \<Rightarrow> nat \<Rightarrow> byte list" where
  "output_root_bytes self seek out_len = root_bytes_loop self (of_nat (seek div 64)) (seek mod 64) out_len"

definition compress_block :: "blake3_chunk_state \<Rightarrow> byte list \<Rightarrow> blake3_chunk_state" where
  "compress_block self block =
     self\<lparr>cs_cv := blake3_compress_in_place (cs_cv self) block 64 0 (cs_flags self OR chunk_state_maybe_start_flag self),
          cs_blocks_compressed := (cs_blocks_compressed self + 1) mod 256\<rparr>"

text \<open>The loop of \<^verbatim>\<open>chunk_state_update\<close>, which leaves the last block for the buffer.\<close>

function compress_blocks :: "blake3_chunk_state \<Rightarrow> byte list \<Rightarrow> blake3_chunk_state \<times> byte list" where
  "compress_blocks self input =
     (if length input > 64 then compress_blocks (compress_block self (take 64 input)) (drop 64 input) else (self, input))"
  by pat_completeness auto

termination
  by (relation "measure (\<lambda>(self, input). length input)") auto

declare compress_blocks.simps [simp del]

definition chunk_state_update :: "blake3_chunk_state \<Rightarrow> byte list \<Rightarrow> blake3_chunk_state" where
  "chunk_state_update self input =
     (let (self, input) =
            (if cs_buf_len self > 0
             then
               (let (n, self) = chunk_state_fill_buf self input; input = drop n input
                in (if input \<noteq> [] then (compress_block self (cs_buf self))\<lparr>cs_buf_len := 0, cs_buf := replicate 64 0\<rparr> else self, input))
             else (self, input));
          (self, input) = compress_blocks self input
      in snd (chunk_state_fill_buf self input))"

definition chunk_state_output :: "blake3_chunk_state \<Rightarrow> output_t" where
  "chunk_state_output self =
     make_output (cs_cv self) (cs_buf self) (of_nat (cs_buf_len self)) (cs_chunk_counter self)
       (cs_flags self OR chunk_state_maybe_start_flag self OR CHUNK_END)"

definition parent_output :: "byte list \<Rightarrow> cv_words \<Rightarrow> byte \<Rightarrow> output_t" where
  "parent_output block key flags = make_output key block 64 0 (flags OR PARENT)"

section \<open>Subtrees\<close>

definition left_len :: "nat \<Rightarrow> nat" where
  "left_len content_len = round_down_to_power_of_2 ((content_len - 1) div 1024) * 1024"

function full_chunks :: "byte list \<Rightarrow> byte list list" where
  "full_chunks input = (if length input \<ge> 1024 then take 1024 input # full_chunks (drop 1024 input) else [])"
  by pat_completeness auto

termination
  by (relation "measure length") auto

declare full_chunks.simps [simp del]

definition compress_chunks_parallel :: "byte list \<Rightarrow> cv_words \<Rightarrow> nat \<Rightarrow> byte \<Rightarrow> byte list list" where
  "compress_chunks_parallel input key chunk_counter flags =
     (let chunks_array = full_chunks input; input_position = 1024 * length chunks_array;
          out = blake3_hash_many chunks_array (1024 div 64) key (of_nat chunk_counter) True flags CHUNK_START CHUNK_END
      in if length input > input_position
         then out @ [output_chaining_value (chunk_state_output (chunk_state_update (chunk_state_init key flags) (drop input_position input)))]
         else out)"

fun parent_blocks :: "byte list list \<Rightarrow> byte list list \<times> byte list list" where
  "parent_blocks (l # r # cvs) = (let (parents, odd_child) = parent_blocks cvs in ((l @ r) # parents, odd_child))"
| "parent_blocks cvs = ([], cvs)"

definition compress_parents_parallel :: "byte list list \<Rightarrow> cv_words \<Rightarrow> byte \<Rightarrow> byte list list" where
  "compress_parents_parallel child_chaining_values key flags =
     (let (parents_array, odd_child) = parent_blocks child_chaining_values
      in blake3_hash_many parents_array 1 key 0 False (flags OR PARENT) 0 0 @ odd_child)"

lemma halve_count: "snd (halve k p) \<le> snd p + k"
  by (simp add: halve_def split: prod.split)

lemma highest_one_bound: "highest_one x \<le> 63"
  unfolding highest_one_halve
  using halve_count [of 32 "(x, 0)"] halve_count [of 16 "halve 32 (x, 0)"] halve_count [of 8 "halve 16 (halve 32 (x, 0))"]
    halve_count [of 4 "halve 8 (halve 16 (halve 32 (x, 0)))"] halve_count [of 2 "halve 4 (halve 8 (halve 16 (halve 32 (x, 0))))"]
    halve_count [of 1 "halve 2 (halve 4 (halve 8 (halve 16 (halve 32 (x, 0)))))"]
  by simp

lemma round_down_le:
  assumes "0 < x"
  shows "0 < round_down_to_power_of_2 x \<and> round_down_to_power_of_2 x \<le> x"
proof (cases "x < 2 ^ 64")
  case False
  have "(2 :: nat) ^ highest_one (x OR 1) \<le> 2 ^ 63" using highest_one_bound by (rule power_increasing) simp
  then show ?thesis using False by (simp add: round_down_to_power_of_2_def)
qed (use round_down_bounds [OF assms] in \<open>simp add: round_down_to_power_of_2_def\<close>)

lemma left_len_bounds: "1024 < n \<Longrightarrow> 0 < left_len n \<and> left_len n < n"
proof -
  assume n: "1024 < n"
  then have "0 < (n - 1) div 1024" by (simp add: div_greater_zero_iff)
  from round_down_le [OF this] have "0 < left_len n" "left_len n \<le> (n - 1) div 1024 * 1024"
    by (simp_all add: left_len_def)
  moreover have "(n - 1) div 1024 * 1024 < n" using n div_times_less_eq_dividend [of "n - 1" 1024] by linarith
  ultimately show ?thesis by simp
qed

text \<open>
  The outputs of the right subtree are written to the place \<open>degree\<close> of an array, those of the left one to its
  front.
\<close>

definition place_cvs :: "nat \<Rightarrow> byte list list \<Rightarrow> byte list list \<Rightarrow> byte list list" where
  "place_cvs degree left_cvs right_cvs = take degree left_cvs @ replicate (degree - length left_cvs) [] @ right_cvs"

function blake3_compress_subtree_wide :: "byte list \<Rightarrow> cv_words \<Rightarrow> nat \<Rightarrow> byte \<Rightarrow> byte list list" where
  "blake3_compress_subtree_wide input key chunk_counter flags =
     (if length input \<le> blake3_simd_degree * 1024 then compress_chunks_parallel input key 0 flags
      else
        (let left_input_len = left_len (length input);
             degree = (if left_input_len > 1024 \<and> blake3_simd_degree = 1 then 2 else blake3_simd_degree);
             left_cvs = blake3_compress_subtree_wide (take left_input_len input) key 0 flags;
             right_cvs = blake3_compress_subtree_wide (drop left_input_len input) key 0 flags;
             cv_array = place_cvs degree left_cvs right_cvs
         in if length left_cvs = 1 then take 2 cv_array
            else compress_parents_parallel (take (length left_cvs + length right_cvs) cv_array) key flags))"
  by pat_completeness auto

termination
  by (relation "measure (\<lambda>(input, key, chunk_counter, flags). length input)") (use left_len_bounds in \<open>auto simp: blake3_simd_degree_def not_le dest!: left_len_bounds\<close>)

declare blake3_compress_subtree_wide.simps [simp del]

lemma length_parent_blocks: "length (fst (parent_blocks cvs)) + length (snd (parent_blocks cvs)) = (length cvs + 1) div 2"
  by (induction cvs rule: parent_blocks.induct) (auto simp: Let_def case_prod_beta)

lemma length_hash_many [simp]: "length (blake3_hash_many inputs blocks key counter increment flags flags_start flags_end) = length inputs"
proof -
  have "length (blake3_hash_many_portable inputs blocks key counter increment flags flags_start flags_end) = length inputs"
    by (induction inputs arbitrary: counter) simp_all
  then show ?thesis by (simp add: blake3_hash_many_def)
qed

lemma length_compress_parents: "length (compress_parents_parallel cvs key flags) = (length cvs + 1) div 2"
  using length_parent_blocks [of cvs] by (simp add: compress_parents_parallel_def case_prod_beta)

function condense :: "byte list list \<Rightarrow> cv_words \<Rightarrow> byte \<Rightarrow> byte list list" where
  "condense cv_array key flags =
     (if length cv_array > 2 then condense (compress_parents_parallel cv_array key flags) key flags else cv_array)"
  by pat_completeness auto

termination
  by (relation "measure (\<lambda>(cv_array, key, flags). length cv_array)") (auto simp: length_compress_parents)

declare condense.simps [simp del]

definition compress_subtree_to_parent_node :: "byte list \<Rightarrow> cv_words \<Rightarrow> nat \<Rightarrow> byte \<Rightarrow> byte list list" where
  "compress_subtree_to_parent_node input key chunk_counter flags =
     take 2 (condense (blake3_compress_subtree_wide input key 0 flags) key flags)"

section \<open>The hasher\<close>

record blake3_hasher =
  h_key :: cv_words
  h_chunk :: blake3_chunk_state
  h_cv_stack :: "byte list list"

definition hasher_init_base :: "cv_words \<Rightarrow> byte \<Rightarrow> blake3_hasher" where
  "hasher_init_base key flags = \<lparr>h_key = key, h_chunk = chunk_state_init key flags, h_cv_stack = []\<rparr>"

definition blake3_hasher_init :: blake3_hasher where
  "blake3_hasher_init = hasher_init_base IV 0"

definition blake3_hasher_init_keyed :: "byte list \<Rightarrow> blake3_hasher" where
  "blake3_hasher_init_keyed key = hasher_init_base (load_key_words key) KEYED_HASH"

function merge_loop :: "cv_words \<Rightarrow> byte \<Rightarrow> nat \<Rightarrow> byte list list \<Rightarrow> byte list list option" where
  "merge_loop key flags post_merge_stack_len cv_stack =
     (if length cv_stack > post_merge_stack_len
      then if length cv_stack < 2 then None
           else
             (let cv_stack_len = length cv_stack; parent_node = cv_stack ! (cv_stack_len - 2) @ cv_stack ! (cv_stack_len - 1)
              in merge_loop key flags post_merge_stack_len
                   (take (cv_stack_len - 2) cv_stack @ [output_chaining_value (parent_output parent_node key flags)]))
      else Some cv_stack)"
  by pat_completeness auto

termination
  by (relation "measure (\<lambda>(key, flags, n, cv_stack). length cv_stack)") auto

declare merge_loop.simps [simp del]

definition hasher_merge_cv_stack :: "blake3_hasher \<Rightarrow> nat \<Rightarrow> blake3_hasher option" where
  "hasher_merge_cv_stack self total_len =
     map_option (\<lambda>cv_stack. self\<lparr>h_cv_stack := cv_stack\<rparr>)
       (merge_loop (h_key self) (cs_flags (h_chunk self)) (popcnt total_len) (h_cv_stack self))"

definition hasher_push_cv :: "blake3_hasher \<Rightarrow> byte list \<Rightarrow> nat \<Rightarrow> blake3_hasher option" where
  "hasher_push_cv self new_cv chunk_counter =
     Option.bind (hasher_merge_cv_stack self chunk_counter) (\<lambda>self.
       if length (h_cv_stack self) < 55 then Some (self\<lparr>h_cv_stack := h_cv_stack self @ [new_cv]\<rparr>) else None)"

text \<open>Halving the length of a subtree until it divides what has been hashed so far.\<close>

function shrink_subtree :: "nat \<Rightarrow> nat \<Rightarrow> nat" where
  "shrink_subtree subtree_len count_so_far =
     (if (subtree_len - 1) AND count_so_far \<noteq> 0 then shrink_subtree (subtree_len div 2) count_so_far else subtree_len)"
  by pat_completeness auto

termination
proof (relation "measure fst")
  fix l c :: nat
  assume "(l - 1) AND c \<noteq> 0"
  then have "0 < l" by (cases l) simp_all
  then show "((l div 2, c), l, c) \<in> measure fst" by simp
qed simp

declare shrink_subtree.simps [simp del]

lemma shrink_subtree_pos: "0 < subtree_len \<Longrightarrow> 0 < shrink_subtree subtree_len count_so_far"
proof (induction subtree_len count_so_far rule: shrink_subtree.induct)
  case (1 l c)
  then show ?case by (cases "l = 1") (auto simp: shrink_subtree.simps [of l] shrink_subtree.simps [of "Suc 0"] div_greater_zero_iff)
qed

text \<open>One pass of the loop over a subtree at the front of the input.\<close>

definition update_subtree :: "blake3_hasher \<Rightarrow> byte list \<Rightarrow> nat \<Rightarrow> blake3_hasher option" where
  "update_subtree self input subtree_len =
     (let subtree_chunks = subtree_len div 1024; chunk_counter = cs_chunk_counter (h_chunk self)
      in map_option (\<lambda>self. self\<lparr>h_chunk := (h_chunk self)\<lparr>cs_chunk_counter := (chunk_counter + subtree_chunks) mod 2 ^ 64\<rparr>\<rparr>)
        (if subtree_len \<le> 1024
         then
           (let chunk_state = (chunk_state_init (h_key self) (cs_flags (h_chunk self)))\<lparr>cs_chunk_counter := chunk_counter\<rparr>;
                output = chunk_state_output (chunk_state_update chunk_state (take subtree_len input))
            in hasher_push_cv self (output_chaining_value output) chunk_counter)
         else
           (let cv_pair = compress_subtree_to_parent_node (take subtree_len input) (h_key self) 0 (cs_flags (h_chunk self))
            in Option.bind (hasher_push_cv self (cv_pair ! 0) chunk_counter) (\<lambda>self.
                 hasher_push_cv self (cv_pair ! 1) ((chunk_counter + subtree_chunks div 2) mod 2 ^ 64)))))"

function update_subtrees :: "blake3_hasher \<Rightarrow> byte list \<Rightarrow> (blake3_hasher \<times> byte list) option" where
  "update_subtrees self input =
     (if length input > 1024
      then
        (let subtree_len = shrink_subtree (round_down_to_power_of_2 (length input)) (cs_chunk_counter (h_chunk self) * 1024 mod 2 ^ 64)
         in case update_subtree self input subtree_len of
              None \<Rightarrow> None
            | Some self \<Rightarrow> update_subtrees self (drop subtree_len input))
      else Some (self, input))"
  by pat_completeness auto

termination
  by (relation "measure (\<lambda>(self, input). length input)")
    (auto intro!: diff_less shrink_subtree_pos simp: round_down_to_power_of_2_def)

declare update_subtrees.simps [simp del]

definition blake3_hasher_update :: "blake3_hasher \<Rightarrow> byte list \<Rightarrow> blake3_hasher option" where
  "blake3_hasher_update self input =
     (if input = [] then Some self
      else
        Option.bind
          (if chunk_state_len (h_chunk self) > 0
           then
             (let space = 1024 - chunk_state_len (h_chunk self); n = (if space > length input then length input else space);
                  self = self\<lparr>h_chunk := chunk_state_update (h_chunk self) (take n input)\<rparr>; input = drop n input
              in if input \<noteq> []
                 then
                   (let chunk_cv = output_chaining_value (chunk_state_output (h_chunk self)); counter = cs_chunk_counter (h_chunk self)
                    in map_option (\<lambda>self. (self\<lparr>h_chunk := chunk_state_reset (h_chunk self) (h_key self) ((counter + 1) mod 2 ^ 64)\<rparr>, input))
                         (hasher_push_cv self chunk_cv counter))
                 else Some (self, []))
           else Some (self, input))
          (\<lambda>(self, input).
            if input = [] then Some self
            else
              Option.bind (update_subtrees self input) (\<lambda>(self, input).
                if input \<noteq> []
                then
                  (let self = self\<lparr>h_chunk := chunk_state_update (h_chunk self) input\<rparr>
                   in hasher_merge_cv_stack self (cs_chunk_counter (h_chunk self)))
                else Some self)))"

text \<open>Rolling up the stack, from its top.\<close>

definition roll_up :: "cv_words \<Rightarrow> byte \<Rightarrow> byte list list \<Rightarrow> output_t \<Rightarrow> output_t" where
  "roll_up key flags cvs output = fold (\<lambda>cv output. parent_output (cv @ output_chaining_value output) key flags) (rev cvs) output"

definition blake3_hasher_finalize_seek :: "blake3_hasher \<Rightarrow> nat \<Rightarrow> nat \<Rightarrow> byte list option" where
  "blake3_hasher_finalize_seek self seek out_len =
     (if out_len = 0 then Some []
      else if h_cv_stack self = [] then Some (output_root_bytes (chunk_state_output (h_chunk self)) seek out_len)
      else
        (let cv_stack_len = length (h_cv_stack self); flags = cs_flags (h_chunk self)
         in if chunk_state_len (h_chunk self) > 0
            then Some (output_root_bytes (roll_up (h_key self) flags (h_cv_stack self) (chunk_state_output (h_chunk self))) seek out_len)
            else if cv_stack_len < 2 then None
            else
              (let cvs_remaining = cv_stack_len - 2;
                   output = parent_output (h_cv_stack self ! cvs_remaining @ h_cv_stack self ! (cvs_remaining + 1)) (h_key self) flags
               in Some (output_root_bytes (roll_up (h_key self) flags (take cvs_remaining (h_cv_stack self)) output) seek out_len))))"

definition blake3_hasher_finalize :: "blake3_hasher \<Rightarrow> nat \<Rightarrow> byte list option" where
  "blake3_hasher_finalize self out_len = blake3_hasher_finalize_seek self 0 out_len"

definition blake3_hasher_init_derive_key_raw :: "byte list \<Rightarrow> blake3_hasher option" where
  "blake3_hasher_init_derive_key_raw context_bytes =
     Option.bind (blake3_hasher_update (hasher_init_base IV DERIVE_KEY_CONTEXT) context_bytes) (\<lambda>context_hasher.
     Option.bind (blake3_hasher_finalize context_hasher 32) (\<lambda>context_key.
       Some (hasher_init_base (load_key_words context_key) DERIVE_KEY_MATERIAL)))"

definition blake3_hasher_init_derive_key :: "string \<Rightarrow> blake3_hasher option" where
  "blake3_hasher_init_derive_key context_string =
     blake3_hasher_init_derive_key_raw (map of_char (takeWhile (\<lambda>c. c \<noteq> CHR 0x00) context_string))"

end
