(* ===== verification/Blake3_Tree.thy ===== *)
theory Blake3_Tree
  imports Blake3
begin

text \<open>
  The hash of a byte string as a tree over its chunks, and the proof that the incremental hasher computes it.
\<close>

section \<open>The reference definition\<close>

text \<open>A chunk is compressed block by block, the last block with its length and the flag of the end.\<close>

function chunk_output :: "cv_words \<Rightarrow> byte \<Rightarrow> byte \<Rightarrow> byte list \<Rightarrow> output_t" where
  "chunk_output cv flags start bs =
     (if length bs \<le> 64 then make_output cv (bs @ replicate (64 - length bs) 0) (of_nat (length bs)) 0 (flags OR start OR CHUNK_END)
      else chunk_output (blake3_compress_in_place cv (take 64 bs) 64 0 (flags OR start)) flags 0 (drop 64 bs))"
  by pat_completeness auto

termination
  by (relation "measure (\<lambda>(cv, flags, start, bs). length bs)") auto

declare chunk_output.simps [simp del]

fun power_below :: "nat \<Rightarrow> nat" where
  "power_below n = (if n < 2 then 1 else 2 * power_below (n div 2))"

declare power_below.simps [simp del]

lemma power_below_bounds: "0 < n \<Longrightarrow> \<exists>k. power_below n = 2 ^ k \<and> 2 ^ k \<le> n \<and> n < 2 * 2 ^ k"
proof (induction n rule: power_below.induct)
  case (1 n)
  show ?case
  proof (cases "n < 2")
    case True
    then show ?thesis using 1 by (intro exI [of _ 0]) (simp add: power_below.simps)
  next
    case False
    then obtain k where "power_below (n div 2) = 2 ^ k" "2 ^ k \<le> n div 2" "n div 2 < 2 * 2 ^ k"
      using 1 by (auto simp: div_greater_zero_iff)
    then show ?thesis using False by (intro exI [of _ "Suc k"]) (auto simp: power_below.simps [of n])
  qed
qed

lemma power_below_le: "0 < n \<Longrightarrow> 0 < power_below n \<and> power_below n \<le> n"
  using power_below_bounds [of n] by auto

text \<open>The left subtree of a longer input has the largest power of two of chunks that leaves something for the right one.\<close>

definition left_bytes :: "nat \<Rightarrow> nat" where
  "left_bytes n = 1024 * power_below ((n - 1) div 1024)"

lemma left_bytes_bounds: "1024 < n \<Longrightarrow> 0 < left_bytes n \<and> left_bytes n < n"
proof -
  assume n: "1024 < n"
  then have "0 < (n - 1) div 1024" by (simp add: div_greater_zero_iff)
  from power_below_le [OF this] have "0 < left_bytes n" "left_bytes n \<le> (n - 1) div 1024 * 1024"
    by (simp_all add: left_bytes_def)
  moreover have "(n - 1) div 1024 * 1024 < n" using n div_times_less_eq_dividend [of "n - 1" 1024] by linarith
  ultimately show ?thesis by simp
qed

function tree_output :: "cv_words \<Rightarrow> byte \<Rightarrow> byte list \<Rightarrow> output_t" where
  "tree_output key flags bs =
     (if length bs \<le> 1024 then chunk_output key flags CHUNK_START bs
      else
        (let n = left_bytes (length bs)
         in parent_output
              (output_chaining_value (tree_output key flags (take n bs)) @ output_chaining_value (tree_output key flags (drop n bs)))
              key flags))"
  by pat_completeness auto

termination
  by (relation "measure (\<lambda>(key, flags, bs). length bs)") (auto simp: not_le dest!: left_bytes_bounds)

declare tree_output.simps [simp del]

abbreviation tree_cv :: "cv_words \<Rightarrow> byte \<Rightarrow> byte list \<Rightarrow> byte list" where
  "tree_cv key flags bs \<equiv> output_chaining_value (tree_output key flags bs)"

text \<open>The hash: the first 32 bytes of the compression of the root.\<close>

definition blake3zcc :: "byte list \<Rightarrow> byte list" where
  "blake3zcc bs =
     (let root = tree_output IV 0 bs
      in take 32 (blake3_compress_xof (out_input_cv root) (out_block root) (out_block_len root) 0 (out_flags root OR ROOT)))"

section \<open>Chunk states\<close>

text \<open>
  A state has absorbed the bytes: the blocks before the last are compressed, the rest is in the buffer, which is
  zero behind it.
\<close>

fun blocks_cv :: "cv_words \<Rightarrow> byte \<Rightarrow> nat \<Rightarrow> byte list \<Rightarrow> cv_words" where
  "blocks_cv key flags 0 bs = key"
| "blocks_cv key flags (Suc n) bs =
     blake3_compress_in_place (blocks_cv key flags n bs) (take 64 (drop (64 * n) bs)) 64 0 (flags OR (if n = 0 then CHUNK_START else 0))"

definition absorbing :: "cv_words \<Rightarrow> byte \<Rightarrow> byte list \<Rightarrow> blake3_chunk_state \<Rightarrow> bool" where
  "absorbing key flags bs cs \<longleftrightarrow>
     length bs = 64 * cs_blocks_compressed cs + cs_buf_len cs \<and> cs_buf_len cs \<le> 64 \<and> cs_flags cs = flags \<and>
     cs_buf cs = drop (64 * cs_blocks_compressed cs) bs @ replicate (64 - cs_buf_len cs) 0 \<and>
     cs_cv cs = blocks_cv key flags (cs_blocks_compressed cs) bs"

definition absorbed :: "cv_words \<Rightarrow> byte \<Rightarrow> byte list \<Rightarrow> blake3_chunk_state \<Rightarrow> bool" where
  "absorbed key flags bs cs \<longleftrightarrow> absorbing key flags bs cs \<and> (cs_buf_len cs = 0 \<longrightarrow> cs_blocks_compressed cs = 0)"

lemmas absorb_defs = absorbed_def absorbing_def

lemma blocks_cv_append: "64 * n \<le> length bs \<Longrightarrow> blocks_cv key flags n (bs @ cs) = blocks_cv key flags n bs"
  by (induction n) auto

lemma absorbed_init: "absorbed key flags [] ((chunk_state_init key flags)\<lparr>cs_chunk_counter := c\<rparr>)" "absorbed key flags [] (chunk_state_init key flags)"
  by (simp_all add: absorb_defs chunk_state_init_def)

lemma absorbed_len: "absorbed key flags bs cs \<Longrightarrow> chunk_state_len cs = length bs"
  by (simp add: absorb_defs chunk_state_len_def)

lemma chunk_output_blocks:
  "64 * n \<le> length bs \<Longrightarrow> (0 < n \<longrightarrow> 64 * n < length bs) \<Longrightarrow>
   chunk_output key flags CHUNK_START bs = chunk_output (blocks_cv key flags n bs) flags (if n = 0 then CHUNK_START else 0) (drop (64 * n) bs)"
proof (induction n)
  case (Suc n)
  have "64 < length (drop (64 * n) bs)" using Suc.prems by auto
  then show ?case using Suc by (simp add: chunk_output.simps [of "blocks_cv key flags n bs"] add.commute)
qed simp

lemma absorbed_output:
  assumes "absorbed key flags bs cs"
  shows "(chunk_state_output cs)\<lparr>out_counter := 0\<rparr> = chunk_output key flags CHUNK_START bs"
proof -
  let ?n = "cs_blocks_compressed cs"
  have "chunk_output key flags CHUNK_START bs =
      chunk_output (blocks_cv key flags ?n bs) flags (if ?n = 0 then CHUNK_START else 0) (drop (64 * ?n) bs)"
    by (rule chunk_output_blocks) (use assms in \<open>auto simp: absorb_defs\<close>)
  then show ?thesis
    using assms by (auto simp: absorb_defs chunk_state_output_def make_output_def chunk_state_maybe_start_flag_def
        chunk_output.simps [of "blocks_cv key flags ?n bs"])
qed

text \<open>The counter of an output is not used.\<close>

lemma counter_unused:
  "a\<lparr>out_counter := 0\<rparr> = b \<Longrightarrow> output_chaining_value a = output_chaining_value b"
  by (auto simp: output_chaining_value_def)

lemma fill_absorbing:
  assumes "absorbing key flags bs cs" "cs_buf_len cs + length input \<le> 64"
  shows "fst (chunk_state_fill_buf cs input) = length input"
    "absorbing key flags (bs @ input) (snd (chunk_state_fill_buf cs input))"
    "cs_buf_len (snd (chunk_state_fill_buf cs input)) = cs_buf_len cs + length input"
    "cs_blocks_compressed (snd (chunk_state_fill_buf cs input)) = cs_blocks_compressed cs"
  using assms by (auto simp: chunk_state_fill_buf_def Let_def absorbing_def blocks_cv_append)

lemma fill_full:
  assumes "absorbing key flags bs cs" "64 < cs_buf_len cs + length input"
  shows "chunk_state_fill_buf cs input = (64 - cs_buf_len cs, snd (chunk_state_fill_buf cs (take (64 - cs_buf_len cs) input)))"
  using assms by (auto simp: chunk_state_fill_buf_def Let_def absorbing_def)

lemma compress_absorbing:
  assumes "absorbing key flags bs cs" "cs_buf_len cs = 0" "length block = 64" "cs_blocks_compressed cs < 255"
  shows "absorbing key flags (bs @ block) (compress_block cs block)" "cs_buf_len (compress_block cs block) = 0"
    "cs_blocks_compressed (compress_block cs block) = cs_blocks_compressed cs + 1"
  using assms by (auto simp: absorbing_def compress_block_def chunk_state_maybe_start_flag_def blocks_cv_append)

lemma compress_blocks_absorbing:
  assumes "absorbing key flags bs cs" "cs_buf_len cs = 0" "length (bs @ input) \<le> 1024" "input \<noteq> []"
  shows "\<exists>cs' rest. compress_blocks cs input = (cs', rest) \<and> rest \<noteq> [] \<and> length rest \<le> 64 \<and>
    (\<exists>done. input = done @ rest \<and> absorbing key flags (bs @ done) cs') \<and> cs_buf_len cs' = 0"
  using assms
proof (induction "length input" arbitrary: cs bs input rule: less_induct)
  case less
  show ?case
  proof (cases "length input > 64")
    case True
    have n: "cs_blocks_compressed cs < 255" using less.prems by (simp add: absorbing_def)
    let ?c = "compress_block cs (take 64 input)"
    have c: "absorbing key flags (bs @ take 64 input) ?c" "cs_buf_len ?c = 0"
      using compress_absorbing [OF less.prems(1,2) _ n] True by auto
    have "\<exists>cs' rest. compress_blocks ?c (drop 64 input) = (cs', rest) \<and> rest \<noteq> [] \<and> length rest \<le> 64 \<and>
      (\<exists>done. drop 64 input = done @ rest \<and> absorbing key flags ((bs @ take 64 input) @ done) cs') \<and> cs_buf_len cs' = 0"
      by (rule less.hyps) (use True c less.prems in auto)
    then obtain cs' rest d where "compress_blocks ?c (drop 64 input) = (cs', rest)" "rest \<noteq> []" "length rest \<le> 64"
        "drop 64 input = d @ rest" "absorbing key flags (bs @ take 64 input @ d) cs'" "cs_buf_len cs' = 0" by auto
    moreover from this have "input = (take 64 input @ d) @ rest" by (metis append.assoc append_take_drop_id)
    ultimately show ?thesis using True by (subst compress_blocks.simps) (auto intro!: exI [of _ "take 64 input @ d"])
  next
    case False
    then show ?thesis using less.prems by (subst compress_blocks.simps) (auto intro: exI [of _ "[]"])
  qed
qed

lemma flush_absorbing:
  assumes "absorbing key flags bs cs" "cs_buf_len cs = 64" "cs_blocks_compressed cs < 255"
  shows "absorbing key flags bs ((compress_block cs (cs_buf cs))\<lparr>cs_buf_len := 0, cs_buf := replicate 64 0\<rparr>)"
  using assms by (auto simp: absorbing_def compress_block_def chunk_state_maybe_start_flag_def)

text \<open>The second part of an update, with an empty buffer or without input.\<close>

lemma rest_absorbed:
  assumes "absorbing key flags bs cs" "cs_buf_len cs = 0" "length (bs @ input) \<le> 1024" "input \<noteq> []"
  shows "absorbed key flags (bs @ input) (let (cs, input) = compress_blocks cs input in snd (chunk_state_fill_buf cs input))"
proof -
  obtain cs' rest d where c: "compress_blocks cs input = (cs', rest)" "rest \<noteq> []" "length rest \<le> 64" "input = d @ rest"
      "absorbing key flags (bs @ d) cs'" "cs_buf_len cs' = 0"
    using compress_blocks_absorbing [OF assms] by blast
  then show ?thesis using fill_absorbing [OF c(5), of rest] by (simp add: absorbed_def)
qed

lemma no_rest_absorbed:
  assumes "absorbed key flags bs cs"
  shows "absorbed key flags bs (let (cs, input) = compress_blocks cs [] in snd (chunk_state_fill_buf cs input))"
  using assms fill_absorbing [of key flags bs cs "[]"] by (simp add: compress_blocks.simps absorbed_def) (simp add: absorbing_def)

lemma update_absorbed:
  assumes "absorbed key flags bs cs" "length (bs @ input) \<le> 1024"
  shows "absorbed key flags (bs @ input) (chunk_state_update cs input)"
proof -
  have a: "absorbing key flags bs cs" using assms(1) by (simp add: absorbed_def)
  let ?k = "cs_buf_len cs"
  consider "?k = 0" "input = []" | "?k = 0" "input \<noteq> []" | "0 < ?k" "?k + length input \<le> 64" | "0 < ?k" "64 < ?k + length input"
    by linarith
  then show ?thesis
  proof cases
    case 1
    then show ?thesis using no_rest_absorbed [OF assms(1)] by (simp add: chunk_state_update_def)
  next
    case 2
    then show ?thesis using rest_absorbed [OF a _ assms(2)] by (simp add: chunk_state_update_def)
  next
    case 3
    note f = fill_absorbing [OF a 3(2)]
    have "absorbed key flags (bs @ input) (snd (chunk_state_fill_buf cs input))" using f 3(1) by (simp add: absorbed_def)
    from no_rest_absorbed [OF this] show ?thesis using 3(1) f(1)
      by (cases "chunk_state_fill_buf cs input") (simp add: chunk_state_update_def Let_def)
  next
    case 4
    let ?n = "64 - ?k" and ?f = "snd (chunk_state_fill_buf cs (take (64 - cs_buf_len cs) input))"
    have k: "?k \<le> 64" using a by (simp add: absorbing_def)
    have f: "absorbing key flags (bs @ take ?n input) ?f" "cs_buf_len ?f = 64" "cs_blocks_compressed ?f = cs_blocks_compressed cs"
      using fill_absorbing [OF a, of "take ?n input"] k 4(2) by auto
    have "cs_blocks_compressed cs < 255" using a assms(2) by (simp add: absorbing_def)
    from flush_absorbing [OF f(1,2)] this f(3)
    have g: "absorbing key flags (bs @ take ?n input) ((compress_block ?f (cs_buf ?f))\<lparr>cs_buf_len := 0, cs_buf := replicate 64 0\<rparr>)" by simp
    have more: "\<not> length input \<le> ?n" using 4(2) k by auto
    then have "drop ?n input \<noteq> []" by simp
    from rest_absorbed [OF g _ _ this] show ?thesis
      using assms(2) 4 fill_full [OF a 4(2)] more by (simp add: chunk_state_update_def Let_def)
  qed
qed

lemma compress_blocks_counter: "cs_chunk_counter (fst (compress_blocks cs input)) = cs_chunk_counter cs"
proof (induction cs input rule: compress_blocks.induct)
  case (1 cs input)
  then show ?case by (subst compress_blocks.simps) (simp add: compress_block_def)
qed

lemma fill_counter: "cs_chunk_counter (snd (chunk_state_fill_buf cs input)) = cs_chunk_counter cs"
  by (simp add: chunk_state_fill_buf_def Let_def)

lemma update_counter [simp]: "cs_chunk_counter (chunk_state_update cs input) = cs_chunk_counter cs"
  by (simp add: chunk_state_update_def Let_def case_prod_beta fill_counter compress_blocks_counter compress_block_def)

text \<open>
  However a chunk of at most 1024 bytes is cut into updates, the state of the chunk gives the same output as
  compressing its bytes block by block.
\<close>

theorem chunk_updates_output:
  assumes "length (concat inputs) \<le> 1024"
  shows "(chunk_state_output (fold (\<lambda>input cs. chunk_state_update cs input) inputs (chunk_state_init key flags)))\<lparr>out_counter := 0\<rparr> =
    chunk_output key flags CHUNK_START (concat inputs)"
proof -
  have "absorbed key flags bs cs \<Longrightarrow> length (bs @ concat inputs) \<le> 1024 \<Longrightarrow>
      absorbed key flags (bs @ concat inputs) (fold (\<lambda>input cs. chunk_state_update cs input) inputs cs)" for bs cs
  proof (induction inputs arbitrary: bs cs)
    case (Cons input inputs)
    have "absorbed key flags (bs @ input) (chunk_state_update cs input)"
      by (rule update_absorbed [OF Cons.prems(1)]) (use Cons.prems(2) in simp)
    from Cons.IH [OF this] Cons.prems(2) show ?case by simp
  qed simp
  from this [OF absorbed_init(2)] show ?thesis using assms absorbed_output by simp
qed


section \<open>Subtrees\<close>

lemma length_output_cv [simp]: "length (output_chaining_value o') = 32"
  by (simp add: output_chaining_value_def)

lemma hash_blocks_chunk:
  "length bs = 64 * Suc n \<Longrightarrow>
   store_cv_words (hash_blocks bs (Suc n) cv flags (flags OR start) CHUNK_END) = output_chaining_value (chunk_output cv flags start bs)"
proof (induction n arbitrary: bs cv start)
  case 0
  then show ?case
    by (simp add: chunk_output.simps [of cv] output_chaining_value_def make_output_def blake3_compress_in_place_def or.assoc)
next
  case (Suc n)
  have l: "\<not> length bs \<le> 64" "length (drop 64 bs) = 64 * Suc n" using Suc.prems by simp_all
  have "hash_blocks bs (Suc (Suc n)) cv flags (flags OR start) CHUNK_END =
      hash_blocks (drop 64 bs) (Suc n) (blake3_compress_in_place_portable cv (take 64 bs) 64 0 (flags OR start)) flags (flags OR 0) CHUNK_END"
    by simp
  then show ?case
    using Suc.IH [OF l(2), of "blake3_compress_in_place cv (take 64 bs) 64 0 (flags OR start)" 0] l(1) by (simp add: chunk_output.simps [of cv flags start bs] blake3_compress_in_place_def del: hash_blocks.simps)
qed

lemma chunk_state_cv:
  assumes "length bs \<le> 1024"
  shows "output_chaining_value (chunk_state_output (chunk_state_update (chunk_state_init key flags) bs)) =
      output_chaining_value (chunk_output key flags CHUNK_START bs)"
    "output_chaining_value (chunk_state_output (chunk_state_update ((chunk_state_init key flags)\<lparr>cs_chunk_counter := c\<rparr>) bs)) =
      output_chaining_value (chunk_output key flags CHUNK_START bs)"
  using update_absorbed [OF absorbed_init(1), of bs] update_absorbed [OF absorbed_init(2), of bs] assms
  by (auto intro!: counter_unused absorbed_output)

lemma compress_chunk:
  assumes "bs \<noteq> []" "length bs \<le> 1024"
  shows "compress_chunks_parallel bs key c flags = [tree_cv key flags bs]"
proof (cases "length bs = 1024")
  case True
  then have f: "full_chunks bs = [bs]" by (simp add: full_chunks.simps [of bs]) (simp add: full_chunks.simps)
  have "store_cv_words (hash_blocks bs 16 key flags (flags OR CHUNK_START) CHUNK_END) = tree_cv key flags bs"
    using hash_blocks_chunk [of bs 15 key flags CHUNK_START] True by (simp add: tree_output.simps [of key flags bs])
  then show ?thesis using True f
    by (simp add: compress_chunks_parallel_def Let_def blake3_hash_many_def hash_one_portable_def)
next
  case False
  then have "full_chunks bs = []" using assms by (simp add: full_chunks.simps)
  then show ?thesis using assms chunk_state_cv(1) [OF assms(2)]
    by (simp add: compress_chunks_parallel_def Let_def blake3_hash_many_def tree_output.simps [of key flags bs])
qed

lemma hash_parent:
  assumes "length block = 64"
  shows "hash_one_portable block 1 key c (flags OR PARENT) 0 0 = output_chaining_value (parent_output block key flags)"
  using assms
  by (simp add: hash_one_portable_def output_chaining_value_def parent_output_def make_output_def blake3_compress_in_place_def)

lemma compress_parents:
  assumes "length a = 32" "length b = 32"
  shows "compress_parents_parallel [a, b, c] key flags = [output_chaining_value (parent_output (a @ b) key flags), c]"
    "length c = 32 \<Longrightarrow> length d = 32 \<Longrightarrow> compress_parents_parallel [a, b, c, d] key flags =
      [output_chaining_value (parent_output (a @ b) key flags), output_chaining_value (parent_output (c @ d) key flags)]"
  using assms by (simp_all add: compress_parents_parallel_def blake3_hash_many_def hash_parent [unfolded One_nat_def])

lemma power_below_round_down: "0 < n \<Longrightarrow> n < 2 ^ 64 \<Longrightarrow> round_down_to_power_of_2 n = power_below n"
  using power_below_bounds [of n] round_down_power [of _ n] by metis

lemma left_len_bytes: "1024 < n \<Longrightarrow> n < 2 ^ 64 \<Longrightarrow> left_len n = left_bytes n"
  by (simp add: left_len_def left_bytes_def power_below_round_down div_greater_zero_iff)

lemma tree_cv_parent:
  "1024 < length bs \<Longrightarrow> tree_cv key flags bs = output_chaining_value (parent_output
     (tree_cv key flags (take (left_bytes (length bs)) bs) @ tree_cv key flags (drop (left_bytes (length bs)) bs)) key flags)"
  by (subst tree_output.simps) (simp add: Let_def)

lemma left_bytes_small:
  assumes "1024 < n" "left_bytes n \<le> 1024"
  shows "n - left_bytes n \<le> 1024"
proof -
  have "0 < (n - 1) div 1024" using assms(1) by (simp add: div_greater_zero_iff)
  then obtain k where k: "power_below ((n - 1) div 1024) = 2 ^ k" "(n - 1) div 1024 < 2 * 2 ^ k" using power_below_bounds by blast
  then have "2 ^ k = (1 :: nat)" using assms(2) power_increasing [of 1 k "2 :: nat"] by (cases "k = 0") (simp_all add: left_bytes_def)
  then show ?thesis using k by (simp add: left_bytes_def)
qed

lemma subtree_wide:
  "bs \<noteq> [] \<Longrightarrow> length bs < 2 ^ 64 \<Longrightarrow>
   blake3_compress_subtree_wide bs key c flags =
     (if length bs \<le> 1024 then [tree_cv key flags bs]
      else [tree_cv key flags (take (left_bytes (length bs)) bs), tree_cv key flags (drop (left_bytes (length bs)) bs)])"
proof (induction "length bs" arbitrary: bs c rule: less_induct)
  case less
  show ?case
  proof (cases "length bs \<le> 1024")
    case True
    then show ?thesis using compress_chunk less.prems(1) by (subst blake3_compress_subtree_wide.simps) (simp add: blake3_simd_degree_def)
  next
    case False
    let ?n = "left_bytes (length bs)"
    have n: "0 < ?n" "?n < length bs" "left_len (length bs) = ?n" using left_bytes_bounds [of "length bs"] left_len_bytes less.prems False by auto
    let ?l = "take ?n bs" and ?r = "drop ?n bs"
    have l: "blake3_compress_subtree_wide ?l key 0 flags = (if length ?l \<le> 1024 then [tree_cv key flags ?l]
        else [tree_cv key flags (take (left_bytes (length ?l)) ?l), tree_cv key flags (drop (left_bytes (length ?l)) ?l)])"
      by (rule less.hyps) (use n less.prems(2) in auto)
    have r: "blake3_compress_subtree_wide ?r key 0 flags = (if length ?r \<le> 1024 then [tree_cv key flags ?r]
        else [tree_cv key flags (take (left_bytes (length ?r)) ?r), tree_cv key flags (drop (left_bytes (length ?r)) ?r)])"
      by (rule less.hyps) (use n less.prems(2) in auto)
    show ?thesis
    proof (cases "?n \<le> 1024")
      case True
      then have "length ?r \<le> 1024" using left_bytes_small [of "length bs"] False by simp
      then show ?thesis using True n l r False
        by (subst blake3_compress_subtree_wide.simps) (simp add: blake3_simd_degree_def Let_def place_cvs_def)
    next
      case big: False
      then have long: "1024 < length ?l" using n by simp
      let ?a = "tree_cv key flags (take (left_bytes (length ?l)) ?l)" and ?b = "tree_cv key flags (drop (left_bytes (length ?l)) ?l)"
      have "blake3_compress_subtree_wide bs key c flags = compress_parents_parallel ([?a, ?b] @ blake3_compress_subtree_wide ?r key 0 flags) key flags"
        using big n(3) l long False by (subst blake3_compress_subtree_wide.simps) (simp add: blake3_simd_degree_def Let_def place_cvs_def del: length_take)
      also have "\<dots> = [tree_cv key flags ?l, tree_cv key flags ?r]"
        unfolding r using tree_cv_parent [OF long] tree_cv_parent [of ?r key flags] by (simp add: compress_parents not_le del: length_take length_drop)
      finally show ?thesis using False by simp
    qed
  qed
qed


section \<open>Stacks of subtrees\<close>

text \<open>The sizes of the subtrees on a merged stack: the binary digits of the number of chunks.\<close>

function bits :: "nat \<Rightarrow> nat list" where
  "bits n = (if n = 0 then [] else power_below n # bits (n - power_below n))"
  by auto

termination
  by (relation "measure id") (auto dest: power_below_le)

declare bits.simps [simp del]

lemma bits_0 [simp]: "bits 0 = []"
  by (simp add: bits.simps)

lemma power_below_double: "0 < n \<Longrightarrow> power_below (2 * n) = 2 * power_below n"
  by (simp add: power_below.simps [of "2 * n"])

lemma power_below_eq: "2 ^ k \<le> n \<Longrightarrow> n < 2 * 2 ^ k \<Longrightarrow> power_below n = 2 ^ k"
  using power_below_bounds [of n] power_of_two_unique by (metis less_le_trans zero_less_numeral zero_less_power)

lemma bits_double: "bits (2 * n) = map ((*) 2) (bits n)"
proof (induction n rule: bits.induct)
  case (1 n)
  show ?case
  proof (cases "n = 0")
    case False
    then have "2 * n - 2 * power_below n = 2 * (n - power_below n)" by simp
    then show ?thesis using 1 False by (simp add: bits.simps [of "2 * n"] bits.simps [of n] power_below_double)
  qed simp
qed

text \<open>Room above a multiple: nothing is carried into the highest digit.\<close>

lemma no_carry:
  assumes "(2 :: nat) ^ k dvd c" "c < 2 * 2 ^ t" "(2 :: nat) ^ k \<le> 2 * 2 ^ t"
  shows "c + 2 ^ k \<le> 2 * 2 ^ t"
proof -
  have "k \<le> Suc t" using assms(3) power_le_imp_le_exp [of "2 :: nat" k "Suc t"] by simp
  then have "2 ^ k dvd (2 * 2 ^ t :: nat)" using le_imp_power_dvd [of k "Suc t" "2 :: nat"] by simp
  then obtain a b :: nat where ab: "c = 2 ^ k * a" "2 * 2 ^ t = 2 ^ k * b" using assms(1) by (auto elim!: dvdE)
  then have "a + 1 \<le> b" using assms(2) by (simp add: Suc_le_eq)
  then have "2 ^ k * (a + 1) \<le> 2 ^ k * b" by (rule mult_le_mono2)
  then show ?thesis using ab by simp
qed

lemma highest_digit:
  assumes "0 < c" "(2 :: nat) ^ k dvd c"
  obtains t where "power_below c = 2 ^ t" "2 ^ t \<le> c" "c < 2 * 2 ^ t" "k \<le> t" "2 ^ k dvd c - 2 ^ t" "c + 2 ^ k \<le> 2 * 2 ^ t"
proof -
  obtain t where t: "power_below c = 2 ^ t" "2 ^ t \<le> c" "c < 2 * 2 ^ t" using power_below_bounds assms(1) by blast
  have "(2 :: nat) ^ k \<le> c" using assms by (simp add: dvd_imp_le)
  then have "(2 :: nat) ^ k < 2 ^ Suc t" using t(3) by simp
  then have k: "k \<le> t" using power_less_imp_less_exp [of "2 :: nat" k "Suc t"] by simp
  then have "2 ^ k dvd (2 ^ t :: nat)" by (rule le_imp_power_dvd)
  then have "2 ^ k dvd c - 2 ^ t" using assms(2) by (simp add: dvd_diff_nat)
  moreover have "(2 :: nat) ^ k \<le> 2 * 2 ^ t" using power_increasing [OF k, of "2 :: nat"] by linarith
  from no_carry [OF assms(2) t(3) this] have "c + 2 ^ k \<le> 2 * 2 ^ t" .
  ultimately show ?thesis using that t k by blast
qed

lemma bits_snoc: "2 * 2 ^ k dvd c \<Longrightarrow> bits (c + 2 ^ k) = bits c @ [2 ^ k]"
proof (induction c rule: bits.induct)
  case (1 c)
  show ?case
  proof (cases "c = 0")
    case True
    then show ?thesis by (simp add: bits.simps [of "2 ^ k"] power_below_eq [of k])
  next
    case False
    then obtain t where t: "power_below c = 2 ^ t" "2 ^ t \<le> c" "c < 2 * 2 ^ t" "2 ^ Suc k dvd c - 2 ^ t" "c + 2 ^ Suc k \<le> 2 * 2 ^ t"
      using highest_digit [of c "Suc k"] 1(2) by (auto simp: mult.commute)
    have "power_below (c + 2 ^ k) = 2 ^ t" by (rule power_below_eq) (use t in \<open>auto intro: trans_le_add1 less_le_trans\<close>)
    moreover have "c + 2 ^ k - 2 ^ t = c - 2 ^ t + 2 ^ k" using t(2) by simp
    ultimately show ?thesis using 1(1) False t(1,4) by (simp add: bits.simps [of "c + 2 ^ k"] bits.simps [of c])
  qed
qed

lemma length_bits: "length (bits n) = popcnt n"
proof (induction n rule: less_induct)
  case (less n)
  show ?case
  proof (cases "n = 0")
    case False
    then have IH: "length (bits (n div 2)) = popcnt (n div 2)" using less by simp
    show ?thesis
    proof (cases "even n")
      case True
      then show ?thesis using IH bits_double [of "n div 2"] popcnt_double [of "n div 2"] by simp
    next
      case odd: False
      then have "n = 2 * (n div 2) + 2 ^ 0" by simp
      then show ?thesis using IH bits_snoc [of 0 "2 * (n div 2)"] bits_double [of "n div 2"] popcnt_odd [of "n div 2"] popcnt_double [of "n div 2"]
        by (metis One_nat_def dvd_triv_left length_append_singleton length_map mult.right_neutral power_0 Suc_eq_plus1)
    qed
  qed simp
qed

lemma sum_bits: "sum_list (bits n) = n"
proof (induction n rule: bits.induct)
  case (1 n)
  then show ?case using power_below_le [of n] by (cases "n = 0") (simp_all add: bits.simps [of n])
qed

lemma popcnt_bound: "n < 2 ^ m \<Longrightarrow> popcnt n \<le> m"
proof (induction m arbitrary: n)
  case (Suc m)
  then have "n div 2 < 2 ^ m" by (simp add: less_mult_imp_div_less mult.commute)
  from Suc.IH [OF this] show ?case
    using popcnt_double [of "n div 2"] popcnt_odd [of "n div 2"] by (cases "even n") (auto elim!: evenE oddE)
qed simp

lemma lowest_digit:
  assumes "(2 :: nat) ^ k dvd c" "\<not> 2 * 2 ^ k dvd c"
  obtains c' where "c = c' + 2 ^ k" "2 * 2 ^ k dvd c'"
proof -
  obtain a where a: "c = 2 ^ k * a" using assms(1) by (rule dvdE)
  then have "odd a" using assms(2) by (auto elim!: evenE)
  then obtain b where "a = 2 * b + 1" by (rule oddE)
  then show ?thesis using that [of "2 * 2 ^ k * b"] a by simp
qed

text \<open>Adding a power of two that divides the number of chunks: either a new digit, or a carry.\<close>

lemma digit_induct [consumes 1, case_names snoc carry]:
  assumes "(2 :: nat) ^ k dvd c"
    and "\<And>c k. 2 * 2 ^ k dvd c \<Longrightarrow> P c k"
    and "\<And>c k. 2 ^ Suc k dvd c \<Longrightarrow> P c (Suc k) \<Longrightarrow> P (c + 2 ^ k) k"
  shows "P c k"
  using assms(1)
proof (induction c arbitrary: k rule: less_induct)
  case (less c)
  show ?case
  proof (cases "2 * 2 ^ k dvd c")
    case False
    then obtain c' where "c = c' + 2 ^ k" "2 * 2 ^ k dvd c'" using lowest_digit less.prems by blast
    then show ?thesis using assms(3) [of k c'] less.IH [of c' "Suc k"] by simp
  qed (rule assms(2))
qed

lemma popcnt_snoc: "2 * 2 ^ k dvd c \<Longrightarrow> popcnt (c + 2 ^ k) = popcnt c + 1"
  using bits_snoc [of k c] length_bits [of "c + 2 ^ k"] length_bits [of c] by simp

lemma popcnt_carry: "2 ^ k dvd c \<Longrightarrow> popcnt (c + 2 ^ k) \<le> popcnt c + 1"
proof (induction rule: digit_induct)
  case (carry c k)
  then show ?case using popcnt_snoc [of k c] by (simp add: add.assoc mult_2)
qed (simp add: popcnt_snoc)

fun seg_cvs :: "cv_words \<Rightarrow> byte \<Rightarrow> nat list \<Rightarrow> byte list \<Rightarrow> byte list list" where
  "seg_cvs key flags [] bs = []"
| "seg_cvs key flags (s # segs) bs = tree_cv key flags (take (1024 * s) bs) # seg_cvs key flags segs (drop (1024 * s) bs)"

lemma length_seg_cvs [simp]: "length (seg_cvs key flags segs bs) = length segs"
  by (induction segs arbitrary: bs) simp_all

lemma seg_cvs_append:
  "seg_cvs key flags (xs @ ys) bs = seg_cvs key flags xs bs @ seg_cvs key flags ys (drop (1024 * sum_list xs) bs)"
  by (induction xs arbitrary: bs) (simp_all add: add_mult_distrib2 add.commute)

lemma seg_cvs_more:
  "1024 * sum_list segs \<le> length bs \<Longrightarrow> seg_cvs key flags segs (bs @ rest) = seg_cvs key flags segs bs"
  by (induction segs arbitrary: bs) (simp_all add: add_mult_distrib2)


lemma left_bytes_halves: "left_bytes (1024 * (2 * 2 ^ k)) = 1024 * 2 ^ k"
proof -
  obtain q :: nat where q: "2 * 2 ^ k = Suc q" by (metis gr0_conv_Suc mult_pos_pos zero_less_numeral zero_less_power)
  have "(1024 * Suc q - 1) div 1024 = q" by simp
  moreover have "power_below q = 2 ^ k" by (rule power_below_eq) (use q in auto)
  ultimately show ?thesis by (simp only: left_bytes_def q)
qed

lemma tree_cv_halves:
  assumes "length bs = 1024 * (2 * 2 ^ k)"
  shows "tree_cv key flags bs = output_chaining_value (parent_output
    (tree_cv key flags (take (1024 * 2 ^ k) bs) @ tree_cv key flags (drop (1024 * 2 ^ k) bs)) key flags)"
proof -
  have "(1 :: nat) \<le> 2 ^ k" by simp
  then have "1024 < length bs" unfolding assms by linarith
  from tree_cv_parent [OF this] show ?thesis by (simp only: assms left_bytes_halves)
qed

lemma merge_step:
  assumes "n < length xs + 2"
  shows "merge_loop key flags n (xs @ [a, b]) = merge_loop key flags n (xs @ [output_chaining_value (parent_output (a @ b) key flags)])"
  using assms by (subst merge_loop.simps) (simp add: nth_append)

lemma merge_done: "length xs \<le> n \<Longrightarrow> merge_loop key flags n xs = Some xs"
  by (subst merge_loop.simps) simp

lemma merge_digit:
  assumes "(2 :: nat) ^ k dvd c"
  shows "1024 * (c + 2 ^ k) \<le> length bs \<Longrightarrow>
    merge_loop key flags (popcnt (c + 2 ^ k)) (seg_cvs key flags (bits c @ [2 ^ k]) bs) = Some (seg_cvs key flags (bits (c + 2 ^ k)) bs)"
  using assms
proof (induction rule: digit_induct)
  case (snoc c k)
  then show ?case using bits_snoc [of k c] length_bits [of "c + 2 ^ k"] by (simp add: merge_done)
next
  case (carry c k)
  let ?d = "drop (1024 * c) bs"
  have b: "bits (c + 2 ^ k) = bits c @ [2 ^ k]" using bits_snoc carry(1) by simp
  have "popcnt (c + 2 ^ Suc k) < length (seg_cvs key flags (bits c) bs) + 2"
    using popcnt_carry [OF carry(1)] by (simp add: length_bits)
  moreover have "output_chaining_value (parent_output (tree_cv key flags (take (1024 * 2 ^ k) ?d) @
        tree_cv key flags (take (1024 * 2 ^ k) (drop (1024 * 2 ^ k) ?d))) key flags) = tree_cv key flags (take (1024 * 2 ^ Suc k) ?d)"
    using tree_cv_halves [of "take (1024 * 2 ^ Suc k) ?d" k key flags] carry.prems by (simp add: take_drop min_def)
  ultimately have "merge_loop key flags (popcnt (c + 2 ^ Suc k)) (seg_cvs key flags (bits (c + 2 ^ k) @ [2 ^ k]) bs) =
      merge_loop key flags (popcnt (c + 2 ^ Suc k)) (seg_cvs key flags (bits c @ [2 ^ Suc k]) bs)"
    unfolding b using merge_step [of _ "seg_cvs key flags (bits c) bs"] by (simp add: seg_cvs_append sum_bits add.commute)
  then show ?case using carry by (simp add: add.assoc mult_2)
qed

lemma merge_empty: "xs \<noteq> [] \<Longrightarrow> merge_loop key flags 0 xs = None"
proof (induction "length xs" arbitrary: xs rule: less_induct)
  case less
  then show ?case by (subst merge_loop.simps) (auto simp: Let_def)
qed

end
