(* ===== verification/Blake3_Hasher.thy ===== *)
theory Blake3_Hasher
  imports Blake3_Tree
begin

text \<open>
  The hasher of \<^verbatim>\<open>blake3.cpp\<close> over a sequence of updates: which sequences are defined, and that the defined ones
  give the hash of the concatenated input.
\<close>

section \<open>States of the hasher\<close>

text \<open>
  The stack holds the subtrees of a number of chunks, merged up to the last subtree pushed.
\<close>

definition lazy :: "nat \<Rightarrow> nat list \<Rightarrow> bool" where
  "lazy c segs \<longleftrightarrow> segs = bits c \<or> (\<exists>c0 k. c = c0 + 2 ^ k \<and> 2 ^ k dvd c0 \<and> segs = bits c0 @ [2 ^ k])"

lemma sum_lazy: "lazy c segs \<Longrightarrow> sum_list segs = c"
  by (auto simp: lazy_def sum_bits)

lemma merge_lazy:
  assumes "lazy c segs" "1024 * c \<le> length bs"
  shows "merge_loop key flags (popcnt c) (seg_cvs key flags segs bs) = Some (seg_cvs key flags (bits c) bs)"
  using assms merge_digit [where bs = bs and key = key and flags = flags] by (auto simp: lazy_def merge_done length_bits)

text \<open>
  Between the passes of the loop: an empty chunk, the counter and the stack of the chunks consumed.
\<close>

definition consumed :: "cv_words \<Rightarrow> byte \<Rightarrow> byte list \<Rightarrow> nat list \<Rightarrow> blake3_hasher \<Rightarrow> bool" where
  "consumed key flags bs segs self \<longleftrightarrow>
     (let c = cs_chunk_counter (h_chunk self)
      in h_key self = key \<and> absorbed key flags [] (h_chunk self) \<and> length bs = 1024 * c \<and> lazy c segs \<and>
         h_cv_stack self = seg_cvs key flags segs bs)"

lemma push_consumed:
  assumes "h_key self = key" "cs_flags (h_chunk self) = flags" "lazy c segs" "h_cv_stack self = seg_cvs key flags segs bs"
    and "1024 * c \<le> length bs" "popcnt c < 55"
  shows "hasher_push_cv self cv c = Some (self\<lparr>h_cv_stack := seg_cvs key flags (bits c) bs @ [cv]\<rparr>)"
  using assms merge_lazy [OF assms(3,5), of key flags] by (simp add: hasher_push_cv_def hasher_merge_cv_stack_def length_bits)

lemma push_undefined: "h_cv_stack self \<noteq> [] \<Longrightarrow> hasher_push_cv self cv 0 = None"
  by (simp add: hasher_push_cv_def hasher_merge_cv_stack_def merge_empty)

lemma parent_node_cvs:
  assumes "length bs = 1024 * (2 * 2 ^ k)" "length bs < 2 ^ 64"
  shows "compress_subtree_to_parent_node bs key c flags =
    [tree_cv key flags (take (1024 * 2 ^ k) bs), tree_cv key flags (drop (1024 * 2 ^ k) bs)]"
proof -
  have "(1 :: nat) \<le> 2 ^ k" by simp
  then have long: "1024 < length bs" unfolding assms(1) by linarith
  then have "blake3_compress_subtree_wide bs key 0 flags =
      [tree_cv key flags (take (left_bytes (length bs)) bs), tree_cv key flags (drop (left_bytes (length bs)) bs)]"
    using subtree_wide [of bs key 0 flags] assms(2) by (cases "bs = []") auto
  then show ?thesis by (simp add: compress_subtree_to_parent_node_def condense.simps assms(1) [simplified] left_bytes_halves [simplified])
qed

text \<open>The pieces a subtree of \<open>2 ^ k\<close> chunks leaves on the stack.\<close>

definition pushed :: "nat \<Rightarrow> nat list" where
  "pushed k = (if k = 0 then [1] else [2 ^ (k - 1), 2 ^ (k - 1)])"

lemma lazy_pushed: "2 ^ k dvd c \<Longrightarrow> lazy (c + 2 ^ k) (bits c @ pushed k)"
proof (cases k)
  case 0
  then show ?thesis unfolding lazy_def pushed_def by (intro disjI2 exI [of _ c] exI [of _ 0]) simp
next
  case (Suc j)
  assume "2 ^ k dvd c"
  then have "2 * 2 ^ j dvd c" using Suc by simp
  then have "bits c @ pushed k = bits (c + 2 ^ j) @ [2 ^ j]" "2 ^ j dvd c + 2 ^ j"
    using bits_snoc [of j c] Suc by (auto simp: pushed_def dest: dvd_mult_right)
  then show ?thesis unfolding lazy_def using Suc by (intro disjI2 exI [of _ "c + 2 ^ j"] exI [of _ j]) simp
qed

lemma absorbed_counter [simp]: "absorbed key flags bs (cs\<lparr>cs_chunk_counter := n\<rparr>) = absorbed key flags bs cs"
  by (simp add: absorb_defs)

lemma absorbed_flags: "absorbed key flags bs cs \<Longrightarrow> cs_flags cs = flags"
  by (simp add: absorb_defs)

lemma pushed_cvs:
  assumes "length bs = 1024 * c" "length x = 1024 * 2 ^ k"
  shows "seg_cvs key flags (bits c @ pushed k) (bs @ x) = seg_cvs key flags (bits c) bs @
    (if k = 0 then [tree_cv key flags x] else [tree_cv key flags (take (1024 * 2 ^ (k - 1)) x), tree_cv key flags (drop (1024 * 2 ^ (k - 1)) x)])"
  using assms by (cases k) (simp_all add: seg_cvs_append sum_bits seg_cvs_more pushed_def)

text \<open>The stack has room: there are fewer than \<open>2 ^ 54\<close> chunks.\<close>

lemma stack_room:
  assumes "1024 * (c + 2 ^ k) < 2 ^ 64" "2 ^ k dvd c"
  shows "popcnt c < 55" "0 < k \<Longrightarrow> popcnt c < 54"
proof -
  have c: "c < 2 ^ 54" using assms(1) by simp
  then show "popcnt c < 55" using popcnt_bound [of c 54] by simp
  assume "0 < k"
  then have "even c" using assms(2) by (cases k) (auto dest: dvd_mult_left)
  then have "popcnt c = popcnt (c div 2)" using popcnt_double [of "c div 2"] by simp
  moreover have "c div 2 < 2 ^ 53" using c by simp
  ultimately show "popcnt c < 54" using popcnt_bound [of "c div 2" 53] by simp
qed

lemma update_subtree_consumed:
  assumes cons: "consumed key flags bs segs self" and c: "c = cs_chunk_counter (h_chunk self)" and dvd: "2 ^ k dvd c"
    and len: "1024 * 2 ^ k \<le> length input" "length (bs @ input) < 2 ^ 64"
  shows "\<exists>self'. update_subtree self input (1024 * 2 ^ k) = Some self' \<and>
    consumed key flags (bs @ take (1024 * 2 ^ k) input) (bits c @ pushed k) self' \<and> cs_chunk_counter (h_chunk self') = c + 2 ^ k"
proof -
  let ?x = "take (1024 * 2 ^ k) input" and ?s = "h_cv_stack self"
  have st: "h_key self = key" "cs_flags (h_chunk self) = flags" "lazy c segs" "?s = seg_cvs key flags segs bs" "length bs = 1024 * c"
      "absorbed key flags [] (h_chunk self)"
    using cons c by (auto simp: consumed_def Let_def dest: absorbed_flags)
  have x: "length ?x = 1024 * 2 ^ k" using len(1) by simp
  have small: "1024 * (c + 2 ^ k) < 2 ^ 64" "(c + 2 ^ k) mod 2 ^ 64 = c + 2 ^ k" using st(5) len by auto
  note push = push_consumed [OF st(1-4) _ stack_room(1) [OF small(1) dvd]]
  let ?new = "self\<lparr>h_cv_stack := seg_cvs key flags (bits c @ pushed k) (bs @ ?x), h_chunk := (h_chunk self)\<lparr>cs_chunk_counter := c + 2 ^ k\<rparr>\<rparr>"
  have "update_subtree self input (1024 * 2 ^ k) = Some ?new"
  proof (cases k)
    case 0
    then show ?thesis
      using push st x small c pushed_cvs [OF st(5) x, of key flags] chunk_state_cv(2) [where bs = ?x and key = key and flags = flags and c = c]
      by (simp add: update_subtree_def Let_def tree_output.simps [of key flags "take 1024 input"])
  next
    case (Suc j)
    have "(1 :: nat) \<le> 2 ^ j" by simp
    then have big: "\<not> 1024 * 2 ^ k \<le> (1024 :: nat)" unfolding Suc power_Suc by linarith
    have d: "2 * 2 ^ j dvd c" using dvd Suc by simp
    have pair: "compress_subtree_to_parent_node ?x key 0 flags =
        [tree_cv key flags (take (1024 * 2 ^ j) ?x), tree_cv key flags (drop (1024 * 2 ^ j) ?x)]"
      by (rule parent_node_cvs) (use x Suc len in auto)
    let ?l = "tree_cv key flags (take (1024 * 2 ^ j) ?x)" and ?r = "tree_cv key flags (drop (1024 * 2 ^ j) ?x)"
    have half: "(c + 2 ^ k div 2) mod 2 ^ 64 = c + 2 ^ j" using Suc small by simp
    have mid: "seg_cvs key flags (bits c) bs @ [?l] = seg_cvs key flags (bits (c + 2 ^ j)) (bs @ ?x)"
      using bits_snoc [OF d] st(5) x by (simp add: seg_cvs_append sum_bits seg_cvs_more)
    have "hasher_push_cv (self\<lparr>h_cv_stack := seg_cvs key flags (bits c) bs @ [?l]\<rparr>) ?r (c + 2 ^ j) =
        Some (self\<lparr>h_cv_stack := seg_cvs key flags (bits (c + 2 ^ j)) (bs @ ?x) @ [?r]\<rparr>)"
      using push_consumed [of "self\<lparr>h_cv_stack := seg_cvs key flags (bits c) bs @ [?l]\<rparr>" key flags "c + 2 ^ j" "bits (c + 2 ^ j)" "bs @ ?x" ?r]
        st mid x popcnt_snoc [OF d] stack_room(2) [OF small(1) dvd] Suc by (simp add: lazy_def)
    then show ?thesis
      using push st x small c half pair big pushed_cvs [OF st(5) x, of key flags] mid Suc
      by (simp add: update_subtree_def Let_def)
  qed
  moreover have "consumed key flags (bs @ ?x) (bits c @ pushed k) ?new"
    using st x lazy_pushed [OF dvd] by (simp add: consumed_def Let_def)
  ultimately show ?thesis by auto
qed


section \<open>The loop over subtrees\<close>

lemma mask_and: "(2 ^ m - 1) AND n = n mod (2 ^ m :: nat)"
  using take_bit_eq_mask [of m n] by (simp add: and.commute mask_eq_exp_minus_1 take_bit_eq_mod)

lemma shrink_exact:
  "\<exists>j \<le> m. shrink_subtree (2 ^ m) n = 2 ^ j \<and> 2 ^ j dvd n \<and> (j < m \<longrightarrow> \<not> 2 ^ Suc j dvd n)"
proof (induction m)
  case 0
  then show ?case by (simp add: shrink_subtree.simps)
next
  case (Suc m)
  show ?case
  proof (cases "2 ^ Suc m dvd n")
    case True
    then have "shrink_subtree (2 ^ Suc m) n = 2 ^ Suc m" by (subst shrink_subtree.simps) (simp only: mask_and, simp add: mod_eq_0_iff_dvd)
    then show ?thesis using True by blast
  next
    case False
    then have "shrink_subtree (2 ^ Suc m) n = shrink_subtree (2 ^ m) n"
      by (subst shrink_subtree.simps) (simp only: mask_and, simp add: mod_eq_0_iff_dvd)
    then show ?thesis using Suc False by (metis le_SucI le_neq_implies_less)
  qed
qed

text \<open>The subtree that one pass takes: as many chunks as divide the chunks before it and are in the input.\<close>

lemma subtree_taken:
  assumes "1024 < n" "n < 2 ^ 64" "1024 * c < 2 ^ 64"
  shows "\<exists>k. shrink_subtree (round_down_to_power_of_2 n) (c * 1024 mod 2 ^ 64) = 1024 * 2 ^ k \<and> 2 ^ k dvd c \<and> 1024 * 2 ^ k \<le> n \<and>
    (k = 0 \<longrightarrow> odd c \<or> n < 2048)"
proof -
  obtain m where m: "round_down_to_power_of_2 n = 2 ^ m" "2 ^ m \<le> n" "n < 2 * 2 ^ m"
    using round_down_bounds [of n] assms by (auto simp: round_down_to_power_of_2_def)
  have "(2 :: nat) ^ 10 < 2 ^ Suc m" using m(3) assms(1) by simp
  then have m10: "10 \<le> m" using power_less_imp_less_exp [of "2 :: nat" 10 "Suc m"] by simp
  obtain j where j: "j \<le> m" "shrink_subtree (2 ^ m) (c * 1024) = 2 ^ j" "2 ^ j dvd c * 1024" "j < m \<longrightarrow> \<not> 2 ^ Suc j dvd c * 1024"
    using shrink_exact by blast
  have "10 \<le> j"
  proof (rule ccontr)
    assume "\<not> 10 \<le> j"
    then have "2 ^ Suc j dvd (2 ^ 10 :: nat)" by (intro le_imp_power_dvd) simp
    then have "2 ^ Suc j dvd c * 1024" by (simp add: dvd_mult)
    then show False using j(4) m10 \<open>\<not> 10 \<le> j\<close> by simp
  qed
  then obtain k where k: "j = 10 + k" using le_Suc_ex by blast
  have "1024 * 2 ^ k dvd 1024 * c" using j(3) k by (simp add: power_add mult.commute)
  then have d: "2 ^ k dvd c" by (simp only: nat_mult_dvd_cancel_disj) simp
  have "odd c \<or> n < 2048" if "k = 0"
  proof (cases "m = 10")
    case False
    then have "\<not> 2 ^ 11 dvd c * 1024" using j(4) m10 k that by simp
    then have "odd c" by (auto elim!: evenE)
    then show ?thesis ..
  qed (use m(3) in simp)
  moreover have "1024 * 2 ^ k \<le> n" using j(1) k m(2) power_increasing [of j m "2 :: nat"] by (simp add: power_add)
  ultimately show ?thesis using j(2) k d m(1) assms(3) by (auto simp: power_add mult.commute)
qed

text \<open>
  What the loop leaves: less than a chunk, a chunk after an even number of chunks, or nothing after a pair of
  equal subtrees.
\<close>

definition paired :: "nat \<Rightarrow> nat list \<Rightarrow> bool" where
  "paired c segs \<longleftrightarrow> (c = 0 \<and> segs = []) \<or> (\<exists>c0 k. c = c0 + 2 * 2 ^ k \<and> 2 * 2 ^ k dvd c0 \<and> segs = bits c0 @ [2 ^ k, 2 ^ k])"

lemma paired_even: "paired c segs \<Longrightarrow> even c"
  by (auto simp: paired_def dest: dvd_mult_left)

lemma update_subtrees_consumed:
  assumes "consumed key flags bs segs self" "length (bs @ input) < 2 ^ 64"
    and "input = [] \<longrightarrow> paired (cs_chunk_counter (h_chunk self)) segs"
    and "length input = 1024 \<longrightarrow> even (cs_chunk_counter (h_chunk self))"
  shows "\<exists>self' segs' rest d. update_subtrees self input = Some (self', rest) \<and> input = d @ rest \<and>
    consumed key flags (bs @ d) segs' self' \<and> length rest \<le> 1024 \<and>
    (rest = [] \<longrightarrow> paired (cs_chunk_counter (h_chunk self')) segs') \<and> (length rest = 1024 \<longrightarrow> even (cs_chunk_counter (h_chunk self')))"
  using assms
proof (induction "length input" arbitrary: bs segs self input rule: less_induct)
  case less
  let ?c = "cs_chunk_counter (h_chunk self)"
  show ?case
  proof (cases "1024 < length input")
    case False
    then show ?thesis using less.prems by (subst update_subtrees.simps) auto
  next
    case True
    have bs: "length bs = 1024 * ?c" using less.prems(1) by (simp add: consumed_def Let_def)
    then obtain k where k: "shrink_subtree (round_down_to_power_of_2 (length input)) (?c * 1024 mod 2 ^ 64) = 1024 * 2 ^ k" "2 ^ k dvd ?c"
        "1024 * 2 ^ k \<le> length input" "k = 0 \<longrightarrow> odd ?c \<or> length input < 2048"
      using subtree_taken [of "length input" ?c] True less.prems(2) by auto
    let ?x = "take (1024 * 2 ^ k) input" and ?y = "drop (1024 * 2 ^ k) input"
    obtain self1 where s1: "update_subtree self input (1024 * 2 ^ k) = Some self1"
        "consumed key flags (bs @ ?x) (bits ?c @ pushed k) self1" "cs_chunk_counter (h_chunk self1) = ?c + 2 ^ k"
      using update_subtree_consumed [OF less.prems(1) refl k(2,3) less.prems(2)] by blast
    have "\<exists>self' segs' rest d. update_subtrees self1 ?y = Some (self', rest) \<and> ?y = d @ rest \<and>
      consumed key flags ((bs @ ?x) @ d) segs' self' \<and> length rest \<le> 1024 \<and>
      (rest = [] \<longrightarrow> paired (cs_chunk_counter (h_chunk self')) segs') \<and> (length rest = 1024 \<longrightarrow> even (cs_chunk_counter (h_chunk self')))"
    proof (rule less.hyps [OF _ s1(2)])
      show "length ?y < length input" using True by (auto intro: diff_less)
      show "length ((bs @ ?x) @ ?y) < 2 ^ 64" using less.prems(2) by simp
      show "?y = [] \<longrightarrow> paired (cs_chunk_counter (h_chunk self1)) (bits ?c @ pushed k)"
      proof
        assume "?y = []"
        then have "k \<noteq> 0" using True by (cases "k = 0") auto
        then obtain j where "k = Suc j" by (cases k) auto
        then show "paired (cs_chunk_counter (h_chunk self1)) (bits ?c @ pushed k)"
          unfolding paired_def s1(3) using k(2) by (intro disjI2 exI [of _ ?c] exI [of _ j]) (simp add: pushed_def)
      qed
      show "length ?y = 1024 \<longrightarrow> even (cs_chunk_counter (h_chunk self1))"
        using k(2,4) s1(3) by (cases k) (auto dest: dvd_mult_left)
    qed
    then obtain self' segs' rest d where r: "update_subtrees self1 ?y = Some (self', rest)" "?y = d @ rest"
      "consumed key flags (bs @ ?x @ d) segs' self'" "length rest \<le> 1024"
      "rest = [] \<longrightarrow> paired (cs_chunk_counter (h_chunk self')) segs'" "length rest = 1024 \<longrightarrow> even (cs_chunk_counter (h_chunk self'))" by auto
    have "update_subtrees self input = Some (self', rest)"
      using True k(1) s1(1) r(1) by (subst update_subtrees.simps) (simp add: Let_def)
    moreover have "input = (?x @ d) @ rest" using r(2) by (metis append.assoc append_take_drop_id)
    ultimately show ?thesis using r by blast
  qed
qed


section \<open>Updates\<close>

text \<open>
  A hasher that has been given the bytes, the last of them in its chunk: the stack is merged if there are any,
  and ends with a pair if there are none.
\<close>

definition hashed :: "cv_words \<Rightarrow> byte \<Rightarrow> byte list \<Rightarrow> blake3_hasher \<Rightarrow> bool" where
  "hashed key flags bs self \<longleftrightarrow>
     (let c = cs_chunk_counter (h_chunk self)
      in h_key self = key \<and> 1024 * c \<le> length bs \<and> length bs \<le> 1024 * c + 1024 \<and>
         absorbed key flags (drop (1024 * c) bs) (h_chunk self) \<and>
         (if length bs = 1024 * c then \<exists>segs. paired c segs \<and> h_cv_stack self = seg_cvs key flags segs bs
          else h_cv_stack self = seg_cvs key flags (bits c) bs))"

definition pending :: "blake3_hasher \<Rightarrow> nat" where
  "pending self = chunk_state_len (h_chunk self)"

lemma hashed_init: "hashed key flags [] (hasher_init_base key flags)"
  by (simp add: hashed_def hasher_init_base_def absorbed_init paired_def) (simp add: chunk_state_init_def)

lemma hashed_pending: "hashed key flags bs self \<Longrightarrow> pending self = length bs - 1024 * cs_chunk_counter (h_chunk self)"
  by (auto simp: hashed_def pending_def Let_def dest: absorbed_len)

lemma paired_lazy: "paired c segs \<Longrightarrow> lazy c segs"
proof -
  assume "paired c segs"
  then consider "c = 0" "segs = []" | c0 k where "c = c0 + 2 * 2 ^ k" "2 * 2 ^ k dvd c0" "segs = bits c0 @ [2 ^ k, 2 ^ k]"
    by (auto simp: paired_def)
  then show ?thesis
  proof cases
    case 2
    then show ?thesis using lazy_pushed [of "Suc k" c0] by (simp add: pushed_def)
  qed (simp add: lazy_def)
qed

text \<open>The chunk that is left after an update that began with an empty chunk.\<close>

definition leftover :: "nat \<Rightarrow> nat" where
  "leftover n = (if n mod 2048 \<le> 1024 then n mod 2048 else n mod 2048 - 1024)"

lemma leftover_eq:
  assumes "1024 * c + n = 1024 * c' + r" "even c" "r \<le> 1024" "r = 0 \<or> r = 1024 \<longrightarrow> even c'"
  shows "leftover n = r"
proof -
  obtain a where a: "c = 2 * a" using assms(2) by (rule evenE)
  have "(2048 * a + n) mod 2048 = n mod 2048" by simp
  moreover have "2048 * a + n = 1024 * c' + r" using assms(1) a by simp
  ultimately have n: "n mod 2048 = (1024 * c' + r) mod 2048" by simp
  show ?thesis
  proof (cases "even c'")
    case True
    then obtain b where "c' = 2 * b" by (rule evenE)
    then have "n mod 2048 = r mod 2048" using n by (simp add: mult.assoc [symmetric])
    then show ?thesis using assms(3) by (simp add: leftover_def)
  next
    case False
    then obtain b where "c' = 2 * b + 1" by (rule oddE)
    then have "1024 * c' + r = 2048 * b + (1024 + r)" by simp
    then have "n mod 2048 = (1024 + r) mod 2048" using n by (metis mod_mult_self4)
    then show ?thesis using assms(3,4) False by (auto simp: leftover_def)
  qed
qed

lemma update_hashed_empty:
  assumes h: "hashed key flags bs self" and len: "length (bs @ input) < 2 ^ 64" and p: "pending self = 0" "input \<noteq> []"
  shows "\<exists>self'. blake3_hasher_update self input = Some self' \<and> hashed key flags (bs @ input) self' \<and> pending self' = leftover (length input)"
proof -
  let ?c = "cs_chunk_counter (h_chunk self)"
  have bs: "length bs = 1024 * ?c" using h p(1) hashed_pending [OF h] by (simp add: hashed_def Let_def)
  then obtain segs where segs: "paired ?c segs" "h_cv_stack self = seg_cvs key flags segs bs" "h_key self = key" "absorbed key flags [] (h_chunk self)"
    using h by (auto simp: hashed_def Let_def)
  have cons: "consumed key flags bs segs self" using bs segs paired_lazy by (simp add: consumed_def Let_def)
  obtain self1 segs1 rest d where u: "update_subtrees self input = Some (self1, rest)" "input = d @ rest"
      "consumed key flags (bs @ d) segs1 self1" "length rest \<le> 1024"
      "rest = [] \<longrightarrow> paired (cs_chunk_counter (h_chunk self1)) segs1" "length rest = 1024 \<longrightarrow> even (cs_chunk_counter (h_chunk self1))"
    using update_subtrees_consumed [OF cons len] segs(1) paired_even p(2) by blast
  let ?c1 = "cs_chunk_counter (h_chunk self1)"
  have c1: "length (bs @ d) = 1024 * ?c1" "lazy ?c1 segs1" "h_cv_stack self1 = seg_cvs key flags segs1 (bs @ d)" "h_key self1 = key"
      "absorbed key flags [] (h_chunk self1)"
    using u(3) by (simp_all add: consumed_def Let_def)
  have left: "leftover (length input) = length rest"
    by (rule leftover_eq [of ?c _ ?c1]) (use bs c1(1) u paired_even segs(1) in auto)
  show ?thesis
  proof (cases "rest = []")
    case True
    then have "blake3_hasher_update self input = Some self1" using u(1) p by (simp add: blake3_hasher_update_def pending_def)
    moreover have "hashed key flags (bs @ input) self1" using True u(2,5) c1 by (auto simp: hashed_def Let_def)
    ultimately show ?thesis using left True c1(5) by (auto simp: pending_def absorbed_len)
  next
    case False
    let ?s = "self1\<lparr>h_chunk := chunk_state_update (h_chunk self1) rest\<rparr>"
    let ?s2 = "?s\<lparr>h_cv_stack := seg_cvs key flags (bits ?c1) (bs @ d)\<rparr>"
    have a: "absorbed key flags rest (chunk_state_update (h_chunk self1) rest)" using update_absorbed [OF c1(5), of rest] u(4) by simp
    then have "hasher_merge_cv_stack ?s ?c1 = Some ?s2"
      using merge_lazy [OF c1(2), of "bs @ d" key flags] c1 absorbed_flags [OF a] by (simp add: hasher_merge_cv_stack_def)
    then have "blake3_hasher_update self input = Some ?s2" using u(1) p False by (simp add: blake3_hasher_update_def pending_def)
    moreover have "length (bs @ input) \<noteq> 1024 * ?c1" using c1(1) u(2) False by (cases rest) auto
    then have "hashed key flags (bs @ input) ?s2"
      using u(2,4) c1 a seg_cvs_more [of "bits ?c1" "bs @ d" key flags rest] by (auto simp: hashed_def Let_def sum_bits)
    ultimately show ?thesis using left a by (auto simp: pending_def absorbed_len)
  qed
qed

lemma update_hashed_inside:
  assumes h: "hashed key flags bs self" and p: "0 < pending self" "pending self + length input \<le> 1024"
  shows "\<exists>self'. blake3_hasher_update self input = Some self' \<and> hashed key flags (bs @ input) self' \<and> pending self' = pending self + length input"
proof -
  let ?c = "cs_chunk_counter (h_chunk self)"
  have st: "1024 * ?c < length bs" "h_key self = key" "h_cv_stack self = seg_cvs key flags (bits ?c) bs"
      "absorbed key flags (drop (1024 * ?c) bs) (h_chunk self)" "pending self = length bs - 1024 * ?c"
    using h p(1) hashed_pending [OF h] by (auto simp: hashed_def Let_def split: if_splits)
  let ?s = "self\<lparr>h_chunk := chunk_state_update (h_chunk self) input\<rparr>"
  have a: "absorbed key flags (drop (1024 * ?c) bs @ input) (h_chunk ?s)" using update_absorbed [OF st(4), of input] p st(5) by simp
  have "hashed key flags (bs @ input) ?s"
    using st a p seg_cvs_more [of "bits ?c" bs key flags input] by (auto simp: hashed_def Let_def sum_bits)
  moreover have "pending ?s = pending self + length input" using a st(1,5) by (simp add: pending_def absorbed_len)
  moreover have n: "(if length input < 1024 - chunk_state_len (h_chunk self) then length input else 1024 - chunk_state_len (h_chunk self)) = length input"
    using p(2) by (auto simp: pending_def)
  have "blake3_hasher_update self input = Some (if input = [] then self else ?s)"
    unfolding blake3_hasher_update_def Let_def n using p by (simp add: pending_def)
  moreover have "input = [] \<Longrightarrow> hashed key flags (bs @ input) self" using h by simp
  ultimately show ?thesis by (cases "input = []") auto
qed

lemma update_hashed_across:
  assumes h: "hashed key flags bs self" and len: "length bs < 2 ^ 64" and p: "0 < pending self" "1024 < pending self + length input"
  shows "blake3_hasher_update self input = None"
proof -
  let ?c = "cs_chunk_counter (h_chunk self)" and ?n = "1024 - pending self"
  have st: "1024 * ?c < length bs" "h_key self = key" "h_cv_stack self = seg_cvs key flags (bits ?c) bs"
      "absorbed key flags (drop (1024 * ?c) bs) (h_chunk self)" "pending self = length bs - 1024 * ?c" "pending self \<le> 1024"
    using h p(1) hashed_pending [OF h] by (auto simp: hashed_def Let_def split: if_splits)
  let ?s = "self\<lparr>h_chunk := chunk_state_update (h_chunk self) (take ?n input)\<rparr>" and ?y = "drop ?n input"
  have y: "?y \<noteq> []" "input \<noteq> []" "\<not> length input < ?n" using p(2) st(6) by auto
  have a: "absorbed key flags (drop (1024 * ?c) bs @ take ?n input) (h_chunk ?s)"
    using update_absorbed [OF st(4), of "take ?n input"] st(5,6) by simp
  have "popcnt ?c < 55" using popcnt_bound [of ?c 54] st(1) len by simp
  then obtain s1 where push: "hasher_push_cv ?s (output_chaining_value (chunk_state_output (h_chunk ?s))) ?c = Some s1" "h_cv_stack s1 \<noteq> []"
    using push_consumed [of ?s key flags ?c "bits ?c" bs] st absorbed_flags [OF a] by (auto simp: lazy_def)
  let ?r = "s1\<lparr>h_chunk := chunk_state_reset (h_chunk s1) (h_key s1) ((?c + 1) mod 2 ^ 64)\<rparr>"
  have counter: "cs_chunk_counter (h_chunk ?r) = 0" "h_cv_stack ?r \<noteq> []" using push(2) by (simp_all add: chunk_state_reset_def)
  have stuck: "hasher_push_cv ?r cv 0 = None" "hasher_merge_cv_stack (?r\<lparr>h_chunk := cs\<rparr>) 0 = None" for cv cs
    using counter(2) by (simp_all add: push_undefined hasher_merge_cv_stack_def merge_empty)
  have "update_subtree ?r x n = None" for x n
    using stuck(1) counter(1) by (simp add: update_subtree_def Let_def)
  then have "Option.bind (update_subtrees ?r ?y) (\<lambda>(self, input). if input \<noteq> [] then
      let self = self\<lparr>h_chunk := chunk_state_update (h_chunk self) input\<rparr> in hasher_merge_cv_stack self (cs_chunk_counter (h_chunk self))
      else Some self) = None"
    using stuck(2) counter(1) y(1) by (subst update_subtrees.simps) (simp add: Let_def)
  then show ?thesis
    using p y push(1) st(2) by (simp add: blake3_hasher_update_def pending_def Let_def)
qed

section \<open>Finalising\<close>

lemma roll_up_Cons: "roll_up key flags (cv # cvs) o' = parent_output (cv @ output_chaining_value (roll_up key flags cvs o')) key flags"
  by (simp add: roll_up_def)

lemma roll_up_tree:
  "2 ^ k dvd c \<Longrightarrow> 1024 * c < length bs \<Longrightarrow> length bs \<le> 1024 * (c + 2 ^ k) \<Longrightarrow>
   roll_up key flags (seg_cvs key flags (bits c) bs) (tree_output key flags (drop (1024 * c) bs)) = tree_output key flags bs"
proof (induction c arbitrary: bs rule: bits.induct)
  case (1 c)
  show ?case
  proof (cases "c = 0")
    case True
    then show ?thesis by (simp add: roll_up_def)
  next
    case False
    then obtain t where t: "power_below c = 2 ^ t" "2 ^ t \<le> c" "c < 2 * 2 ^ t" "2 ^ k dvd c - 2 ^ t" "c + 2 ^ k \<le> 2 * 2 ^ t"
      using highest_digit [of c k] 1(2) by auto
    let ?d = "drop (1024 * 2 ^ t) bs"
    have "1024 * (c - 2 ^ t) = 1024 * c - 1024 * 2 ^ t" by (simp add: diff_mult_distrib2)
    moreover have "1024 * 2 ^ t \<le> 1024 * c" using t(2) by simp
    ultimately have IH: "roll_up key flags (seg_cvs key flags (bits (c - 2 ^ t)) ?d) (tree_output key flags (drop (1024 * (c - 2 ^ t)) ?d)) = tree_output key flags ?d"
      using 1(1) [of ?d] False t 1(3,4) by (simp add: algebra_simps)
    have "c \<le> (length bs - 1) div 1024" using 1(3) by (simp add: less_eq_div_iff_mult_less_eq mult.commute)
    moreover have "(length bs - 1) div 1024 < c + 2 ^ k" using 1(3,4) by (intro less_mult_imp_div_less) (simp add: mult.commute)
    ultimately have "2 ^ t \<le> (length bs - 1) div 1024" "(length bs - 1) div 1024 < 2 * 2 ^ t" using t by simp_all
    then have "power_below ((length bs - 1) div 1024) = 2 ^ t" by (rule power_below_eq)
    then have left: "left_bytes (length bs) = 1024 * 2 ^ t" by (simp add: left_bytes_def)
    have "1024 < length bs" using 1(3) False by (cases c) auto
    then have "tree_output key flags bs = parent_output (tree_cv key flags (take (1024 * 2 ^ t) bs) @ tree_cv key flags ?d) key flags"
      using left by (subst tree_output.simps) (simp add: Let_def)
    moreover have "drop (1024 * (c - 2 ^ t)) ?d = drop (1024 * c) bs"
      using t(2) by (simp add: diff_mult_distrib2)
    ultimately show ?thesis using IH False t(1) by (simp add: bits.simps [of c] roll_up_Cons)
  qed
qed


lemma root_bytes_32:
  "output_root_bytes o' 0 32 =
   take 32 (blake3_compress_xof (out_input_cv o') (out_block o') (out_block_len o') 0 (out_flags o' OR ROOT))"
  unfolding output_root_bytes_def by (subst root_bytes_loop.simps) (simp add: Let_def root_bytes_loop.simps)

lemma root_bytes_counter: "output_root_bytes (o'\<lparr>out_counter := 0\<rparr>) 0 32 = output_root_bytes o' 0 32"
  by (simp add: root_bytes_32)

lemma roll_up_counter: "(roll_up key flags cvs o')\<lparr>out_counter := 0\<rparr> = roll_up key flags cvs (o'\<lparr>out_counter := 0\<rparr>)"
proof (induction cvs)
  case (Cons cv cvs)
  have "output_chaining_value (roll_up key flags cvs o') = output_chaining_value (roll_up key flags cvs (o'\<lparr>out_counter := 0\<rparr>))"
    using Cons by (rule counter_unused)
  then show ?case by (simp add: roll_up_Cons parent_output_def make_output_def)
qed (simp add: roll_up_def)

lemma bits_Nil: "bits c = [] \<longleftrightarrow> c = 0"
  by (simp add: bits.simps)

lemma finalize_chunk:
  assumes "absorbed key flags (drop (1024 * c) bs) cs" "1024 * c < length bs \<or> c = 0" "length bs \<le> 1024 * c + 1024"
  shows "output_root_bytes (roll_up key flags (seg_cvs key flags (bits c) bs) (chunk_state_output cs)) 0 32 =
    output_root_bytes (tree_output key flags bs) 0 32"
proof -
  let ?st = "seg_cvs key flags (bits c) bs" and ?rest = "drop (1024 * c) bs"
  have "tree_output key flags ?rest = (chunk_state_output cs)\<lparr>out_counter := 0\<rparr>"
    using absorbed_output [OF assms(1)] assms(3) by (subst tree_output.simps) simp
  then have "(roll_up key flags ?st (chunk_state_output cs))\<lparr>out_counter := 0\<rparr> = roll_up key flags ?st (tree_output key flags ?rest)"
    by (simp add: roll_up_counter)
  also have "\<dots> = tree_output key flags bs"
    using roll_up_tree [of 0 c bs key flags] assms(2,3) by (cases "c = 0") (auto simp: roll_up_def)
  finally show ?thesis using root_bytes_counter by metis
qed

lemma finalize_pair:
  assumes "length bs = 1024 * (c0 + 2 * 2 ^ k)" "2 * 2 ^ k dvd c0" and st: "st = seg_cvs key flags (bits c0 @ [2 ^ k, 2 ^ k]) bs"
  shows "roll_up key flags (take (length st - 2) st) (parent_output (st ! (length st - 2) @ st ! (length st - 1)) key flags) = tree_output key flags bs"
proof -
  let ?d = "drop (1024 * c0) bs" and ?n = "length (bits c0)"
  have d: "length ?d = 1024 * (2 * 2 ^ k)" using assms(1) by simp
  have "(1 :: nat) \<le> 2 ^ k" by simp
  then have long: "1024 < length ?d" unfolding d by linarith
  have s: "st = seg_cvs key flags (bits c0) bs @ [tree_cv key flags (take (1024 * 2 ^ k) ?d), tree_cv key flags (drop (1024 * 2 ^ k) ?d)]"
    unfolding st using d by (simp add: seg_cvs_append sum_bits)
  have "parent_output (st ! ?n @ st ! Suc ?n) key flags = tree_output key flags ?d"
    using long d left_bytes_halves [of k] unfolding s by (subst tree_output.simps) (simp add: nth_append Let_def)
  then show ?thesis
    using roll_up_tree [of "Suc k" c0 bs key flags] assms(1,2) by (simp add: s)
qed

lemma finalize_hashed:
  assumes "hashed key flags bs self"
  shows "blake3_hasher_finalize self 32 = Some (output_root_bytes (tree_output key flags bs) 0 32)"
proof -
  let ?c = "cs_chunk_counter (h_chunk self)"
  have st: "h_key self = key" "1024 * ?c \<le> length bs" "length bs \<le> 1024 * ?c + 1024" "absorbed key flags (drop (1024 * ?c) bs) (h_chunk self)"
    using assms by (simp_all add: hashed_def Let_def)
  have len: "chunk_state_len (h_chunk self) = length bs - 1024 * ?c" using absorbed_len [OF st(4)] by simp
  show ?thesis
  proof (cases "length bs = 1024 * ?c")
    case False
    then have "h_cv_stack self = seg_cvs key flags (bits ?c) bs" using assms by (simp add: hashed_def Let_def)
    then show ?thesis using finalize_chunk [OF st(4) _ st(3)] False st len absorbed_flags [OF st(4)]
      by (auto simp: blake3_hasher_finalize_def blake3_hasher_finalize_seek_def Let_def roll_up_def)
  next
    case True
    then obtain segs where p: "paired ?c segs" "h_cv_stack self = seg_cvs key flags segs bs" using assms by (auto simp: hashed_def Let_def)
    then consider "?c = 0" "h_cv_stack self = []" | c0 k where "?c = c0 + 2 * 2 ^ k" "2 * 2 ^ k dvd c0" "h_cv_stack self = seg_cvs key flags (bits c0 @ [2 ^ k, 2 ^ k]) bs"
      by (auto simp: paired_def)
    then show ?thesis
    proof cases
      case 1
      then show ?thesis using finalize_chunk [OF st(4) _ st(3)] by (simp add: blake3_hasher_finalize_def blake3_hasher_finalize_seek_def roll_up_def)
    next
      case 2
      then have "h_cv_stack self \<noteq> []" by (simp add: seg_cvs_append)
      then show ?thesis using 2 finalize_pair [of bs c0 k _ key flags] True len st(1) absorbed_flags [OF st(4)]
        by (auto simp: blake3_hasher_finalize_def blake3_hasher_finalize_seek_def Let_def)
    qed
  qed
qed

section \<open>Sequences of updates\<close>

fun hasher_updates :: "blake3_hasher \<Rightarrow> byte list list \<Rightarrow> blake3_hasher option" where
  "hasher_updates self [] = Some self"
| "hasher_updates self (input # inputs) = Option.bind (blake3_hasher_update self input) (\<lambda>self. hasher_updates self inputs)"

text \<open>
  The lengths of updates that stay defined, after a chunk with \<open>r\<close> bytes: no update may go past the end of a chunk
  that an earlier one has begun.
\<close>

fun updates_defined :: "nat \<Rightarrow> nat list \<Rightarrow> bool" where
  "updates_defined r [] = True"
| "updates_defined r (n # ns) =
     (if n = 0 then updates_defined r ns
      else if r = 0 then updates_defined (leftover n) ns
      else r + n \<le> 1024 \<and> updates_defined (r + n) ns)"

lemma hasher_updates_exact:
  assumes "hashed key flags bs self" "length (bs @ concat inputs) < 2 ^ 64"
  shows "if updates_defined (pending self) (map length inputs)
    then \<exists>self'. hasher_updates self inputs = Some self' \<and> hashed key flags (bs @ concat inputs) self'
    else hasher_updates self inputs = None"
  using assms
proof (induction inputs arbitrary: bs self)
  case (Cons input inputs)
  note h = Cons.prems(1)
  have len: "length (bs @ input) < 2 ^ 64" "length bs < 2 ^ 64" using Cons.prems(2) by simp_all
  have go: ?case if "blake3_hasher_update self input = Some self'" "hashed key flags (bs @ input) self'"
      "updates_defined (pending self) (map length (input # inputs)) \<longleftrightarrow> updates_defined (pending self') (map length inputs)" for self'
    using Cons.IH [OF that(2)] Cons.prems(2) that(1,3) by (simp split: if_splits)
  consider "input = []" | "input \<noteq> []" "pending self = 0" | "input \<noteq> []" "0 < pending self" "pending self + length input \<le> 1024"
    | "input \<noteq> []" "0 < pending self" "1024 < pending self + length input" by linarith
  then show ?case
  proof cases
    case 1
    then show ?thesis by (intro go [of self]) (use h in \<open>simp_all add: blake3_hasher_update_def\<close>)
  next
    case 2
    then show ?thesis using update_hashed_empty [OF h len(1)] go by fastforce
  next
    case 3
    then show ?thesis using update_hashed_inside [OF h 3(2,3)] go by fastforce
  next
    case 4
    then show ?thesis using update_hashed_across [OF h len(2) 4(2,3)] by simp
  qed
qed simp

lemma hasher_hash:
  assumes "length (concat inputs) < 2 ^ 64"
  shows "Option.bind (hasher_updates blake3_hasher_init inputs) (\<lambda>self. blake3_hasher_finalize self 32) =
    (if updates_defined 0 (map length inputs) then Some (blake3zcc (concat inputs)) else None)"
proof -
  have "hashed IV 0 [] blake3_hasher_init" using hashed_init by (simp add: blake3_hasher_init_def)
  moreover have "pending blake3_hasher_init = 0"
    by (simp add: pending_def blake3_hasher_init_def hasher_init_base_def chunk_state_init_def chunk_state_len_def)
  ultimately show ?thesis
    using hasher_updates_exact [of IV 0 "[]" blake3_hasher_init inputs] assms finalize_hashed
    by (auto simp: blake3zcc_def root_bytes_32 Let_def split: if_splits)
qed


text \<open>
  C1: The hasher gives the hash of the concatenated input, as the tree over its chunks, exactly when no update
  goes past the end of a chunk that an earlier update has begun; every other sequence of updates is
  undefined behaviour.
\<close>

theorem blake3_updates_exact:
  assumes "length (concat inputs) < 2 ^ 64"
  shows "Option.bind (hasher_updates blake3_hasher_init inputs) (\<lambda>self. blake3_hasher_finalize self 32) =
    (if updates_defined 0 (map length inputs) then Some (blake3zcc (concat inputs)) else None)"
  using hasher_hash [OF assms] .

theorem blake3_updates_exact_witness:
  "Option.bind (hasher_updates blake3_hasher_init [replicate 65536 0, replicate 3000 1]) (\<lambda>self. blake3_hasher_finalize self 32) =
     Some (blake3zcc (replicate 65536 0 @ replicate 3000 1)) \<and>
   Option.bind (hasher_updates blake3_hasher_init [replicate 1500 0, replicate 1000 1]) (\<lambda>self. blake3_hasher_finalize self 32) = None"
  using blake3_updates_exact [of "[replicate 65536 0, replicate 3000 1]"] blake3_updates_exact [of "[replicate 1500 0, replicate 1000 1]"]
  by (simp add: leftover_def)

text \<open>Updates of whole pairs of chunks leave nothing behind, so that reading a file through a buffer of 64 KiB is defined.\<close>

lemma pairs_defined: "(\<And>n. n \<in> set ns \<Longrightarrow> n mod 2048 = 0) \<Longrightarrow> updates_defined 0 (ns @ [m])"
  by (induction ns) (simp_all add: leftover_def)

section \<open>Extended output\<close>

lemma length_xof [simp]: "length (blake3_compress_xof cv block block_len counter flags) = 64"
  by (simp add: blake3_compress_xof_def blake3_compress_xof_portable_def Let_def)

lemma take_nth: "n \<le> length xs - k \<Longrightarrow> take n (drop k xs) = map (\<lambda>i. xs ! (k + i)) [0..<n]"
  by (rule nth_equalityI) auto

text \<open>
  Output beyond the first 64 bytes of the root repeats them: whatever position it starts at, byte \<open>i\<close> of the output
  is the byte at that position and \<open>i\<close> modulo 64.
\<close>

theorem root_bytes_repeat:
  "output_root_bytes o' seek n =
   map (\<lambda>i. blake3_compress_xof (out_input_cv o') (out_block o') (out_block_len o') 0 (out_flags o' OR ROOT) ! ((seek + i) mod 64)) [0..<n]"
proof -
  define wide where "wide = blake3_compress_xof (out_input_cv o') (out_block o') (out_block_len o') 0 (out_flags o' OR ROOT)"
  have loop: "root_bytes_loop o' c k n = map (\<lambda>i. wide ! ((k + i) mod 64)) [0..<n]" if "k < 64" for c k
    using that
  proof (induction n arbitrary: c k rule: less_induct)
    case (less n)
    let ?m = "min n (64 - k)"
    have cut: "(if n > 64 - k then 64 - k else n) = ?m" by simp
    show ?case
    proof (cases "n = 0")
      case False
      have "root_bytes_loop o' c k n = take ?m (drop k wide) @ root_bytes_loop o' (c + 1) 0 (n - ?m)"
        using False by (subst root_bytes_loop.simps) (simp only: Let_def cut wide_def if_False)
      also have "take ?m (drop k wide) = map (\<lambda>i. wide ! ((k + i) mod 64)) [0..<?m]"
        using less.prems by (subst take_nth) (auto simp: wide_def)
      also have "root_bytes_loop o' (c + 1) 0 (n - ?m) = map (\<lambda>i. wide ! (i mod 64)) [0..<n - ?m]"
        using less.IH [of "n - ?m" 0] less.prems False by simp
      also have "\<dots> = map (\<lambda>i. wide ! ((k + i) mod 64)) [?m..<n]"
      proof (cases "n \<le> 64 - k")
        case long: False
        have "k + (64 - k + i) = 64 + i" for i using less.prems by simp
        then show ?thesis using long by (intro nth_equalityI) (auto simp: min_def)
      qed simp
      finally show ?thesis using map_append [of "\<lambda>i. wide ! ((k + i) mod 64)" "[0..<?m]" "[?m..<n]"] upt_add_eq_append [of 0 ?m "n - ?m"] by simp
    qed (simp add: root_bytes_loop.simps)
  qed
  show ?thesis unfolding output_root_bytes_def wide_def [symmetric] by (subst loop) (simp_all add: mod_add_left_eq)
qed

end
