(* ===== verification/Cashash.thy ===== *)
theory Cashash
  imports Protos Blake3_Hasher
begin

text \<open>
  \<^verbatim>\<open>buildboxcommon_cashash.cpp\<close>: digests of blobs and files, computed incrementally by a
  digest context that is updated any number of times and finalised once.

  The hash functions are the BLAKE3 implementation and OpenSSL's; the latter are parameters, a
  record of their initialisation, update and finalisation.  \<open>incremental\<close> states what their
  documentation promises: the hash depends only on the concatenation of the updates.  For
  BLAKE3 that holds for some sequences of updates only, and the others are \<open>Undefined\<close>.
  The number of bytes hashed is kept in a 64-bit word, as \<^verbatim>\<open>size_t\<close>.
\<close>

section \<open>Digest functions\<close>

datatype digest_function =
    MD5 | SHA1 | SHA256 | SHA384 | SHA512 | BLAKE3ZCC | OTHER_FUNCTION nat

text \<open>The \<^verbatim>\<open>EVP_\<close> routines return \<open>None\<close> where the library reports a failure.\<close>

record 'h hash_library =
  evp_create :: bool
  evp_init :: "digest_function \<Rightarrow> 'h option"
  evp_update :: "'h \<Rightarrow> string \<Rightarrow> 'h option"
  evp_final :: "'h \<Rightarrow> string option"

text \<open>Characters as bytes and back.\<close>

definition bytes_of :: "string \<Rightarrow> byte list" where
  "bytes_of data = map of_char data"

definition chars_of :: "byte list \<Rightarrow> string" where
  "chars_of bytes = map (\<lambda>b. char_of (unat b)) bytes"

text \<open>\<^verbatim>\<open>getDigestFunctionStruct\<close>: \<open>None\<close> is the null pointer that stands for BLAKE3.\<close>

fun getDigestFunctionStruct :: "digest_function \<Rightarrow> digest_function option result" where
  "getDigestFunctionStruct BLAKE3ZCC = Inr None"
| "getDigestFunctionStruct (OTHER_FUNCTION n) = Inl RuntimeError"
| "getDigestFunctionStruct f = Inr (Some f)"

definition s_supportedDigestFunctions :: "digest_function list" where
  "s_supportedDigestFunctions = [MD5, SHA1, SHA256, SHA384, SHA512, BLAKE3ZCC]"

section \<open>Digest contexts\<close>

datatype 'h hasher = Evp 'h | Blake3 blake3_hasher

record 'h digest_context =
  d_hasher :: "'h hasher"
  d_data_size :: "64 word"
  d_finalized :: bool

definition createDigestContext ::
  "'h hash_library \<Rightarrow> digest_function option \<Rightarrow> 'h digest_context result" where
  "createDigestContext lib functionStruct =
     (if \<not> evp_create lib then Inl RuntimeError
      else
        (case functionStruct of
           Some f \<Rightarrow>
             (case evp_init lib f of
                None \<Rightarrow> Inl RuntimeError
              | Some h \<Rightarrow> Inr \<lparr>d_hasher = Evp h, d_data_size = 0, d_finalized = False\<rparr>)
         | None \<Rightarrow> Inr \<lparr>d_hasher = Blake3 blake3_hasher_init, d_data_size = 0, d_finalized = False\<rparr>))"

definition update ::
  "'h hash_library \<Rightarrow> string \<Rightarrow> 'h digest_context \<Rightarrow> 'h digest_context result" where
  "update lib data ctx =
     (if d_finalized ctx then Inl RuntimeError
      else
        (case d_hasher ctx of
           Evp h \<Rightarrow>
             (case evp_update lib h data of
                None \<Rightarrow> Inl RuntimeError
              | Some h' \<Rightarrow>
                  Inr (ctx\<lparr>d_hasher := Evp h', d_data_size := d_data_size ctx + of_nat (length data)\<rparr>))
         | Blake3 b \<Rightarrow>
             (case blake3_hasher_update b (bytes_of data) of
                None \<Rightarrow> Inl Undefined
              | Some b' \<Rightarrow>
                  Inr (ctx\<lparr>d_hasher := Blake3 b', d_data_size := d_data_size ctx + of_nat (length data)\<rparr>))))"

text \<open>\<^verbatim>\<open>hashToHex\<close>: two lowercase hexadecimal digits for each byte.\<close>

definition hex_digit :: "nat \<Rightarrow> char" where
  "hex_digit n = (if n < 10 then char_of (48 + n) else char_of (87 + n))"

definition hashToHex :: "string \<Rightarrow> string" where
  "hashToHex hash_buffer =
     concat (map (\<lambda>c. [hex_digit (of_char c div 16), hex_digit (of_char c mod 16)]) hash_buffer)"

definition finalizeDigest ::
  "'h hash_library \<Rightarrow> 'h digest_context \<Rightarrow> (digest \<times> 'h digest_context) result" where
  "finalizeDigest lib ctx =
     (if d_finalized ctx then Inl RuntimeError
      else
        (case d_hasher ctx of
           Evp h \<Rightarrow>
             (case evp_final lib h of
                None \<Rightarrow> Inl RuntimeError
              | Some hash \<Rightarrow>
                  Inr (\<lparr>hash_other = hashToHex hash, size_bytes = sint (d_data_size ctx), hash_blake3zcc = []\<rparr>,
                       ctx\<lparr>d_finalized := True\<rparr>))
         | Blake3 b \<Rightarrow>
             (case blake3_hasher_finalize b 32 of
                None \<Rightarrow> Inl Undefined
              | Some hash \<Rightarrow>
                  Inr (\<lparr>hash_other = [], size_bytes = sint (d_data_size ctx), hash_blake3zcc = chars_of hash\<rparr>,
                       ctx\<lparr>d_finalized := True\<rparr>))))"

section \<open>Digest generators\<close>

text \<open>The constructor of a generator throws for a function that is not supported.\<close>

definition newDigestGenerator :: "digest_function \<Rightarrow> digest_function option result" where
  "newDigestGenerator digest_function = getDigestFunctionStruct digest_function"

definition hash_string :: "'h hash_library \<Rightarrow> digest_function option \<Rightarrow> string \<Rightarrow> digest result" where
  "hash_string lib functionStruct data =
     (case createDigestContext lib functionStruct of
        Inl e \<Rightarrow> Inl e
      | Inr ctx \<Rightarrow>
          (case update lib data ctx of
             Inl e \<Rightarrow> Inl e
           | Inr ctx' \<Rightarrow> map_sum id fst (finalizeDigest lib ctx')))"

text \<open>
  The results of the successive calls of \<^verbatim>\<open>read\<close> on a file that has been rewound: the bytes
  read or an error number.  No bytes, or the end of the list, is the end of the file.
\<close>

datatype read_result = ReadBytes string | ReadError int

fun processFile ::
  "'h hash_library \<Rightarrow> read_result list \<Rightarrow> 'h digest_context \<Rightarrow> nat \<Rightarrow>
   (nat \<times> 'h digest_context) result" where
  "processFile lib [] ctx total_bytes_read = Inr (total_bytes_read, ctx)"
| "processFile lib (ReadError e # reads) ctx total_bytes_read = Inl (SystemError e)"
| "processFile lib (ReadBytes buffer # reads) ctx total_bytes_read =
     (if buffer = [] then Inr (total_bytes_read, ctx)
      else
        (case update lib buffer ctx of
           Inl e \<Rightarrow> Inl e
         | Inr ctx' \<Rightarrow> processFile lib reads ctx' (total_bytes_read + length buffer)))"

definition hash_fd ::
  "'h hash_library \<Rightarrow> digest_function option \<Rightarrow> read_result list \<Rightarrow> digest result" where
  "hash_fd lib functionStruct reads =
     (case createDigestContext lib functionStruct of
        Inl e \<Rightarrow> Inl e
      | Inr ctx \<Rightarrow>
          (case processFile lib reads ctx 0 of
             Inl e \<Rightarrow> Inl e
           | Inr (n, ctx') \<Rightarrow> map_sum id fst (finalizeDigest lib ctx')))"

text \<open>\<^verbatim>\<open>CASHash::hashFile\<close>: opening the file fails or gives the reads.\<close>

definition hashFile ::
  "'h hash_library \<Rightarrow> digest_function \<Rightarrow> (int + read_result list) \<Rightarrow> digest result" where
  "hashFile lib digestFunctionValue opened =
     (case opened of
        Inl e \<Rightarrow> Inl (SystemError e)
      | Inr reads \<Rightarrow>
          (case newDigestGenerator digestFunctionValue of
             Inl e \<Rightarrow> Inl e
           | Inr functionStruct \<Rightarrow> hash_fd lib functionStruct reads))"

definition CASHash_hash :: "'h hash_library \<Rightarrow> digest_function \<Rightarrow> string \<Rightarrow> digest result" where
  "CASHash_hash lib digestFunctionValue str =
     (case newDigestGenerator digestFunctionValue of
        Inl e \<Rightarrow> Inl e
      | Inr functionStruct \<Rightarrow> hash_string lib functionStruct str)"

section \<open>Updates of a context\<close>

fun update_all ::
  "'h hash_library \<Rightarrow> string list \<Rightarrow> 'h digest_context \<Rightarrow> 'h digest_context result" where
  "update_all lib [] ctx = Inr ctx"
| "update_all lib (c # chunks) ctx =
     (case update lib c ctx of Inl e \<Rightarrow> Inl e | Inr ctx' \<Rightarrow> update_all lib chunks ctx')"

text \<open>
  What the hash library promises: a context that is created, updated with any chunks and
  finalised gives a hash \<open>md\<close> of the concatenation of the chunks.
\<close>

fun hasher_run :: "'h hash_library \<Rightarrow> 'h hasher \<Rightarrow> string list \<Rightarrow> string option" where
  "hasher_run lib (Evp h) [] = evp_final lib h"
| "hasher_run lib (Evp h) (c # cs) =
     (case evp_update lib h c of None \<Rightarrow> None | Some h' \<Rightarrow> hasher_run lib (Evp h') cs)"
| "hasher_run lib (Blake3 b) cs =
     Option.bind (hasher_updates b (map bytes_of cs)) (\<lambda>b. map_option chars_of (blake3_hasher_finalize b 32))"

definition blake3_md :: "string \<Rightarrow> string" where
  "blake3_md data = chars_of (blake3zcc (bytes_of data))"

definition incremental :: "'h hash_library \<Rightarrow> digest_function option \<Rightarrow> (string \<Rightarrow> string) \<Rightarrow> bool" where
  "incremental lib functionStruct md \<longleftrightarrow>
     (case functionStruct of
        Some f \<Rightarrow> (\<exists>h. evp_init lib f = Some h \<and> (\<forall>cs. hasher_run lib (Evp h) cs = Some (md (concat cs))))
      | None \<Rightarrow> md = blake3_md) \<and>
     evp_create lib"

text \<open>The sequences of updates for which the hash functions are defined.\<close>

definition chunks_ok :: "digest_function option \<Rightarrow> string list \<Rightarrow> bool" where
  "chunks_ok functionStruct cs \<longleftrightarrow> functionStruct = None \<longrightarrow> updates_defined 0 (map length cs)"

lemma concat_bytes [simp]: "concat (map bytes_of cs) = bytes_of (concat cs)" "length (bytes_of c) = length c"
  by (simp_all add: bytes_of_def [abs_def] map_concat)

lemma chunks_ok_one [simp]: "chunks_ok functionStruct [c]"
  by (simp add: chunks_ok_def)

lemma blake3_run:
  assumes "length (concat cs) < 2 ^ 64"
  shows "hasher_run lib (Blake3 blake3_hasher_init) cs = (if updates_defined 0 (map length cs) then Some (blake3_md (concat cs)) else None)"
proof -
  have "map length (map bytes_of cs) = map length cs" by (simp add: comp_def)
  then have "Option.bind (hasher_updates blake3_hasher_init (map bytes_of cs)) (\<lambda>b. blake3_hasher_finalize b 32) =
      (if updates_defined 0 (map length cs) then Some (blake3zcc (bytes_of (concat cs))) else None)"
    using hasher_hash [of "map bytes_of cs"] assms by (simp only: concat_bytes)
  then show ?thesis by (auto simp: blake3_md_def split: bind_splits if_splits)
qed

text \<open>The digest that belongs to a hash value.\<close>

definition digest_of :: "digest_function option \<Rightarrow> string \<Rightarrow> nat \<Rightarrow> digest" where
  "digest_of functionStruct h n =
     (case functionStruct of
        Some _ \<Rightarrow> \<lparr>hash_other = hashToHex h, size_bytes = sint (of_nat n :: 64 word), hash_blake3zcc = []\<rparr>
      | None \<Rightarrow> \<lparr>hash_other = [], size_bytes = sint (of_nat n :: 64 word), hash_blake3zcc = h\<rparr>)"

lemma update_run:
  assumes "\<not> d_finalized ctx" "hasher_run lib (d_hasher ctx) (c # cs) = Some h"
  obtains ctx' where "update lib c ctx = Inr ctx'" "\<not> d_finalized ctx'"
    "hasher_run lib (d_hasher ctx') cs = Some h" "d_data_size ctx' = d_data_size ctx + of_nat (length c)"
    "case_hasher (\<lambda>_. True) (\<lambda>_. False) (d_hasher ctx') = case_hasher (\<lambda>_. True) (\<lambda>_. False) (d_hasher ctx)"
  using assms by (cases "d_hasher ctx") (auto simp: update_def split: option.splits bind_splits)

lemma update_all_digest:
  assumes "\<not> d_finalized ctx" "hasher_run lib (d_hasher ctx) cs = Some h"
  shows "\<exists>ctx'. update_all lib cs ctx = Inr ctx' \<and>
    map_sum id fst (finalizeDigest lib ctx') =
      Inr (case d_hasher ctx of
             Evp _ \<Rightarrow> \<lparr>hash_other = hashToHex h,
                       size_bytes = sint (d_data_size ctx + of_nat (length (concat cs))), hash_blake3zcc = []\<rparr>
           | Blake3 _ \<Rightarrow> \<lparr>hash_other = [],
                       size_bytes = sint (d_data_size ctx + of_nat (length (concat cs))), hash_blake3zcc = h\<rparr>)"
  using assms
proof (induction cs arbitrary: ctx)
  case Nil
  then show ?case by (cases "d_hasher ctx") (auto simp: finalizeDigest_def)
next
  case (Cons c cs)
  obtain ctx1 where c1: "update lib c ctx = Inr ctx1" "\<not> d_finalized ctx1"
    "hasher_run lib (d_hasher ctx1) cs = Some h" "d_data_size ctx1 = d_data_size ctx + of_nat (length c)"
    "case_hasher (\<lambda>_. True) (\<lambda>_. False) (d_hasher ctx1) = case_hasher (\<lambda>_. True) (\<lambda>_. False) (d_hasher ctx)"
    by (rule update_run [OF Cons.prems])
  show ?case
    using Cons.IH [OF c1(2,3)] c1 by (cases "d_hasher ctx"; cases "d_hasher ctx1") (auto simp: add.assoc)
qed

lemma created_digest:
  assumes "incremental lib functionStruct md"
  obtains ctx where "createDigestContext lib functionStruct = Inr ctx"
    "\<And>cs. chunks_ok functionStruct cs \<Longrightarrow> length (concat cs) < 2 ^ 64 \<Longrightarrow> \<exists>ctx'. update_all lib cs ctx = Inr ctx' \<and>
       map_sum id fst (finalizeDigest lib ctx') =
         Inr (digest_of functionStruct (md (concat cs)) (length (concat cs)))"
proof (cases functionStruct)
  case None
  let ?ctx = "\<lparr>d_hasher = Blake3 blake3_hasher_init, d_data_size = 0, d_finalized = False\<rparr> :: 'a digest_context"
  show ?thesis
    using that [of ?ctx] update_all_digest [of ?ctx lib] blake3_run [of _ lib] assms None
    by (simp add: createDigestContext_def incremental_def digest_of_def chunks_ok_def)
next
  case (Some f)
  then obtain h where h: "evp_init lib f = Some h" "\<And>cs. hasher_run lib (Evp h) cs = Some (md (concat cs))" "evp_create lib"
    using assms by (auto simp: incremental_def)
  let ?ctx = "\<lparr>d_hasher = Evp h, d_data_size = 0, d_finalized = False\<rparr>"
  show ?thesis
    using that [of ?ctx] update_all_digest [of ?ctx lib] h Some
    by (simp add: createDigestContext_def digest_of_def)
qed

definition finish_all :: "'h hash_library \<Rightarrow> 'h digest_context result \<Rightarrow> digest result" where
  "finish_all lib r = (case r of Inl e \<Rightarrow> Inl e | Inr ctx \<Rightarrow> map_sum id fst (finalizeDigest lib ctx))"

lemma update_all_undefined:
  "\<not> d_finalized ctx \<Longrightarrow> d_hasher ctx = Blake3 b \<Longrightarrow> hasher_run lib (Blake3 b) cs = None \<Longrightarrow>
   finish_all lib (update_all lib cs ctx) = Inl Undefined"
proof (induction cs arbitrary: ctx b)
  case Nil
  then show ?case by (auto simp: finish_all_def finalizeDigest_def)
next
  case (Cons c cs)
  show ?case
  proof (cases "blake3_hasher_update b (bytes_of c)")
    case None
    then show ?thesis using Cons.prems by (simp add: finish_all_def update_def)
  next
    case (Some b')
    then show ?thesis using Cons.prems Cons.IH [of _ b'] by (simp add: update_def)
  qed
qed

lemma finished_digest:
  assumes "incremental lib functionStruct md" "createDigestContext lib functionStruct = Inr ctx"
    and "finish_all lib (update_all lib cs ctx) = Inr d" "length (concat cs) < 2 ^ 64"
  shows "d = digest_of functionStruct (md (concat cs)) (length (concat cs))"
proof -
  have "chunks_ok functionStruct cs"
  proof (rule ccontr)
    assume no: "\<not> chunks_ok functionStruct cs"
    then have "functionStruct = None" "hasher_run lib (Blake3 blake3_hasher_init) cs = None"
      using blake3_run [OF assms(4)] by (simp_all add: chunks_ok_def)
    moreover from this have "\<not> d_finalized ctx" "d_hasher ctx = Blake3 blake3_hasher_init"
      using assms(2) by (auto simp: createDigestContext_def split: if_splits)
    ultimately show False using update_all_undefined [of ctx] assms(3) by fastforce
  qed
  moreover obtain ctx0 where "createDigestContext lib functionStruct = Inr ctx0"
    and run: "\<And>cs. chunks_ok functionStruct cs \<Longrightarrow> length (concat cs) < 2 ^ 64 \<Longrightarrow> \<exists>ctx'. update_all lib cs ctx0 = Inr ctx' \<and>
       map_sum id fst (finalizeDigest lib ctx') = Inr (digest_of functionStruct (md (concat cs)) (length (concat cs)))"
    by (rule created_digest [OF assms(1)]) blast
  moreover from this have "ctx0 = ctx" using assms(2) by simp
  ultimately obtain ctx' where "update_all lib cs ctx = Inr ctx'"
      "map_sum id fst (finalizeDigest lib ctx') = Inr (digest_of functionStruct (md (concat cs)) (length (concat cs)))"
    using assms(4) by blast
  then show ?thesis using assms(3) by (simp add: finish_all_def)
qed

lemma processFile_update_all:
  "[] \<notin> set cs \<Longrightarrow>
   map_sum id snd (processFile lib (map ReadBytes cs) ctx n) = update_all lib cs ctx"
  by (induction cs arbitrary: ctx n) (auto split: sum.split)

lemma hash_string_update_all:
  "hash_string lib fs data = (case createDigestContext lib fs of Inl e \<Rightarrow> Inl e
     | Inr ctx \<Rightarrow> (case update_all lib [data] ctx of Inl e \<Rightarrow> Inl e | Inr ctx' \<Rightarrow> map_sum id fst (finalizeDigest lib ctx')))"
  by (simp add: hash_string_def split: sum.split)

lemma size_word: "n < 2 ^ 63 \<Longrightarrow> sint (of_nat n :: 64 word) = int n"
proof -
  assume "n < 2 ^ 63"
  then have "signed_take_bit 63 (int n) = int n" by (intro signed_take_bit_int_eq_self) simp_all
  then show ?thesis by (simp add: signed_of_nat)
qed

lemma hash_fd_whole:
  assumes "incremental lib functionStruct md" "length (concat cs) < 2 ^ 64"
  shows "hash_string lib functionStruct (concat cs) = Inr (digest_of functionStruct (md (concat cs)) (length (concat cs)))"
    "[] \<notin> set cs \<Longrightarrow> chunks_ok functionStruct cs \<Longrightarrow>
      hash_fd lib functionStruct (map ReadBytes cs) = Inr (digest_of functionStruct (md (concat cs)) (length (concat cs)))"
proof -
  obtain ctx where ctx: "createDigestContext lib functionStruct = Inr ctx"
    and run: "\<And>cs. chunks_ok functionStruct cs \<Longrightarrow> length (concat cs) < 2 ^ 64 \<Longrightarrow> \<exists>ctx'. update_all lib cs ctx = Inr ctx' \<and>
       map_sum id fst (finalizeDigest lib ctx') =
         Inr (digest_of functionStruct (md (concat cs)) (length (concat cs)))"
    by (rule created_digest [OF assms(1)]) blast
  show "hash_string lib functionStruct (concat cs) =
      Inr (digest_of functionStruct (md (concat cs)) (length (concat cs)))"
    using run [of "[concat cs]"] ctx assms(2) unfolding hash_string_update_all by auto
  assume cs: "[] \<notin> set cs" "chunks_ok functionStruct cs"
  obtain ctx' where "update_all lib cs ctx = Inr ctx'"
    and fin: "map_sum id fst (finalizeDigest lib ctx') =
         Inr (digest_of functionStruct (md (concat cs)) (length (concat cs)))"
    using run [OF cs(2) assms(2)] by blast
  then obtain n where "processFile lib (map ReadBytes cs) ctx 0 = Inr (n, ctx')"
    using processFile_update_all [OF cs(1), of lib ctx 0] by (auto simp: map_sum_def split: sum.splits)
  then show "hash_fd lib functionStruct (map ReadBytes cs) =
      Inr (digest_of functionStruct (md (concat cs)) (length (concat cs)))"
    using ctx fin by (simp add: hash_fd_def)
qed

text \<open>
  The digest of a file does not depend on how the reads cut it into chunks: hashing any
  sequence of non-empty reads gives the digest that hashing the whole contents in one piece
  gives, with the hash of the contents and, below \<open>2 ^ 63\<close> bytes, their length as its size.
\<close>

theorem hash_fd_chunks:
  assumes "incremental lib functionStruct md" "[] \<notin> set cs" "length (concat cs) < 2 ^ 63" "chunks_ok functionStruct cs"
  shows "hash_fd lib functionStruct (map ReadBytes cs) = hash_string lib functionStruct (concat cs) \<and>
    hash_string lib functionStruct (concat cs) = Inr (digest_of functionStruct (md (concat cs)) (length (concat cs))) \<and>
    size_bytes (digest_of functionStruct (md (concat cs)) (length (concat cs))) = int (length (concat cs))"
proof -
  have "length (concat cs) < 2 ^ 64" using assms(3) by simp
  from hash_fd_whole [OF assms(1) this] show ?thesis
    using assms(2,4) size_word [OF assms(3)] by (simp add: digest_of_def split: option.split)
qed

text \<open>A library that hashes to the contents themselves.\<close>

definition plain_library :: "string hash_library" where
  "plain_library = \<lparr>evp_create = True, evp_init = (\<lambda>f. Some []), evp_update = (\<lambda>h c. Some (h @ c)), evp_final = Some\<rparr>"

lemma plain_library_incremental: "incremental plain_library (Some f) id"
proof -
  have "hasher_run plain_library (Evp h) cs = Some (h @ concat cs)" for h cs
    by (induction cs arbitrary: h) (simp_all add: plain_library_def)
  then show ?thesis by (simp add: incremental_def plain_library_def)
qed

theorem hash_fd_chunks_witness:
  "hash_fd plain_library (Some SHA256) (map ReadBytes [''ab'', ''c'']) =
   Inr \<lparr>hash_other = ''616263'', size_bytes = 3, hash_blake3zcc = []\<rparr>"
proof -
  have "hashToHex ''abc'' = ''616263''" by code_simp
  then show ?thesis
    using hash_fd_chunks [OF plain_library_incremental, of "[''ab'', ''c'']" SHA256]
    by (simp add: digest_of_def chunks_ok_def)
qed

section \<open>Hexadecimal hashes\<close>

definition hex_value :: "char \<Rightarrow> nat" where
  "hex_value c = (if of_char c < (58 :: nat) then of_char c - 48 else of_char c - 87)"

fun hexToHash :: "string \<Rightarrow> string" where
  "hexToHash (a # b # s) = char_of (hex_value a * 16 + hex_value b) # hexToHash s"
| "hexToHash _ = []"

lemma hex_value_digit: "n < 16 \<Longrightarrow> hex_value (hex_digit n) = n"
  by (simp add: hex_value_def hex_digit_def)

text \<open>
  The hexadecimal form of a hash is exact: it has two digits for each byte and the bytes are
  recovered from it, so that different hash values have different hexadecimal hashes.
\<close>

theorem hashToHex_roundtrip:
  "hexToHash (hashToHex h) = h \<and> length (hashToHex h) = 2 * length h"
proof (induction h)
  case (Cons c h)
  have "of_char c div 16 < (16 :: nat)" "of_char c mod 16 < (16 :: nat)"
    by (rule less_mult_imp_div_less) simp_all
  moreover have "of_char c div 16 * 16 + of_char c mod 16 = (of_char c :: nat)" by simp
  ultimately show ?case
    using Cons by (simp add: hashToHex_def hex_value_digit)
qed (simp add: hashToHex_def)

text \<open>
  With the BLAKE3ZCC function the comparison of digests does not compare hashes: the
  digests of any two blobs of the same length are equal under \<^verbatim>\<open>operator==\<close>.
\<close>

theorem blake3_digests_equal:
  assumes "hash_string lib None a = Inr da" "hash_string lib None b = Inr db" "length a = length b"
  shows "digest_eq da db"
proof -
  have "hash_other d = [] \<and> size_bytes d = sint (of_nat (length x) :: 64 word)" if "hash_string lib None x = Inr d" for x d
    using that by (auto simp: hash_string_def createDigestContext_def update_def finalizeDigest_def split: if_splits option.splits)
  then show ?thesis using assms by (simp add: digest_eq_def)
qed

lemma hash_string_blake3:
  assumes "evp_create lib" "length data < 2 ^ 63"
  shows "hash_string lib None data = Inr \<lparr>hash_other = [], size_bytes = int (length data), hash_blake3zcc = blake3_md data\<rparr>"
proof -
  have "incremental lib None blake3_md" using assms(1) by (simp add: incremental_def)
  from hash_fd_whole(1) [OF this, of "[data]"] show ?thesis using assms(2) by (simp add: digest_of_def size_word)
qed

theorem blake3_digests_equal_witness:
  "digest_eq (projr (hash_string plain_library None ''ab'')) (projr (hash_string plain_library None ''xy''))"
  using blake3_digests_equal [OF hash_string_blake3 hash_string_blake3, of plain_library "''ab''" "''xy''"]
  by (simp add: hash_string_blake3 plain_library_def)

text \<open>
  C6: With BLAKE3ZCC the digest of a file is the digest of its contents exactly when the reads do not go past the end
  of a chunk of 1024 bytes that an earlier read has begun; otherwise hashing the file is undefined
  behaviour.
\<close>

theorem hash_fd_blake3:
  assumes "evp_create lib" "[] \<notin> set cs" "length (concat cs) < 2 ^ 63"
  shows "hash_fd lib None (map ReadBytes cs) =
    (if updates_defined 0 (map length cs) then hash_string lib None (concat cs) else Inl Undefined)"
proof -
  have len: "length (concat cs) < 2 ^ 64" using assms(3) by simp
  have inc: "incremental lib None blake3_md" using assms(1) by (simp add: incremental_def)
  let ?ctx = "\<lparr>d_hasher = Blake3 blake3_hasher_init, d_data_size = 0, d_finalized = False\<rparr> :: 'a digest_context"
  show ?thesis
  proof (cases "updates_defined 0 (map length cs)")
    case True
    then show ?thesis using hash_fd_whole [OF inc len] assms(2) by (simp add: chunks_ok_def)
  next
    case False
    then have "hasher_run lib (Blake3 blake3_hasher_init) cs = None" using blake3_run [OF len] by simp
    then have "finish_all lib (update_all lib cs ?ctx) = Inl Undefined" by (intro update_all_undefined) simp_all
    then show ?thesis
      using False assms(1) processFile_update_all [OF assms(2), of lib ?ctx 0]
      by (auto simp: hash_fd_def createDigestContext_def finish_all_def map_sum_def split: sum.splits)
  qed
qed


theorem hash_fd_blake3_witness:
  "hash_fd plain_library None (map ReadBytes [replicate 65536 CHR ''a'', replicate 3000 CHR ''b'']) =
     hash_string plain_library None (replicate 65536 CHR ''a'' @ replicate 3000 CHR ''b'') \<and>
   hash_fd plain_library None (map ReadBytes [replicate 1500 CHR ''a'', replicate 1000 CHR ''b'']) = Inl Undefined"
  using hash_fd_blake3 [of plain_library "[replicate 65536 CHR ''a'', replicate 3000 CHR ''b'']"]
    hash_fd_blake3 [of plain_library "[replicate 1500 CHR ''a'', replicate 1000 CHR ''b'']"]
  by (simp add: plain_library_def leftover_def)

end
