(* ===== verification/Client_Batch.thy ===== *)
theory Client_Batch
  imports Protos "HOL-Library.Word" "HOL-Library.Multiset"
begin

text \<open>
  How \<^verbatim>\<open>buildboxcommon_client.cpp\<close> cuts work into requests: \<^verbatim>\<open>makeBatches\<close>
  groups the digests of uploads and downloads, and \<^verbatim>\<open>findMissingBlobs\<close> splits its
  digests over several messages.

  Sizes are \<^verbatim>\<open>size_t\<close>, 64-bit words whose arithmetic wraps around.  The locale
  \<open>batching\<close> is what the uploads and downloads need of the ranges: they follow each other
  from the start of the list and end inside of it.
\<close>

section \<open>Ranges\<close>

definition batch_items :: "nat \<Rightarrow> nat \<Rightarrow> 'a list \<Rightarrow> 'a list" where
  "batch_items i j xs = take (j - i) (drop i xs)"

text \<open>\<open>chain i bs j\<close>: the ranges follow each other from \<open>i\<close> to \<open>j\<close> and none is empty.\<close>

fun chain :: "nat \<Rightarrow> (nat \<times> nat) list \<Rightarrow> nat \<Rightarrow> bool" where
  "chain i [] j \<longleftrightarrow> i = j"
| "chain i ((a, b) # bs) j \<longleftrightarrow> a = i \<and> a < b \<and> chain b bs j"

text \<open>\<^verbatim>\<open>batches.empty() ? 0 : batches.rbegin()->second\<close>.\<close>

definition last_end :: "(nat \<times> nat) list \<Rightarrow> nat" where
  "last_end bs = (if bs = [] then 0 else snd (last bs))"

lemma chain_le: "chain i bs j \<Longrightarrow> i \<le> j"
  by (induction bs arbitrary: i) fastforce+

lemma chain_last: "chain i bs j \<Longrightarrow> j = (if bs = [] then i else snd (last bs))"
  by (induction bs arbitrary: i) auto

lemma chain_snoc: "chain i bs j \<Longrightarrow> j < k \<Longrightarrow> chain i (bs @ [(j, k)]) k"
  by (induction bs arbitrary: i) auto

lemma chain_items:
  "chain i bs j \<Longrightarrow> concat (map (\<lambda>(a, b). batch_items a b xs) bs) = batch_items i j xs"
proof (induction bs arbitrary: i)
  case (Cons p bs)
  obtain b where p: "p = (i, b)" "i < b" and rest: "chain b bs j" using Cons.prems by (cases p) auto
  have j: "b \<le> j" by (rule chain_le [OF rest])
  have "batch_items i b xs @ batch_items b j xs = batch_items i j xs"
  proof -
    have "drop b xs = drop (b - i) (drop i xs)" using p by simp
    moreover have "j - i = (b - i) + (j - b)" using p j by simp
    ultimately show ?thesis unfolding batch_items_def by (simp only: take_add)
  qed
  then show ?case using Cons.IH [OF rest] p by simp
qed (simp add: batch_items_def)

locale batching =
  fixes make :: "digest list \<Rightarrow> (nat \<times> nat) list"
  assumes make_chain: "chain 0 (make ds) (last_end (make ds))"
    and make_end: "last_end (make ds) \<le> length ds"
begin

text \<open>Every element is in exactly one batch or in the rest after the last batch.\<close>

lemma batches_cover:
  "concat (map (\<lambda>(a, b). batch_items a b xs) (make ds)) @ drop (last_end (make ds)) xs = xs"
  using chain_items [OF make_chain [of ds], of xs] by (simp add: batch_items_def [of 0])

lemma batch_bounds:
  assumes "(a, b) \<in> set (make ds)"
  shows "a < b \<and> b \<le> length ds"
proof -
  have "chain i bs j \<Longrightarrow> (a, b) \<in> set bs \<Longrightarrow> a < b \<and> b \<le> j" for i bs j
    by (induction bs arbitrary: i) (auto dest: chain_le)
  then show ?thesis using make_chain make_end assms by (meson le_trans)
qed

end

section \<open>makeBatches\<close>

definition PER_BLOB_METADATA_SIZE :: "64 word" where
  "PER_BLOB_METADATA_SIZE = 256"

definition SIZEOF_ESTIMATED_TOP_LEVEL_GRPC_CONTAINER :: "64 word" where
  "SIZEOF_ESTIMATED_TOP_LEVEL_GRPC_CONTAINER = 256"

text \<open>\<^verbatim>\<open>digest.size_bytes() + PER_BLOB_METADATA_SIZE\<close>.\<close>

definition blob_size :: "digest \<Rightarrow> 64 word" where
  "blob_size d = of_int (size_bytes d) + PER_BLOB_METADATA_SIZE"

text \<open>The inner loop: extend the batch while the next digest fits.\<close>

function extend_batch :: "64 word \<Rightarrow> digest list \<Rightarrow> nat \<Rightarrow> 64 word \<Rightarrow> nat" where
  "extend_batch max_batch_size digests batch_end bytes_in_batch =
     (if batch_end < length digests \<and> bytes_in_batch + blob_size (digests ! batch_end) \<le> max_batch_size
      then extend_batch max_batch_size digests (batch_end + 1) (bytes_in_batch + blob_size (digests ! batch_end))
      else batch_end)"
  by pat_completeness auto
termination
  by (relation "measure (\<lambda>(m, ds, e, b). length ds - e)") auto

declare extend_batch.simps [simp del]

lemma extend_batch_le: "batch_end \<le> extend_batch m ds batch_end b"
  by (induction m ds batch_end b rule: extend_batch.induct) (subst extend_batch.simps, auto)

lemma extend_batch_progress:
  "e < length ds \<Longrightarrow> blob_size (ds ! e) \<le> m \<Longrightarrow> e < extend_batch m ds e 0"
  by (subst extend_batch.simps) (use extend_batch_le [of "e + 1" m ds] in \<open>auto intro: Suc_le_lessD\<close>)

function make_batches_loop ::
  "64 word \<Rightarrow> digest list \<Rightarrow> nat \<Rightarrow> (nat \<times> nat) list \<Rightarrow> (nat \<times> nat) list" where
  "make_batches_loop max_batch_size digests batch_end batches =
     (if batch_end < length digests
      then
        if blob_size (digests ! batch_end) > max_batch_size then batches
        else
          (let batch_end' = extend_batch max_batch_size digests batch_end 0
           in make_batches_loop max_batch_size digests batch_end' (batches @ [(batch_end, batch_end')]))
      else batches)"
  by pat_completeness auto
termination
  by (relation "measure (\<lambda>(m, ds, e, b). length ds - e)")
    (auto simp: not_less intro!: diff_less_mono2 extend_batch_progress)

declare make_batches_loop.simps [simp del]

definition makeBatches :: "64 word \<Rightarrow> digest list \<Rightarrow> (nat \<times> nat) list" where
  "makeBatches d_maxBatchTotalSizeBytes digests =
     make_batches_loop (d_maxBatchTotalSizeBytes - SIZEOF_ESTIMATED_TOP_LEVEL_GRPC_CONTAINER) digests 0 []"

section \<open>The ranges of makeBatches\<close>

lemma extend_batch_length: "e \<le> length ds \<Longrightarrow> extend_batch m ds e b \<le> length ds"
  by (induction m ds e b rule: extend_batch.induct) (subst extend_batch.simps, auto)

lemma make_batches_chain:
  assumes "chain 0 bs e" "e \<le> length ds"
  shows "\<exists>j. chain 0 (make_batches_loop m ds e bs) j \<and> j \<le> length ds \<and>
    (j < length ds \<longrightarrow> blob_size (ds ! j) > m)"
  using assms
proof (induction m ds e bs rule: make_batches_loop.induct)
  case (1 m ds e bs)
  show ?case
  proof (cases "e < length ds \<and> \<not> blob_size (ds ! e) > m")
    case False
    then have "make_batches_loop m ds e bs = bs" by (subst make_batches_loop.simps) auto
    then show ?thesis using "1.prems" False by auto
  next
    case True
    let ?e = "extend_batch m ds e 0"
    have step: "make_batches_loop m ds e bs = make_batches_loop m ds ?e (bs @ [(e, ?e)])"
      using True by (subst make_batches_loop.simps) (simp add: Let_def)
    have "e < ?e" using True by (intro extend_batch_progress) auto
    then show ?thesis
      unfolding step
      using True "1.prems" extend_batch_length [of e ds m 0]
      by (intro "1.IH" [OF _ _ refl] chain_snoc) auto
  qed
qed

interpretation mb: batching "makeBatches m" for m
proof
  fix ds
  obtain j where j: "chain 0 (makeBatches m ds) j" "j \<le> length ds"
    using make_batches_chain [of "[]" 0 ds] by (auto simp: makeBatches_def)
  moreover have "j = last_end (makeBatches m ds)" using chain_last [OF j(1)] by (simp add: last_end_def)
  ultimately show "chain 0 (makeBatches m ds) (last_end (makeBatches m ds))"
    "last_end (makeBatches m ds) \<le> length ds" by simp_all
qed

text \<open>
  C11: \<^verbatim>\<open>makeBatches\<close> assigns every digest to exactly one place: the batches, in their
  order, followed by the digests after the last batch, which are left to the byte stream,
  are the given list, and no batch is empty.
\<close>

theorem makeBatches_partition:
  "concat (map (\<lambda>(a, b). batch_items a b xs) (makeBatches m xs)) @ drop (last_end (makeBatches m xs)) xs = xs \<and>
   ((a, b) \<in> set (makeBatches m xs) \<longrightarrow> a < b \<and> b \<le> length xs)"
  using mb.batches_cover [where ds = xs and xs = xs] mb.batch_bounds [where a = a and b = b and ds = xs] by blast

theorem makeBatches_partition_witness:
  "makeBatches 1000 [empty_digest, empty_digest, empty_digest] = [(0, 2), (2, 3)] \<and> (0::nat) < 2 \<and> 2 \<le> (3::nat)"
proof -
  have m: "makeBatches 1000 [empty_digest, empty_digest, empty_digest] = [(0, 2), (2, 3)]" by code_simp
  then show ?thesis
    using makeBatches_partition [of "[empty_digest, empty_digest, empty_digest]" 1000 0 2] by simp
qed

section \<open>The sizes of the batches\<close>

definition blob_bytes :: "digest \<Rightarrow> nat" where
  "blob_bytes d = nat (size_bytes d) + 256"

text \<open>Sizes below \<open>2 ^ 62\<close> do not wrap around.\<close>

definition sane_size :: "digest \<Rightarrow> bool" where
  "sane_size d \<longleftrightarrow> 0 \<le> size_bytes d \<and> size_bytes d < 2 ^ 62"

lemma unat_blob_size: "sane_size d \<Longrightarrow> unat (blob_size d) = blob_bytes d"
proof -
  assume s: "sane_size d"
  then have "unat (of_int (size_bytes d) :: 64 word) = nat (size_bytes d)"
    by (simp add: sane_size_def unat_eq_nat_uint unsigned_of_int take_bit_int_eq_self)
  moreover have "nat (size_bytes d) + 256 < 2 ^ 64" using s by (simp add: sane_size_def) linarith
  ultimately show ?thesis
    by (simp add: blob_size_def blob_bytes_def PER_BLOB_METADATA_SIZE_def unat_word_ariths)
qed

lemma unat_add_blob:
  assumes "sane_size d" "unat b \<le> 2 ^ 62"
  shows "unat (b + blob_size d) = unat b + blob_bytes d"
proof -
  have "unat b + blob_bytes d < 2 ^ 64"
    using assms by (simp add: sane_size_def blob_bytes_def) linarith
  then show ?thesis using unat_blob_size [OF assms(1)] by (simp add: unat_word_ariths)
qed

lemma batch_items_Cons: "i < j \<Longrightarrow> i < length xs \<Longrightarrow> batch_items i j xs = xs ! i # batch_items (i + 1) j xs"
  by (simp add: batch_items_def Cons_nth_drop_Suc [symmetric] take_Cons' del: Cons_nth_drop_Suc)

lemma batch_items_empty [simp]: "batch_items i i xs = []"
  by (simp add: batch_items_def)

lemma extend_batch_bytes:
  assumes "\<forall>d \<in> set ds. sane_size d" "unat m \<le> 2 ^ 62" "unat b \<le> unat m"
  shows "unat b + sum_list (map blob_bytes (batch_items e (extend_batch m ds e b) ds)) \<le> unat m"
  using assms
proof (induction m ds e b rule: extend_batch.induct)
  case (1 m ds e b)
  show ?case
  proof (cases "e < length ds \<and> b + blob_size (ds ! e) \<le> m")
    case True
    have add: "unat (b + blob_size (ds ! e)) = unat b + blob_bytes (ds ! e)"
      using True "1.prems" by (intro unat_add_blob) auto
    have step: "extend_batch m ds e b = extend_batch m ds (e + 1) (b + blob_size (ds ! e))"
      using True by (subst extend_batch.simps) simp
    have "e < extend_batch m ds (e + 1) (b + blob_size (ds ! e))"
      using extend_batch_le [of "e + 1" m ds] by (simp add: Suc_le_lessD)
    then show ?thesis
      using "1.IH" [OF True "1.prems"(1,2)] True add
      by (simp add: step batch_items_Cons word_le_nat_alt)
  next
    case False
    then have "extend_batch m ds e b = e" by (subst extend_batch.simps) auto
    then show ?thesis using "1.prems"(3) by simp
  qed
qed

lemma make_batches_bytes:
  assumes "\<forall>d \<in> set ds. sane_size d" "unat m \<le> 2 ^ 62"
    and "\<forall>(a, b) \<in> set bs. sum_list (map blob_bytes (batch_items a b ds)) \<le> unat m"
  shows "\<forall>(a, b) \<in> set (make_batches_loop m ds e bs). sum_list (map blob_bytes (batch_items a b ds)) \<le> unat m"
  using assms
proof (induction m ds e bs rule: make_batches_loop.induct)
  case (1 m ds e bs)
  show ?case
  proof (cases "e < length ds \<and> \<not> blob_size (ds ! e) > m")
    case True
    have "sum_list (map blob_bytes (batch_items e (extend_batch m ds e 0) ds)) \<le> unat m"
      using extend_batch_bytes [OF "1.prems"(1,2), of 0 e] by simp
    then show ?thesis
      using True "1.IH" [OF _ _ refl "1.prems"(1,2)] "1.prems"(3)
      by (subst make_batches_loop.simps) (auto simp: Let_def)
  next
    case False
    then show ?thesis using "1.prems"(3) by (subst make_batches_loop.simps) auto
  qed
qed

lemma unat_max_batch:
  "256 \<le> unat m \<Longrightarrow> unat (m - SIZEOF_ESTIMATED_TOP_LEVEL_GRPC_CONTAINER) = unat m - 256"
  by (simp add: SIZEOF_ESTIMATED_TOP_LEVEL_GRPC_CONTAINER_def unat_sub_if' word_le_nat_alt)



section \<open>The batch limit\<close>

text \<open>
  \<^verbatim>\<open>Client::init\<close>: the limit is the default message size of gRPC less 64 KiB, or what the
  server reports if that is smaller and not zero.
\<close>

definition GRPC_DEFAULT_MAX_RECV_MESSAGE_LENGTH :: "64 word" where
  "GRPC_DEFAULT_MAX_RECV_MESSAGE_LENGTH = 4 * 1024 * 1024"

definition default_max_batch :: "64 word" where
  "default_max_batch = GRPC_DEFAULT_MAX_RECV_MESSAGE_LENGTH - push_bit 16 1"

definition adjust_max_batch :: "64 word \<Rightarrow> 64 word \<Rightarrow> 64 word" where
  "adjust_max_batch serverMaxBatchTotalSizeBytes d_maxBatchTotalSizeBytes =
     (if serverMaxBatchTotalSizeBytes > 0 \<and> serverMaxBatchTotalSizeBytes < d_maxBatchTotalSizeBytes
      then serverMaxBatchTotalSizeBytes else d_maxBatchTotalSizeBytes)"

text \<open>
  A limit of the server below 256 bytes makes the subtraction in \<^verbatim>\<open>makeBatches\<close>
  wrap around: one batch then holds a blob of a gigabyte.
\<close>

theorem makeBatches_wraps:
  "adjust_max_batch 100 default_max_batch = 100 \<and>
   makeBatches 100 [empty_digest\<lparr>size_bytes := 1073741824\<rparr>] = [(0, 1)]"
  by code_simp

section \<open>Splitting of findMissingBlobs\<close>

definition bytestreamChunkSizeBytes :: nat where
  "bytestreamChunkSizeBytes = 1024 * 1024"

text \<open>
  The loop that fills the requests; \<open>byteSize\<close> is \<^verbatim>\<open>Digest::ByteSizeLong\<close>, the length of
  the serialised digest.
\<close>

fun split_digests ::
  "(digest \<Rightarrow> nat) \<Rightarrow> digest list \<Rightarrow> digest list list \<Rightarrow> digest list \<Rightarrow> nat \<Rightarrow> digest list list" where
  "split_digests byteSize [] requests_to_issue request batch_size = requests_to_issue @ [request]"
| "split_digests byteSize (digest # digests) requests_to_issue request batch_size =
     (if batch_size + byteSize digest > bytestreamChunkSizeBytes
      then split_digests byteSize digests (requests_to_issue @ [request]) [digest] 0
      else split_digests byteSize digests requests_to_issue (request @ [digest]) (batch_size + byteSize digest))"

definition missing_requests :: "(digest \<Rightarrow> nat) \<Rightarrow> digest list \<Rightarrow> digest list list" where
  "missing_requests byteSize digests = split_digests byteSize digests [] [] 0"

lemma split_digests_concat:
  "concat (split_digests byteSize digests rs r n) = concat rs @ r @ digests"
  by (induction byteSize digests rs r n rule: split_digests.induct) simp_all

definition request_bytes :: "(digest \<Rightarrow> nat) \<Rightarrow> digest list \<Rightarrow> nat" where
  "request_bytes byteSize r = sum_list (map byteSize r)"

text \<open>Only the first digest of a request after the first one is not counted.\<close>

lemma split_digests_bytes:
  assumes "\<forall>d \<in> set digests. byteSize d \<le> B"
    and "request_bytes byteSize r \<le> n + B" "n \<le> bytestreamChunkSizeBytes"
    and "\<forall>q \<in> set rs. request_bytes byteSize q \<le> bytestreamChunkSizeBytes + B"
  shows "\<forall>q \<in> set (split_digests byteSize digests rs r n). request_bytes byteSize q \<le> bytestreamChunkSizeBytes + B"
  using assms
proof (induction byteSize digests rs r n rule: split_digests.induct)
  case (2 byteSize d ds rs r n)
  show ?case
    using "2.prems" "2.IH"(1) "2.IH"(2) by (auto simp: request_bytes_def)
qed auto

text \<open>
  The requests of \<^verbatim>\<open>findMissingBlobs\<close> ask for every digest exactly once and in order,
  and there is always at least one request.  The digests of a request take at most the chunk
  size plus one digest.
\<close>

theorem missing_requests_partition:
  assumes "\<forall>d \<in> set digests. byteSize d \<le> B" "r \<in> set (missing_requests byteSize digests)"
  shows "concat (missing_requests byteSize digests) = digests \<and>
    request_bytes byteSize r \<le> bytestreamChunkSizeBytes + B"
  using split_digests_concat [of byteSize digests "[]" "[]" 0]
    split_digests_bytes [OF assms(1), of "[]" 0 "[]"] assms(2)
  by (simp add: missing_requests_def request_bytes_def)

theorem missing_requests_partition_witness:
  "concat (missing_requests (\<lambda>d. 600000) [empty_digest, empty_digest, empty_digest]) = [empty_digest, empty_digest, empty_digest]"
  using missing_requests_partition [of "[empty_digest, empty_digest, empty_digest]" "\<lambda>d. 600000" 600000 "[empty_digest, empty_digest]"]
  by (simp add: missing_requests_def bytestreamChunkSizeBytes_def)

text \<open>
  The bound of the chunk size itself does not hold: the digest that opens a request after
  a flush is not counted, so that a request can exceed the chunk size.
\<close>

theorem missing_requests_exceed:
  "\<exists>r \<in> set (missing_requests (\<lambda>d. 600000) [empty_digest, empty_digest, empty_digest]).
     request_bytes (\<lambda>d. 600000) r > bytestreamChunkSizeBytes"
  by (simp add: missing_requests_def bytestreamChunkSizeBytes_def request_bytes_def)

end
