(* ===== verification/Client_Stream.thy ===== *)
theory Client_Stream
  imports Retrier Cashash Client_Batch
begin

text \<open>
  The transfers of single blobs over the byte stream service in
  \<^verbatim>\<open>buildboxcommon_client.cpp\<close>: \<^verbatim>\<open>fetchString\<close>, \<^verbatim>\<open>download\<close>, the two forms of
  \<^verbatim>\<open>upload\<close> and \<^verbatim>\<open>uploadRequest\<close>.

  The server and the operating system are a record of operations on a state; each request is
  a call of a retrier over that state and the variables the lambda captures by reference.
  The properties of a whole request come from those of one call through the interpretations of
  \<open>retried_call\<close>.
\<close>

section \<open>Environment and client\<close>

record write_request =
  wr_resource_name :: string
  wr_write_offset :: int
  wr_data :: string
  wr_finish_write :: bool

text \<open>
  \<open>bs_read\<close> gives the data of the successive responses and the status of \<^verbatim>\<open>Finish\<close>;
  \<open>bs_write\<close> is one \<^verbatim>\<open>writer->Write\<close>; \<open>bs_finish\<close> gives the status and the committed
  size after \<^verbatim>\<open>WritesDone\<close>.  The file operations work on one descriptor; an error is its
  number.
\<close>

record 's stream_env =
  bs_read :: "client_context \<Rightarrow> string \<Rightarrow> nat \<Rightarrow> 's \<Rightarrow> (string list \<times> grpc_status) \<times> 's"
  bs_open_write :: "client_context \<Rightarrow> 's \<Rightarrow> 's"
  bs_write :: "write_request \<Rightarrow> 's \<Rightarrow> bool \<times> 's"
  bs_finish :: "'s \<Rightarrow> (grpc_status \<times> int) \<times> 's"
  fd_open_read :: "string \<Rightarrow> 's \<Rightarrow> int option \<times> 's"
  fd_open_write :: "string \<Rightarrow> 's \<Rightarrow> int option \<times> 's"
  fd_close :: "'s \<Rightarrow> 's"
  fd_rewind :: "'s \<Rightarrow> 's"
  fd_read :: "nat \<Rightarrow> 's \<Rightarrow> (int + string) \<times> 's"
  fd_write :: "string \<Rightarrow> 's \<Rightarrow> (int + nat) \<times> 's"
  fd_size :: "'s \<Rightarrow> int"

record client =
  d_instanceName :: string
  d_uuid :: string
  d_maxBatchTotalSizeBytes :: "64 word"
  d_grpcRetryLimit :: nat
  d_grpcRetryDelay :: int
  d_metadata_attach :: attacher

definition makeRetrier :: "client \<Rightarrow> grpc_retrier" where
  "makeRetrier cl =
     setMetadataAttacher (d_metadata_attach cl) (new_retrier (d_grpcRetryLimit cl) (d_grpcRetryDelay cl) [])"

definition makeResourceName :: "client \<Rightarrow> digest \<Rightarrow> bool \<Rightarrow> string" where
  "makeResourceName cl digest isUpload =
     (if d_instanceName cl \<noteq> [] then d_instanceName cl @ ''/'' else []) @
     (if isUpload then ''uploads/'' @ d_uuid cl @ ''/'' else []) @
     ''blobs/'' @ hash_other digest @ ''/'' @ show_int (size_bytes digest)"

section \<open>Downloads\<close>

text \<open>
  The lambda of \<^verbatim>\<open>fetchString\<close>; the second component of the state is \<^verbatim>\<open>result\<close>.
  \<^verbatim>\<open>reserve\<close> throws \<^verbatim>\<open>std::length_error\<close>, a \<^verbatim>\<open>std::logic_error\<close>, for a
  negative size.  \<open>hash\<close> is \<^verbatim>\<open>d_digestGenerator.hash\<close>.
\<close>

definition fetch_call ::
  "'s stream_env \<Rightarrow> (string \<Rightarrow> digest result) \<Rightarrow> digest \<Rightarrow> string \<Rightarrow> ('s \<times> string) call" where
  "fetch_call env hash digest resourceName context w =
     (let ((chunks, read_status), s') = bs_read env context resourceName 0 (fst w);
          downloaded_data = concat chunks
      in if size_bytes digest < 0 then (Inl LogicError, (s', snd w))
         else if ok read_status
         then
           if int (length downloaded_data) \<noteq> size_bytes digest then (Inl RuntimeError, (s', snd w))
           else
             (case hash downloaded_data of
                Inl e \<Rightarrow> (Inl e, (s', snd w))
              | Inr downloaded_digest \<Rightarrow>
                  if \<not> digest_eq downloaded_digest digest then (Inl RuntimeError, (s', snd w))
                  else (Inr read_status, (s', downloaded_data)))
         else (Inr read_status, (s', snd w)))"

definition fetchString ::
  "'s stream_env \<Rightarrow> client \<Rightarrow> (string \<Rightarrow> digest result) \<Rightarrow> digest \<Rightarrow> 's \<Rightarrow> string result \<times> 's" where
  "fetchString env cl hash digest s =
     (let (r, (s', result)) =
            issueRequestAndThrowOnErrors (makeRetrier cl)
              (fetch_call env hash digest (makeResourceName cl digest False)) (s, [])
      in (map_sum id (\<lambda>_. result) r, s'))"

text \<open>
  A write that is short, too, throws with the current \<^verbatim>\<open>errno\<close>, which is unknown then and
  is 0 in the model.  \<^verbatim>\<open>download\<close> keeps the number of bytes and the digest context over the attempts, so that a
  repeated call continues at the offset it has reached.
\<close>

record ('s, 'h) download_state =
  dl_world :: 's
  dl_bytes :: nat
  dl_context :: "'h digest_context"

fun write_chunks ::
  "'s stream_env \<Rightarrow> 'h hash_library \<Rightarrow> string list \<Rightarrow> ('s, 'h) download_state \<Rightarrow>
   unit result \<times> ('s, 'h) download_state" where
  "write_chunks env lib [] w = (Inr (), w)"
| "write_chunks env lib (data # chunks) w =
     (case fd_write env data (dl_world w) of
        (Inl e, s') \<Rightarrow> (Inl (SystemError e), w\<lparr>dl_world := s'\<rparr>)
      | (Inr written, s') \<Rightarrow>
          if written \<noteq> length data then (Inl (SystemError 0), w\<lparr>dl_world := s'\<rparr>)
          else
            (case update lib data (dl_context w) of
               Inl e \<Rightarrow> (Inl e, w\<lparr>dl_world := s'\<rparr>)
             | Inr ctx' \<Rightarrow>
                 write_chunks env lib chunks
                   (w\<lparr>dl_world := s', dl_context := ctx', dl_bytes := dl_bytes w + length data\<rparr>)))"

definition download_call ::
  "'s stream_env \<Rightarrow> 'h hash_library \<Rightarrow> digest \<Rightarrow> string \<Rightarrow> ('s, 'h) download_state call" where
  "download_call env lib digest resourceName context w =
     (let ((chunks, read_status), s') = bs_read env context resourceName (dl_bytes w) (dl_world w)
      in case write_chunks env lib chunks (w\<lparr>dl_world := s'\<rparr>) of
           (Inl e, w') \<Rightarrow> (Inl e, w')
         | (Inr _, w') \<Rightarrow>
             if ok read_status
             then
               if fd_size env (dl_world w') \<noteq> size_bytes digest then (Inl RuntimeError, w')
               else
                 (case finalizeDigest lib (dl_context w') of
                    Inl e \<Rightarrow> (Inl e, w')
                  | Inr (downloaded_digest, ctx') \<Rightarrow>
                      if \<not> digest_eq downloaded_digest digest
                      then (Inl RuntimeError, w'\<lparr>dl_context := ctx'\<rparr>)
                      else (Inr read_status, w'\<lparr>dl_context := ctx'\<rparr>))
             else (Inr read_status, w'))"

definition download ::
  "'s stream_env \<Rightarrow> client \<Rightarrow> 'h hash_library \<Rightarrow> digest_function option \<Rightarrow> digest \<Rightarrow> 's \<Rightarrow> unit result \<times> 's" where
  "download env cl lib functionStruct digest s =
     (case createDigestContext lib functionStruct of
        Inl e \<Rightarrow> (Inl e, s)
      | Inr ctx \<Rightarrow>
          (let (r, w) =
                 issueRequestAndThrowOnErrors (makeRetrier cl)
                   (download_call env lib digest (makeResourceName cl digest False))
                   \<lparr>dl_world = s, dl_bytes = 0, dl_context = ctx\<rparr>
           in (r, dl_world w)))"

section \<open>Uploads\<close>

text \<open>
  The loop that sends a string; it ends after the last chunk or when a write is refused.  The
  offset never exceeds the length; the last disjunct only makes the recursion total.
\<close>

function send_string :: "'s stream_env \<Rightarrow> string \<Rightarrow> string \<Rightarrow> nat \<Rightarrow> 's \<Rightarrow> 's" where
  "send_string env resourceName data offset s =
     (let uploadLength = min bytestreamChunkSizeBytes (length data - offset);
          offset' = offset + uploadLength;
          lastChunk = (offset' = length data);
          request = \<lparr>wr_resource_name = resourceName, wr_write_offset = int offset,
                     wr_data = take uploadLength (drop offset data), wr_finish_write = lastChunk\<rparr>;
          (accepted, s') = bs_write env request s
      in if \<not> accepted \<or> lastChunk \<or> offset > length data then s'
         else send_string env resourceName data offset' s')"
  by pat_completeness auto
termination
  by (relation "measure (\<lambda>(env, rn, data, offset, s). length data - offset)") (auto simp: bytestreamChunkSizeBytes_def)

declare send_string.simps [simp del]

definition committed_check :: "digest \<Rightarrow> grpc_status \<times> int \<Rightarrow> grpc_status result" where
  "committed_check digest fin =
     (if ok (fst fin) \<and> snd fin \<noteq> size_bytes digest then Inl RuntimeError else Inr (fst fin))"

definition upload_string_call ::
  "'s stream_env \<Rightarrow> digest \<Rightarrow> string \<Rightarrow> string \<Rightarrow> 's call" where
  "upload_string_call env digest resourceName data context s =
     (let (fin, s') = bs_finish env (send_string env resourceName data 0 (bs_open_write env context s))
      in (committed_check digest fin, s'))"

definition upload_string :: "'s stream_env \<Rightarrow> client \<Rightarrow> string \<Rightarrow> digest \<Rightarrow> 's \<Rightarrow> unit result \<times> 's" where
  "upload_string env cl data digest s =
     (if int (length data) \<noteq> size_bytes digest then (Inl LogicError, s)
      else issueRequestAndThrowOnErrors (makeRetrier cl)
             (upload_string_call env digest (makeResourceName cl digest True) data) s)"

text \<open>The loop that reads a descriptor and sends what it reads.\<close>

function send_file :: "'s stream_env \<Rightarrow> string \<Rightarrow> digest \<Rightarrow> int \<Rightarrow> 's \<Rightarrow> unit result \<times> 's" where
  "send_file env resourceName digest offset s =
     (case fd_read env bytestreamChunkSizeBytes s of
        (Inl e, s1) \<Rightarrow> (Inl (SystemError e), s1)
      | (Inr buffer, s1) \<Rightarrow>
          (let lastChunk = (offset + int (length buffer) \<ge> size_bytes digest);
               request = \<lparr>wr_resource_name = resourceName, wr_write_offset = offset,
                          wr_data = buffer, wr_finish_write = lastChunk\<rparr>
           in if \<not> lastChunk \<and> buffer = [] then (Inl RuntimeError, s1)
              else
                (let (accepted, s2) = bs_write env request s1
                 in if \<not> accepted \<or> lastChunk then (Inr (), s2)
                    else send_file env resourceName digest (offset + int (length buffer)) s2)))"
  by pat_completeness auto
termination
  by (relation "measure (\<lambda>(env, rn, digest, offset, s). nat (size_bytes digest - offset))") auto

declare send_file.simps [simp del]

definition upload_file_call :: "'s stream_env \<Rightarrow> digest \<Rightarrow> string \<Rightarrow> 's call" where
  "upload_file_call env digest resourceName context s =
     (case send_file env resourceName digest 0 (bs_open_write env context s) of
        (Inl e, s') \<Rightarrow> (Inl e, s')
      | (Inr _, s') \<Rightarrow> (let (fin, s'') = bs_finish env s' in (committed_check digest fin, s'')))"

definition upload_file :: "'s stream_env \<Rightarrow> client \<Rightarrow> digest \<Rightarrow> 's \<Rightarrow> unit result \<times> 's" where
  "upload_file env cl digest s =
     issueRequestAndThrowOnErrors (makeRetrier cl)
       (upload_file_call env digest (makeResourceName cl digest True)) (fd_rewind env s)"

record upload_request =
  ur_digest :: digest
  ur_data :: string
  ur_path :: string

definition uploadRequest :: "'s stream_env \<Rightarrow> client \<Rightarrow> upload_request \<Rightarrow> 's \<Rightarrow> unit result \<times> 's" where
  "uploadRequest env cl request s =
     (if ur_path request = [] then upload_string env cl (ur_data request) (ur_digest request) s
      else
        (case fd_open_read env (ur_path request) s of
           (Some e, s') \<Rightarrow> (Inl (SystemError e), s')
         | (None, s') \<Rightarrow>
             (let (r, s'') = upload_file env cl (ur_digest request) s' in (r, fd_close env s''))))"

section \<open>Integrity of downloads\<close>

definition intact :: "(string \<Rightarrow> digest result) \<Rightarrow> digest \<Rightarrow> string \<Rightarrow> bool" where
  "intact hash digest data \<longleftrightarrow>
     int (length data) = size_bytes digest \<and> (\<exists>d. hash data = Inr d \<and> digest_eq d digest)"

interpretation fetch: retried_call "fetch_call env hash digest resourceName" "\<lambda>w. True"
    "\<lambda>w. intact hash digest (snd w)"
  for env hash digest resourceName
  by unfold_locales
    (auto simp: fetch_call_def intact_def Let_def case_prod_beta split: if_splits sum.splits)

lemma fetchString_intact:
  assumes "fetchString env cl hash digest s = (Inr data, s')"
  shows "intact hash digest data"
proof -
  let ?call = "fetch_call env hash digest (makeResourceName cl digest False)"
  have "fst (issueRequestAndThrowOnErrors (makeRetrier cl) ?call (s, [])) = Inr ()"
    "data = snd (snd (issueRequestAndThrowOnErrors (makeRetrier cl) ?call (s, [])))"
    using assms by (auto simp: fetchString_def Let_def case_prod_beta map_sum_def split: sum.splits)
  then show ?thesis using fetch.request_establishes [where s = "(s, [])"] by simp
qed

text \<open>
  C3: \<^verbatim>\<open>fetchString\<close> returns only intact data: whatever the server sends and however often
  the request is repeated, a returned string has the size of the digest and its own digest
  equals the requested one.
\<close>

theorem fetchString_integrity:
  assumes "fetchString env cl hash digest s = (Inr data, s')"
  shows "intact hash digest data"
  using fetchString_intact [OF assms] .

text \<open>
  The promise of \<^verbatim>\<open>write\<close>: what it reports as written is appended to the contents of the
  file, and other operations leave the file as it is.
\<close>

definition appends :: "'s stream_env \<Rightarrow> ('s \<Rightarrow> string) \<Rightarrow> bool" where
  "appends env contents \<longleftrightarrow>
     (\<forall>data s n s'. fd_write env data s = (Inr n, s') \<longrightarrow> contents s' = contents s @ take n data) \<and>
     (\<forall>c rn off s. contents (snd (bs_read env c rn off s)) = contents s)"

text \<open>The digest context has seen exactly what is in the file, in the pieces \<open>cs\<close>.\<close>

definition dl_inv ::
  "'s stream_env \<Rightarrow> 'h hash_library \<Rightarrow> ('s \<Rightarrow> string) \<Rightarrow> 'h digest_context \<Rightarrow> string list \<Rightarrow>
   ('s, 'h) download_state \<Rightarrow> bool" where
  "dl_inv env lib contents ctx0 cs w \<longleftrightarrow>
     update_all lib cs ctx0 = Inr (dl_context w) \<and> concat cs = contents (dl_world w) \<and>
     dl_bytes w = length (concat cs)"

lemma update_all_snoc:
  "update_all lib (cs @ [c]) ctx = (case update_all lib cs ctx of Inl e \<Rightarrow> Inl e | Inr ctx' \<Rightarrow> update lib c ctx')"
  by (induction cs arbitrary: ctx) (auto split: sum.split)

lemma write_chunks_inv:
  assumes "appends env contents" "dl_inv env lib contents ctx0 cs w"
    and "write_chunks env lib chunks w = (Inr (), w')"
  shows "\<exists>cs'. dl_inv env lib contents ctx0 cs' w'"
  using assms
proof (induction env lib chunks w arbitrary: cs rule: write_chunks.induct)
  case (1 env lib w)
  then show ?case by auto
next
  case (2 env lib data chunks w)
  obtain s1 ctx1 where w: "fd_write env data (dl_world w) = (Inr (length data), s1)"
    and c: "update lib data (dl_context w) = Inr ctx1"
    and rest: "write_chunks env lib chunks
      (w\<lparr>dl_world := s1, dl_context := ctx1, dl_bytes := dl_bytes w + length data\<rparr>) = (Inr (), w')"
    using "2.prems"(3) by (auto split: prod.splits sum.splits if_splits)
  have "contents s1 = contents (dl_world w) @ take (length data) data"
    using "2.prems"(1) w unfolding appends_def by blast
  then have "dl_inv env lib contents ctx0 (cs @ [data])
      (w\<lparr>dl_world := s1, dl_context := ctx1, dl_bytes := dl_bytes w + length data\<rparr>)"
    using "2.prems"(2) c by (simp add: dl_inv_def update_all_snoc)
  then show ?case using "2.IH" [OF w [symmetric] refl _ c "2.prems"(1)] rest by simp
qed

text \<open>What a finished download has established.\<close>

definition dl_post ::
  "'s stream_env \<Rightarrow> 'h hash_library \<Rightarrow> ('s \<Rightarrow> string) \<Rightarrow> 'h digest_context \<Rightarrow> digest \<Rightarrow>
   ('s, 'h) download_state \<Rightarrow> bool" where
  "dl_post env lib contents ctx0 digest w \<longleftrightarrow>
     fd_size env (dl_world w) = size_bytes digest \<and>
     (\<exists>cs ctx d ctx'. update_all lib cs ctx0 = Inr ctx \<and> concat cs = contents (dl_world w) \<and>
        finalizeDigest lib ctx = Inr (d, ctx') \<and> digest_eq d digest)"

lemma download_call_contract:
  assumes app: "appends env contents" and inv: "dl_inv env lib contents ctx0 cs w"
    and call: "fst (download_call env lib digest rn c w) = Inr st"
  shows "(\<not> ok st \<longrightarrow> (\<exists>cs. dl_inv env lib contents ctx0 cs (snd (download_call env lib digest rn c w)))) \<and>
    (ok st \<longrightarrow> dl_post env lib contents ctx0 digest (snd (download_call env lib digest rn c w)))"
proof -
  obtain chunks rst s1 where read: "bs_read env c rn (dl_bytes w) (dl_world w) = ((chunks, rst), s1)"
    by (metis prod.collapse)
  have "contents s1 = contents (dl_world w)"
    using app read unfolding appends_def by (metis snd_conv)
  then have "dl_inv env lib contents ctx0 cs (w\<lparr>dl_world := s1\<rparr>)" using inv by (simp add: dl_inv_def)
  moreover obtain w' where w': "write_chunks env lib chunks (w\<lparr>dl_world := s1\<rparr>) = (Inr (), w')"
    using call read by (cases "write_chunks env lib chunks (w\<lparr>dl_world := s1\<rparr>)")
      (auto simp: download_call_def split: sum.splits)
  ultimately obtain cs' where cs': "dl_inv env lib contents ctx0 cs' w'"
    using write_chunks_inv [OF app] by blast
  show ?thesis
  proof (cases "ok rst")
    case False
    then have "download_call env lib digest rn c w = (Inr rst, w')"
      using read w' by (simp add: download_call_def)
    then show ?thesis using call False cs' by auto
  next
    case True
    then obtain d ctx' where fin: "fd_size env (dl_world w') = size_bytes digest"
        "finalizeDigest lib (dl_context w') = Inr (d, ctx')" "digest_eq d digest"
        "download_call env lib digest rn c w = (Inr rst, w'\<lparr>dl_context := ctx'\<rparr>)"
      using call read w' by (auto simp: download_call_def split: if_splits sum.splits)
    then have "dl_post env lib contents ctx0 digest (w'\<lparr>dl_context := ctx'\<rparr>)"
      using cs' unfolding dl_post_def dl_inv_def by auto
    then show ?thesis using fin(4) call True by simp
  qed
qed

interpretation dl: retried_call "download_call env lib digest rn"
    "\<lambda>w. appends env contents \<longrightarrow> (\<exists>cs. dl_inv env lib contents ctx0 cs w)"
    "\<lambda>w. appends env contents \<longrightarrow> dl_post env lib contents ctx0 digest w"
  for env lib digest rn contents ctx0
  by unfold_locales (use download_call_contract in blast)+

text \<open>
  C2: When \<^verbatim>\<open>download\<close> returns, the file, which was empty at the start, holds intact data, even
  if the transfer was interrupted and continued by later attempts: its contents have the
  digest that was asked for, and its size as the file system reports it is that of the digest.
\<close>

theorem download_integrity:
  assumes "download env cl lib functionStruct digest s = (Inr (), s')"
    and "appends env contents" "contents s = []" "incremental lib functionStruct md" "length (contents s') < 2 ^ 64"
  shows "digest_eq (digest_of functionStruct (md (contents s')) (length (contents s'))) digest \<and>
    fd_size env s' = size_bytes digest"
proof -
  obtain ctx where ctx: "createDigestContext lib functionStruct = Inr ctx"
    by (rule created_digest [OF assms(4)])
  let ?w = "\<lparr>dl_world = s, dl_bytes = 0, dl_context = ctx\<rparr>"
  let ?call = "download_call env lib digest (makeResourceName cl digest False)"
  have r: "fst (issueRequestAndThrowOnErrors (makeRetrier cl) ?call ?w) = Inr ()"
    "s' = dl_world (snd (issueRequestAndThrowOnErrors (makeRetrier cl) ?call ?w))"
    using assms(1) ctx by (auto simp: download_def Let_def case_prod_beta)
  have "dl_inv env lib contents ctx [] ?w" using assms(3) by (simp add: dl_inv_def)
  then have "dl_post env lib contents ctx digest (snd (issueRequestAndThrowOnErrors (makeRetrier cl) ?call ?w))"
    using dl.request_establishes [OF _ r(1)] assms(2) by blast
  then obtain cs c d c' where post: "update_all lib cs ctx = Inr c" "concat cs = contents s'"
      "finalizeDigest lib c = Inr (d, c')" "digest_eq d digest" "fd_size env s' = size_bytes digest"
    using r(2) by (auto simp: dl_post_def)
  have "d = digest_of functionStruct (md (concat cs)) (length (concat cs))"
    by (rule finished_digest [OF assms(4) ctx]) (use post assms(5) in \<open>simp_all add: finish_all_def\<close>)
  then show ?thesis using post by simp
qed

section \<open>What an upload sends\<close>

text \<open>
  The receiving end of a byte stream write: data is accepted at the committed offset, for the
  resource named, until a request finishes the write.
\<close>

definition receive :: "string \<Rightarrow> write_request \<Rightarrow> string \<times> bool \<Rightarrow> bool \<times> (string \<times> bool)" where
  "receive rn q st =
     (if wr_resource_name q = rn \<and> wr_write_offset q = int (length (fst st)) \<and> \<not> snd st \<and>
         length (wr_data q) \<le> bytestreamChunkSizeBytes
      then (True, (fst st @ wr_data q, wr_finish_write q)) else (False, st))"

text \<open>\<open>stores env rn stored\<close>: the writer behaves as the receiver on the part \<open>stored\<close> of the state.\<close>

definition stores :: "'s stream_env \<Rightarrow> string \<Rightarrow> ('s \<Rightarrow> string \<times> bool) \<Rightarrow> bool" where
  "stores env rn stored \<longleftrightarrow>
     (\<forall>q s. fst (bs_write env q s) = fst (receive rn q (stored s)) \<and>
            stored (snd (bs_write env q s)) = snd (receive rn q (stored s)))"

lemma send_string_stores:
  assumes "stores env rn stored" "stored s = (take offset data, False)" "offset \<le> length data"
  shows "stored (send_string env rn data offset s) = (data, True)"
  using assms
proof (induction env rn data offset s rule: send_string.induct)
  case (1 env rn data offset s)
  let ?n = "min bytestreamChunkSizeBytes (length data - offset)"
  let ?q = "\<lparr>wr_resource_name = rn, wr_write_offset = int offset,
     wr_data = take ?n (drop offset data), wr_finish_write = (offset + ?n = length data)\<rparr>"
  obtain a s' where w: "bs_write env ?q s = (a, s')" by fastforce
  have rec: "receive rn ?q (stored s) = (True, (take (offset + ?n) data, offset + ?n = length data))"
    using "1.prems"(2,3) by (auto simp: receive_def take_add)
  then have a: "a" and st: "stored s' = (take (offset + ?n) data, offset + ?n = length data)"
    using "1.prems"(1) w unfolding stores_def by (metis fst_conv snd_conv)+
  show ?case
  proof (cases "offset + ?n = length data")
    case True
    then show ?thesis
      using w st by (subst send_string.simps) (simp add: Let_def)
  next
    case False
    have step: "send_string env rn data offset s = send_string env rn data (offset + ?n) s'"
      using w a False "1.prems"(3) by (subst send_string.simps) (simp only: Let_def prod.case not_less [symmetric] simp_thms if_False)
    show ?thesis
      unfolding step
      by (rule "1.IH" [OF refl refl refl refl w [symmetric] refl _ "1.prems"(1)])
        (use a False "1.prems"(3) st in auto)
  qed
qed

text \<open>
  C33: One attempt of \<^verbatim>\<open>upload\<close> sends the whole string: a receiver that accepts data at the offset
  it has reached, in chunks of at most 1 MiB, ends with exactly the data and a finished write,
  also for the empty string.
\<close>

theorem send_string_complete:
  assumes "stores env rn stored" "stored s = ([], False)"
  shows "stored (send_string env rn data 0 s) = (data, True)"
  using send_string_stores [OF assms(1), of s 0 data] assms(2) by simp

section \<open>A concrete environment\<close>

text \<open>
  A world for evaluation: the blob the server has, the data and flag it received, the answers
  left for reads and writes, and the contents and position of the open file.
\<close>

record demo_world =
  dw_blob :: string
  dw_stored :: "string \<times> bool"
  dw_failures :: nat
  dw_file :: string
  dw_pos :: nat

definition demo_status :: "demo_world \<Rightarrow> grpc_status" where
  "demo_status s = status_of (if dw_failures s = 0 then OK else UNAVAILABLE)"

text \<open>A failing read delivers one byte; a failing write loses what it received.\<close>

definition demo_env :: "demo_world stream_env" where
  "demo_env = \<lparr>
     bs_read = (\<lambda>c rn off s.
       ((if dw_failures s = 0 then [take 1 (drop off (dw_blob s)), drop (off + 1) (dw_blob s)] else [take 1 (drop off (dw_blob s))],
         demo_status s), s\<lparr>dw_failures := dw_failures s - 1\<rparr>)),
     bs_open_write = (\<lambda>c s. s\<lparr>dw_stored := ([], False)\<rparr>),
     bs_write = (\<lambda>q s. let (a, st) = receive ''blobs/x/3'' q (dw_stored s) in (a, s\<lparr>dw_stored := st\<rparr>)),
     bs_finish = (\<lambda>s. ((demo_status s, int (length (fst (dw_stored s)))), s\<lparr>dw_failures := dw_failures s - 1\<rparr>)),
     fd_open_read = (\<lambda>p s. (None, s\<lparr>dw_pos := 0\<rparr>)),
     fd_open_write = (\<lambda>p s. (None, s\<lparr>dw_file := [], dw_pos := 0\<rparr>)),
     fd_close = (\<lambda>s. s),
     fd_rewind = (\<lambda>s. s\<lparr>dw_pos := 0\<rparr>),
     fd_read = (\<lambda>n s. (Inr (take n (drop (dw_pos s) (dw_file s))), s\<lparr>dw_pos := min (dw_pos s + n) (length (dw_file s))\<rparr>)),
     fd_write = (\<lambda>data s. (Inr (length data), s\<lparr>dw_file := dw_file s @ data\<rparr>)),
     fd_size = (\<lambda>s. int (length (dw_file s)))\<rparr>"

definition demo_client :: client where
  "demo_client = \<lparr>d_instanceName = [], d_uuid = ''u'', d_maxBatchTotalSizeBytes = 4000, d_grpcRetryLimit = 2,
     d_grpcRetryDelay = 100, d_metadata_attach = (\<lambda>c. c)\<rparr>"

definition demo_start :: demo_world where
  "demo_start = \<lparr>dw_blob = ''abc'', dw_stored = ([], False), dw_failures = 1, dw_file = [], dw_pos = 0\<rparr>"

definition demo_digest :: digest where
  "demo_digest = \<lparr>hash_other = ''616263'', size_bytes = 3, hash_blake3zcc = []\<rparr>"

theorem fetchString_integrity_witness:
  "fst (fetchString demo_env demo_client (hash_string plain_library (Some SHA256)) demo_digest demo_start) = Inr ''abc'' \<and>
   intact (hash_string plain_library (Some SHA256)) demo_digest ''abc''"
proof -
  let ?f = "fetchString demo_env demo_client (hash_string plain_library (Some SHA256)) demo_digest demo_start"
  have "fst ?f = Inr ''abc''" by code_simp
  then show ?thesis
    using fetchString_integrity [of demo_env demo_client _ demo_digest demo_start "''abc''" "snd ?f"]
    by (metis prod.collapse)
qed

theorem download_integrity_witness:
  "digest_eq (digest_of (Some SHA256)
     (dw_file (snd (download demo_env demo_client plain_library (Some SHA256) demo_digest demo_start))) 3) demo_digest"
proof -
  let ?d = "download demo_env demo_client plain_library (Some SHA256) demo_digest demo_start"
  have r: "?d = (Inr (), snd ?d)" "dw_file (snd ?d) = ''abc''" "dw_file demo_start = []"
    by (code_simp, code_simp, code_simp)
  have app: "appends demo_env dw_file" by (auto simp: appends_def demo_env_def)
  show ?thesis
    using download_integrity [OF r(1) app r(3) plain_library_incremental] r(2) by (simp add: numeral_3_eq_3)
qed

theorem send_string_complete_witness:
  "dw_stored (send_string demo_env ''blobs/x/3'' ''abc'' 0 demo_start) = (''abc'', True)"
proof (rule send_string_complete)
  show "stores demo_env ''blobs/x/3'' dw_stored"
    by (auto simp: stores_def demo_env_def Let_def case_prod_beta)
qed (simp add: demo_start_def)

text \<open>
  A repeated upload from a descriptor does not start again at the beginning of the file: with
  one transient failure of a server that accepts the second attempt, uploading the same data
  from a string succeeds, and uploading it from a file throws.
\<close>

theorem upload_file_retry_fails:
  "fst (upload_file_call demo_env demo_digest ''blobs/x/3'' [] (demo_start\<lparr>dw_failures := 0, dw_file := ''abc''\<rparr>)) = Inr (status_of OK) \<and>
   fst (issueRequestAndThrowOnErrors (makeRetrier demo_client) (upload_string_call demo_env demo_digest ''blobs/x/3'' ''abc'')
     demo_start) = Inr () \<and>
   fst (issueRequestAndThrowOnErrors (makeRetrier demo_client) (upload_file_call demo_env demo_digest ''blobs/x/3'')
     (fd_rewind demo_env (demo_start\<lparr>dw_file := ''abc''\<rparr>))) = Inl RuntimeError"
proof -
  note defs = demo_env_def demo_digest_def demo_start_def demo_status_def status_of_def ok_def
    receive_def bytestreamChunkSizeBytes_def committed_check_def
  have first: "upload_file_call demo_env demo_digest ''blobs/x/3'' [] s =
      (Inr (demo_status s), s\<lparr>dw_stored := (''abc'', True), dw_failures := dw_failures s - 1, dw_pos := 3\<rparr>)"
    if "dw_file s = ''abc''" "dw_pos s = 0" for s
    using that by (simp add: upload_file_call_def send_file.simps defs)
  have again: "fst (upload_file_call demo_env demo_digest ''blobs/x/3'' [] s) = Inl RuntimeError"
    if "dw_file s = ''abc''" "dw_pos s = 3" for s
    using that by (simp add: upload_file_call_def send_file.simps defs)
  have str: "upload_string_call demo_env demo_digest ''blobs/x/3'' ''abc'' [] s =
      (Inr (demo_status s), s\<lparr>dw_stored := (''abc'', True), dw_failures := dw_failures s - 1\<rparr>)" for s
    by (simp add: upload_string_call_def send_string.simps defs)
  note start = demo_start_def demo_status_def status_of_def ok_def
  have rewind: "fd_rewind demo_env (demo_start\<lparr>dw_file := ''abc''\<rparr>) = demo_start\<lparr>dw_file := ''abc''\<rparr>"
    by (simp add: demo_env_def demo_start_def)
  let ?r = "makeRetrier demo_client"
  have r: "attach (d_metadataAttacher ?r) = []" "d_retryableStatusCodes ?r = [UNAVAILABLE]" "d_retryLimit ?r = 2"
    by (simp_all add: makeRetrier_def demo_client_def setMetadataAttacher_def new_retrier_def attach_def)
  let ?s = "demo_start\<lparr>dw_file := ''abc''\<rparr>"
  have from_file: "fst (issueRequestAndThrowOnErrors ?r (upload_file_call demo_env demo_digest ''blobs/x/3'') ?s) = Inl RuntimeError"
    using request_outcome [of 1 ?r "upload_file_call demo_env demo_digest ''blobs/x/3''" ?s] first [of ?s] again
    by (simp add: r answer_def transient_def start)
  have from_string: "fst (issueRequestAndThrowOnErrors ?r (upload_string_call demo_env demo_digest ''blobs/x/3'' ''abc'') demo_start) = Inr ()"
    using request_outcome [of 1 ?r "upload_string_call demo_env demo_digest ''blobs/x/3'' ''abc''" demo_start]
    by (simp add: r answer_def transient_def str start)
  show ?thesis
    using first [of "?s\<lparr>dw_failures := 0\<rparr>"] from_file from_string unfolding rewind by (simp add: start)
qed

end
