(* ===== verification/Logstream.thy ===== *)
theory Logstream
  imports Client_Stream
begin

text \<open>
  \<^verbatim>\<open>buildboxcommon_logstreamwriter.cpp\<close>: appending to a log stream over the byte stream
  service.

  The writer is a record of the members of the class, the services are a record of operations on a
  state; the lambdas of the requests work on the pair of both.  That a committed stream has the
  size the writer has counted follows from one call through the interpretation \<open>commit_request\<close>
  of \<open>retried_call\<close>.
\<close>

section \<open>The writer\<close>

text \<open>
  \<open>ls_query\<close> is \<^verbatim>\<open>QueryWriteStatus\<close>, \<open>ls_open\<close> opens the stream, \<open>ls_write\<close> is one
  \<^verbatim>\<open>Write\<close>, \<open>ls_finish\<close> stands for \<^verbatim>\<open>WritesDone\<close> and \<^verbatim>\<open>Finish\<close> and gives the
  status and the committed size of the response; \<open>ls_create\<close> is \<^verbatim>\<open>CreateLogStream\<close> and
  gives the names of the stream for reading and writing.
\<close>

record 's log_env =
  ls_query :: "string \<Rightarrow> 's \<Rightarrow> grpc_status \<times> 's"
  ls_open :: "'s \<Rightarrow> 's"
  ls_write :: "write_request \<Rightarrow> 's \<Rightarrow> bool \<times> 's"
  ls_finish :: "'s \<Rightarrow> (grpc_status \<times> int) \<times> 's"
  ls_create :: "string \<Rightarrow> 's \<Rightarrow> (grpc_status \<times> string \<times> string) \<times> 's"

record log_writer =
  lw_resourceName :: string
  lw_retryLimit :: nat
  lw_retryDelay :: int
  lw_writerOpen :: bool
  lw_committedSize :: int
  lw_writeOffset :: int
  lw_writeCommitted :: bool
  lw_resourceReady :: bool

text \<open>The limit is cast from a signed to an unsigned 32-bit integer.\<close>

definition new_log_writer :: "string \<Rightarrow> int \<Rightarrow> int \<Rightarrow> log_writer" where
  "new_log_writer resourceName grpcRetryLimit grpcRetryDelay =
     \<lparr>lw_resourceName = resourceName, lw_retryLimit = unat (word_of_int grpcRetryLimit :: 32 word),
      lw_retryDelay = grpcRetryDelay, lw_writerOpen = False, lw_committedSize = 0, lw_writeOffset = 0,
      lw_writeCommitted = False, lw_resourceReady = False\<rparr>"

text \<open>\<^verbatim>\<open>bytestreamWriter()\<close> opens the stream at its first use.\<close>

definition bytestreamWriter :: "'s log_env \<Rightarrow> 's \<times> log_writer \<Rightarrow> 's \<times> log_writer" where
  "bytestreamWriter env w =
     (if lw_writerOpen (snd w) then w else (ls_open env (fst w), (snd w)\<lparr>lw_writerOpen := True\<rparr>))"

text \<open>\<^verbatim>\<open>retrier.issueRequest() && retrier.status().ok()\<close>.\<close>

definition issued_ok :: "'s call \<Rightarrow> grpc_retrier \<Rightarrow> 's \<Rightarrow> bool result \<times> 's" where
  "issued_ok call r s =
     (let i = issueRequest call r s
      in (map_sum id (\<lambda>answered. answered \<and> ok (d_status (i_retrier i))) (i_result i), i_state i))"

definition log_retrier :: "log_writer \<Rightarrow> grpc_retrier" where
  "log_retrier w = new_retrier (lw_retryLimit w) (lw_retryDelay w) []"

definition queryStreamWriteStatus :: "'s log_env \<Rightarrow> 's \<times> log_writer \<Rightarrow> bool result \<times> ('s \<times> log_writer)" where
  "queryStreamWriteStatus env w =
     issued_ok (\<lambda>_ (s, lw). let (st, s') = ls_query env (lw_resourceName lw) s in (Inr st, (s', lw)))
       (log_retrier (snd w)) w"

definition write_call :: "'s log_env \<Rightarrow> write_request \<Rightarrow> ('s \<times> log_writer) call" where
  "write_call env request context w =
     (let w1 = bytestreamWriter env w;
          (sent, s') = ls_write env request (fst w1)
      in (Inr (status_of (if sent then OK else INTERNAL)), (s', snd w1)))"

definition log_write :: "'s log_env \<Rightarrow> string \<Rightarrow> 's \<times> log_writer \<Rightarrow> bool result \<times> ('s \<times> log_writer)" where
  "log_write env data w =
     (if lw_writeCommitted (snd w) then (Inl RuntimeError, w)
      else
        (case (if lw_resourceReady (snd w) then (Inr True, w) else queryStreamWriteStatus env w) of
           (Inl e, w1) \<Rightarrow> (Inl e, w1)
         | (Inr ready, (s1, lw1)) \<Rightarrow>
             let lw2 = lw1\<lparr>lw_resourceReady := ready\<rparr>
             in if \<not> ready then (Inr False, (s1, lw2))
                else
                  (let request = \<lparr>wr_resource_name = lw_resourceName lw2, wr_write_offset = lw_writeOffset lw2,
                                  wr_data = data, wr_finish_write = False\<rparr>
                   in case issued_ok (write_call env request) (log_retrier lw2) (s1, lw2) of
                        (Inl e, w3) \<Rightarrow> (Inl e, w3)
                      | (Inr False, w3) \<Rightarrow> (Inr False, w3)
                      | (Inr True, (s3, lw3)) \<Rightarrow>
                          (Inr True, (s3, lw3\<lparr>lw_writeOffset := lw_writeOffset lw3 + int (length data)\<rparr>)))))"

definition commit_call :: "'s log_env \<Rightarrow> write_request \<Rightarrow> ('s \<times> log_writer) call" where
  "commit_call env request context w =
     (let w1 = bytestreamWriter env w;
          (sent, s2) = ls_write env request (fst w1)
      in if \<not> sent then (Inr (status_of INTERNAL), (s2, snd w1))
         else
           (let ((st, committed), s3) = ls_finish env s2;
                lw3 = (snd w1)\<lparr>lw_committedSize := committed\<rparr>
            in if ok st \<and> lw_committedSize lw3 \<noteq> lw_writeOffset lw3
               then (Inr (status_of DATA_LOSS), (s3, lw3))
               else (Inr st, (s3, lw3))))"

definition commit :: "'s log_env \<Rightarrow> 's \<times> log_writer \<Rightarrow> bool result \<times> ('s \<times> log_writer)" where
  "commit env w =
     (if lw_writeCommitted (snd w) then (Inl RuntimeError, w)
      else
        (let request = \<lparr>wr_resource_name = lw_resourceName (snd w), wr_write_offset = lw_writeOffset (snd w),
                        wr_data = [], wr_finish_write = True\<rparr>
         in case issued_ok (commit_call env request) (log_retrier (snd w)) w of
              (Inl e, w1) \<Rightarrow> (Inl e, w1)
            | (Inr False, w1) \<Rightarrow> (Inr False, w1)
            | (Inr True, (s1, lw1)) \<Rightarrow> (Inr True, (s1, lw1\<lparr>lw_writeCommitted := True\<rparr>))))"

text \<open>
  \<^verbatim>\<open>createLogStream\<close>; a client that is a null pointer is \<open>None\<close>.  The second component of the
  state of the request is the stream that is created.
\<close>

definition createLogStream ::
  "'s log_env option \<Rightarrow> string \<Rightarrow> int \<Rightarrow> int \<Rightarrow> 's \<Rightarrow> (string \<times> string) result \<times> 's" where
  "createLogStream logstreamClient parent retryLimit retryDelay s =
     (case logstreamClient of
        None \<Rightarrow> (Inl InvalidArgument, s)
      | Some env \<Rightarrow>
          (let i = issueRequest
                     (\<lambda>_ (s, created). let ((st, created'), s') = ls_create env parent s in (Inr st, (s', created')))
                     (new_retrier (unat (word_of_int retryLimit :: 32 word)) retryDelay []) (s, ([], []))
           in case i_result i of
                Inl e \<Rightarrow> (Inl e, fst (i_state i))
              | Inr answered \<Rightarrow>
                  if answered \<and> ok (d_status (i_retrier i)) then (Inr (snd (i_state i)), fst (i_state i))
                  else (Inl (GrpcError (error_code (d_status (i_retrier i)))), fst (i_state i))))"

section \<open>Appending\<close>

text \<open>
  What the service documents: a write at the end of what is stored appends its data when it
  succeeds, and nothing is stored by a write that fails; the other requests store nothing.
\<close>

definition log_server :: "'s log_env \<Rightarrow> ('s \<Rightarrow> string) \<Rightarrow> bool" where
  "log_server env contents \<longleftrightarrow>
     (\<forall>s. contents (ls_open env s) = contents s) \<and>
     (\<forall>rn s. contents (snd (ls_query env rn s)) = contents s) \<and>
     (\<forall>s. contents (snd (ls_finish env s)) = contents s) \<and>
     (\<forall>req s. (fst (ls_write env req s) \<and> wr_write_offset req = int (length (contents s)) \<longrightarrow>
                 contents (snd (ls_write env req s)) = contents s @ wr_data req) \<and>
              (\<not> fst (ls_write env req s) \<longrightarrow> contents (snd (ls_write env req s)) = contents s))"

text \<open>A write that is not sent is not repeated: the retrier repeats only unavailable services.\<close>

lemma issued_write:
  "issued_ok (write_call env request) (log_retrier lw) w =
     (map_sum id (\<lambda>st. ok st) (fst (write_call env request [] w)), snd (write_call env request [] w))"
  using issue_answered [of 0 "log_retrier lw" "write_call env request" w]
  by (auto simp: issued_ok_def Let_def log_retrier_def new_retrier_def attach_def answer_0 transient_def
      write_call_def case_prod_beta status_of_def ok_def)

lemma query_keeps:
  assumes "log_server env contents"
  shows "contents (fst (snd (queryStreamWriteStatus env (s, lw)))) = contents s \<and>
    snd (snd (queryStreamWriteStatus env (s, lw))) = lw"
  using assms issue_loop_keeps [of "\<lambda>w. contents (fst w) = contents s \<and> snd w = lw"]
  by (auto simp: queryStreamWriteStatus_def issued_ok_def Let_def issueRequest_def log_server_def case_prod_beta)

text \<open>A sequence of writes and the data of those that returned true.\<close>

fun write_all :: "'s log_env \<Rightarrow> string list \<Rightarrow> 's \<times> log_writer \<Rightarrow> bool result list \<times> ('s \<times> log_writer)" where
  "write_all env [] w = ([], w)"
| "write_all env (data # ds) w =
     (let (r, w1) = log_write env data w;
          (rs, w2) = write_all env ds w1
      in (r # rs, w2))"

definition written :: "bool result list \<Rightarrow> string list \<Rightarrow> string" where
  "written rs ds = concat (map snd (filter (\<lambda>(r, d). r = Inr True) (zip rs ds)))"

lemma log_write_appends:
  assumes "log_server env contents" "lw_writeOffset lw = int (length (contents s))"
    and "log_write env data (s, lw) = (r, (s', lw'))"
  shows "contents s' = contents s @ (if r = Inr True then data else []) \<and>
    lw_writeOffset lw' = int (length (contents s')) \<and> (lw_writeCommitted lw' = lw_writeCommitted lw)"
proof -
  note server = assms(1) [unfolded log_server_def]
  show ?thesis
    using assms(2,3) server query_keeps [OF assms(1), of s lw]
    by (auto simp: log_write_def issued_write write_call_def bytestreamWriter_def Let_def case_prod_beta status_of_def
        ok_def split: if_splits prod.splits sum.splits bool.splits)
qed

lemma write_all_appends:
  assumes "log_server env contents"
  shows "write_all env ds (s, lw) = (rs, (s', lw')) \<Longrightarrow> lw_writeOffset lw = int (length (contents s)) \<Longrightarrow>
    contents s' = contents s @ written rs ds \<and> lw_writeOffset lw' = int (length (contents s')) \<and> length rs = length ds"
proof (induction ds arbitrary: rs s lw)
  case (Cons d ds)
  obtain r s1 lw1 where w: "log_write env d (s, lw) = (r, (s1, lw1))" by (metis prod_cases3)
  obtain rs1 where rs1: "write_all env ds (s1, lw1) = (rs1, (s', lw'))" "rs = r # rs1"
    using Cons.prems(1) w by (auto simp: Let_def split: prod.splits)
  show ?case
    using Cons.IH [OF rs1(1)] log_write_appends [OF assms Cons.prems(2) w] rs1(2) by (auto simp: written_def)
qed (auto simp: written_def)


section \<open>Committing\<close>

interpretation commit_request: retried_call "commit_call env request" "\<lambda>w. True"
    "\<lambda>w. lw_committedSize (snd w) = lw_writeOffset (snd w)"
  for env request
  by unfold_locales
    (auto simp: commit_call_def Let_def case_prod_beta ok_def status_of_def split: if_splits)

lemma commit_sizes:
  assumes "commit env w = (Inr True, w')"
  shows "lw_committedSize (snd w') = lw_writeOffset (snd w') \<and> lw_writeCommitted (snd w')"
proof -
  let ?r = "\<lparr>wr_resource_name = lw_resourceName (snd w), wr_write_offset = lw_writeOffset (snd w),
              wr_data = [], wr_finish_write = True\<rparr>"
  obtain s1 lw1 where i: "issued_ok (commit_call env ?r) (log_retrier (snd w)) w = (Inr True, (s1, lw1))"
    and w': "w' = (s1, lw1\<lparr>lw_writeCommitted := True\<rparr>)"
    using assms by (auto simp: commit_def Let_def split: if_splits prod.splits sum.splits bool.splits)
  have "lw_committedSize lw1 = lw_writeOffset lw1"
    using i commit_request.loop_establishes [where env = env and request = ?r and s = w and r = "(log_retrier (snd w))\<lparr>d_retryAttempts := 0\<rparr>" and sl = "[]"]
    by (auto simp: issued_ok_def issueRequest_def Let_def map_sum_def split: sum.splits)
  then show ?thesis using w' by simp
qed

text \<open>Committing changes neither the log nor the offset.\<close>

lemma commit_keeps:
  assumes "log_server env contents" "lw_writeOffset lw = int (length (contents s))"
  shows "contents (fst (snd (commit env (s, lw)))) = contents s \<and>
    lw_writeOffset (snd (snd (commit env (s, lw)))) = int (length (contents s))"
proof -
  let ?keep = "\<lambda>w. contents (fst w) = contents s \<and> lw_writeOffset (snd w) = int (length (contents s))"
  let ?r = "\<lparr>wr_resource_name = lw_resourceName lw, wr_write_offset = lw_writeOffset lw, wr_data = [], wr_finish_write = True\<rparr>"
  have "?keep (snd (commit_call env ?r c w))" if "?keep w" for c w
    using that assms by (auto simp: commit_call_def bytestreamWriter_def Let_def case_prod_beta log_server_def split: if_splits)
  then have "?keep (i_state (issue_loop (commit_call env ?r) ret w sl))" if "?keep w" for ret w sl
    using issue_loop_keeps [of ?keep "commit_call env ?r" w ret sl] that by blast
  then have "?keep (snd (issued_ok (commit_call env ?r) (log_retrier lw) (s, lw)))"
    using assms(2) by (simp add: issued_ok_def issueRequest_def Let_def)
  then show ?thesis using assms(2)
    by (auto simp: commit_def Let_def split: prod.splits sum.splits bool.splits)
qed

text \<open>
  When \<^verbatim>\<open>commit\<close> returns true, the server has reported exactly the number of bytes the writer
  has counted, whatever attempts were needed, and every later write or commit throws and
  changes nothing.
\<close>

theorem commit_final:
  assumes "commit env w = (Inr True, w')"
  shows "lw_committedSize (snd w') = lw_writeOffset (snd w') \<and>
    log_write env data w' = (Inl RuntimeError, w') \<and> commit env w' = (Inl RuntimeError, w')"
  using commit_sizes [OF assms] by (simp add: log_write_def commit_def)

section \<open>A server for evaluation\<close>

text \<open>The state is the contents and the number of requests; every third write breaks.\<close>

definition demo_log :: "(string \<times> nat) log_env" where
  "demo_log =
     \<lparr>ls_query = \<lambda>rn s. (status_of OK, s), ls_open = id,
      ls_write = \<lambda>req (c, n). if n mod 3 = 1 then (False, (c, n + 1)) else (True, (c @ wr_data req, n + 1)),
      ls_finish = \<lambda>s. ((status_of OK, int (length (fst s))), s),
      ls_create = \<lambda>parent s. ((status_of OK, parent @ ''/read'', parent @ ''/write''), s)\<rparr>"


theorem commit_final_witness:
  "log_write demo_log ''x'' (snd (commit demo_log (snd (log_write demo_log ''ab'' (([], 2), new_log_writer ''log'' 1 100))))) =
     (Inl RuntimeError, snd (commit demo_log (snd (log_write demo_log ''ab'' (([], 2), new_log_writer ''log'' 1 100)))))"
proof -
  let ?w = "commit demo_log (snd (log_write demo_log ''ab'' (([], 2), new_log_writer ''log'' 1 100)))"
  have "fst ?w = Inr True" by code_simp
  then have "commit demo_log (snd (log_write demo_log ''ab'' (([], 2), new_log_writer ''log'' 1 100))) = (Inr True, snd ?w)"
    by (metis prod.collapse)
  from commit_final [OF this] show ?thesis by blast
qed

end
