(* ===== verification/File_Monitor.thy ===== *)
theory File_Monitor
  imports Logstream
begin

text \<open>
  The monitors of a file that another process writes, and \<^verbatim>\<open>StandardOutputStreamer\<close>, which sends what they
  read to a log stream.

  Each monitor is a step relation of its thread, the process that writes the file and the thread that stops it.  The
  chunks that are passed to the callback are collected in a list.  An exception in the thread ends the
  process, and with it the run.
\<close>

section \<open>Opening\<close>

definition openFile :: "('s \<Rightarrow> int + nat) \<Rightarrow> 's \<Rightarrow> nat result" where
  "openFile open_rdonly s = (case open_rdonly s of Inl errno \<Rightarrow> Inl (SystemError errno) | Inr fd \<Rightarrow> Inr fd)"

definition readBufferSizeBytes :: "int \<Rightarrow> nat" where
  "readBufferSizeBytes pageSizeBytes = (if pageSizeBytes = - 1 then 4096 else nat (pageSizeBytes mod 2 ^ 64))"

section \<open>The monitor that polls the size\<close>

definition s_min_write_batch_size_bytes :: nat where
  "s_min_write_batch_size_bytes = 100"

text \<open>
  \<open>StatHasRead n\<close>: after a read of \<open>n\<close> bytes, before \<^verbatim>\<open>d_stopRequested\<close> is read; \<open>StatUndecided n\<close>: before it is read for the second
  time.
\<close>

datatype stat_pc = StatWaiting | StatReading | StatHasRead nat | StatUndecided nat | StatEnded

record stat_monitor =
  sm_size :: nat
  sm_file :: string
  sm_closed :: bool
  sm_pos :: nat
  sm_buffer :: string
  sm_chunks :: "string list"
  sm_stopRequested :: bool
  sm_pc :: stat_pc

definition stat_start :: "nat \<Rightarrow> string \<Rightarrow> stat_monitor" where
  "stat_start bufsize contents =
     \<lparr>sm_size = bufsize, sm_file = contents, sm_closed = False, sm_pos = 0, sm_buffer = [], sm_chunks = [], sm_stopRequested = False,
      sm_pc = StatWaiting\<rparr>"

text \<open>
  A read into what is left of the buffer, less one byte.  A page is not empty and the buffer never full, so that the
  difference does not wrap (\<open>stat_inv\<close> below).
\<close>

definition stat_read :: "stat_monitor \<Rightarrow> stat_monitor" where
  "stat_read s =
     (let bufferFreeBytes = sm_size s - length (sm_buffer s) - 1;
          bytes = take bufferFreeBytes (drop (sm_pos s) (sm_file s))
      in s\<lparr>sm_buffer := sm_buffer s @ bytes, sm_pos := sm_pos s + length bytes, sm_pc := StatHasRead (length bytes)\<rparr>)"

inductive stat_step :: "stat_monitor \<Rightarrow> stat_monitor \<Rightarrow> bool" where
  stat_append: "\<not> sm_closed s \<Longrightarrow> stat_step s (s\<lparr>sm_file := sm_file s @ bytes\<rparr>)"
| stat_close: "stat_step s (s\<lparr>sm_closed := True\<rparr>)"
| stat_stop: "stat_step s (s\<lparr>sm_stopRequested := True\<rparr>)"
| stat_written: "sm_pc s = StatWaiting \<Longrightarrow> \<not> sm_stopRequested s \<Longrightarrow> sm_file s \<noteq> [] \<Longrightarrow> stat_step s (s\<lparr>sm_pc := StatReading\<rparr>)"
| stat_never_written: "sm_pc s = StatWaiting \<Longrightarrow> sm_stopRequested s \<Longrightarrow> stat_step s (s\<lparr>sm_pc := StatEnded\<rparr>)"
| stat_fails: "sm_pc s = StatWaiting \<Longrightarrow> \<not> sm_stopRequested s \<Longrightarrow> stat_step s (s\<lparr>sm_pc := StatEnded\<rparr>)"
| stat_reads: "sm_pc s = StatReading \<Longrightarrow> stat_step s (stat_read s)"
| stat_batch: "sm_pc s = StatHasRead n \<Longrightarrow> last_write \<longleftrightarrow> length (sm_buffer s) > 0 \<and> sm_stopRequested s \<Longrightarrow>
    length (sm_buffer s) > s_min_write_batch_size_bytes \<or> last_write \<Longrightarrow>
    stat_step s (s\<lparr>sm_chunks := sm_chunks s @ [sm_buffer s], sm_buffer := [], sm_pc := (if last_write then StatEnded else StatReading)\<rparr>)"
| stat_no_batch: "sm_pc s = StatHasRead n \<Longrightarrow> \<not> length (sm_buffer s) > s_min_write_batch_size_bytes \<Longrightarrow>
    \<not> (length (sm_buffer s) > 0 \<and> sm_stopRequested s) \<Longrightarrow> stat_step s (s\<lparr>sm_pc := StatUndecided n\<rparr>)"
| stat_returns: "sm_pc s = StatUndecided n \<Longrightarrow> n = 0 \<Longrightarrow> sm_stopRequested s \<Longrightarrow> stat_step s (s\<lparr>sm_pc := StatEnded\<rparr>)"
| stat_sleeps: "sm_pc s = StatUndecided n \<Longrightarrow> \<not> (n = 0 \<and> sm_stopRequested s) \<Longrightarrow> stat_step s (s\<lparr>sm_pc := StatReading\<rparr>)"

abbreviation stat_run :: "stat_monitor \<Rightarrow> stat_monitor \<Rightarrow> bool" where
  "stat_run \<equiv> stat_step\<^sup>*\<^sup>*"

definition stat_inv :: "stat_monitor \<Rightarrow> bool" where
  "stat_inv s \<longleftrightarrow> concat (sm_chunks s) @ sm_buffer s = take (sm_pos s) (sm_file s) \<and> sm_pos s \<le> length (sm_file s) \<and>
     (\<forall>chunk \<in> set (sm_chunks s). chunk \<noteq> [] \<and> length chunk < sm_size s) \<and> length (sm_buffer s) < sm_size s"

lemma stat_inv_step: "stat_step s s' \<Longrightarrow> stat_inv s \<Longrightarrow> stat_inv s'"
proof (induction rule: stat_step.induct)
  case (stat_reads s)
  let ?bytes = "take (sm_size s - length (sm_buffer s) - 1) (drop (sm_pos s) (sm_file s))"
  have "take (sm_pos s + length ?bytes) (sm_file s) = take (sm_pos s) (sm_file s) @ ?bytes"
    by (simp add: take_add min_def)
  then show ?case using stat_reads.prems by (auto simp: stat_inv_def stat_read_def Let_def simp flip: append_assoc)
next
  case (stat_batch s n last_write)
  then have "sm_buffer s \<noteq> []" by auto
  then show ?case using stat_batch.prems by (auto simp: stat_inv_def)
qed (simp_all add: stat_inv_def)

lemma stat_inv_run: "stat_run s s' \<Longrightarrow> stat_inv s \<Longrightarrow> stat_inv s'"
  by (induction rule: rtranclp_induct) (auto intro: stat_inv_step)

lemma stat_inv_start: "0 < bufsize \<Longrightarrow> stat_inv (stat_start bufsize contents)"
  by (simp add: stat_inv_def stat_start_def)

lemma stat_inv_prefix:
  assumes "stat_inv s"
  shows "\<exists>rest. sm_file s = concat (sm_chunks s) @ rest"
proof -
  have "sm_file s = (concat (sm_chunks s) @ sm_buffer s) @ drop (sm_pos s) (sm_file s)" using assms by (simp add: stat_inv_def)
  then show ?thesis by (metis append.assoc)
qed

text \<open>
  What the polling monitor has streamed is at any time the beginning of the file, in order, without gaps and
  without repetition, in non-empty chunks smaller than the buffer.
\<close>

theorem stat_streams_prefix:
  assumes "0 < bufsize" "stat_run (stat_start bufsize contents) s"
  shows "\<exists>rest. sm_file s = concat (sm_chunks s) @ rest \<and> (\<forall>chunk \<in> set (sm_chunks s). chunk \<noteq> [] \<and> length chunk < sm_size s)"
proof -
  have "stat_inv s" using stat_inv_run [OF assms(2)] stat_inv_start assms(1) by blast
  then show ?thesis using stat_inv_prefix by (auto simp: stat_inv_def)
qed

definition stat_fits :: "stat_monitor \<Rightarrow> bool" where
  "stat_fits s \<longleftrightarrow> sm_closed s \<and> sm_stopRequested s \<and> stat_inv s \<and>
     (case sm_pc s of
        StatReading \<Rightarrow> length (sm_buffer s) + (length (sm_file s) - sm_pos s) < sm_size s
      | StatHasRead n \<Rightarrow> sm_pos s = length (sm_file s) \<and> (sm_buffer s = [] \<longrightarrow> n = 0)
      | StatUndecided n \<Rightarrow> sm_pos s = length (sm_file s) \<and> sm_buffer s = [] \<and> n = 0
      | StatEnded \<Rightarrow> concat (sm_chunks s) = sm_file s
      | StatWaiting \<Rightarrow> False)"

lemma stat_fits_step: "stat_step s s' \<Longrightarrow> stat_fits s \<Longrightarrow> stat_fits s'"
proof (induction rule: stat_step.induct)
  case (stat_reads s)
  then have "stat_inv (stat_read s)" using stat_inv_step [OF stat_step.stat_reads] by (auto simp: stat_fits_def)
  moreover have "length (drop (sm_pos s) (sm_file s)) \<le> sm_size s - length (sm_buffer s) - 1"
    using stat_reads by (auto simp: stat_fits_def)
  ultimately show ?case using stat_reads by (auto simp: stat_fits_def stat_read_def Let_def stat_inv_def)
next
  case (stat_batch s n last_write)
  have "stat_inv (s\<lparr>sm_chunks := sm_chunks s @ [sm_buffer s], sm_buffer := [], sm_pc := (if last_write then StatEnded else StatReading)\<rparr>)"
    using stat_inv_step [OF stat_step.stat_batch [OF stat_batch.hyps]] stat_batch.prems by (simp add: stat_fits_def)
  then show ?case using stat_batch by (auto simp: stat_fits_def stat_inv_def s_min_write_batch_size_bytes_def)
next
  case (stat_close s)
  then have "s\<lparr>sm_closed := True\<rparr> = s" by (cases s) (simp add: stat_fits_def)
  then show ?case using stat_close by simp
next
  case (stat_stop s)
  then have "s\<lparr>sm_stopRequested := True\<rparr> = s" by (cases s) (simp add: stat_fits_def)
  then show ?case using stat_stop by simp
next
  case (stat_returns s n)
  then show ?case by (auto simp: stat_fits_def stat_inv_def)
qed (simp_all add: stat_fits_def stat_inv_def)


lemma stat_fits_run: "stat_run s s' \<Longrightarrow> stat_fits s \<Longrightarrow> stat_fits s'"
  by (induction rule: rtranclp_induct) (auto intro: stat_fits_step)

lemma stat_fits_ends:
  assumes "stat_fits s"
  shows "\<exists>s'. stat_run s s' \<and> sm_pc s' = StatEnded"
proof -
  have undecided: "\<exists>s'. stat_run s s' \<and> sm_pc s' = StatEnded" if "stat_fits s" "sm_pc s = StatUndecided n" for s n
    using stat_step.stat_returns [OF that(2)] that by (intro exI [of _ "s\<lparr>sm_pc := StatEnded\<rparr>"]) (auto simp: stat_fits_def)
  have hasread: "\<exists>s'. stat_run s s' \<and> sm_pc s' = StatEnded" if fits: "stat_fits s" and pc: "sm_pc s = StatHasRead n" for s n
  proof (cases "sm_buffer s = []")
    case True
    have step: "stat_step s (s\<lparr>sm_pc := StatUndecided n\<rparr>)" using stat_step.stat_no_batch [OF pc] True by simp
    then obtain s' where "stat_run (s\<lparr>sm_pc := StatUndecided n\<rparr>) s'" "sm_pc s' = StatEnded"
      using undecided [OF stat_fits_step [OF step fits]] by auto
    then show ?thesis using step by (meson converse_rtranclp_into_rtranclp)
  next
    case False
    then have "stat_step s (s\<lparr>sm_chunks := sm_chunks s @ [sm_buffer s], sm_buffer := [], sm_pc := StatEnded\<rparr>)"
      using stat_step.stat_batch [OF pc, of True] fits by (simp add: stat_fits_def)
    then show ?thesis by (intro exI conjI) (erule r_into_rtranclp, simp)
  qed
  show ?thesis
  proof (cases "sm_pc s")
    case StatReading
    have step: "stat_step s (stat_read s)" using StatReading by (rule stat_step.stat_reads)
    obtain n where "sm_pc (stat_read s) = StatHasRead n" by (simp add: stat_read_def Let_def)
    then show ?thesis using hasread [OF stat_fits_step [OF step assms]] step by (meson converse_rtranclp_into_rtranclp)
  next
    case StatWaiting
    then show ?thesis using assms by (simp add: stat_fits_def)
  qed (use undecided [OF assms] hasread [OF assms] in auto)
qed

text \<open>
  A stop while the monitor reads loses nothing if the file has been closed and what is left of it fits into
  the buffer: the thread ends, and everything has been streamed.
\<close>

theorem stat_stop_complete:
  assumes "0 < bufsize" "stat_run (stat_start bufsize contents) s"
    and "sm_closed s" "sm_stopRequested s" "sm_pc s = StatReading"
    and "length (sm_buffer s) + (length (sm_file s) - sm_pos s) < sm_size s"
  shows "(\<exists>s'. stat_run s s' \<and> sm_pc s' = StatEnded) \<and>
    (stat_run s s' \<and> sm_pc s' = StatEnded \<longrightarrow> concat (sm_chunks s') = sm_file s')"
proof -
  have "stat_inv s" using stat_inv_run [OF assms(2)] stat_inv_start assms(1) by blast
  then have fits: "stat_fits s" using assms by (simp add: stat_fits_def)
  then show ?thesis using stat_fits_ends stat_fits_run by (fastforce simp: stat_fits_def)
qed

definition stat_loses :: "stat_monitor \<Rightarrow> bool" where
  "stat_loses s \<longleftrightarrow> sm_closed s \<and> sm_pc s = StatEnded \<and> concat (sm_chunks s) \<noteq> sm_file s"

definition written_state :: "nat \<Rightarrow> string \<Rightarrow> stat_monitor" where
  "written_state bufsize bytes = (stat_start bufsize bytes)\<lparr>sm_closed := True\<rparr>"

lemma written_runs: "stat_run (stat_start bufsize []) (written_state bufsize bytes)"
proof -
  have "stat_step (stat_start bufsize []) (stat_start bufsize bytes)"
    using stat_step.stat_append [of "stat_start bufsize []" bytes] by (simp add: stat_start_def)
  moreover have "stat_step (stat_start bufsize bytes) (written_state bufsize bytes)"
    using stat_step.stat_close [of "stat_start bufsize bytes"] by (simp add: written_state_def)
  ultimately show ?thesis by (meson converse_rtranclp_into_rtranclp r_into_rtranclp)
qed

lemma loses_unseen:
  assumes bytes: "(bytes :: string) \<noteq> []"
  shows "\<exists>s. stat_run (stat_start bufsize []) s \<and> stat_loses s \<and> sm_chunks s = []"
proof -
  let ?s = "written_state bufsize bytes"
  have "stat_step ?s (?s\<lparr>sm_stopRequested := True\<rparr>)" by (rule stat_step.stat_stop)
  moreover have "stat_step (?s\<lparr>sm_stopRequested := True\<rparr>) (?s\<lparr>sm_stopRequested := True, sm_pc := StatEnded\<rparr>)"
    using stat_step.stat_never_written [of "?s\<lparr>sm_stopRequested := True\<rparr>"] by (simp add: written_state_def stat_start_def)
  ultimately have "stat_run (stat_start bufsize []) (?s\<lparr>sm_stopRequested := True, sm_pc := StatEnded\<rparr>)"
    using written_runs [of bufsize bytes] by (meson rtranclp.rtrancl_into_rtrancl)
  moreover have "stat_loses (?s\<lparr>sm_stopRequested := True, sm_pc := StatEnded\<rparr>)"
    using bytes by (simp add: stat_loses_def written_state_def stat_start_def)
  ultimately show ?thesis
    by (intro exI [of _ "?s\<lparr>sm_stopRequested := True, sm_pc := StatEnded\<rparr>"]) (simp add: written_state_def stat_start_def)
qed

definition reading_state :: "nat \<Rightarrow> string \<Rightarrow> stat_monitor" where
  "reading_state bufsize bytes = (written_state bufsize bytes)\<lparr>sm_pc := StatReading\<rparr>"

lemma reading_runs: "bytes \<noteq> [] \<Longrightarrow> stat_run (stat_start bufsize []) (reading_state bufsize bytes)"
  using stat_step.stat_written [of "written_state bufsize bytes"] written_runs [of bufsize bytes]
  by (simp add: reading_state_def) (simp add: written_state_def stat_start_def rtranclp.rtrancl_into_rtrancl)

lemma loses_rest:
  assumes "1 < bufsize" "bufsize \<le> length bytes"
  shows "\<exists>s. stat_run (stat_start bufsize []) s \<and> stat_loses s \<and> concat (sm_chunks s) = take (bufsize - 1) bytes"
proof -
  let ?s = "(reading_state bufsize bytes)\<lparr>sm_stopRequested := True\<rparr>"
  let ?t = "(stat_read ?s)\<lparr>sm_chunks := [take (bufsize - 1) bytes], sm_buffer := [], sm_pc := StatEnded\<rparr>"
  have ne: "bytes \<noteq> []" "take (bufsize - 1) bytes \<noteq> []" using assms by auto
  have "stat_step (reading_state bufsize bytes) ?s" by (rule stat_step.stat_stop)
  moreover have "stat_step ?s (stat_read ?s)"
    using stat_step.stat_reads [of ?s] by (simp add: reading_state_def)
  moreover have "stat_step (stat_read ?s) ?t"
    using stat_step.stat_batch [of "stat_read ?s" "length (take (bufsize - 1) bytes)" True] ne
    by (simp add: stat_read_def Let_def reading_state_def written_state_def stat_start_def)
  ultimately have "stat_run (stat_start bufsize []) ?t"
    using reading_runs [OF ne(1), of bufsize] by (meson rtranclp.rtrancl_into_rtrancl)
  moreover have "take (bufsize - 1) bytes \<noteq> bytes"
  proof
    assume "take (bufsize - 1) bytes = bytes"
    then have "length (take (bufsize - 1) bytes) = length bytes" by simp
    then show False using assms by simp
  qed
  ultimately show ?thesis
    by (intro exI [of _ ?t]) (simp add: stat_loses_def stat_read_def Let_def reading_state_def written_state_def stat_start_def)
qed

lemma loses_buffer:
  assumes "bytes \<noteq> []" "length bytes \<le> 100" "length bytes < bufsize"
  shows "\<exists>s. stat_run (stat_start bufsize []) s \<and> stat_loses s \<and> sm_buffer s = bytes"
proof -
  let ?r = "reading_state bufsize bytes"
  let ?at = "\<lambda>stop pc. ?r\<lparr>sm_buffer := bytes, sm_pos := length bytes, sm_stopRequested := stop, sm_pc := pc\<rparr>"
  note defs = reading_state_def written_state_def stat_start_def stat_read_def Let_def s_min_write_batch_size_bytes_def
  have "stat_step ?r (?at False (StatHasRead (length bytes)))"
    using stat_step.stat_reads [of ?r] assms(3) by (simp add: defs)
  moreover have "stat_step (?at False (StatHasRead n)) (?at False (StatUndecided n))" for n
    using stat_step.stat_no_batch [of "?at False (StatHasRead n)" n] assms(2) by (simp add: defs)
  moreover have "stat_step (?at False (StatUndecided (length bytes))) (?at False StatReading)"
    using stat_step.stat_sleeps [of "?at False (StatUndecided (length bytes))" "length bytes"] assms(1) by (simp add: defs)
  moreover have "stat_step (?at False StatReading) (?at False (StatHasRead 0))"
    using stat_step.stat_reads [of "?at False StatReading"] by (simp add: defs)
  moreover have "stat_step (?at False (StatUndecided 0)) (?at True (StatUndecided 0))"
    using stat_step.stat_stop [of "?at False (StatUndecided 0)"] by (simp add: defs)
  moreover have "stat_step (?at True (StatUndecided 0)) (?at True StatEnded)"
    using stat_step.stat_returns [of "?at True (StatUndecided 0)" 0] by (simp add: defs)
  ultimately have "stat_run (stat_start bufsize []) (?at True StatEnded)"
    using reading_runs [OF assms(1), of bufsize] by (meson rtranclp.rtrancl_into_rtrancl)
  then show ?thesis using assms(1) by (intro exI [of _ "?at True StatEnded"]) (simp add: stat_loses_def defs)
qed

text \<open>
  Otherwise a stop can lose data although the writer has closed the file: the thread ends after one more read
  however much is left; it ends without any read when it has not yet seen the first write; and when the stop
  comes between the two times the thread looks at the flag, what is in the buffer is dropped.
\<close>

theorem stat_stop_loses:
  "(\<exists>s. stat_run (stat_start 4096 []) s \<and> stat_loses s \<and> sm_chunks s = []) \<and>
   (\<exists>s. stat_run (stat_start 4096 []) s \<and> stat_loses s \<and> concat (sm_chunks s) = replicate 4095 CHR ''a'') \<and>
   (\<exists>s. stat_run (stat_start 4096 []) s \<and> stat_loses s \<and> sm_buffer s = ''done'')"
proof -
  have "\<exists>s. stat_run (stat_start 4096 []) s \<and> stat_loses s \<and> concat (sm_chunks s) = replicate 4095 CHR ''a''"
    using loses_rest [of 4096 "replicate 5000 CHR ''a''"] by simp
  moreover have "\<exists>s. stat_run (stat_start 4096 []) s \<and> stat_loses s \<and> sm_buffer s = ''done''"
    using loses_buffer [of "''done''" 4096] by simp
  ultimately show ?thesis using loses_unseen [of "''done''" 4096] by simp
qed


theorem stat_streams_prefix_witness:
  "\<exists>s. stat_run (stat_start 4 []) s \<and> concat (sm_chunks s) = ''abc'' \<and> (\<exists>rest. sm_file s = ''abc'' @ rest)"
proof -
  obtain s where s: "stat_run (stat_start 4 []) s" "concat (sm_chunks s) = ''abc''"
    using loses_rest [of 4 "''abcdef''"] by auto
  then show ?thesis using stat_streams_prefix [OF _ s(1)] by auto
qed

theorem stat_stop_complete_witness:
  "\<exists>s. stat_run (stat_start 4096 []) s \<and> sm_pc s = StatReading \<and> sm_file s = ''done'' \<and> (\<exists>s'. stat_run s s' \<and> sm_pc s' = StatEnded)"
proof -
  let ?s = "(reading_state 4096 ''done'')\<lparr>sm_stopRequested := True\<rparr>"
  have run: "stat_run (stat_start 4096 []) ?s"
    using reading_runs [of "''done''" 4096] stat_step.stat_stop by (auto intro: rtranclp.rtrancl_into_rtrancl)
  moreover have "sm_pc ?s = StatReading" "sm_file ?s = ''done''" by (simp_all add: reading_state_def written_state_def stat_start_def)
  moreover have "\<exists>s'. stat_run ?s s' \<and> sm_pc s' = StatEnded"
    using stat_stop_complete [OF _ run, of ?s] by (simp add: reading_state_def written_state_def stat_start_def)
  ultimately show ?thesis by blast
qed

section \<open>The monitor that uses inotify\<close>

text \<open>
  The writer's changes are events in a queue; an event that equals the last one that is still queued is merged with it.
  A read takes the events that fit into the buffer, 34 without a name, and the first two of them are
  looked at.
\<close>

datatype inotify_event = IN_MODIFY | IN_CLOSE_WRITE

datatype inotify_pc = InPolling | InReady | InStreaming bool | InEnded

record inotify_monitor =
  im_size :: nat
  im_file :: string
  im_closed :: bool
  im_queue :: "inotify_event list"
  im_pos :: nat
  im_chunks :: "string list"
  im_stopRequested :: bool
  im_timeoutCyclesAfterStop :: nat
  im_pc :: inotify_pc
  im_failed :: bool
  im_at_end :: string

text \<open>
  \<open>im_failed\<close>, whether a call has failed, and \<open>im_at_end\<close>, the contents of the file when the thread last looked at it, are not in
  the program.
\<close>

definition inotify_start :: "nat \<Rightarrow> string \<Rightarrow> inotify_monitor" where
  "inotify_start bufsize contents =
     \<lparr>im_size = bufsize, im_file = contents, im_closed = False, im_queue = [], im_pos = 0, im_chunks = [], im_stopRequested = False,
      im_timeoutCyclesAfterStop = 3, im_pc = InPolling, im_failed = False, im_at_end = []\<rparr>"

definition enqueue :: "inotify_event \<Rightarrow> inotify_event list \<Rightarrow> inotify_event list" where
  "enqueue e q = (if q \<noteq> [] \<and> last q = e then q else q @ [e])"

text \<open>\<^verbatim>\<open>readInotifyEvents\<close>: whether the mask has \<^verbatim>\<open>IN_CLOSE_WRITE\<close>, and the queue that is left.\<close>

definition readInotifyEvents :: "inotify_event list \<Rightarrow> bool \<times> inotify_event list" where
  "readInotifyEvents q = (let events = take 34 q in (IN_CLOSE_WRITE \<in> set (take 2 events), drop 34 q))"

text \<open>One pass of the loop in \<^verbatim>\<open>readFileAndStream\<close> that reads something.\<close>

definition stream_chunk :: "inotify_monitor \<Rightarrow> inotify_monitor" where
  "stream_chunk s =
     (let bytes = take (im_size s) (drop (im_pos s) (im_file s))
      in s\<lparr>im_chunks := im_chunks s @ [bytes], im_pos := im_pos s + length bytes\<rparr>)"

definition inotify_end :: "bool \<Rightarrow> inotify_monitor \<Rightarrow> inotify_monitor" where
  "inotify_end failed s = s\<lparr>im_pc := InEnded, im_failed := failed, im_at_end := im_file s\<rparr>"

inductive inotify_step :: "inotify_monitor \<Rightarrow> inotify_monitor \<Rightarrow> bool" where
  in_append: "\<not> im_closed s \<Longrightarrow> inotify_step s (s\<lparr>im_file := im_file s @ bytes, im_queue := enqueue IN_MODIFY (im_queue s)\<rparr>)"
| in_close: "\<not> im_closed s \<Longrightarrow> inotify_step s (s\<lparr>im_closed := True, im_queue := enqueue IN_CLOSE_WRITE (im_queue s)\<rparr>)"
| in_stop: "inotify_step s (s\<lparr>im_stopRequested := True\<rparr>)"
| in_fails: "im_pc s \<noteq> InEnded \<Longrightarrow> inotify_step s (inotify_end True s)"
| in_timeout_ends: "im_pc s = InPolling \<Longrightarrow> im_queue s = [] \<Longrightarrow> im_timeoutCyclesAfterStop s = 0 \<Longrightarrow> inotify_step s (inotify_end False s)"
| in_timeout: "im_pc s = InPolling \<Longrightarrow> im_queue s = [] \<Longrightarrow> im_timeoutCyclesAfterStop s \<noteq> 0 \<Longrightarrow>
    inotify_step s (s\<lparr>im_timeoutCyclesAfterStop := (if im_stopRequested s then im_timeoutCyclesAfterStop s - 1 else im_timeoutCyclesAfterStop s)\<rparr>)"
| in_ready: "im_pc s = InPolling \<Longrightarrow> im_queue s \<noteq> [] \<Longrightarrow> inotify_step s (s\<lparr>im_pc := InReady\<rparr>)"
| in_events: "im_pc s = InReady \<Longrightarrow> readInotifyEvents (im_queue s) = (fileClosed, q) \<Longrightarrow>
    inotify_step s (s\<lparr>im_queue := q, im_pc := InStreaming fileClosed\<rparr>)"
| in_stream: "im_pc s = InStreaming fileClosed \<Longrightarrow> im_pos s < length (im_file s) \<Longrightarrow> inotify_step s (stream_chunk s)"
| in_streamed: "im_pc s = InStreaming fileClosed \<Longrightarrow> \<not> im_pos s < length (im_file s) \<Longrightarrow>
    inotify_step s (if fileClosed then inotify_end False s else s\<lparr>im_pc := InPolling\<rparr>)"

abbreviation inotify_run :: "inotify_monitor \<Rightarrow> inotify_monitor \<Rightarrow> bool" where
  "inotify_run \<equiv> inotify_step\<^sup>*\<^sup>*"

text \<open>
  The queue of one writer, and that no change is without an event or a read to come.
\<close>

definition inotify_inv :: "inotify_monitor \<Rightarrow> bool" where
  "inotify_inv s \<longleftrightarrow>
     0 < im_size s \<and> concat (im_chunks s) = take (im_pos s) (im_file s) \<and> im_pos s \<le> length (im_file s) \<and>
     im_queue s \<in> {[], [IN_MODIFY], [IN_CLOSE_WRITE], [IN_MODIFY, IN_CLOSE_WRITE]} \<and>
     (IN_CLOSE_WRITE \<in> set (im_queue s) \<longrightarrow> im_closed s) \<and>
     (case im_pc s of
        InPolling \<Rightarrow> im_pos s < length (im_file s) \<longrightarrow> im_queue s \<noteq> []
      | InReady \<Rightarrow> im_queue s \<noteq> []
      | InStreaming fileClosed \<Rightarrow> fileClosed \<longrightarrow> im_closed s \<and> im_queue s = []
      | InEnded \<Rightarrow> \<not> im_failed s \<longrightarrow> concat (im_chunks s) = im_at_end s)"

lemma take_stream: "pos \<le> length xs \<Longrightarrow> take (pos + length (take n (drop pos xs))) xs = take pos xs @ take n (drop pos xs)"
  by (simp add: take_add min_def)

lemma inotify_inv_step: "inotify_step s s' \<Longrightarrow> inotify_inv s \<Longrightarrow> inotify_inv s'"
proof (induction rule: inotify_step.induct)
  case (in_stream s fileClosed)
  then show ?case using take_stream [of "im_pos s" "im_file s" "im_size s"]
    by (auto simp: inotify_inv_def stream_chunk_def Let_def)
next
  case (in_events s fileClosed q)
  then show ?case by (auto simp: inotify_inv_def readInotifyEvents_def Let_def)
qed (auto simp: inotify_inv_def inotify_end_def enqueue_def split: inotify_pc.splits if_splits)

lemma inotify_inv_run: "inotify_run s s' \<Longrightarrow> inotify_inv s \<Longrightarrow> inotify_inv s'"
  by (induction rule: rtranclp_induct) (auto intro: inotify_inv_step)

lemma inotify_inv_start: "0 < bufsize \<Longrightarrow> inotify_inv (inotify_start bufsize [])"
  by (simp add: inotify_inv_def inotify_start_def)

text \<open>
  What the inotify monitor has streamed is at any time the beginning of the file; when its thread has ended and no
  call has failed, it has streamed everything the file had when the thread last looked.
\<close>

theorem inotify_streams_all:
  assumes "0 < bufsize" "inotify_run (inotify_start bufsize []) s"
  shows "(\<exists>rest. im_file s = concat (im_chunks s) @ rest) \<and>
    (im_pc s = InEnded \<and> \<not> im_failed s \<longrightarrow> concat (im_chunks s) = im_at_end s)"
proof -
  have "inotify_inv s" using inotify_inv_run [OF assms(2)] inotify_inv_start assms(1) by blast
  then show ?thesis by (auto simp: inotify_inv_def intro!: exI [of _ "drop (im_pos s) (im_file s)"])
qed


text \<open>The thread ends by itself when nothing is written any more and the stop has been requested.\<close>

lemma stream_ends:
  "inotify_inv s \<Longrightarrow> im_pc s = InStreaming fileClosed \<Longrightarrow>
   \<exists>s'. inotify_run s s' \<and> im_queue s' = im_queue s \<and> im_stopRequested s' = im_stopRequested s \<and> im_file s' = im_file s \<and>
     im_pc s' = (if fileClosed then InEnded else InPolling) \<and> (fileClosed \<longrightarrow> \<not> im_failed s')"
proof (induction "length (im_file s) - im_pos s" arbitrary: s rule: less_induct)
  case less
  show ?case
  proof (cases "im_pos s < length (im_file s)")
    case True
    have step: "inotify_step s (stream_chunk s)" using less.prems(2) True by (rule inotify_step.in_stream)
    have "0 < im_size s" using less.prems(1) by (simp add: inotify_inv_def)
    then have "length (im_file (stream_chunk s)) - im_pos (stream_chunk s) < length (im_file s) - im_pos s"
      using True by (simp add: stream_chunk_def Let_def)
    from less.hyps [OF this inotify_inv_step [OF step less.prems(1)]] less.prems(2) obtain s' where s':
      "inotify_run (stream_chunk s) s'" "im_queue s' = im_queue s" "im_stopRequested s' = im_stopRequested s" "im_file s' = im_file s"
      "im_pc s' = (if fileClosed then InEnded else InPolling)" "fileClosed \<longrightarrow> \<not> im_failed s'"
      by (auto simp: stream_chunk_def Let_def)
    have "inotify_run s s'" using step s'(1) by (rule converse_rtranclp_into_rtranclp)
    then show ?thesis using s'(2-) by blast
  next
    case False
    have "inotify_step s (if fileClosed then inotify_end False s else s\<lparr>im_pc := InPolling\<rparr>)"
      using less.prems(2) False by (rule inotify_step.in_streamed)
    then have "inotify_run s (if fileClosed then inotify_end False s else s\<lparr>im_pc := InPolling\<rparr>)" by (rule r_into_rtranclp)
    then show ?thesis by (intro exI conjI; assumption?) (simp_all add: inotify_end_def)
  qed
qed

lemma timeouts_end:
  "im_pc s = InPolling \<Longrightarrow> im_queue s = [] \<Longrightarrow> im_stopRequested s \<Longrightarrow>
   \<exists>s'. inotify_run s s' \<and> im_pc s' = InEnded \<and> \<not> im_failed s' \<and> im_at_end s' = im_file s"
proof (induction "im_timeoutCyclesAfterStop s" arbitrary: s)
  case 0
  have "inotify_step s (inotify_end False s)" using 0 inotify_step.in_timeout_ends by simp
  then show ?case by (intro exI [of _ "inotify_end False s"]) (simp add: inotify_end_def)
next
  case (Suc n)
  let ?s = "s\<lparr>im_timeoutCyclesAfterStop := n\<rparr>"
  have "inotify_step s ?s" using inotify_step.in_timeout [of s] Suc.prems Suc.hyps(2) by (metis diff_Suc_1 nat.distinct(1))
  moreover obtain s' where "inotify_run ?s s'" "im_pc s' = InEnded" "\<not> im_failed s'" "im_at_end s' = im_file s"
    using Suc.hyps(1) [of ?s] Suc.prems by auto
  ultimately show ?case by (meson converse_rtranclp_into_rtranclp)
qed

lemma ready_ends:
  assumes "inotify_inv s" "im_pc s = InReady" "im_stopRequested s"
  shows "\<exists>s'. inotify_run s s' \<and> im_pc s' = InEnded \<and> \<not> im_failed s'"
proof -
  obtain fileClosed where "readInotifyEvents (im_queue s) = (fileClosed, [])"
    using assms(1) by (fastforce simp: inotify_inv_def readInotifyEvents_def Let_def)
  then have step: "inotify_step s (s\<lparr>im_queue := [], im_pc := InStreaming fileClosed\<rparr>)" using assms(2) by (intro inotify_step.in_events)
  obtain s1 where s1: "inotify_run (s\<lparr>im_queue := [], im_pc := InStreaming fileClosed\<rparr>) s1" "im_queue s1 = []" "im_stopRequested s1"
    "im_pc s1 = (if fileClosed then InEnded else InPolling)" "fileClosed \<longrightarrow> \<not> im_failed s1"
    using stream_ends [OF inotify_inv_step [OF step assms(1)], of fileClosed] assms(3) by auto
  then have "\<exists>s'. inotify_run s1 s' \<and> im_pc s' = InEnded \<and> \<not> im_failed s'"
    using timeouts_end [of s1] by (cases fileClosed) auto
  then show ?thesis using s1(1) step by (meson converse_rtranclp_into_rtranclp rtranclp_trans)
qed

lemma polling_ends:
  assumes "inotify_inv s" "im_pc s = InPolling" "im_stopRequested s"
  shows "\<exists>s'. inotify_run s s' \<and> im_pc s' = InEnded \<and> \<not> im_failed s'"
proof (cases "im_queue s = []")
  case True
  then show ?thesis using timeouts_end assms(2,3) by blast
next
  case False
  have step: "inotify_step s (s\<lparr>im_pc := InReady\<rparr>)" using assms(2) False by (rule inotify_step.in_ready)
  then show ?thesis using ready_ends [OF inotify_inv_step [OF step assms(1)]] assms(3) by (auto intro: converse_rtranclp_into_rtranclp)
qed

text \<open>A run: two reads for a file that is written at once and closed.\<close>

lemma inotify_demo:
  "\<exists>s. inotify_run (inotify_start 2 []) s \<and> im_pc s = InEnded \<and> \<not> im_failed s \<and> im_at_end s = ''abc'' \<and> im_chunks s = [''ab'', ''c'']"
proof -
  let ?at = "\<lambda>closed queue pc. (inotify_start 2 ''abc'')\<lparr>im_closed := closed, im_queue := queue, im_pc := pc\<rparr>"
  let ?both = "[IN_MODIFY, IN_CLOSE_WRITE]"
  let ?s = "?at True [] (InStreaming True)"
  note defs = inotify_start_def enqueue_def readInotifyEvents_def Let_def stream_chunk_def
  have "inotify_step (inotify_start 2 []) (?at False [IN_MODIFY] InPolling)"
    using inotify_step.in_append [of "inotify_start 2 []" "''abc''"] by (simp add: defs)
  moreover have "inotify_step (?at False [IN_MODIFY] InPolling) (?at True ?both InPolling)"
    using inotify_step.in_close [of "?at False [IN_MODIFY] InPolling"] by (simp add: defs)
  moreover have "inotify_step (?at True ?both InPolling) (?at True ?both InReady)"
    using inotify_step.in_ready [of "?at True ?both InPolling"] by (simp add: defs)
  moreover have "inotify_step (?at True ?both InReady) ?s"
    using inotify_step.in_events [of "?at True ?both InReady" True "[]"] by (simp add: defs)
  moreover have "inotify_step ?s (stream_chunk ?s)" "inotify_step (stream_chunk ?s) (stream_chunk (stream_chunk ?s))"
    by (rule inotify_step.in_stream [of _ True]; simp add: defs)+
  moreover have "inotify_step (stream_chunk (stream_chunk ?s)) (inotify_end False (stream_chunk (stream_chunk ?s)))"
    using inotify_step.in_streamed [of "stream_chunk (stream_chunk ?s)" True] by (simp add: defs)
  ultimately have "inotify_run (inotify_start 2 []) (inotify_end False (stream_chunk (stream_chunk ?s)))"
    by (meson converse_rtranclp_into_rtranclp rtranclp.rtrancl_refl)
  then show ?thesis by (intro exI conjI; assumption?) (simp_all add: inotify_end_def defs)
qed

theorem inotify_streams_all_witness:
  "\<exists>s. inotify_run (inotify_start 2 []) s \<and> im_pc s = InEnded \<and> concat (im_chunks s) = ''abc''"
proof -
  obtain s where "inotify_run (inotify_start 2 []) s" "im_pc s = InEnded" "\<not> im_failed s" "im_at_end s = ''abc''"
    using inotify_demo by blast
  then show ?thesis using inotify_streams_all [of 2 s] by auto
qed

text \<open>
  C0: Stopping the inotify monitor ends: from every state in which the stop has been requested the thread can read what is
  left and end without a failure.
\<close>

theorem inotify_stops:
  assumes "0 < bufsize" "inotify_run (inotify_start bufsize []) s" "im_stopRequested s" "im_pc s \<noteq> InEnded"
  shows "\<exists>s'. inotify_run s s' \<and> im_pc s' = InEnded \<and> \<not> im_failed s' \<and> concat (im_chunks s') = im_at_end s'"
proof -
  have inv: "inotify_inv s" using inotify_inv_run [OF assms(2)] inotify_inv_start assms(1) by blast
  have "\<exists>s'. inotify_run s s' \<and> im_pc s' = InEnded \<and> \<not> im_failed s'"
  proof (cases "im_pc s")
    case (InStreaming fileClosed)
    then obtain s1 where s1: "inotify_run s s1" "im_stopRequested s1" "im_pc s1 = (if fileClosed then InEnded else InPolling)"
      "fileClosed \<longrightarrow> \<not> im_failed s1"
      using stream_ends [OF inv] assms(3) by metis
    then show ?thesis using polling_ends [OF inotify_inv_run [OF s1(1) inv]] by (cases fileClosed) (auto intro: rtranclp_trans)
  qed (use polling_ends [OF inv] ready_ends [OF inv] assms(3,4) in auto)
  then obtain s' where "inotify_run s s'" "im_pc s' = InEnded" "\<not> im_failed s'" by blast
  moreover have "inotify_inv s'" using inotify_inv_run [OF calculation(1) inv] .
  ultimately show ?thesis by (auto simp: inotify_inv_def)
qed

text \<open>
  C0: What is in the file before it is watched is streamed only with the next change: a file that is not written again is
  not streamed at all.
\<close>

theorem inotify_misses_initial:
  "\<exists>s. inotify_run (inotify_start bufsize contents) s \<and> im_pc s = InEnded \<and> \<not> im_failed s \<and> im_chunks s = []"
proof -
  let ?s = "\<lambda>n. (inotify_start bufsize contents)\<lparr>im_stopRequested := True, im_timeoutCyclesAfterStop := n\<rparr>"
  have "inotify_step (inotify_start bufsize contents) (?s 3)"
    using inotify_step.in_stop [of "inotify_start bufsize contents"] by (simp add: inotify_start_def)
  moreover have "inotify_step (?s (Suc n)) (?s n)" for n
    using inotify_step.in_timeout [of "?s (Suc n)"] by (simp add: inotify_start_def)
  moreover have "inotify_step (?s 0) (inotify_end False (?s 0))"
    using inotify_step.in_timeout_ends [of "?s 0"] by (simp add: inotify_start_def)
  ultimately have "inotify_step (inotify_start bufsize contents) (?s 3)" "inotify_step (?s 3) (?s 2)" "inotify_step (?s 2) (?s 1)"
    "inotify_step (?s 1) (?s 0)" "inotify_step (?s 0) (inotify_end False (?s 0))"
    by (simp_all add: numeral_3_eq_3 numeral_2_eq_2)
  then have "inotify_run (inotify_start bufsize contents) (inotify_end False (?s 0))"
    by (meson converse_rtranclp_into_rtranclp rtranclp.rtrancl_refl)
  then show ?thesis by (intro exI [of _ "inotify_end False (?s 0)"]) (simp add: inotify_end_def inotify_start_def)
qed


section \<open>Streaming to a log\<close>

text \<open>\<^verbatim>\<open>EDEADLK\<close>, the error of a thread that joins itself.\<close>

definition EDEADLK :: int where
  "EDEADLK = 35"

record streamer =
  ss_writer :: log_writer
  ss_stopRequested :: bool
  ss_monitorStopRequested :: bool

definition new_streamer :: "string \<Rightarrow> int \<Rightarrow> int \<Rightarrow> streamer" where
  "new_streamer resourceName grpcRetryLimit grpcRetryDelay =
     \<lparr>ss_writer = new_log_writer resourceName grpcRetryLimit grpcRetryDelay, ss_stopRequested = False, ss_monitorStopRequested = False\<rparr>"

text \<open>\<^verbatim>\<open>stop()\<close> of a monitor, called by its own thread or by another.\<close>

definition monitor_stop :: "bool \<Rightarrow> streamer \<Rightarrow> unit result \<times> streamer" where
  "monitor_stop by_thread st =
     (if \<not> ss_monitorStopRequested st
      then (if by_thread then Inl (SystemError EDEADLK) else Inr (), st\<lparr>ss_monitorStopRequested := True\<rparr>)
      else (Inr (), st))"

definition streamLogChunk :: "'s log_env \<Rightarrow> string \<Rightarrow> 's \<times> streamer \<Rightarrow> unit result \<times> 's \<times> streamer" where
  "streamLogChunk env chunk w =
     (case log_write env chunk (fst w, ss_writer (snd w)) of
        (Inl e, (s, lw)) \<Rightarrow> (Inl e, s, (snd w)\<lparr>ss_writer := lw\<rparr>)
      | (Inr write_succeeded, (s, lw)) \<Rightarrow>
          (let st = (snd w)\<lparr>ss_writer := lw\<rparr>
           in if write_succeeded then (Inr (), s, st)
              else (let (r, st) = monitor_stop True (st\<lparr>ss_stopRequested := True\<rparr>) in (r, s, st))))"

text \<open>The callback for each chunk that a monitor reads; an exception ends the process.\<close>

fun stream_chunks :: "'s log_env \<Rightarrow> string list \<Rightarrow> 's \<times> streamer \<Rightarrow> unit result \<times> 's \<times> streamer" where
  "stream_chunks env [] w = (Inr (), w)"
| "stream_chunks env (chunk # chunks) w =
     (case streamLogChunk env chunk w of
        (Inl e, w) \<Rightarrow> (Inl e, w)
      | (Inr _, w) \<Rightarrow> stream_chunks env chunks w)"

text \<open>\<open>chunks\<close> is what the monitor still reads while \<^verbatim>\<open>stop\<close> waits for its thread.\<close>

definition streamer_stop :: "'s log_env \<Rightarrow> string list \<Rightarrow> 's \<times> streamer \<Rightarrow> bool result \<times> 's \<times> streamer" where
  "streamer_stop env chunks w =
     (if ss_stopRequested (snd w) then (Inr False, w)
      else
        (case monitor_stop False ((snd w)\<lparr>ss_stopRequested := True\<rparr>) of
           (Inl e, st) \<Rightarrow> (Inl e, fst w, st)
         | (Inr _, st) \<Rightarrow>
             (case stream_chunks env chunks (fst w, st) of
                (Inl e, w) \<Rightarrow> (Inl e, w)
              | (Inr _, (s, st)) \<Rightarrow>
                  (case commit env (s, ss_writer st) of (r, (s, lw)) \<Rightarrow> (r, s, st\<lparr>ss_writer := lw\<rparr>)))))"

text \<open>
  When writing a chunk fails and nobody has asked to stop, the thread of the monitor joins itself: the exception that
  results leaves the thread and ends the process.
\<close>

theorem failed_write_deadlocks:
  assumes "log_write env chunk (s, ss_writer st) = (Inr False, (s', lw))" "\<not> ss_monitorStopRequested st"
  shows "fst (streamLogChunk env chunk (s, st)) = Inl (SystemError EDEADLK)"
  using assms by (simp add: streamLogChunk_def monitor_stop_def)

theorem failed_write_deadlocks_witness:
  "fst (streamLogChunk demo_log ''lost'' (snd (stream_chunks demo_log [''a''] (([], 0), new_streamer ''log'' 1 100)))) = Inl (SystemError 35)"
proof -
  let ?w = "snd (stream_chunks demo_log [''a''] (([], 0), new_streamer ''log'' 1 100))"
  let ?l = "log_write demo_log ''lost'' (fst ?w, ss_writer (snd ?w))"
  have "?l = (Inr False, (fst (snd ?l), snd (snd ?l)))" "\<not> ss_monitorStopRequested (snd ?w)" by code_simp+
  from failed_write_deadlocks [OF this] show ?thesis by (simp add: EDEADLK_def)
qed

text \<open>Before the stop every chunk is written; during the stop those whose write succeeds.\<close>

lemma stream_chunks_written:
  assumes "log_server env contents"
  shows "stream_chunks env cs (s, st) = (Inr (), s', st') \<Longrightarrow> lw_writeOffset (ss_writer st) = int (length (contents s)) \<Longrightarrow>
    \<exists>rs. write_all env cs (s, ss_writer st) = (rs, (s', ss_writer st')) \<and>
      (\<not> ss_monitorStopRequested st \<longrightarrow> contents s' = contents s @ concat cs \<and> \<not> ss_monitorStopRequested st' \<and> ss_stopRequested st' = ss_stopRequested st)"
proof (induction cs arbitrary: s st)
  case (Cons c cs)
  obtain r s1 lw1 where w: "log_write env c (s, ss_writer st) = (r, (s1, lw1))" by (metis prod_cases3)
  then obtain ok where r: "r = Inr ok" using Cons.prems(1) by (cases r) (auto simp: streamLogChunk_def)
  obtain st1 where st1: "streamLogChunk env c (s, st) = (Inr (), s1, st1)" "stream_chunks env cs (s1, st1) = (Inr (), s', st')"
    using Cons.prems(1) w r by (auto simp: streamLogChunk_def Let_def monitor_stop_def split: if_splits prod.splits)
  have writer: "ss_writer st1 = lw1" using st1(1) w r by (auto simp: streamLogChunk_def Let_def monitor_stop_def split: if_splits)
  have appended: "contents s1 = contents s @ (if ok then c else [])" "lw_writeOffset lw1 = int (length (contents s1))"
    using log_write_appends [OF assms Cons.prems(2) w] r by simp_all
  have ok: "ok \<and> ss_monitorStopRequested st1 = ss_monitorStopRequested st \<and> ss_stopRequested st1 = ss_stopRequested st"
    if "\<not> ss_monitorStopRequested st"
    using st1(1) w r that by (auto simp: streamLogChunk_def Let_def monitor_stop_def split: if_splits)
  show ?case using Cons.IH [OF st1(2)] writer appended w ok by auto
qed simp

text \<open>
  When \<^verbatim>\<open>stop\<close> returns true, the log has all chunks streamed before it and those of the later ones whose
  write succeeded, in order, and the server has confirmed its size.
\<close>

lemma streamer_stop_log:
  assumes "log_server env contents" "contents s = []"
    and "stream_chunks env first_chunks (s, new_streamer rn limit delay) = (Inr (), s1, st1)"
    and "streamer_stop env later_chunks (s1, st1) = (Inr True, s2, st2)"
  shows "\<exists>rs. length rs = length later_chunks \<and> contents s2 = concat first_chunks @ written rs later_chunks \<and>
    lw_committedSize (ss_writer st2) = int (length (contents s2))"
proof -
  let ?st = "st1\<lparr>ss_stopRequested := True, ss_monitorStopRequested := True\<rparr>"
  obtain rs0 where 0: "write_all env first_chunks (s, ss_writer (new_streamer rn limit delay)) = (rs0, (s1, ss_writer st1))"
    "contents s1 = concat first_chunks" "\<not> ss_monitorStopRequested st1"
    using stream_chunks_written [OF assms(1,3)] assms(2) by (auto simp: new_streamer_def new_log_writer_def)
  then have offset: "lw_writeOffset (ss_writer st1) = int (length (contents s1))"
    using write_all_appends [OF assms(1) 0(1)] assms(2) by (simp add: new_streamer_def new_log_writer_def)
  obtain s3 st3 lw where 1: "stream_chunks env later_chunks (s1, ?st) = (Inr (), s3, st3)" "commit env (s3, ss_writer st3) = (Inr True, (s2, lw))"
    "st2 = st3\<lparr>ss_writer := lw\<rparr>"
    using assms(4) 0(3) by (auto simp: streamer_stop_def monitor_stop_def split: if_splits prod.splits sum.splits)
  obtain rs where 2: "write_all env later_chunks (s1, ss_writer st1) = (rs, (s3, ss_writer st3))"
    using stream_chunks_written [OF assms(1) 1(1)] offset by auto
  then have 3: "contents s3 = contents s1 @ written rs later_chunks" "lw_writeOffset (ss_writer st3) = int (length (contents s3))" "length rs = length later_chunks"
    using write_all_appends [OF assms(1) 2 offset] by simp_all
  have "contents s2 = contents s3" "lw_writeOffset lw = int (length (contents s3))"
    using commit_keeps [OF assms(1) 3(2)] 1(2) by simp_all
  moreover have "lw_committedSize lw = lw_writeOffset lw" using commit_sizes [OF 1(2)] by simp
  ultimately show ?thesis using 3 0(2) 1(3) by auto
qed

text \<open>
  C0: A chunk that is lost while \<^verbatim>\<open>stop\<close> waits does not show in its result: here the second of three writes fails and
  \<^verbatim>\<open>stop\<close> returns true.
\<close>

theorem streamer_stop_hides_loss:
  "(let (_, w) = stream_chunks demo_log [''a''] (([], 0), new_streamer ''log'' 1 100); (r, s, st) = streamer_stop demo_log [''lost'', ''b''] w
    in (r, fst s)) = (Inr True, ''ab'')"
  by code_simp

end
