(* ===== verification/Output_Stream.thy ===== *)
theory Output_Stream
  imports File_Monitor
begin

text \<open>
  The streaming of a file to a log as a whole: a monitor (theory \<open>File_Monitor\<close>) gives the chunks, the streamer sends
  them (theory \<open>Logstream\<close>).  The locale \<open>file_monitor\<close> is what the streamer relies on; both monitors satisfy it.
\<close>

section \<open>The contract of a monitor\<close>

text \<open>
  \<open>streamed\<close> are the chunks passed to the callback, \<open>contents_of\<close> is the file; \<open>ended\<close> says that the thread has ended and \<open>complete\<close> that it
  ended with everything streamed.  The writer only appends.
\<close>

locale file_monitor =
  fixes step :: "'m \<Rightarrow> 'm \<Rightarrow> bool" and good :: "'m \<Rightarrow> bool" and streamed :: "'m \<Rightarrow> string list" and contents_of :: "'m \<Rightarrow> string"
    and ended :: "'m \<Rightarrow> bool"
  assumes good_step: "good m \<Longrightarrow> step m m' \<Longrightarrow> good m'"
    and good_prefix: "good m \<Longrightarrow> \<exists>rest. contents_of m = concat (streamed m) @ rest"
    and streamed_grows: "good m \<Longrightarrow> step m m' \<Longrightarrow> \<exists>chunks. streamed m' = streamed m @ chunks"
    and ended_stays: "good m \<Longrightarrow> ended m \<Longrightarrow> step m m' \<Longrightarrow> ended m' \<and> streamed m' = streamed m"
    and file_grows: "step m m' \<Longrightarrow> \<exists>bytes. contents_of m' = contents_of m @ bytes"
begin

lemma good_run: "step\<^sup>*\<^sup>* m m' \<Longrightarrow> good m \<Longrightarrow> good m'"
  by (induction rule: rtranclp_induct) (auto intro: good_step)

lemma streamed_run: "step\<^sup>*\<^sup>* m m' \<Longrightarrow> good m \<Longrightarrow> \<exists>chunks. streamed m' = streamed m @ chunks"
proof (induction rule: rtranclp_induct)
  case (step m1 m2)
  then show ?case using good_run [OF step.hyps(1)] streamed_grows [of m1 m2] by fastforce
qed simp

lemma ended_run: "step\<^sup>*\<^sup>* m m' \<Longrightarrow> good m \<Longrightarrow> ended m \<Longrightarrow> ended m' \<and> streamed m' = streamed m"
proof (induction rule: rtranclp_induct)
  case (step m1 m2)
  then show ?case using good_run [OF step.hyps(1)] ended_stays [of m1 m2] by simp
qed simp

text \<open>What is streamed up to some point and afterwards, and what is in the file at the end.\<close>

lemma run_split:
  assumes "step\<^sup>*\<^sup>* m m1" "step\<^sup>*\<^sup>* m1 m2" "good m"
  obtains chunks rest where "streamed m2 = streamed m1 @ chunks" "contents_of m2 = concat (streamed m1) @ concat chunks @ rest"
proof -
  have good: "good m1" "good m2" using good_run assms rtranclp_trans by metis+
  obtain chunks where "streamed m2 = streamed m1 @ chunks" using streamed_run [OF assms(2) good(1)] by blast
  moreover obtain rest where "contents_of m2 = concat (streamed m2) @ rest" using good_prefix [OF good(2)] by blast
  ultimately show thesis using that by simp
qed

end

section \<open>Both monitors satisfy it\<close>

interpretation stat: file_monitor stat_step stat_inv sm_chunks sm_file "\<lambda>m. sm_pc m = StatEnded"
proof
  show "stat_inv m'" if "stat_inv m" "stat_step m m'" for m m' using that stat_inv_step by blast
  show "\<exists>rest. sm_file m = concat (sm_chunks m) @ rest" if "stat_inv m" for m
    using that by (rule stat_inv_prefix)
  show "\<exists>chunks. sm_chunks m' = sm_chunks m @ chunks" if "stat_inv m" "stat_step m m'" for m m'
    using that(2) by cases (auto simp: stat_read_def Let_def)
  show "sm_pc m' = StatEnded \<and> sm_chunks m' = sm_chunks m" if "stat_inv m" "sm_pc m = StatEnded" "stat_step m m'" for m m'
    using that(3,2) by cases auto
  show "\<exists>bytes. sm_file m' = sm_file m @ bytes" if "stat_step m m'" for m m'
    using that by cases (auto simp: stat_read_def Let_def)
qed

interpretation inotify: file_monitor inotify_step inotify_inv im_chunks im_file "\<lambda>m. im_pc m = InEnded"
proof
  show "inotify_inv m'" if "inotify_inv m" "inotify_step m m'" for m m' using that inotify_inv_step by blast
  show "\<exists>rest. im_file m = concat (im_chunks m) @ rest" if "inotify_inv m" for m
    using that by (auto simp: inotify_inv_def intro!: exI [of _ "drop (im_pos m) (im_file m)"])
  show "\<exists>chunks. im_chunks m' = im_chunks m @ chunks" if "inotify_inv m" "inotify_step m m'" for m m'
    using that(2) by cases (auto simp: stream_chunk_def inotify_end_def Let_def)
  show "im_pc m' = InEnded \<and> im_chunks m' = im_chunks m" if "inotify_inv m" "im_pc m = InEnded" "inotify_step m m'" for m m'
    using that(3,2) by cases (auto simp: inotify_end_def)
  show "\<exists>bytes. im_file m' = im_file m @ bytes" if "inotify_step m m'" for m m'
    using that by cases (auto simp: stream_chunk_def inotify_end_def Let_def)
qed

section \<open>From the file to the log\<close>

lemma written_all: "length rs = length ds \<Longrightarrow> set rs \<subseteq> {Inr True} \<Longrightarrow> written rs ds = concat ds"
  by (induction rs ds rule: list_induct2) (simp_all add: written_def)

context file_monitor
begin

text \<open>
  The monitor runs from \<open>m\<close> to \<open>m1\<close>, where \<^verbatim>\<open>stop\<close> is called, and then to \<open>m2\<close>, while \<^verbatim>\<open>stop\<close> waits for its thread.
\<close>

lemma output_logged:
  assumes server: "log_server env contents" "contents s = []"
    and run: "step\<^sup>*\<^sup>* m m1" "step\<^sup>*\<^sup>* m1 m2" "good m" and chunks: "streamed m2 = streamed m1 @ chunks"
    and sent: "stream_chunks env (streamed m1) (s, new_streamer rn limit delay) = (Inr (), s1, st1)"
    and stopped: "streamer_stop env chunks (s1, st1) = (Inr True, s2, st2)"
  obtains rs where "length rs = length chunks" "contents s2 = concat (streamed m1) @ written rs chunks"
    "lw_committedSize (ss_writer st2) = int (length (contents s2))" "set rs \<subseteq> {Inr True} \<Longrightarrow> contents s2 = concat (streamed m2)"
    "\<exists>rest. contents_of m2 = concat (streamed m2) @ rest"
proof -
  obtain rs where rs: "length rs = length chunks" "contents s2 = concat (streamed m1) @ written rs chunks"
      "lw_committedSize (ss_writer st2) = int (length (contents s2))"
    using streamer_stop_log [OF server sent stopped] by blast
  moreover have "contents s2 = concat (streamed m2)" if "set rs \<subseteq> {Inr True}"
    using written_all [OF rs(1) that] rs(2) chunks by simp
  moreover have "\<exists>rest. contents_of m2 = concat (streamed m2) @ rest" using good_prefix good_run run by metis
  ultimately show thesis using that by blast
qed

end


text \<open>
  With the monitor that polls, the log is the beginning of the file, and the whole file when the monitor has streamed all of
  it.
\<close>

theorem stat_output_logged:
  assumes "log_server env contents" "contents s = []" "0 < bufsize"
    and "stat_run (stat_start bufsize initial) m1" "stat_run m1 m2" "sm_chunks m2 = sm_chunks m1 @ chunks"
    and "stream_chunks env (sm_chunks m1) (s, new_streamer rn limit delay) = (Inr (), s1, st1)"
    and "streamer_stop env chunks (s1, st1) = (Inr True, s2, st2)"
  shows "\<exists>rs. length rs = length chunks \<and> contents s2 = concat (sm_chunks m1) @ written rs chunks \<and>
    lw_committedSize (ss_writer st2) = int (length (contents s2)) \<and>
    (set rs \<subseteq> {Inr True} \<longrightarrow> (\<exists>rest. sm_file m2 = contents s2 @ rest))"
proof -
  have good: "stat_inv (stat_start bufsize initial)" using assms(3) by (rule stat_inv_start)
  then show ?thesis using stat.output_logged [OF assms(1,2,4,5) good assms(6-8)] by metis
qed

text \<open>A server that accepts everything.\<close>

definition accepting_log :: "string log_env" where
  "accepting_log =
     \<lparr>ls_query = \<lambda>rn s. (status_of OK, s), ls_open = id, ls_write = \<lambda>req s. (True, s @ wr_data req),
      ls_finish = \<lambda>s. ((status_of OK, int (length s)), s),
      ls_create = \<lambda>parent s. ((status_of OK, parent @ ''/read'', parent @ ''/write''), s)\<rparr>"



end
