(* ===== verification/Utils.thy ===== *)
theory Utils
  imports Protos "HOL-Library.Signed_Division"
begin

text \<open>
  \<^verbatim>\<open>buildboxcommon_stringutils.cpp\<close>, \<^verbatim>\<open>buildboxcommon_timeutils.cpp\<close> and the conversion
  \<^verbatim>\<open>std::stoi\<close> that several components use.

  A point in time is the number of nanoseconds since the epoch; division is that of C++, which
  truncates towards zero.
\<close>

section \<open>Conversion of integers\<close>

definition is_space :: "char \<Rightarrow> bool" where
  "is_space c \<longleftrightarrow> (let n = of_char c :: nat in n = 32 \<or> (9 \<le> n \<and> n \<le> 13))"

definition is_digit :: "char \<Rightarrow> bool" where
  "is_digit c \<longleftrightarrow> (let n = of_char c :: nat in 48 \<le> n \<and> n \<le> 57)"

definition digits_value :: "string \<Rightarrow> int" where
  "digits_value ds = foldl (\<lambda>n c. 10 * n + (of_char c - 48)) 0 ds"

text \<open>
  \<^verbatim>\<open>std::stoi(str, &pos)\<close>: spaces, a sign, digits up to the first other character, 32 bits; the
  position is that of the first character that was not converted.
\<close>

definition stoi_pos :: "string \<Rightarrow> (int \<times> nat) result" where
  "stoi_pos str =
     (let s1 = dropWhile is_space str;
          negative = (s1 \<noteq> [] \<and> hd s1 = CHR ''-'');
          s2 = (if s1 \<noteq> [] \<and> (hd s1 = CHR ''-'' \<or> hd s1 = CHR ''+'') then tl s1 else s1);
          ds = takeWhile is_digit s2;
          v = (if negative then - digits_value ds else digits_value ds)
      in if ds = [] then Inl InvalidArgument
         else if v < - (2 ^ 31) \<or> v \<ge> 2 ^ 31 then Inl OutOfRange
         else Inr (v, length str - length s2 + length ds))"

definition stoi :: "string \<Rightarrow> int result" where
  "stoi str = map_sum id fst (stoi_pos str)"

lemma digits_value_snoc: "digits_value (ds @ [c]) = 10 * digits_value ds + (of_char c - 48)"
  by (simp add: digits_value_def)

lemma digit_char:
  assumes "n < (10::nat)"
  shows "is_digit (char_of (48 + n)) \<and> of_char (char_of (48 + n) :: char) = 48 + int n"
proof -
  have "list_all (\<lambda>n::nat. is_digit (char_of (48 + n)) \<and> of_char (char_of (48 + n) :: char) = 48 + int n) [0..<10]"
    by code_simp
  then show ?thesis using assms by (simp add: list_all_iff)
qed

lemma show_nat_value: "digits_value (show_nat n) = int n \<and> list_all is_digit (show_nat n) \<and> show_nat n \<noteq> []"
proof (induction n rule: show_nat.induct)
  case (1 n)
  show ?case
  proof (cases "n < 10")
    case True
    then show ?thesis
      using digit_char [OF True] by (simp add: show_nat.simps [of n] digits_value_def)
  next
    case False
    have "10 * int (n div 10) + int (n mod 10) = int n" by presburger
    then show ?thesis
      using False 1 digit_char [of "n mod 10"]
      by (simp add: show_nat.simps [of n] digits_value_snoc del: of_nat_mod of_nat_div)
  qed
qed

lemma digit_not_space: "is_digit c \<Longrightarrow> \<not> is_space c \<and> c \<noteq> CHR ''-'' \<and> c \<noteq> CHR ''+''"
  by (auto simp: is_digit_def is_space_def Let_def)

text \<open>A number that fits 32 bits is read back from its decimal digits, up to the first character behind them.\<close>

lemma stoi_show:
  assumes "- (2 ^ 31) \<le> i" "i < 2 ^ 31" "rest = [] \<or> \<not> is_digit (hd rest)"
  shows "stoi_pos (show_int i @ rest) = Inr (i, length (show_int i))"
proof -
  obtain d ds where d: "show_nat (nat \<bar>i\<bar>) = d # ds" using show_nat_value [of "nat \<bar>i\<bar>"] by (cases "show_nat (nat \<bar>i\<bar>)") auto
  have v: "digits_value (d # ds) = \<bar>i\<bar>" "list_all is_digit (d # ds)" using show_nat_value [of "nat \<bar>i\<bar>"] d by auto
  then have "takeWhile is_digit ((d # ds) @ rest) = (d # ds) @ takeWhile is_digit rest"
    by (intro takeWhile_append2) (auto simp: list_all_iff)
  then have tw: "takeWhile is_digit (d # ds @ rest) = d # ds" using assms(3) by (cases rest) auto
  have sp: "\<not> is_space d" "d \<noteq> CHR ''-''" "d \<noteq> CHR ''+''" "\<not> is_space (CHR ''-'')"
    using v(2) digit_not_space [of d] by (auto simp: is_space_def)
  show ?thesis
  proof (cases "i < 0")
    case True
    then have "show_int i = CHR ''-'' # d # ds" using d by (simp add: show_int_def)
    then show ?thesis using True v(1) sp assms(1,2) by (simp add: stoi_pos_def Let_def tw del: takeWhile.simps)
  next
    case False
    then have "show_int i = d # ds" using d by (simp add: show_int_def)
    then show ?thesis using False v(1) sp assms(1,2) by (simp add: stoi_pos_def Let_def tw del: takeWhile.simps)
  qed
qed

section \<open>StringUtils\<close>

text \<open>The forms that take a filter; the others use \<^verbatim>\<open>std::isspace\<close>.\<close>

definition ltrim_filter :: "(char \<Rightarrow> bool) \<Rightarrow> string \<Rightarrow> string" where
  "ltrim_filter flt s = dropWhile flt s"

definition rtrim_filter :: "(char \<Rightarrow> bool) \<Rightarrow> string \<Rightarrow> string" where
  "rtrim_filter flt s = take (length s - length (takeWhile flt (rev s))) s"

definition trim_filter :: "(char \<Rightarrow> bool) \<Rightarrow> string \<Rightarrow> string" where
  "trim_filter flt s = rtrim_filter flt (ltrim_filter flt s)"

definition ltrim :: "string \<Rightarrow> string" where
  "ltrim s = ltrim_filter is_space s"

definition rtrim :: "string \<Rightarrow> string" where
  "rtrim s = rtrim_filter is_space s"

definition trim :: "string \<Rightarrow> string" where
  "trim s = rtrim (ltrim s)"

lemma rtrim_filter_rev: "rtrim_filter flt s = rev (dropWhile flt (rev s))"
  by (simp add: rtrim_filter_def dropWhile_eq_drop rev_drop)

lemma rtrim_filter_split: "\<exists>b. s = rtrim_filter flt s @ b \<and> list_all flt b"
proof -
  have "rev s = takeWhile flt (rev s) @ dropWhile flt (rev s)" by simp
  then have "s = rev (dropWhile flt (rev s)) @ rev (takeWhile flt (rev s))" by (metis rev_append rev_rev_ident)
  then show ?thesis
    by (intro exI [of _ "rev (takeWhile flt (rev s))"]) (auto simp: rtrim_filter_rev list_all_iff dest: set_takeWhileD)
qed

lemma rtrim_filter_last: "rtrim_filter flt s \<noteq> [] \<Longrightarrow> \<not> flt (last (rtrim_filter flt s))"
  by (simp add: rtrim_filter_rev last_rev hd_dropWhile)

text \<open>
  \<^verbatim>\<open>trim\<close> removes exactly the filtered characters at both ends: what it returns is a middle part of
  the string between two such ends and neither begins nor ends with such a character, and there is
  no other string like that; the form without a filter is that of \<^verbatim>\<open>std::isspace\<close>.
\<close>

theorem trim_exact:
  "(\<exists>a b. s = a @ t @ b \<and> list_all flt a \<and> list_all flt b \<and> (t \<noteq> [] \<longrightarrow> \<not> flt (hd t) \<and> \<not> flt (last t))) \<longleftrightarrow> t = trim_filter flt s"
proof
  assume "\<exists>a b. s = a @ t @ b \<and> list_all flt a \<and> list_all flt b \<and> (t \<noteq> [] \<longrightarrow> \<not> flt (hd t) \<and> \<not> flt (last t))"
  then obtain a b where s: "s = a @ t @ b" "list_all flt a" "list_all flt b" "t \<noteq> [] \<longrightarrow> \<not> flt (hd t) \<and> \<not> flt (last t)"
    by blast
  show "t = trim_filter flt s"
  proof (cases "t = []")
    case True
    then have "dropWhile flt s = []" using s by (auto simp: list_all_iff)
    then show ?thesis using True by (simp add: trim_filter_def ltrim_filter_def rtrim_filter_def)
  next
    case False
    then obtain h t' where t: "t = h # t'" by (cases t) auto
    have "ltrim_filter flt s = t @ b"
      using s t by (simp add: ltrim_filter_def list_all_iff dropWhile_append2)
    moreover have "dropWhile flt (rev b @ rev t) = rev t"
      using s(3,4) False dropWhile_append2 [of "rev b" flt "rev t"]
      by (cases t rule: rev_cases) (auto simp: list_all_iff)
    ultimately show ?thesis by (simp add: trim_filter_def rtrim_filter_rev)
  qed
next
  assume t: "t = trim_filter flt s"
  let ?l = "dropWhile flt s"
  obtain b where b: "?l = t @ b" "list_all flt b"
    using rtrim_filter_split [of ?l flt] t by (auto simp: trim_filter_def ltrim_filter_def)
  have "t \<noteq> [] \<longrightarrow> \<not> flt (hd t)" using b hd_dropWhile [of flt s] by (cases t) auto
  moreover have "t \<noteq> [] \<longrightarrow> \<not> flt (last t)" using rtrim_filter_last [of flt ?l] t by (simp add: trim_filter_def ltrim_filter_def)
  moreover have "s = takeWhile flt s @ t @ b" using b(1) by (metis takeWhile_dropWhile_id)
  ultimately show "\<exists>a b. s = a @ t @ b \<and> list_all flt a \<and> list_all flt b \<and> (t \<noteq> [] \<longrightarrow> \<not> flt (hd t) \<and> \<not> flt (last t))"
    using b(2) by (intro exI [of _ "takeWhile flt s"] exI [of _ b]) (auto simp: list_all_iff dest: set_takeWhileD)
qed

theorem trim_exact_witness: "trim_filter (\<lambda>c. c = CHR ''/'') ''//a/b/'' = ''a/b''"
  using trim_exact [of "''//a/b/''" "''a/b''" "\<lambda>c. c = CHR ''/''"]
  by (rule iffD1 [THEN sym]) (intro exI [of _ "''//''"] exI [of _ "''/''"], simp)

section \<open>TimeUtils\<close>

text \<open>\<open>to_timestamp\<close> is \<^verbatim>\<open>TimeUtil::MicrosecondsToTimestamp\<close> of the protobuf library.\<close>

definition microseconds :: "int \<Rightarrow> int" where
  "microseconds timepoint = timepoint sdiv 1000"

definition make_timestamp :: "(int \<Rightarrow> timestamp) \<Rightarrow> int \<Rightarrow> timestamp" where
  "make_timestamp to_timestamp mtime = to_timestamp (microseconds mtime)"

definition parse_timestamp :: "timestamp \<Rightarrow> int" where
  "parse_timestamp t = fst t * 1000000000 + (snd t sdiv 1000) * 1000"

definition make_timespec :: "int \<Rightarrow> int \<times> int" where
  "make_timespec timepoint =
     (microseconds timepoint sdiv 1000000, (microseconds timepoint smod 1000000) * 1000)"

text \<open>\<^verbatim>\<open>gettimeofday\<close> gives an error or seconds and microseconds.\<close>

definition now :: "int + int \<times> int \<Rightarrow> timestamp result" where
  "now tv = (case tv of Inl e \<Rightarrow> Inl (SystemError e) | Inr (tv_sec, tv_usec) \<Rightarrow> Inr (tv_sec, tv_usec * 1000))"

text \<open>What the protobuf library documents: the same time, with nanoseconds that are not negative.\<close>

definition normalized_timestamps :: "(int \<Rightarrow> timestamp) \<Rightarrow> bool" where
  "normalized_timestamps to_timestamp \<longleftrightarrow>
     (\<forall>us. fst (to_timestamp us) * 1000000 + snd (to_timestamp us) div 1000 = us \<and>
        0 \<le> snd (to_timestamp us) \<and> snd (to_timestamp us) < 1000000000)"

text \<open>
  A modification time survives being written into a message and read back to the microsecond, before
  and after the epoch; the \<^verbatim>\<open>timespec\<close> made from it is the same time.
\<close>

theorem timestamp_roundtrip:
  assumes "normalized_timestamps to_timestamp"
  shows "parse_timestamp (make_timestamp to_timestamp t) = microseconds t * 1000 \<and>
    microseconds (parse_timestamp (make_timestamp to_timestamp t)) = microseconds t \<and>
    fst (make_timespec t) * 1000000000 + snd (make_timespec t) = microseconds t * 1000"
proof -
  let ?us = "microseconds t"
  have ts: "fst (to_timestamp ?us) * 1000000 + snd (to_timestamp ?us) div 1000 = ?us" "0 \<le> snd (to_timestamp ?us)"
    using assms by (auto simp: normalized_timestamps_def)
  have "snd (to_timestamp ?us) sdiv 1000 = snd (to_timestamp ?us) div 1000"
    using ts(2) by (cases "snd (to_timestamp ?us) = 0") (simp_all add: signed_divide_int_eq_divide_int)
  then have "parse_timestamp (make_timestamp to_timestamp t) = ?us * 1000"
    using ts(1) unfolding parse_timestamp_def make_timestamp_def by presburger
  moreover have "microseconds (n * 1000) = n" for n
    by (simp add: microseconds_def signed_divide_int_def sgn_mult abs_mult sgn_mult_abs)
  moreover have "?us sdiv 1000000 * 1000000 + ?us smod 1000000 = ?us" by (rule sdiv_mult_smod_eq)
  ultimately show ?thesis by (simp add: make_timespec_def algebra_simps)
qed

theorem timestamp_roundtrip_witness:
  "parse_timestamp (make_timestamp (\<lambda>us. (us div 1000000, us mod 1000000 * 1000)) (- 1500000)) = - 1500000"
proof -
  have "normalized_timestamps (\<lambda>us. (us div 1000000, us mod 1000000 * 1000))"
    by (simp add: normalized_timestamps_def)
  from timestamp_roundtrip [OF this, of "- 1500000"] show ?thesis by (simp add: microseconds_def)
qed

text \<open>
  The \<^verbatim>\<open>timespec\<close> made for a time before the epoch that is not a whole second has a negative number
  of nanoseconds, which the system calls that set file times reject.
\<close>

theorem make_timespec_negative: "snd (make_timespec (- 1500000000)) < 0"
  by (simp add: make_timespec_def microseconds_def)

end
