(* ===== verification/Commandline.thy ===== *)
theory Commandline
  imports Utils
begin

text \<open>
  \<^verbatim>\<open>buildboxcommon_commandline.cpp\<close> and \<^verbatim>\<open>buildboxcommon_commandlinetypes.h\<close>, as they are
  compiled for C++14: the parser of command lines that are described by a specification.

  The type \<open>'d\<close> stands for \<^verbatim>\<open>double\<close>; \<open>stod\<close> and \<open>show_double\<close> convert it from and to
  strings.  The variables an argument can be bound to are cells numbered by their addresses.  The
  texts of the diagnostics are not modelled.
\<close>

section \<open>Types\<close>

datatype data_type =
    COMMANDLINE_DT_STRING
  | COMMANDLINE_DT_INT
  | COMMANDLINE_DT_DOUBLE
  | COMMANDLINE_DT_BOOL
  | COMMANDLINE_DT_STRING_ARRAY
  | COMMANDLINE_DT_STRING_PAIR_ARRAY
  | COMMANDLINE_DT_UNKNOWN

text \<open>A \<^verbatim>\<open>DefaultValue\<close> has the type of the constructor it was made with.\<close>

datatype 'd default_value =
    NoDefault
  | DefaultString string
  | DefaultInt int
  | DefaultDouble 'd
  | DefaultBool bool

fun default_dataType :: "'d default_value \<Rightarrow> data_type" where
  "default_dataType NoDefault = COMMANDLINE_DT_UNKNOWN"
| "default_dataType (DefaultString _) = COMMANDLINE_DT_STRING"
| "default_dataType (DefaultInt _) = COMMANDLINE_DT_INT"
| "default_dataType (DefaultDouble _) = COMMANDLINE_DT_DOUBLE"
| "default_dataType (DefaultBool _) = COMMANDLINE_DT_BOOL"

record type_info =
  ti_dataType :: data_type
  ti_variable :: "nat option"

datatype occurrence = O_OPTIONAL | O_REQUIRED

datatype arg_constraint = C_WITH_ARG | C_WITHOUT_ARG

record 'd argument_spec =
  as_name :: string
  as_desc :: string
  as_typeInfo :: type_info
  as_occurrence :: occurrence
  as_constraint :: arg_constraint
  as_defaultValue :: "'d default_value"

definition isRequired :: "'d argument_spec \<Rightarrow> bool" where
  "isRequired spec \<longleftrightarrow> as_occurrence spec = O_REQUIRED"

definition hasArgument :: "'d argument_spec \<Rightarrow> bool" where
  "hasArgument spec \<longleftrightarrow> as_constraint spec = C_WITH_ARG"

definition isPositional :: "'d argument_spec \<Rightarrow> bool" where
  "isPositional spec \<longleftrightarrow> as_name spec = []"

definition spec_dataType :: "'d argument_spec \<Rightarrow> data_type" where
  "spec_dataType spec = ti_dataType (as_typeInfo spec)"

definition hasDefaultValue :: "'d argument_spec \<Rightarrow> bool" where
  "hasDefaultValue spec \<longleftrightarrow> default_dataType (as_defaultValue spec) \<noteq> COMMANDLINE_DT_UNKNOWN"

text \<open>The constructor of \<^verbatim>\<open>ArgumentValue\<close> leaves \<^verbatim>\<open>d_bool\<close> uninitialised.\<close>

record 'd argument_value =
  av_str :: string
  av_int :: int
  av_double :: 'd
  av_bool :: "bool option"
  av_vs :: "string list"
  av_vps :: "(string \<times> string) list"

definition new_argument_value :: "'d::zero argument_value" where
  "new_argument_value =
     \<lparr>av_str = [], av_int = 0, av_double = 0, av_bool = None, av_vs = [], av_vps = []\<rparr>"

record 'd command_line =
  cl_spec :: "'d argument_spec list"
  cl_parsedArgs :: "(string, 'd argument_value \<times> 'd argument_spec) smap"
  cl_processName :: string
  cl_argIdx :: nat
  cl_idxLastPositionalFound :: nat
  cl_rawArgv :: "string list"
  cl_variables :: "nat \<Rightarrow> 'd argument_value"

definition new_command_line :: "'d argument_spec list \<Rightarrow> (nat \<Rightarrow> 'd argument_value) \<Rightarrow> 'd command_line" where
  "new_command_line optionSpec variables =
     \<lparr>cl_spec = optionSpec, cl_parsedArgs = [], cl_processName = [], cl_argIdx = 0, cl_idxLastPositionalFound = 0,
      cl_rawArgv = [], cl_variables = variables\<rparr>"

section \<open>Conversions\<close>

text \<open>
  The anonymous \<^verbatim>\<open>split\<close> leaves both strings empty when there is no delimiter; whether it succeeded
  is not used by its caller.
\<close>

definition split_pair :: "string \<Rightarrow> char \<Rightarrow> string \<times> string" where
  "split_pair str delim =
     (if delim \<in> set str
      then (takeWhile (\<lambda>c. c \<noteq> delim) str, tl (dropWhile (\<lambda>c. c \<noteq> delim) str))
      else ([], []))"

section \<open>Building the value of an argument\<close>

text \<open>A bound variable is written through its pointer; only the part of its type matters.\<close>

definition bind_variable ::
  "'d argument_spec \<Rightarrow> ('d argument_value \<Rightarrow> 'd argument_value) \<Rightarrow> 'd command_line \<Rightarrow> 'd command_line" where
  "bind_variable spec f cl =
     (case ti_variable (as_typeInfo spec) of
        None \<Rightarrow> cl
      | Some a \<Rightarrow> cl\<lparr>cl_variables := (cl_variables cl)(a := f (cl_variables cl a))\<rparr>)"

text \<open>
  An argument of an array type is appended to the value of the arguments that were parsed before; the
  value that is built is used only for the first one.
\<close>

definition append_parsed ::
  "string \<Rightarrow> ('d::zero argument_value \<Rightarrow> 'd argument_value) \<Rightarrow> 'd command_line \<Rightarrow>
   'd argument_value \<times> 'd command_line" where
  "append_parsed name f cl =
     (case smap_find (cl_parsedArgs cl) name of
        None \<Rightarrow> (f new_argument_value, cl)
      | Some (v, spec) \<Rightarrow> (new_argument_value, cl\<lparr>cl_parsedArgs := smap_set name (f v, spec) (cl_parsedArgs cl)\<rparr>))"

definition conversion_error :: "exn \<Rightarrow> bool result" where
  "conversion_error e = (if e = InvalidArgument \<or> e = OutOfRange then Inr False else Inl e)"

definition buildArgumentValue ::
  "(string \<Rightarrow> 'd result) \<Rightarrow> string \<Rightarrow> 'd::zero argument_spec \<Rightarrow> 'd command_line \<Rightarrow>
   bool result \<times> 'd argument_value \<times> 'd command_line" where
  "buildArgumentValue stod optionValue spec cl =
     (case spec_dataType spec of
        COMMANDLINE_DT_STRING \<Rightarrow>
          (Inr True, new_argument_value\<lparr>av_str := optionValue\<rparr>, bind_variable spec (\<lambda>v. v\<lparr>av_str := optionValue\<rparr>) cl)
      | COMMANDLINE_DT_INT \<Rightarrow>
          (case stoi optionValue of
             Inl e \<Rightarrow> (conversion_error e, new_argument_value, cl)
           | Inr val \<Rightarrow> (Inr True, new_argument_value\<lparr>av_int := val\<rparr>, bind_variable spec (\<lambda>v. v\<lparr>av_int := val\<rparr>) cl))
      | COMMANDLINE_DT_DOUBLE \<Rightarrow>
          (case stod optionValue of
             Inl e \<Rightarrow> (conversion_error e, new_argument_value, cl)
           | Inr val \<Rightarrow> (Inr True, new_argument_value\<lparr>av_double := val\<rparr>, bind_variable spec (\<lambda>v. v\<lparr>av_double := val\<rparr>) cl))
      | COMMANDLINE_DT_BOOL \<Rightarrow>
          (let tmpVal = (if optionValue = [] \<and> as_constraint spec = C_WITHOUT_ARG then ''true'' else optionValue);
               val = (tmpVal = ''true'')
           in (Inr True, new_argument_value\<lparr>av_bool := Some val\<rparr>, bind_variable spec (\<lambda>v. v\<lparr>av_bool := Some val\<rparr>) cl))
      | COMMANDLINE_DT_STRING_ARRAY \<Rightarrow>
          (let f = (\<lambda>v. v\<lparr>av_vs := av_vs v @ [optionValue]\<rparr>);
               (val, cl') = append_parsed (as_name spec) f cl
           in (Inr True, val, bind_variable spec f cl'))
      | COMMANDLINE_DT_STRING_PAIR_ARRAY \<Rightarrow>
          (let f = (\<lambda>v. v\<lparr>av_vps := av_vps v @ [split_pair optionValue (CHR ''='')]\<rparr>);
               (val, cl') = append_parsed (as_name spec) f cl
           in (Inr True, val, bind_variable spec f cl'))
      | COMMANDLINE_DT_UNKNOWN \<Rightarrow> (Inl RuntimeError, new_argument_value, cl))"

section \<open>Options\<close>

definition existsInSpec :: "'d command_line \<Rightarrow> string \<Rightarrow> bool" where
  "existsInSpec cl argvArg \<longleftrightarrow> list_ex (\<lambda>spec. as_name spec = argvArg) (cl_spec cl)"

definition findOptionSpecByName :: "'d command_line \<Rightarrow> string \<Rightarrow> 'd argument_spec option" where
  "findOptionSpecByName cl argvArg = find (\<lambda>spec. as_name spec = argvArg) (cl_spec cl)"

definition exists_arg :: "'d command_line \<Rightarrow> string \<Rightarrow> bool" where
  "exists_arg cl name \<longleftrightarrow> smap_find (cl_parsedArgs cl) name \<noteq> None"

definition validateRequiredArgs :: "'d command_line \<Rightarrow> bool" where
  "validateRequiredArgs cl \<longleftrightarrow>
     list_all (\<lambda>spec. as_name spec = [] \<or> \<not> isRequired spec \<or> exists_arg cl (as_name spec)) (cl_spec cl)"

text \<open>Which error is reported depends on the next argument; the result does not.\<close>

definition readyForPositionals :: "'d command_line \<Rightarrow> string \<Rightarrow> bool" where
  "readyForPositionals cl currentArg \<longleftrightarrow> \<not> existsInSpec cl currentArg \<and> validateRequiredArgs cl"

text \<open>The second character of a string that is not empty; behind the last one is a NUL.\<close>

definition second :: "string \<Rightarrow> char" where
  "second s = (if length s = 1 then CHR 0x00 else s ! 1)"

definition split_option :: "string \<Rightarrow> string \<times> string option" where
  "split_option arg =
     (if CHR ''='' \<in> set arg
      then (takeWhile (\<lambda>c. c \<noteq> CHR ''='') arg, Some (tl (dropWhile (\<lambda>c. c \<noteq> CHR ''='') arg)))
      else (arg, None))"

definition add_option ::
  "(string \<Rightarrow> 'd result) \<Rightarrow> string \<Rightarrow> string \<Rightarrow> 'd::zero argument_spec \<Rightarrow> 'd command_line \<Rightarrow>
   bool result \<times> 'd command_line" where
  "add_option stod optionName optionValue spec cl =
     (case buildArgumentValue stod optionValue spec cl of
        (Inr True, v, cl') \<Rightarrow> (Inr True, cl'\<lparr>cl_parsedArgs := smap_emplace optionName (v, spec) (cl_parsedArgs cl')\<rparr>)
      | (r, _, cl') \<Rightarrow> (r, cl'))"

definition next_arg :: "'d command_line \<Rightarrow> 'd command_line" where
  "next_arg cl = cl\<lparr>cl_argIdx := cl_argIdx cl + 1\<rparr>"

text \<open>
  One turn of the loop of \<^verbatim>\<open>parseOptions\<close> for the argument at \<^verbatim>\<open>d_argIdx\<close> and those behind
  it: it ends the loop with a result, or goes on with the arguments that are left.  For an
  empty argument \<^verbatim>\<open>currentArg[1]\<close> reads behind the terminating NUL, which is undefined.
\<close>

definition take_option ::
  "(string \<Rightarrow> 'd result) \<Rightarrow> string \<Rightarrow> string \<Rightarrow> 'd::zero argument_spec \<Rightarrow> string list \<Rightarrow> 'd command_line \<Rightarrow>
   (bool result + string list) \<times> 'd command_line" where
  "take_option stod optionName optionValue spec args cl =
     (case add_option stod optionName optionValue spec cl of
        (Inr True, cl') \<Rightarrow> (Inr args, next_arg cl')
      | (r, cl') \<Rightarrow> (Inl r, cl'))"

definition option_step ::
  "(string \<Rightarrow> 'd result) \<Rightarrow> string \<Rightarrow> string list \<Rightarrow> 'd::zero command_line \<Rightarrow>
   (bool result + string list) \<times> 'd command_line" where
  "option_step stod currentArg args cl =
     (if currentArg = [] then (Inl (Inl Undefined), cl)
      else if hd currentArg = CHR ''-'' \<and> second currentArg \<noteq> CHR ''-'' then (Inl (Inr False), cl)
      else if hd currentArg \<noteq> CHR ''-'' \<and> second currentArg \<noteq> CHR ''-''
      then (Inl (Inr (readyForPositionals cl currentArg)), cl)
      else
        (let (optionName, assigned) = split_option (drop 2 currentArg)
         in case findOptionSpecByName cl optionName of
              None \<Rightarrow> (Inl (Inr False), cl)
            | Some spec \<Rightarrow>
                if hasArgument spec \<and> assigned = None
                then
                  (case args of
                     [] \<Rightarrow> (Inl (Inr False), cl)
                   | optionValue # args' \<Rightarrow>
                       if optionValue \<noteq> [] \<and> hd optionValue = CHR ''-'' \<and> second optionValue = CHR ''-''
                       then (Inl (Inr False), next_arg cl)
                       else take_option stod optionName optionValue spec args' (next_arg cl))
                else take_option stod optionName (case assigned of None \<Rightarrow> [] | Some v \<Rightarrow> v) spec args cl))"

lemma take_option_args: "fst (take_option stod n v spec args cl) = Inr args' \<Longrightarrow> args' = args"
  by (auto simp: take_option_def split: prod.splits sum.splits bool.splits)

lemma option_step_shorter: "option_step stod arg args cl = (Inr args', cl') \<Longrightarrow> length args' \<le> length args"
  by (auto simp: option_step_def Let_def split: if_splits prod.splits option.splits list.splits
      dest!: arg_cong [where f = fst] take_option_args)

function parse_options ::
  "(string \<Rightarrow> 'd result) \<Rightarrow> string list \<Rightarrow> 'd::zero command_line \<Rightarrow> bool result \<times> 'd command_line" where
  "parse_options stod [] cl = (Inr True, cl)"
| "parse_options stod (currentArg # args) cl =
     (case option_step stod currentArg args cl of
        (Inl r, cl') \<Rightarrow> (r, cl')
      | (Inr args', cl') \<Rightarrow> parse_options stod args' cl')"
  by pat_completeness auto
termination
  by (relation "measure (\<lambda>(stod, args, cl). length args)")
    (auto simp: less_Suc_eq_le dest: option_step_shorter sym)

definition parseOptions ::
  "(string \<Rightarrow> 'd result) \<Rightarrow> 'd::zero command_line \<Rightarrow> bool result \<times> 'd command_line" where
  "parseOptions stod cl = parse_options stod (drop (cl_argIdx cl) (cl_rawArgv cl)) cl"

section \<open>Default values\<close>

definition default_argument :: "'d::zero default_value \<Rightarrow> 'd argument_value" where
  "default_argument d =
     (case d of
        NoDefault \<Rightarrow> new_argument_value
      | DefaultString s \<Rightarrow> new_argument_value\<lparr>av_str := s\<rparr>
      | DefaultInt i \<Rightarrow> new_argument_value\<lparr>av_int := i\<rparr>
      | DefaultDouble x \<Rightarrow> new_argument_value\<lparr>av_double := x\<rparr>
      | DefaultBool b \<Rightarrow> new_argument_value\<lparr>av_bool := Some b\<rparr>)"

fun apply_defaults :: "'d::zero argument_spec list \<Rightarrow> 'd command_line \<Rightarrow> bool \<times> 'd command_line" where
  "apply_defaults [] cl = (True, cl)"
| "apply_defaults (spec # specs) cl =
     (if as_name spec = [] then apply_defaults specs cl
      else if isRequired spec \<and> hasDefaultValue spec then (False, cl)
      else if exists_arg cl (as_name spec) then apply_defaults specs cl
      else if \<not> hasDefaultValue spec then apply_defaults specs cl
      else if spec_dataType spec \<noteq> default_dataType (as_defaultValue spec) then (False, cl)
      else apply_defaults specs
             (cl\<lparr>cl_parsedArgs :=
                smap_emplace (as_name spec) (default_argument (as_defaultValue spec), spec) (cl_parsedArgs cl)\<rparr>))"

definition applyDefaultValues :: "'d::zero command_line \<Rightarrow> bool \<times> 'd command_line" where
  "applyDefaultValues cl = apply_defaults (cl_spec cl) cl"

section \<open>Positionals\<close>

text \<open>The loop of \<^verbatim>\<open>findNextPositionalSpec\<close>; its list are the specifications from the index on.\<close>

fun next_positional :: "'d argument_spec list \<Rightarrow> nat \<Rightarrow> 'd argument_spec option \<times> nat" where
  "next_positional [] idx = (None, idx)"
| "next_positional (spec # specs) idx =
     (if as_name spec = [] then (Some spec, idx + 1) else next_positional specs (idx + 1))"

definition findNextPositionalSpec :: "'d command_line \<Rightarrow> 'd argument_spec option \<times> 'd command_line" where
  "findNextPositionalSpec cl =
     (let (spec, idx) = next_positional (drop (cl_idxLastPositionalFound cl) (cl_spec cl)) (cl_idxLastPositionalFound cl)
      in (spec, cl\<lparr>cl_idxLastPositionalFound := idx\<rparr>))"

fun bind_positionals ::
  "(string \<Rightarrow> 'd result) \<Rightarrow> string list \<Rightarrow> 'd::zero command_line \<Rightarrow> bool result \<times> 'd command_line" where
  "bind_positionals stod [] cl = (Inr True, cl)"
| "bind_positionals stod (positional # args) cl =
     (case findNextPositionalSpec cl of
        (None, cl') \<Rightarrow> bind_positionals stod args (next_arg cl')
      | (Some spec, cl') \<Rightarrow>
          (case buildArgumentValue stod positional spec cl' of
             (Inr True, _, cl'') \<Rightarrow> bind_positionals stod args (next_arg cl'')
           | (r, _, cl'') \<Rightarrow> (r, cl'')))"

definition parsePositionals ::
  "(string \<Rightarrow> 'd result) \<Rightarrow> 'd::zero command_line \<Rightarrow> bool result \<times> 'd command_line" where
  "parsePositionals stod cl =
     (let numRequiredSpecPositionals = length (filter (\<lambda>spec. isPositional spec \<and> isRequired spec) (cl_spec cl))
      in if length (cl_rawArgv cl) < cl_argIdx cl + numRequiredSpecPositionals then (Inr False, cl)
         else bind_positionals stod (drop (cl_argIdx cl) (cl_rawArgv cl)) cl)"

section \<open>Parsing\<close>

definition parse ::
  "(string \<Rightarrow> 'd result) \<Rightarrow> string list \<Rightarrow> 'd::zero command_line \<Rightarrow> bool result \<times> 'd command_line" where
  "parse stod argv cl =
     (if argv = [] then (Inr False, cl)
      else
        (let raw = cl_rawArgv cl @ argv
         in case parseOptions stod (cl\<lparr>cl_processName := hd raw, cl_rawArgv := tl raw\<rparr>) of
              (Inr True, cl1) \<Rightarrow>
                if length (cl_parsedArgs cl1) = 1 \<and> exists_arg cl1 ''help'' then (Inr True, cl1)
                else if \<not> validateRequiredArgs cl1 then (Inr False, cl1)
                else
                  (let (applied, cl2) = applyDefaultValues cl1
                   in if applied then parsePositionals stod cl2 else (Inr False, cl2))
            | (r, cl1) \<Rightarrow> (r, cl1)))"

section \<open>Access\<close>

definition get_arg :: "'d command_line \<Rightarrow> string \<Rightarrow> ('d argument_value \<Rightarrow> 'a result) \<Rightarrow> 'a result" where
  "get_arg cl name part =
     (case smap_find (cl_parsedArgs cl) name of None \<Rightarrow> Inl RuntimeError | Some (v, _) \<Rightarrow> part v)"

definition get_default :: "'d command_line \<Rightarrow> string \<Rightarrow> ('d argument_value \<Rightarrow> 'a result) \<Rightarrow> 'a \<Rightarrow> 'a result" where
  "get_default cl name part default_value =
     (case smap_find (cl_parsedArgs cl) name of None \<Rightarrow> Inr default_value | Some (v, _) \<Rightarrow> part v)"

definition bool_part :: "'d argument_value \<Rightarrow> bool result" where
  "bool_part v = (case av_bool v of None \<Rightarrow> Inl Undefined | Some b \<Rightarrow> Inr b)"

definition getString :: "'d command_line \<Rightarrow> string \<Rightarrow> string result" where
  "getString cl name = get_arg cl name (Inr \<circ> av_str)"

definition getInt :: "'d command_line \<Rightarrow> string \<Rightarrow> int result" where
  "getInt cl name = get_arg cl name (Inr \<circ> av_int)"

definition getDouble :: "'d command_line \<Rightarrow> string \<Rightarrow> 'd result" where
  "getDouble cl name = get_arg cl name (Inr \<circ> av_double)"

definition getBool :: "'d command_line \<Rightarrow> string \<Rightarrow> bool result" where
  "getBool cl name = get_arg cl name bool_part"

definition getString_default :: "'d command_line \<Rightarrow> string \<Rightarrow> string \<Rightarrow> string result" where
  "getString_default cl name = get_default cl name (Inr \<circ> av_str)"

definition getInt_default :: "'d command_line \<Rightarrow> string \<Rightarrow> int \<Rightarrow> int result" where
  "getInt_default cl name = get_default cl name (Inr \<circ> av_int)"

definition getBool_default :: "'d command_line \<Rightarrow> string \<Rightarrow> bool \<Rightarrow> bool result" where
  "getBool_default cl name = get_default cl name bool_part"

definition getDouble_default :: "'d command_line \<Rightarrow> string \<Rightarrow> 'd \<Rightarrow> 'd result" where
  "getDouble_default cl name = get_default cl name (Inr \<circ> av_double)"

definition getVS :: "'d command_line \<Rightarrow> string \<Rightarrow> string list \<Rightarrow> string list result" where
  "getVS cl name = get_default cl name (Inr \<circ> av_vs)"

definition getVPS :: "'d command_line \<Rightarrow> string \<Rightarrow> (string \<times> string) list \<Rightarrow> (string \<times> string) list result" where
  "getVPS cl name = get_default cl name (Inr \<circ> av_vps)"

section \<open>Usage\<close>

text \<open>\<^verbatim>\<open>std::setw(fill) << ' '\<close>: a blank, padded on the left to the width.\<close>

definition blank :: "int \<Rightarrow> string" where
  "blank fill = replicate (nat (max 1 fill)) (CHR '' '')"

definition padString :: "string \<Rightarrow> int \<Rightarrow> string" where
  "padString str fill =
     (case split_at (CHR 0x0A) str of
        [] \<Rightarrow> []
      | chunk # chunks \<Rightarrow> chunk @ concat (map (\<lambda>c. CHR 0x0A # blank fill @ c) chunks))"

definition show_bool :: "bool \<Rightarrow> string" where
  "show_bool b = (if b then ''true'' else ''false'')"

text \<open>A default value of another type than the argument has no determined text.\<close>

definition show_default :: "('d \<Rightarrow> string) \<Rightarrow> 'd default_value \<Rightarrow> data_type \<Rightarrow> string" where
  "show_default show_double d t =
     (case (t, d) of
        (COMMANDLINE_DT_STRING, DefaultString s) \<Rightarrow> CHR 0x22 # s @ [CHR 0x22]
      | (COMMANDLINE_DT_INT, DefaultInt i) \<Rightarrow> show_int i
      | (COMMANDLINE_DT_DOUBLE, DefaultDouble x) \<Rightarrow> show_double x
      | (COMMANDLINE_DT_BOOL, DefaultBool b) \<Rightarrow> show_bool b
      | _ \<Rightarrow> [])"

definition usage_line :: "('d \<Rightarrow> string) \<Rightarrow> nat \<Rightarrow> 'd argument_spec \<Rightarrow> string" where
  "usage_line show_double maxPadding spec =
     (let fill = int maxPadding - int (length (if as_name spec = [] then as_desc spec else as_name spec));
          paddedDesc = padString (as_desc spec) (int maxPadding + 3 + 5)
      in ''   '' @ (if as_name spec = [] then ''  '' else ''--'') @
         (if as_name spec = [] then paddedDesc else as_name spec) @ blank fill @
         (if as_name spec = [] then ''POSITIONAL'' else paddedDesc) @ '' ['' @
         (if isRequired spec then ''required'' else ''optional'') @
         (if hasDefaultValue spec
          then '', default = '' @ show_default show_double (as_defaultValue spec) (spec_dataType spec) else []) @
         '']'' @ [CHR 0x0A])"

definition usage :: "('d \<Rightarrow> string) \<Rightarrow> 'd command_line \<Rightarrow> string" where
  "usage show_double cl =
     (let maxPadding = foldr (\<lambda>spec n. max n (length (as_name spec))) (cl_spec cl) 0 + 5
      in ''Usage: '' @ cl_processName cl @ [CHR 0x0A] @
         concat (map (usage_line show_double maxPadding) (cl_spec cl)) @ [CHR 0x0A])"

section \<open>What the operations keep\<close>

definition arg_names :: "'d command_line \<Rightarrow> string set" where
  "arg_names cl = fst ` set (cl_parsedArgs cl)"

text \<open>The part of the state that parsing leaves alone, and the arguments, which only become more.\<close>

definition same_frame :: "'d command_line \<Rightarrow> 'd command_line \<Rightarrow> bool" where
  "same_frame cl cl' \<longleftrightarrow> cl_spec cl' = cl_spec cl \<and> cl_rawArgv cl' = cl_rawArgv cl \<and> arg_names cl \<subseteq> arg_names cl'"

lemma same_frame_refl [simp]: "same_frame cl cl"
  by (simp add: same_frame_def)

lemma same_frame_trans: "same_frame a b \<Longrightarrow> same_frame b c \<Longrightarrow> same_frame a c"
  by (auto simp: same_frame_def)

lemma exists_arg_names: "exists_arg cl n \<longleftrightarrow> n \<in> arg_names cl"
  by (simp add: exists_arg_def smap_find_None_iff arg_names_def)

lemma names_emplace [simp]: "arg_names (cl\<lparr>cl_parsedArgs := smap_emplace k v m\<rparr>) = insert k (fst ` set m)"
  by (auto simp: arg_names_def smap_emplace_def fst_set_smap_set smap_find_def map_of_eq_None_iff rev_image_eqI
      dest: map_of_SomeD split: option.split)

lemma same_frame_bind: "same_frame cl (bind_variable spec f cl)"
  by (simp add: same_frame_def bind_variable_def arg_names_def split: option.split)

lemma same_frame_append: "same_frame cl (snd (append_parsed n f cl))"
  by (auto simp: same_frame_def append_parsed_def arg_names_def fst_set_smap_set split: option.split)

lemma same_frame_next [simp]: "same_frame cl (next_arg cl)"
  by (simp add: same_frame_def next_arg_def arg_names_def)

lemma same_frame_build: "same_frame cl (snd (snd (buildArgumentValue stod v spec cl)))"
  by (cases "spec_dataType spec")
    (simp_all add: buildArgumentValue_def Let_def case_prod_beta same_frame_bind
      same_frame_trans [OF same_frame_append same_frame_bind] split: sum.split)

lemma same_frame_emplace: "same_frame cl cl' \<Longrightarrow> same_frame cl (cl'\<lparr>cl_parsedArgs := smap_emplace k v (cl_parsedArgs cl')\<rparr>)"
  by (simp add: same_frame_def arg_names_def [symmetric] subset_insertI2)

lemma same_frame_add: "same_frame cl (snd (add_option stod n v spec cl))"
proof (cases "buildArgumentValue stod v spec cl")
  case (fields r av cl')
  then have "same_frame cl cl'" using same_frame_build [of cl stod v spec] by simp
  then show ?thesis
    using fields same_frame_emplace by (auto simp: add_option_def split: sum.split bool.split)
qed

text \<open>
  What the successful addition of an option keeps, a turn of the loop and the whole loop keep: the
  condition is stated with the specification of the option, which does not change.
\<close>

lemma option_step_keeps:
  assumes "\<And>n v spec cl. P cl \<Longrightarrow> findOptionSpecByName cl n = Some spec \<Longrightarrow> P (snd (add_option stod n v spec cl))"
    and "\<And>cl. P (next_arg cl) = P cl"
    and "P cl"
  shows "P (snd (option_step stod arg args cl))"
proof -
  have spec: "findOptionSpecByName (next_arg cl) n = findOptionSpecByName cl n" for n
    by (simp add: findOptionSpecByName_def next_arg_def)
  have take: "P (snd (take_option stod n v spec args' cl'))"
    if "P cl'" "findOptionSpecByName cl' n = Some spec" for n v spec args' cl'
  proof (cases "add_option stod n v spec cl'")
    case (Pair r cl'')
    then have "P cl''" "P (next_arg cl'')" using assms(1) [OF that, of v] assms(2) by simp_all
    then show ?thesis using Pair by (simp add: take_option_def split: sum.split bool.split)
  qed
  note takes = take [OF assms(3)] take [of "next_arg cl", unfolded spec assms(2), OF assms(3)]
  show ?thesis
    using assms(3) assms(2) [of cl] takes
    by (simp add: option_step_def Let_def split: prod.split option.split list.split)
qed

lemma parse_options_keeps:
  assumes "\<And>arg args cl. P cl \<Longrightarrow> P (snd (option_step stod arg args cl))" "P cl"
  shows "P (snd (parse_options stod args cl))"
  using assms
proof (induction stod args cl rule: parse_options.induct)
  case (2 stod arg args cl)
  have "P (snd (option_step stod arg args cl))" using "2.prems" by blast
  then show ?case
    using "2.IH" [OF _ _ "2.prems"(1)] by (auto split: prod.split sum.split)
qed simp

lemma same_frame_options: "same_frame cl (snd (parse_options stod args cl))"
  by (rule parse_options_keeps [OF option_step_keeps], erule same_frame_trans, rule same_frame_add)
    (auto simp: same_frame_def next_arg_def arg_names_def)

lemma same_frame_defaults: "same_frame cl (snd (apply_defaults specs cl))"
proof (induction specs cl rule: apply_defaults.induct)
  case (2 spec specs cl)
  then show ?case
    using same_frame_emplace [OF same_frame_refl, of cl] by (auto intro: same_frame_trans)
qed simp

lemma same_frame_positionals: "same_frame cl (snd (bind_positionals stod args cl))"
proof (induction stod args cl rule: bind_positionals.induct)
  case (2 stod arg args cl)
  have found: "same_frame cl (snd (findNextPositionalSpec cl))"
    by (simp add: findNextPositionalSpec_def same_frame_def arg_names_def case_prod_beta Let_def)
  show ?case
  proof (cases "findNextPositionalSpec cl")
    case (Pair spec cl')
    then have fr: "same_frame cl cl'" using found by simp
    show ?thesis
    proof (cases spec)
      case None
      then show ?thesis using 2(1) Pair fr same_frame_trans by (auto intro: same_frame_trans [OF fr] same_frame_trans [OF same_frame_next])
    next
      case (Some sp)
      obtain r av cl'' where b: "buildArgumentValue stod arg sp cl' = (r, av, cl'')" by (metis prod_cases3)
      have fr': "same_frame cl cl''" using same_frame_trans [OF fr same_frame_build [of cl' stod arg sp]] b by simp
      show ?thesis
        using 2(2) [OF Pair [symmetric] Some b [symmetric]] b Pair Some fr' same_frame_trans [OF same_frame_trans [OF fr' same_frame_next]]
        by (auto split: sum.split bool.split)
    qed
  qed
qed simp

section \<open>Required arguments\<close>

lemma parse_cases:
  assumes "parse stod argv cl = (Inr True, cl')"
  obtains cl1 where "same_frame (cl\<lparr>cl_rawArgv := cl_rawArgv cl1\<rparr>) cl1"
    "cl' = cl1" "length (cl_parsedArgs cl1) = 1" "exists_arg cl1 ''help''"
  | cl1 cl2 where "same_frame (cl\<lparr>cl_rawArgv := cl_rawArgv cl1\<rparr>) cl1" "validateRequiredArgs cl1"
    "applyDefaultValues cl1 = (True, cl2)" "parsePositionals stod cl2 = (Inr True, cl')"
proof -
  let ?cl0 = "cl\<lparr>cl_processName := hd (cl_rawArgv cl @ argv), cl_rawArgv := tl (cl_rawArgv cl @ argv)\<rparr>"
  obtain r cl1 where o: "parseOptions stod ?cl0 = (r, cl1)" by fastforce
  then have fr: "same_frame (cl\<lparr>cl_rawArgv := cl_rawArgv cl1\<rparr>) cl1"
    using same_frame_options [of ?cl0 stod "drop (cl_argIdx cl) (cl_rawArgv ?cl0)"]
    by (simp add: parseOptions_def same_frame_def arg_names_def)
  have "argv \<noteq> []" using assms by (auto simp: parse_def)
  then show ?thesis
    using assms o that(1) [OF fr] that(2) [OF fr]
    by (auto simp: parse_def Let_def split: sum.splits bool.splits if_splits prod.splits)
qed

text \<open>
  A command line that is accepted has every required option, unless it asks for help and nothing
  else: \<^verbatim>\<open>exists\<close> holds of the option and none of the getters throws for it.
\<close>

theorem parse_required:
  assumes "parse stod argv cl = (Inr True, cl')"
    and "spec \<in> set (cl_spec cl)" "isRequired spec" "\<not> isPositional spec"
    and "\<not> (length (cl_parsedArgs cl') = 1 \<and> exists_arg cl' ''help'')"
  shows "exists_arg cl' (as_name spec) \<and> getString cl' (as_name spec) \<noteq> Inl RuntimeError"
  using assms(1)
proof (cases rule: parse_cases)
  case (1 cl1)
  then show ?thesis using assms(5) by simp
next
  case (2 cl1 cl2)
  have "exists_arg cl1 (as_name spec)"
    using 2(1,2) assms(2-4) by (auto simp: validateRequiredArgs_def list_all_iff same_frame_def isPositional_def)
  moreover have "same_frame cl1 cl2"
    using same_frame_defaults [of cl1 "cl_spec cl1"] 2(3) by (simp add: applyDefaultValues_def)
  moreover have "same_frame cl2 cl'"
    using same_frame_positionals [of cl2 stod] 2(4) by (auto simp: parsePositionals_def Let_def split: if_splits) (metis snd_conv)
  ultimately have "exists_arg cl' (as_name spec)"
    by (auto simp: exists_arg_names same_frame_def)
  then show ?thesis
    by (auto simp: exists_arg_def getString_def get_arg_def)
qed

section \<open>Types of the values\<close>

text \<open>The value of an argument has the part of the type of its specification, and no other.\<close>

definition well_typed :: "'d::zero argument_spec \<Rightarrow> 'd argument_value \<Rightarrow> bool" where
  "well_typed spec v \<longleftrightarrow>
     (case spec_dataType spec of
        COMMANDLINE_DT_STRING \<Rightarrow> v = new_argument_value\<lparr>av_str := av_str v\<rparr>
      | COMMANDLINE_DT_INT \<Rightarrow> v = new_argument_value\<lparr>av_int := av_int v\<rparr>
      | COMMANDLINE_DT_DOUBLE \<Rightarrow> v = new_argument_value\<lparr>av_double := av_double v\<rparr>
      | COMMANDLINE_DT_BOOL \<Rightarrow> (\<exists>b. v = new_argument_value\<lparr>av_bool := Some b\<rparr>)
      | COMMANDLINE_DT_STRING_ARRAY \<Rightarrow> av_vs v \<noteq> [] \<and> v = new_argument_value\<lparr>av_vs := av_vs v\<rparr>
      | COMMANDLINE_DT_STRING_PAIR_ARRAY \<Rightarrow> av_vps v \<noteq> [] \<and> v = new_argument_value\<lparr>av_vps := av_vps v\<rparr>
      | COMMANDLINE_DT_UNKNOWN \<Rightarrow> False)"

definition entries_typed ::
  "('d::zero command_line \<Rightarrow> string \<Rightarrow> 'd argument_spec \<Rightarrow> bool) \<Rightarrow> 'd command_line \<Rightarrow> bool" where
  "entries_typed R cl \<longleftrightarrow>
     (\<forall>n v spec. n \<noteq> [] \<longrightarrow> smap_find (cl_parsedArgs cl) n = Some (v, spec) \<longrightarrow> R cl n spec \<and> well_typed spec v)"

definition named_by :: "'d command_line \<Rightarrow> string \<Rightarrow> 'd argument_spec \<Rightarrow> bool" where
  "named_by cl n spec \<longleftrightarrow> findOptionSpecByName cl n = Some spec"

definition in_spec :: "'d command_line \<Rightarrow> string \<Rightarrow> 'd argument_spec \<Rightarrow> bool" where
  "in_spec cl n spec \<longleftrightarrow> spec \<in> set (cl_spec cl) \<and> as_name spec = n"

lemma named_by_in_spec: "named_by cl n spec \<Longrightarrow> in_spec cl n spec"
  by (auto simp: named_by_def in_spec_def findOptionSpecByName_def find_Some_iff)

lemma entries_typed_mono: "entries_typed R cl \<Longrightarrow> (\<And>n spec. R cl n spec \<Longrightarrow> R' cl n spec) \<Longrightarrow> entries_typed R' cl"
  by (auto simp: entries_typed_def)

lemma named_by_spec: "cl_spec cl' = cl_spec cl \<Longrightarrow> named_by cl' = named_by cl"
  by (auto simp: named_by_def findOptionSpecByName_def fun_eq_iff)

lemma bind_parsed [simp]:
  "cl_parsedArgs (bind_variable spec f cl) = cl_parsedArgs cl" "cl_spec (bind_variable spec f cl) = cl_spec cl"
  by (simp_all add: bind_variable_def split: option.split)

text \<open>
  A value of an array type is appended, every other value leaves the parsed arguments alone.
\<close>

lemma build_scalar:
  assumes "buildArgumentValue stod v spec cl = (Inr True, av, cl')"
    and "spec_dataType spec \<noteq> COMMANDLINE_DT_STRING_ARRAY" "spec_dataType spec \<noteq> COMMANDLINE_DT_STRING_PAIR_ARRAY"
  shows "well_typed spec av \<and> cl_parsedArgs cl' = cl_parsedArgs cl \<and> cl_spec cl' = cl_spec cl"
  using assms
  by (cases "spec_dataType spec")
    (auto simp: buildArgumentValue_def Let_def well_typed_def new_argument_value_def conversion_error_def
      split: sum.splits if_splits)

lemma build_array:
  assumes "spec_dataType spec = COMMANDLINE_DT_STRING_ARRAY \<or> spec_dataType spec = COMMANDLINE_DT_STRING_PAIR_ARRAY"
  shows "\<exists>f. buildArgumentValue stod v spec cl =
      (Inr True, fst (append_parsed (as_name spec) f cl), bind_variable spec f (snd (append_parsed (as_name spec) f cl))) \<and>
    (\<forall>av. well_typed spec av \<longrightarrow> well_typed spec (f av)) \<and> well_typed spec (f new_argument_value)"
proof (cases "spec_dataType spec = COMMANDLINE_DT_STRING_ARRAY")
  case True
  let ?f = "\<lambda>av. av\<lparr>av_vs := av_vs av @ [v]\<rparr>"
  have "well_typed spec (?f av)" if "well_typed spec av" for av
    using that True by (cases av) (simp add: well_typed_def new_argument_value_def)
  then show ?thesis
    using True
    by (intro exI [of _ ?f]) (auto simp: buildArgumentValue_def Let_def case_prod_beta well_typed_def new_argument_value_def)
next
  case False
  then have t: "spec_dataType spec = COMMANDLINE_DT_STRING_PAIR_ARRAY" using assms by simp
  let ?f = "\<lambda>av. av\<lparr>av_vps := av_vps av @ [split_pair v (CHR ''='')]\<rparr>"
  have "well_typed spec (?f av)" if "well_typed spec av" for av
    using that t by (cases av) (simp add: well_typed_def new_argument_value_def)
  then show ?thesis
    using t
    by (intro exI [of _ ?f]) (auto simp: buildArgumentValue_def Let_def case_prod_beta well_typed_def new_argument_value_def)
qed

lemma build_entries:
  assumes "buildArgumentValue stod v spec cl = (r, av, cl')" "entries_typed R cl"
    and "\<And>av0 spec0. smap_find (cl_parsedArgs cl) (as_name spec) = Some (av0, spec0) \<Longrightarrow> as_name spec \<noteq> [] \<Longrightarrow> spec0 = spec"
    and "\<And>cl cl'. cl_spec cl' = cl_spec cl \<Longrightarrow> R cl' = R cl"
  shows "entries_typed R cl' \<and> cl_spec cl' = cl_spec cl \<and>
    (r = Inr True \<longrightarrow> smap_find (cl_parsedArgs cl') (as_name spec) = None \<longrightarrow> well_typed spec av)"
proof (cases "spec_dataType spec = COMMANDLINE_DT_STRING_ARRAY \<or> spec_dataType spec = COMMANDLINE_DT_STRING_PAIR_ARRAY")
  case True
  obtain f where f: "cl' = bind_variable spec f (snd (append_parsed (as_name spec) f cl))"
    "av = fst (append_parsed (as_name spec) f cl)"
    "\<And>av. well_typed spec av \<Longrightarrow> well_typed spec (f av)" "well_typed spec (f new_argument_value)"
    using build_array [OF True, of stod v cl] assms(1) by auto
  have "cl_spec cl' = cl_spec cl" using f(1) by (simp add: append_parsed_def split: option.split)
  then show ?thesis
    using f assms(2,3) assms(4) [of cl' cl]
    by (auto simp: append_parsed_def entries_typed_def smap_simps split: option.splits if_splits)
next
  case False
  show ?thesis
  proof (cases "r = Inr True")
    case True
    then show ?thesis
      using build_scalar [of stod v spec cl av cl'] False assms(1,2) assms(4) [of cl' cl] by (auto simp: entries_typed_def)
  next
    case fails: False
    then have "cl' = cl"
      using assms(1) False
      by (cases "spec_dataType spec") (auto simp: buildArgumentValue_def Let_def split: sum.splits)
    then show ?thesis using assms(2) fails by simp
  qed
qed

lemma add_option_typed:
  assumes "entries_typed named_by cl" "findOptionSpecByName cl n = Some spec"
  shows "entries_typed named_by (snd (add_option stod n v spec cl))"
proof -
  obtain r av cl' where b: "buildArgumentValue stod v spec cl = (r, av, cl')" by (metis prod_cases3)
  have n: "as_name spec = n" using assms(2) by (auto simp: findOptionSpecByName_def find_Some_iff)
  have "entries_typed named_by cl' \<and> cl_spec cl' = cl_spec cl \<and>
    (r = Inr True \<longrightarrow> smap_find (cl_parsedArgs cl') n = None \<longrightarrow> well_typed spec av)"
  proof -
    have "spec0 = spec" if "smap_find (cl_parsedArgs cl) (as_name spec) = Some (av0, spec0)" "as_name spec \<noteq> []" for av0 spec0
      using that assms n unfolding entries_typed_def named_by_def by (metis option.inject)
    from build_entries [OF b assms(1) this named_by_spec] show ?thesis using n by simp
  qed
  moreover have "named_by cl' n spec" if "cl_spec cl' = cl_spec cl"
    using named_by_spec [OF that] assms(2) by (simp add: named_by_def)
  ultimately show ?thesis
    using b named_by_spec [of "cl'\<lparr>cl_parsedArgs := smap_emplace n (av, spec) (cl_parsedArgs cl')\<rparr>" cl']
    by (auto simp: add_option_def entries_typed_def smap_simps split: sum.splits bool.splits if_splits)
qed

lemma parse_options_typed:
  "entries_typed named_by cl \<Longrightarrow> entries_typed named_by (snd (parse_options stod args cl))"
  by (rule parse_options_keeps [of "entries_typed named_by"],
      rule option_step_keeps [of "entries_typed named_by"], erule add_option_typed)
    (simp_all add: entries_typed_def next_arg_def named_by_def findOptionSpecByName_def)

lemma apply_defaults_typed:
  "entries_typed in_spec cl \<Longrightarrow> set specs \<subseteq> set (cl_spec cl) \<Longrightarrow> entries_typed in_spec (snd (apply_defaults specs cl))"
proof (induction specs cl rule: apply_defaults.induct)
  case (2 spec specs cl)
  let ?v = "default_argument (as_defaultValue spec)"
  have typed: "well_typed spec ?v" if "spec_dataType spec = default_dataType (as_defaultValue spec)" "hasDefaultValue spec"
    using that by (cases "as_defaultValue spec") (auto simp: well_typed_def default_argument_def hasDefaultValue_def new_argument_value_def)
  have "entries_typed in_spec (cl\<lparr>cl_parsedArgs := smap_emplace (as_name spec) (?v, spec) (cl_parsedArgs cl)\<rparr>)"
    if "spec_dataType spec = default_dataType (as_defaultValue spec)" "hasDefaultValue spec"
    using "2.prems" typed [OF that] by (auto simp: entries_typed_def in_spec_def smap_simps split: if_splits)
  then show ?case using 2 by auto
qed simp

lemma next_positional_unnamed: "next_positional specs idx = (Some spec, idx') \<Longrightarrow> as_name spec = []"
  by (induction specs idx rule: next_positional.induct) (auto split: if_splits)

lemma bind_positionals_typed:
  "entries_typed in_spec cl \<Longrightarrow> entries_typed in_spec (snd (bind_positionals stod args cl))"
proof (induction stod args cl rule: bind_positionals.induct)
  case (2 stod arg args cl)
  obtain spec cl' where found: "findNextPositionalSpec cl = (spec, cl')" by fastforce
  have typed': "entries_typed in_spec cl'"
    using "2.prems" found by (auto simp: findNextPositionalSpec_def entries_typed_def in_spec_def Let_def split: prod.splits)
  have next_typed: "entries_typed in_spec (next_arg c) \<longleftrightarrow> entries_typed in_spec c" for c :: "'a command_line"
    by (simp add: entries_typed_def in_spec_def next_arg_def)
  show ?case
  proof (cases spec)
    case None
    then show ?thesis using 2(1) found typed' next_typed by simp
  next
    case (Some sp)
    obtain r av cl'' where b: "buildArgumentValue stod arg sp cl' = (r, av, cl'')" by (metis prod_cases3)
    have "as_name sp = []"
      using found Some next_positional_unnamed by (auto simp: findNextPositionalSpec_def Let_def split: prod.splits)
    then have "entries_typed in_spec cl''"
      using build_entries [OF b typed'] by (auto simp: in_spec_def fun_eq_iff)
    then show ?thesis
      using 2(2) [OF found [symmetric] Some b [symmetric]] b found Some next_typed by (auto split: sum.split bool.split)
  qed
qed simp

text \<open>
  C29: Parsing is type safe: after any call of \<^verbatim>\<open>parse\<close> on a new command line, also one that fails, the
  value of every named argument has the type of a specification with that name.  In
  particular \<^verbatim>\<open>getBool\<close> of a boolean argument never reads the member that its constructor leaves
  uninitialised.
\<close>

theorem parse_well_typed:
  assumes "parse stod argv (new_command_line specs variables) = (r, cl)"
    and "name \<noteq> []" "smap_find (cl_parsedArgs cl) name = Some (v, spec)"
  shows "spec \<in> set specs \<and> as_name spec = name \<and> well_typed spec v \<and>
    (spec_dataType spec = COMMANDLINE_DT_BOOL \<longrightarrow> getBool cl name \<noteq> Inl Undefined)"
proof -
  let ?cl0 = "(new_command_line specs variables)\<lparr>cl_processName := hd argv, cl_rawArgv := tl argv\<rparr>"
  obtain r1 cl1 where o: "parseOptions stod ?cl0 = (r1, cl1)" by fastforce
  have "entries_typed named_by ?cl0" by (simp add: entries_typed_def new_command_line_def)
  then have "entries_typed named_by cl1"
    using parse_options_typed [of ?cl0 stod] o unfolding parseOptions_def by (metis snd_conv)
  then have cl1: "entries_typed in_spec cl1" by (rule entries_typed_mono) (rule named_by_in_spec)
  have specs1: "cl_spec cl1 = specs"
    using same_frame_options [of ?cl0 stod "drop (cl_argIdx ?cl0) (cl_rawArgv ?cl0)"] o
    by (simp add: parseOptions_def same_frame_def new_command_line_def)
  obtain a cl2 where d: "applyDefaultValues cl1 = (a, cl2)" by fastforce
  have cl2: "entries_typed in_spec cl2" "cl_spec cl2 = specs"
    using apply_defaults_typed [OF cl1 order_refl] same_frame_defaults [of cl1 "cl_spec cl1"] specs1 d
    by (simp_all add: applyDefaultValues_def same_frame_def)
  have cl3: "entries_typed in_spec (snd (parsePositionals stod cl2)) \<and> cl_spec (snd (parsePositionals stod cl2)) = specs"
    using bind_positionals_typed [OF cl2(1)] same_frame_positionals [of cl2 stod] cl2
    by (simp add: parsePositionals_def Let_def same_frame_def)
  have "entries_typed in_spec cl \<and> cl_spec cl = specs"
    using assms(1) o d cl1 specs1 cl2 cl3
    by (auto simp: parse_def Let_def new_command_line_def entries_typed_def split: if_splits sum.splits bool.splits)
  then have t: "spec \<in> set specs \<and> as_name spec = name \<and> well_typed spec v"
    using assms(2,3) by (auto simp: entries_typed_def in_spec_def)
  then show ?thesis
    using assms(3) by (auto simp: well_typed_def getBool_def get_arg_def bool_part_def)
qed

section \<open>Printing and parsing options\<close>

definition print_option :: "string \<times> string \<Rightarrow> string" where
  "print_option p = ''--'' @ fst p @ ''='' @ snd p"

definition values_of :: "string \<Rightarrow> (string \<times> string) list \<Rightarrow> string list" where
  "values_of n opts = map snd (filter (\<lambda>p. fst p = n) opts)"

definition text_option :: "'d argument_spec list \<Rightarrow> string \<Rightarrow> bool" where
  "text_option specs n \<longleftrightarrow> CHR ''='' \<notin> set n \<and>
     (case find (\<lambda>spec. as_name spec = n) specs of
        None \<Rightarrow> False
      | Some spec \<Rightarrow> spec_dataType spec = COMMANDLINE_DT_STRING \<or> spec_dataType spec = COMMANDLINE_DT_STRING_ARRAY)"

text \<open>
  A specification that asks for nothing but the names: no other option is required, no positional is,
  and the default values are of optional arguments and have their types.
\<close>

definition asks_only :: "'d argument_spec list \<Rightarrow> string set \<Rightarrow> bool" where
  "asks_only specs names \<longleftrightarrow>
     (\<forall>spec \<in> set specs.
        (isRequired spec \<longrightarrow> as_name spec \<in> names \<and> as_name spec \<noteq> [] \<and> \<not> hasDefaultValue spec) \<and>
        (hasDefaultValue spec \<longrightarrow> spec_dataType spec = default_dataType (as_defaultValue spec)))"

text \<open>The value of an option that has been given: the first string, or all strings of an array.\<close>

definition collected_value :: "'d::zero argument_spec \<Rightarrow> string list \<Rightarrow> 'd argument_value" where
  "collected_value spec vs =
     (if spec_dataType spec = COMMANDLINE_DT_STRING then new_argument_value\<lparr>av_str := hd vs\<rparr>
      else new_argument_value\<lparr>av_vs := vs\<rparr>)"

definition collected :: "(string \<times> string) list \<Rightarrow> 'd::zero command_line \<Rightarrow> bool" where
  "collected opts cl \<longleftrightarrow>
     (\<forall>n. smap_find (cl_parsedArgs cl) n =
        (if values_of n opts = [] then None
         else map_option (\<lambda>spec. (collected_value spec (values_of n opts), spec)) (findOptionSpecByName cl n)))"

lemma values_of_snoc: "values_of n (opts @ [(m, v)]) = values_of n opts @ (if n = m then [v] else [])"
  by (simp add: values_of_def)

lemma option_step_print:
  assumes "CHR ''='' \<notin> set n" "findOptionSpecByName cl n = Some spec"
  shows "option_step stod (print_option (n, v)) args cl = take_option stod n v spec args cl"
proof -
  have "takeWhile (\<lambda>c. c \<noteq> CHR ''='') (n @ CHR ''='' # v) = n" "dropWhile (\<lambda>c. c \<noteq> CHR ''='') (n @ CHR ''='' # v) = CHR ''='' # v"
    using assms(1) by (induction n) auto
  then show ?thesis
    using assms(2) by (simp add: option_step_def print_option_def second_def split_option_def)
qed

lemma add_option_collected:
  assumes "collected opts cl" "text_option (cl_spec cl) n"
  shows "\<exists>spec cl'. findOptionSpecByName cl n = Some spec \<and> add_option stod n v spec cl = (Inr True, cl') \<and>
    collected (opts @ [(n, v)]) cl' \<and> cl_spec cl' = cl_spec cl \<and> cl_argIdx cl' = cl_argIdx cl \<and> cl_rawArgv cl' = cl_rawArgv cl"
proof -
  obtain spec where spec: "findOptionSpecByName cl n = Some spec"
    and t: "spec_dataType spec = COMMANDLINE_DT_STRING \<or> spec_dataType spec = COMMANDLINE_DT_STRING_ARRAY"
    using assms(2) by (auto simp: text_option_def findOptionSpecByName_def split: option.splits)
  have n: "as_name spec = n" using spec by (auto simp: findOptionSpecByName_def find_Some_iff)
  let ?cl' = "snd (add_option stod n v spec cl)"
  have old: "smap_find (cl_parsedArgs cl) n =
      (if values_of n opts = [] then None else Some (collected_value spec (values_of n opts), spec))"
    using assms(1) spec by (simp add: collected_def)
  have frame: "cl_spec ?cl' = cl_spec cl \<and> cl_argIdx ?cl' = cl_argIdx cl \<and> cl_rawArgv ?cl' = cl_rawArgv cl \<and>
      fst (add_option stod n v spec cl) = Inr True"
    using t by (auto simp: add_option_def buildArgumentValue_def append_parsed_def bind_variable_def Let_def split: option.split)
  have find: "smap_find (cl_parsedArgs ?cl') m =
      (if m = n then Some (collected_value spec (values_of n opts @ [v]), spec) else smap_find (cl_parsedArgs cl) m)" for m
    using t old n
    by (cases "values_of n opts")
      (auto simp: add_option_def buildArgumentValue_def append_parsed_def Let_def smap_simps collected_value_def
        new_argument_value_def split: option.split)
  have "collected (opts @ [(n, v)]) ?cl'"
    using find assms(1) spec frame by (auto simp: collected_def values_of_snoc findOptionSpecByName_def)
  then show ?thesis using spec frame by (metis prod.collapse)
qed

lemma parse_options_print:
  assumes "\<forall>p \<in> set opts. text_option (cl_spec cl) (fst p)" "collected done cl"
  shows "\<exists>cl'. parse_options stod (map print_option opts) cl = (Inr True, cl') \<and> collected (done @ opts) cl' \<and>
    cl_spec cl' = cl_spec cl \<and> cl_argIdx cl' = cl_argIdx cl + length opts \<and> cl_rawArgv cl' = cl_rawArgv cl"
  using assms
proof (induction opts arbitrary: cl "done")
  case (Cons p opts)
  obtain n v where p: "p = (n, v)" by fastforce
  obtain spec cl1 where add: "findOptionSpecByName cl n = Some spec" "add_option stod n v spec cl = (Inr True, cl1)"
    "collected (done @ [(n, v)]) cl1" "cl_spec cl1 = cl_spec cl" "cl_argIdx cl1 = cl_argIdx cl" "cl_rawArgv cl1 = cl_rawArgv cl"
    using add_option_collected [OF Cons.prems(2), of n stod v] Cons.prems(1) p by auto
  have "collected (done @ [(n, v)]) (next_arg cl1)" "cl_spec (next_arg cl1) = cl_spec cl"
    using add by (simp_all add: next_arg_def collected_def findOptionSpecByName_def)
  then obtain cl' where "parse_options stod (map print_option opts) (next_arg cl1) = (Inr True, cl')"
    "collected ((done @ [(n, v)]) @ opts) cl'" "cl_spec cl' = cl_spec cl"
    "cl_argIdx cl' = cl_argIdx cl + length (p # opts)" "cl_rawArgv cl' = cl_rawArgv cl"
    using Cons.IH [of "next_arg cl1" "done @ [(n, v)]"] Cons.prems(1) add by (auto simp: next_arg_def)
  moreover have "CHR ''='' \<notin> set n" using Cons.prems(1) p by (simp add: text_option_def)
  ultimately show ?case
    using p option_step_print [OF _ add(1)] add(2) by (simp add: take_option_def)
qed auto

definition default_entry :: "'d::zero argument_spec list \<Rightarrow> string \<Rightarrow> ('d argument_value \<times> 'd argument_spec) option" where
  "default_entry specs n =
     (if n = [] then None
      else map_option (\<lambda>spec. (default_argument (as_defaultValue spec), spec))
        (find (\<lambda>spec. as_name spec = n \<and> hasDefaultValue spec) specs))"

lemma apply_defaults_lookup:
  assumes "\<forall>spec \<in> set specs. \<not> (isRequired spec \<and> hasDefaultValue spec) \<and>
      (hasDefaultValue spec \<longrightarrow> spec_dataType spec = default_dataType (as_defaultValue spec))"
  shows "\<exists>cl'. apply_defaults specs cl = (True, cl') \<and> cl_argIdx cl' = cl_argIdx cl \<and> cl_rawArgv cl' = cl_rawArgv cl \<and>
    cl_spec cl' = cl_spec cl \<and>
    (\<forall>n. smap_find (cl_parsedArgs cl') n =
       (case smap_find (cl_parsedArgs cl) n of None \<Rightarrow> default_entry specs n | Some x \<Rightarrow> Some x))"
  using assms
proof (induction specs arbitrary: cl)
  case Nil
  then show ?case by (auto simp: default_entry_def split: option.split)
next
  case (Cons spec specs)
  show ?case
  proof (cases "as_name spec = [] \<or> exists_arg cl (as_name spec) \<or> \<not> hasDefaultValue spec")
    case True
    then have "apply_defaults (spec # specs) cl = apply_defaults specs cl" using Cons.prems by auto
    moreover have "default_entry (spec # specs) n = default_entry specs n" if "smap_find (cl_parsedArgs cl) n = None" for n
      using True that by (auto simp: default_entry_def exists_arg_def)
    ultimately show ?thesis using Cons.IH [of cl] Cons.prems by (auto split: option.split)
  next
    case False
    let ?cl = "cl\<lparr>cl_parsedArgs := smap_emplace (as_name spec) (default_argument (as_defaultValue spec), spec) (cl_parsedArgs cl)\<rparr>"
    have "apply_defaults (spec # specs) cl = apply_defaults specs ?cl" using False Cons.prems by auto
    moreover have "(case smap_find (cl_parsedArgs ?cl) n of None \<Rightarrow> default_entry specs n | Some x \<Rightarrow> Some x) =
        (case smap_find (cl_parsedArgs cl) n of None \<Rightarrow> default_entry (spec # specs) n | Some x \<Rightarrow> Some x)" for n
      using False by (auto simp: smap_simps default_entry_def exists_arg_def split: option.split)
    ultimately show ?thesis using Cons.IH [of ?cl] Cons.prems by (auto simp del: apply_defaults.simps)
  qed
qed

text \<open>Everything the parser knows after a printed command line: the options given, then the default values.\<close>

lemma parse_print_lookup:
  assumes "\<forall>p \<in> set opts. text_option specs (fst p)" "asks_only specs (fst ` set opts)"
  shows "\<exists>cl. parse stod (process # map print_option opts) (new_command_line specs variables) = (Inr True, cl) \<and>
    (\<forall>p \<in> set opts. smap_find (cl_parsedArgs cl) (fst p) =
       map_option (\<lambda>spec. (collected_value spec (values_of (fst p) opts), spec)) (find (\<lambda>spec. as_name spec = fst p) specs)) \<and>
    (''help'' \<notin> fst ` set opts \<longrightarrow>
       (\<forall>n. n \<notin> fst ` set opts \<longrightarrow> smap_find (cl_parsedArgs cl) n = default_entry specs n))"
proof -
  let ?cl0 = "(new_command_line specs variables)\<lparr>cl_processName := process, cl_rawArgv := map print_option opts\<rparr>"
  have "collected [] ?cl0" "cl_spec ?cl0 = specs" by (simp_all add: collected_def new_command_line_def values_of_def)
  then obtain cl1 where p1: "parseOptions stod ?cl0 = (Inr True, cl1)" "collected opts cl1" "cl_spec cl1 = specs"
    "cl_argIdx cl1 = length opts" "cl_rawArgv cl1 = map print_option opts"
    using parse_options_print [of opts ?cl0 "[]" stod] assms(1) by (auto simp: parseOptions_def new_command_line_def)
  obtain cl2 where p2: "applyDefaultValues cl1 = (True, cl2)" "cl_argIdx cl2 = length opts"
    "cl_rawArgv cl2 = map print_option opts" "cl_spec cl2 = specs"
    "\<And>n. smap_find (cl_parsedArgs cl2) n =
       (case smap_find (cl_parsedArgs cl1) n of None \<Rightarrow> default_entry specs n | Some x \<Rightarrow> Some x)"
    using apply_defaults_lookup [of "cl_spec cl1" cl1] assms(2) p1 by (auto simp: applyDefaultValues_def asks_only_def)
  have given: "smap_find (cl_parsedArgs cl1) (fst p) =
      map_option (\<lambda>spec. (collected_value spec (values_of (fst p) opts), spec)) (find (\<lambda>spec. as_name spec = fst p) specs)"
    "exists_arg cl1 (fst p)" if "p \<in> set opts" for p
    using p1(2,3) that assms(1)
    by (auto simp: collected_def findOptionSpecByName_def values_of_def filter_empty_conv exists_arg_def text_option_def split: option.splits)
  have absent: "smap_find (cl_parsedArgs cl1) n = None" if "n \<notin> fst ` set opts" for n
    using p1(2) that by (auto simp: collected_def values_of_def filter_empty_conv)
  have "validateRequiredArgs cl1"
    using assms(2) p1(3) given(2) unfolding validateRequiredArgs_def list_all_iff asks_only_def by (metis imageE)
  moreover have "parsePositionals stod cl2 = (Inr True, cl2)"
    using p2 assms(2) by (auto simp: parsePositionals_def Let_def asks_only_def isPositional_def filter_empty_conv)
  ultimately obtain cl where cl: "parse stod (process # map print_option opts) (new_command_line specs variables) = (Inr True, cl)"
    "cl = (if length (cl_parsedArgs cl1) = 1 \<and> exists_arg cl1 ''help'' then cl1 else cl2)"
    using p1(1) p2(1)
    by (cases "length (cl_parsedArgs cl1) = 1 \<and> exists_arg cl1 ''help''") (auto simp: parse_def new_command_line_def)
  have "smap_find (cl_parsedArgs cl) (fst p) = smap_find (cl_parsedArgs cl1) (fst p)" if "p \<in> set opts" for p
    using cl(2) p2(5) given(2) [OF that] by (auto simp: exists_arg_def)
  moreover have "smap_find (cl_parsedArgs cl) n = default_entry specs n"
    if "''help'' \<notin> fst ` set opts" "n \<notin> fst ` set opts" for n
    using cl(2) p2(5) absent that by (auto simp: exists_arg_def)
  ultimately show ?thesis using cl(1) given(1) by auto
qed

text \<open>
  C28: Options written as \<^verbatim>\<open>--name=value\<close> come back from the parser: with a specification that asks
  for nothing else every such command line is accepted, a string option has its first
  value and an array option all its values in their order.
\<close>

theorem parse_print_roundtrip:
  assumes "\<forall>p \<in> set opts. text_option specs (fst p)" "asks_only specs (fst ` set opts)"
  shows "\<exists>cl. parse stod (process # map print_option opts) (new_command_line specs variables) = (Inr True, cl) \<and>
    (\<forall>p \<in> set opts. \<forall>spec. find (\<lambda>spec. as_name spec = fst p) specs = Some spec \<longrightarrow>
       (if spec_dataType spec = COMMANDLINE_DT_STRING then getString cl (fst p) = Inr (hd (values_of (fst p) opts))
        else getVS cl (fst p) [] = Inr (values_of (fst p) opts)))"
proof -
  obtain cl where "parse stod (process # map print_option opts) (new_command_line specs variables) = (Inr True, cl)"
    and "\<forall>p \<in> set opts. smap_find (cl_parsedArgs cl) (fst p) =
       map_option (\<lambda>spec. (collected_value spec (values_of (fst p) opts), spec)) (find (\<lambda>spec. as_name spec = fst p) specs)"
    using parse_print_lookup [OF assms] by blast
  then show ?thesis by (auto simp: getString_def getVS_def get_arg_def get_default_def collected_value_def)
qed

section \<open>A hyphen in the second place\<close>

text \<open>
  An argument whose second character is a hyphen is taken for an option, whatever its first
  character: a positional argument such as \<open>x-help\<close> is parsed exactly as \<open>--help\<close>.
\<close>

theorem parse_hyphen_positional:
  "parse_options stod ((c # CHR ''-'' # rest) # args) cl = parse_options stod ((''--'' @ rest) # args) cl"
  by (simp add: option_step_def second_def)

section \<open>A specification for evaluation\<close>

definition demo_specs :: "int argument_spec list" where
  "demo_specs =
     [\<lparr>as_name = ''help'', as_desc = ''Display usage'', as_typeInfo = \<lparr>ti_dataType = COMMANDLINE_DT_BOOL, ti_variable = None\<rparr>,
       as_occurrence = O_OPTIONAL, as_constraint = C_WITHOUT_ARG, as_defaultValue = NoDefault\<rparr>,
      \<lparr>as_name = ''host'', as_desc = ''Name of host'', as_typeInfo = \<lparr>ti_dataType = COMMANDLINE_DT_STRING, ti_variable = Some 7\<rparr>,
       as_occurrence = O_REQUIRED, as_constraint = C_WITH_ARG, as_defaultValue = NoDefault\<rparr>,
      \<lparr>as_name = ''arg'', as_desc = ''Arguments'', as_typeInfo = \<lparr>ti_dataType = COMMANDLINE_DT_STRING_ARRAY, ti_variable = None\<rparr>,
       as_occurrence = O_OPTIONAL, as_constraint = C_WITH_ARG, as_defaultValue = NoDefault\<rparr>,
      \<lparr>as_name = ''verbose'', as_desc = ''Verbosity'', as_typeInfo = \<lparr>ti_dataType = COMMANDLINE_DT_BOOL, ti_variable = None\<rparr>,
       as_occurrence = O_OPTIONAL, as_constraint = C_WITH_ARG, as_defaultValue = DefaultBool False\<rparr>]"

definition demo_parse :: "string list \<Rightarrow> bool result \<times> int command_line" where
  "demo_parse argv = parse (\<lambda>_. Inl InvalidArgument) argv (new_command_line demo_specs (\<lambda>_. new_argument_value))"

text \<open>
  An option that is given twice has its first value in the parsed arguments and its last value in
  the variable that is bound to it.
\<close>

theorem parse_repeated_option:
  "let cl = snd (demo_parse [''tool'', ''--host=a'', ''--host=b''])
   in getString cl ''host'' = Inr ''a'' \<and> av_str (cl_variables cl 7) = ''b''"
  by code_simp

section \<open>Witnesses\<close>

theorem parse_required_witness:
  "exists_arg (snd (demo_parse [''tool'', ''--host'', ''a''])) ''host''"
proof -
  let ?cl = "snd (demo_parse [''tool'', ''--host'', ''a''])"
  have "fst (demo_parse [''tool'', ''--host'', ''a'']) = Inr True" by code_simp
  then have p: "parse (\<lambda>_. Inl InvalidArgument) [''tool'', ''--host'', ''a''] (new_command_line demo_specs (\<lambda>_. new_argument_value)) = (Inr True, ?cl)"
    unfolding demo_parse_def by (metis prod.collapse)
  have "\<not> (length (cl_parsedArgs ?cl) = 1 \<and> exists_arg ?cl ''help'')" by code_simp
  then show ?thesis
    using parse_required [OF p, of "demo_specs ! 1"]
    by (simp add: new_command_line_def demo_specs_def isRequired_def isPositional_def)
qed

theorem parse_well_typed_witness:
  "getBool (snd (demo_parse [''tool'', ''--host'', ''a''])) ''verbose'' \<noteq> Inl Undefined"
proof -
  let ?cl = "snd (demo_parse [''tool'', ''--host'', ''a''])"
  have p: "parse (\<lambda>_. Inl InvalidArgument) [''tool'', ''--host'', ''a''] (new_command_line demo_specs (\<lambda>_. new_argument_value)) =
      (fst (demo_parse [''tool'', ''--host'', ''a'']), ?cl)"
    by (simp add: demo_parse_def)
  have "smap_find (cl_parsedArgs ?cl) ''verbose'' = Some (new_argument_value\<lparr>av_bool := Some False\<rparr>, demo_specs ! 3)"
    by code_simp
  from parse_well_typed [OF p _ this] show ?thesis by (simp add: demo_specs_def spec_dataType_def)
qed

theorem parse_print_roundtrip_witness:
  "\<exists>cl. demo_parse [''tool'', ''--arg=x'', ''--host=h'', ''--arg=y=z''] = (Inr True, cl) \<and>
     getVS cl ''arg'' [] = Inr [''x'', ''y=z'']"
proof -
  let ?opts = "[(''arg'', ''x''), (''host'', ''h''), (''arg'', ''y=z'')]"
  have t: "\<forall>p \<in> set ?opts. text_option demo_specs (fst p)" by code_simp
  have a: "asks_only demo_specs (fst ` set ?opts)"
    by (simp add: asks_only_def demo_specs_def isRequired_def hasDefaultValue_def spec_dataType_def)
  have "find (\<lambda>spec. as_name spec = fst (''arg'', ''x'')) demo_specs = Some (demo_specs ! 2)"
    "spec_dataType (demo_specs ! 2) \<noteq> COMMANDLINE_DT_STRING"
    by (simp_all add: demo_specs_def spec_dataType_def)
  then show ?thesis
    using parse_print_roundtrip [OF t a, of "\<lambda>_. Inl InvalidArgument" "''tool''" "\<lambda>_. new_argument_value"]
    by (auto simp: demo_parse_def print_option_def values_of_def)
qed

end
