(* ===== verification/Connection.thy ===== *)
theory Connection
  imports Commandline
begin

text \<open>
  \<^verbatim>\<open>buildboxcommon_connectionoptions.cpp\<close>, the description of its options for the command line
  parser in \<^verbatim>\<open>buildboxcommon_connectionoptions_commandline.cpp\<close>, and the bearer token that is
  reloaded from a file in \<^verbatim>\<open>buildboxcommon_reloadtokenauthenticator.cpp\<close>.

  A \<^verbatim>\<open>const char *\<close> member is an optional string; that the string it points to is still
  alive is not modelled.  Files are read by a function \<open>read_file\<close>, the clock is a number of
  nanoseconds.
\<close>

section \<open>Connection options\<close>

record connection_options =
  co_clientCert :: "string option"
  co_clientCertPath :: "string option"
  co_clientKey :: "string option"
  co_clientKeyPath :: "string option"
  co_accessTokenPath :: "string option"
  co_instanceName :: "string option"
  co_serverCert :: "string option"
  co_serverCertPath :: "string option"
  co_url :: "string option"
  co_useGoogleApiAuth :: bool
  co_tokenReloadInterval :: "string option"
  co_loadBalancingPolicy :: "string option"
  co_retryLimit :: "string option"
  co_retryDelay :: "string option"

definition new_connection_options :: connection_options where
  "new_connection_options =
     \<lparr>co_clientCert = None, co_clientCertPath = None, co_clientKey = None, co_clientKeyPath = None,
      co_accessTokenPath = None, co_instanceName = None, co_serverCert = None, co_serverCertPath = None,
      co_url = None, co_useGoogleApiAuth = False, co_tokenReloadInterval = None, co_loadBalancingPolicy = None,
      co_retryLimit = Some ''4'', co_retryDelay = Some ''1000''\<rparr>"

text \<open>The setters.\<close>

definition setClientCert :: "string \<Rightarrow> connection_options \<Rightarrow> connection_options" where
  "setClientCert value co = co\<lparr>co_clientCert := Some value\<rparr>"

definition setServerCertPath :: "string \<Rightarrow> connection_options \<Rightarrow> connection_options" where
  "setServerCertPath value co = co\<lparr>co_serverCertPath := Some value\<rparr>"

definition setClientKey :: "string \<Rightarrow> connection_options \<Rightarrow> connection_options" where
  "setClientKey value co = co\<lparr>co_clientKey := Some value\<rparr>"

definition setClientKeyPath :: "string \<Rightarrow> connection_options \<Rightarrow> connection_options" where
  "setClientKeyPath value co = co\<lparr>co_clientKeyPath := Some value\<rparr>"

definition setAccessTokenPath :: "string \<Rightarrow> connection_options \<Rightarrow> connection_options" where
  "setAccessTokenPath value co = co\<lparr>co_accessTokenPath := Some value\<rparr>"

definition setTokenReloadInterval :: "string \<Rightarrow> connection_options \<Rightarrow> connection_options" where
  "setTokenReloadInterval value co = co\<lparr>co_tokenReloadInterval := Some value\<rparr>"

definition setInstanceName :: "string \<Rightarrow> connection_options \<Rightarrow> connection_options" where
  "setInstanceName value co = co\<lparr>co_instanceName := Some value\<rparr>"

definition setRetryDelay :: "string \<Rightarrow> connection_options \<Rightarrow> connection_options" where
  "setRetryDelay value co = co\<lparr>co_retryDelay := Some value\<rparr>"

definition setRetryLimit :: "string \<Rightarrow> connection_options \<Rightarrow> connection_options" where
  "setRetryLimit value co = co\<lparr>co_retryLimit := Some value\<rparr>"

definition setServerCert :: "string \<Rightarrow> connection_options \<Rightarrow> connection_options" where
  "setServerCert value co = co\<lparr>co_serverCert := Some value\<rparr>"

definition setClientCertPath :: "string \<Rightarrow> connection_options \<Rightarrow> connection_options" where
  "setClientCertPath value co = co\<lparr>co_clientCertPath := Some value\<rparr>"

definition setUrl :: "string \<Rightarrow> connection_options \<Rightarrow> connection_options" where
  "setUrl value co = co\<lparr>co_url := Some value\<rparr>"

definition setUseGoogleApiAuth :: "bool \<Rightarrow> connection_options \<Rightarrow> connection_options" where
  "setUseGoogleApiAuth value co = co\<lparr>co_useGoogleApiAuth := value\<rparr>"

definition setLoadBalancingPolicy :: "string \<Rightarrow> connection_options \<Rightarrow> connection_options" where
  "setLoadBalancingPolicy value co = co\<lparr>co_loadBalancingPolicy := Some value\<rparr>"

lemmas setters = setClientCert_def setServerCertPath_def setClientKey_def setClientKeyPath_def setAccessTokenPath_def
  setTokenReloadInterval_def setInstanceName_def setRetryDelay_def setRetryLimit_def setServerCert_def
  setClientCertPath_def setUrl_def setUseGoogleApiAuth_def setLoadBalancingPolicy_def

text \<open>The chain of comparisons of the key in \<^verbatim>\<open>parseArg\<close>.\<close>

definition assign_option :: "string \<Rightarrow> string \<Rightarrow> connection_options \<Rightarrow> bool \<times> connection_options" where
  "assign_option key value co =
     (if key = ''remote'' then (True, co\<lparr>co_url := Some value\<rparr>)
      else if key = ''instance'' then (True, co\<lparr>co_instanceName := Some value\<rparr>)
      else if key = ''server-cert'' then (True, co\<lparr>co_serverCertPath := Some value\<rparr>)
      else if key = ''client-key'' then (True, co\<lparr>co_clientKeyPath := Some value\<rparr>)
      else if key = ''client-cert'' then (True, co\<lparr>co_clientCertPath := Some value\<rparr>)
      else if key = ''access-token'' then (True, co\<lparr>co_accessTokenPath := Some value\<rparr>)
      else if key = ''retry-limit'' then (True, co\<lparr>co_retryLimit := Some value\<rparr>)
      else if key = ''retry-delay'' then (True, co\<lparr>co_retryDelay := Some value\<rparr>)
      else if key = ''token-reload-interval'' then (True, co\<lparr>co_tokenReloadInterval := Some value\<rparr>)
      else if key = ''load-balancing-policy'' then (True, co\<lparr>co_loadBalancingPolicy := Some value\<rparr>)
      else (False, co))"

definition parseArg :: "string \<Rightarrow> string option \<Rightarrow> connection_options \<Rightarrow> bool \<times> connection_options" where
  "parseArg arg prefix co =
     (if take 2 arg \<noteq> ''--'' then (False, co)
      else
        (let arg1 = drop 2 arg
         in if (case prefix of None \<Rightarrow> False | Some p \<Rightarrow> take (length p) arg1 \<noteq> p) then (False, co)
            else
              (let arg2 = (case prefix of None \<Rightarrow> arg1 | Some p \<Rightarrow> drop (length p) arg1)
               in case split_option arg2 of
                    (key, Some value) \<Rightarrow> assign_option key value co
                  | (_, None) \<Rightarrow>
                      if arg2 = ''googleapi-auth'' then (True, co\<lparr>co_useGoogleApiAuth := True\<rparr>) else (False, co))))"

definition put_option :: "string \<Rightarrow> string \<Rightarrow> string option \<Rightarrow> string list" where
  "put_option p key value = (case value of None \<Rightarrow> [] | Some v \<Rightarrow> [''--'' @ p @ key @ ''='' @ v])"

definition putArgs :: "string option \<Rightarrow> connection_options \<Rightarrow> string list" where
  "putArgs prefix co =
     (let p = (case prefix of None \<Rightarrow> [] | Some p \<Rightarrow> p)
      in put_option p ''remote'' (co_url co) @
         put_option p ''instance'' (co_instanceName co) @
         put_option p ''server-cert'' (co_serverCertPath co) @
         put_option p ''client-key'' (co_clientKeyPath co) @
         put_option p ''client-cert'' (co_clientCertPath co) @
         put_option p ''access-token'' (co_accessTokenPath co) @
         put_option p ''token-reload-interval'' (co_tokenReloadInterval co) @
         put_option p ''retry-limit'' (co_retryLimit co) @
         put_option p ''retry-delay'' (co_retryDelay co) @
         (if co_useGoogleApiAuth co then [''--googleapi-auth''] else []) @
         put_option p ''load-balancing-policy'' (co_loadBalancingPolicy co))"

section \<open>The reloaded token\<close>

text \<open>
  \<open>ra_refresh_duration\<close> is \<open>None\<close> while the member is uninitialised, which is the case when there is no
  interval; the time that is computed from it is as indeterminate.
\<close>

record authenticator =
  ra_token_path :: string
  ra_token_string :: string
  ra_next_refresh_time :: "int option"
  ra_refresh_duration :: "int option"
  ra_skip_refresh :: bool

definition toupper :: "char \<Rightarrow> char" where
  "toupper c = (let n = of_char c :: nat in if 97 \<le> n \<and> n \<le> 122 then char_of (n - 32) else c)"

text \<open>The product of two 32-bit integers is undefined when it overflows.\<close>

definition ParseTime :: "string \<Rightarrow> int result" where
  "ParseTime refresh_time =
     (if refresh_time = [] then Inl InvalidArgument
      else
        (let back_char = toupper (last refresh_time);
             multiplier = (if back_char = CHR ''M'' then 60 else if back_char = CHR ''H'' then 60 * 60 else 60);
             suffix = (if back_char = CHR ''M'' \<or> back_char = CHR ''H'' then 1 else 0)
         in case stoi_pos refresh_time of
              Inl e \<Rightarrow> Inl e
            | Inr (n, pos) \<Rightarrow>
                if n * multiplier < - (2 ^ 31) \<or> n * multiplier \<ge> 2 ^ 31 then Inl Undefined
                else if length refresh_time - suffix \<noteq> pos then Inl InvalidArgument
                else Inr (n * multiplier)))"

definition SetNextRefreshTimeFromNow :: "int \<Rightarrow> authenticator \<Rightarrow> authenticator" where
  "SetNextRefreshTimeFromNow current_time a =
     a\<lparr>ra_next_refresh_time := map_option (\<lambda>d. current_time + d * 1000000000) (ra_refresh_duration a)\<rparr>"

definition bearer :: "string \<Rightarrow> string" where
  "bearer contents = ''Bearer '' @ trim contents"

definition TrimAndSetToken :: "(string \<Rightarrow> string result) \<Rightarrow> int \<Rightarrow> authenticator \<Rightarrow> unit result \<times> authenticator" where
  "TrimAndSetToken read_file current_time a =
     (case read_file (ra_token_path a) of
        Inl e \<Rightarrow> (Inl e, a)
      | Inr contents \<Rightarrow> (Inr (), SetNextRefreshTimeFromNow current_time (a\<lparr>ra_token_string := bearer contents\<rparr>)))"

definition new_authenticator ::
  "(string \<Rightarrow> string result) \<Rightarrow> int \<Rightarrow> string \<Rightarrow> string option \<Rightarrow> authenticator result" where
  "new_authenticator read_file current_time token_path refresh_time =
     (let a = \<lparr>ra_token_path = token_path, ra_token_string = [], ra_next_refresh_time = Some 0,
               ra_refresh_duration = None, ra_skip_refresh = False\<rparr>
      in case (case refresh_time of
                 None \<Rightarrow> Inr (a\<lparr>ra_skip_refresh := True\<rparr>)
               | Some t \<Rightarrow> map_sum id (\<lambda>d. a\<lparr>ra_refresh_duration := Some d\<rparr>) (ParseTime t)) of
           Inl e \<Rightarrow> Inl e
         | Inr a1 \<Rightarrow>
             (case TrimAndSetToken read_file current_time a1 of
                (Inl e, _) \<Rightarrow> Inl e
              | (Inr _, a2) \<Rightarrow> Inr a2))"

text \<open>\<open>locked\<close> says whether \<^verbatim>\<open>try_lock\<close> succeeds.\<close>

definition RefreshTokenIfNeeded ::
  "(string \<Rightarrow> string result) \<Rightarrow> int \<Rightarrow> bool \<Rightarrow> authenticator \<Rightarrow> unit result \<times> authenticator" where
  "RefreshTokenIfNeeded read_file current_time locked a =
     (case ra_next_refresh_time a of
        None \<Rightarrow> (Inl Undefined, a)
      | Some next_refresh_time \<Rightarrow>
          if current_time \<ge> next_refresh_time \<and> locked then TrimAndSetToken read_file current_time a else (Inr (), a))"

definition GetMetadata ::
  "(string \<Rightarrow> string result) \<Rightarrow> int \<Rightarrow> bool \<Rightarrow> authenticator \<Rightarrow> (string \<times> string) result \<times> authenticator" where
  "GetMetadata read_file current_time locked a =
     (case (if \<not> ra_skip_refresh a then RefreshTokenIfNeeded read_file current_time locked a else (Inr (), a)) of
        (Inl e, a') \<Rightarrow> (Inl e, a')
      | (Inr _, a') \<Rightarrow> (Inr (''authorization'', ra_token_string a'), a'))"

section \<open>Channels\<close>

text \<open>
  \<open>google\<close> says whether \<^verbatim>\<open>grpc::GoogleDefaultCredentials\<close> gives credentials.  A channel is the target,
  the credentials and the load balancing policy.
\<close>

record ssl_options =
  pem_root_certs :: string
  pem_private_key :: string
  pem_cert_chain :: string

datatype credentials =
    InsecureCredentials
  | GoogleCredentials
  | SslCredentials ssl_options
  | CompositeCredentials ssl_options authenticator

record channel =
  ch_target :: string
  ch_credentials :: credentials
  ch_policy :: "string option"

definition url_target :: "string \<Rightarrow> (string \<times> bool) result" where
  "url_target url =
     (if take 7 url = ''http://'' then Inr (drop 7 url, False)
      else if take 7 url = ''grpc://'' then Inr (drop 7 url, False)
      else if take 8 url = ''https://'' then Inr (drop 8 url, True)
      else if take 8 url = ''grpcs://'' then Inr (drop 8 url, True)
      else if take 5 url = ''unix:'' then Inr (url, False)
      else Inl RuntimeError)"

definition pem_option :: "(string \<Rightarrow> string result) \<Rightarrow> string option \<Rightarrow> string option \<Rightarrow> string result" where
  "pem_option read_file value path =
     (case value of
        Some v \<Rightarrow> Inr v
      | None \<Rightarrow> (case path of Some p \<Rightarrow> read_file p | None \<Rightarrow> Inr []))"

definition secure_credentials ::
  "(string \<Rightarrow> string result) \<Rightarrow> bool \<Rightarrow> int \<Rightarrow> connection_options \<Rightarrow> credentials result" where
  "secure_credentials read_file google current_time co =
     (case pem_option read_file (co_serverCert co) (co_serverCertPath co) of
        Inl e \<Rightarrow> Inl e
      | Inr root_certs \<Rightarrow>
          (case pem_option read_file (co_clientKey co) (co_clientKeyPath co) of
             Inl e \<Rightarrow> Inl e
           | Inr private_key \<Rightarrow>
               (case pem_option read_file (co_clientCert co) (co_clientCertPath co) of
                  Inl e \<Rightarrow> Inl e
                | Inr cert_chain \<Rightarrow>
                    (let options = \<lparr>pem_root_certs = root_certs, pem_private_key = private_key, pem_cert_chain = cert_chain\<rparr>
                     in if co_accessTokenPath co \<noteq> None \<and> co_useGoogleApiAuth co then Inl RuntimeError
                        else if co_useGoogleApiAuth co then if google then Inr GoogleCredentials else Inl RuntimeError
                        else
                          (case co_accessTokenPath co of
                             None \<Rightarrow> Inr (SslCredentials options)
                           | Some token_path \<Rightarrow>
                               map_sum id (CompositeCredentials options)
                                 (new_authenticator read_file current_time token_path (co_tokenReloadInterval co)))))))"

definition secure_only :: "connection_options \<Rightarrow> bool" where
  "secure_only co \<longleftrightarrow>
     co_serverCert co \<noteq> None \<or> co_serverCertPath co \<noteq> None \<or> co_clientKey co \<noteq> None \<or> co_clientKeyPath co \<noteq> None \<or>
     co_clientCert co \<noteq> None \<or> co_clientCertPath co \<noteq> None \<or> co_accessTokenPath co \<noteq> None \<or> co_useGoogleApiAuth co"

definition createChannel ::
  "(string \<Rightarrow> string result) \<Rightarrow> bool \<Rightarrow> int \<Rightarrow> connection_options \<Rightarrow> channel result" where
  "createChannel read_file google current_time co =
     (case co_url co of
        None \<Rightarrow> Inl Undefined
      | Some url \<Rightarrow>
          (case url_target url of
             Inl e \<Rightarrow> Inl e
           | Inr (target, secure) \<Rightarrow>
               (case (if secure then secure_credentials read_file google current_time co
                      else if secure_only co then Inl RuntimeError
                      else Inr InsecureCredentials) of
                  Inl e \<Rightarrow> Inl e
                | Inr creds \<Rightarrow>
                    Inr \<lparr>ch_target = target, ch_credentials = creds, ch_policy = co_loadBalancingPolicy co\<rparr>)))"

section \<open>The options on the command line\<close>

definition connection_spec :: "string \<Rightarrow> string \<Rightarrow> data_type \<Rightarrow> 'd default_value \<Rightarrow> 'd argument_spec" where
  "connection_spec name desc t d =
     \<lparr>as_name = name, as_desc = desc, as_typeInfo = \<lparr>ti_dataType = t, ti_variable = None\<rparr>,
      as_occurrence = O_OPTIONAL, as_constraint = C_WITH_ARG, as_defaultValue = d\<rparr>"

definition connectionOptionsSpec :: "string \<Rightarrow> string \<Rightarrow> bool \<Rightarrow> 'd argument_spec list" where
  "connectionOptionsSpec serviceName p connectionRequired =
     [(connection_spec (p @ ''remote'') (''URL for the '' @ serviceName @ '' service'') COMMANDLINE_DT_STRING NoDefault)
        \<lparr>as_occurrence := if connectionRequired then O_REQUIRED else O_OPTIONAL\<rparr>,
      connection_spec (p @ ''instance'') (''Name of the '' @ serviceName @ '' instance'') COMMANDLINE_DT_STRING (DefaultString []),
      connection_spec (p @ ''server-cert'') (''Public server certificate for '' @ serviceName @ '' TLS (PEM-encoded)'')
        COMMANDLINE_DT_STRING NoDefault,
      connection_spec (p @ ''client-key'') (''Private client key for '' @ serviceName @ '' TLS (PEM-encoded)'')
        COMMANDLINE_DT_STRING NoDefault,
      connection_spec (p @ ''client-cert'') (''Private client certificate for '' @ serviceName @ '' TLS (PEM-encoded)'')
        COMMANDLINE_DT_STRING NoDefault,
      connection_spec (p @ ''access-token'') (''Access Token for authentication '' @ serviceName @
        '' (e.g. JWT, OAuth access token, etc), will be included as an HTTP Authorization bearer token'')
        COMMANDLINE_DT_STRING NoDefault,
      connection_spec (p @ ''token-reload-interval'') ''How long to wait before refreshing access token''
        COMMANDLINE_DT_STRING NoDefault,
      connection_spec (p @ ''googleapi-auth'') (''Use GoogleAPIAuth for '' @ serviceName @ '' service'')
        COMMANDLINE_DT_BOOL (DefaultBool False),
      connection_spec (p @ ''retry-limit'') (''Number of times to retry on grpc errors for '' @ serviceName @ '' service'')
        COMMANDLINE_DT_STRING (DefaultString ''4''),
      connection_spec (p @ ''retry-delay'')
        (''How long to wait in milliseconds before the first grpc retry for '' @ serviceName @ '' service'')
        COMMANDLINE_DT_STRING (DefaultString ''1000''),
      connection_spec (p @ ''load-balancing-policy'') (''Which grpc load balancing policy to use for '' @ serviceName @
        '' service.'' @ [CHR 0x0A] @ ''Valid options are '' @ [CHR 0x27] @ ''round_robin'' @ [CHR 0x27] @
        '' and '' @ [CHR 0x27] @ ''grpclb'' @ [CHR 0x27])
        COMMANDLINE_DT_STRING NoDefault]"

text \<open>\<^verbatim>\<open>cml.exists(name) ? cml.getString(name).c_str() : nullptr\<close>.\<close>

definition string_option :: "'d command_line \<Rightarrow> string \<Rightarrow> string option" where
  "string_option cml name =
     (if exists_arg cml name then (case getString cml name of Inr s \<Rightarrow> Some s | Inl _ \<Rightarrow> None) else None)"

text \<open>The channel that is a null pointer is left out; a boolean argument of another type is read uninitialised.\<close>

definition configureChannel :: "'d command_line \<Rightarrow> string \<Rightarrow> connection_options \<Rightarrow> connection_options result" where
  "configureChannel cml p co =
     (case (if exists_arg cml (p @ ''googleapi-auth'') then getBool cml (p @ ''googleapi-auth'') else Inr False) of
        Inl e \<Rightarrow> Inl e
      | Inr google \<Rightarrow>
          Inr (co\<lparr>co_url := string_option cml (p @ ''remote''),
                  co_instanceName := string_option cml (p @ ''instance''),
                  co_serverCertPath := string_option cml (p @ ''server-cert''),
                  co_clientKeyPath := string_option cml (p @ ''client-key''),
                  co_clientCertPath := string_option cml (p @ ''client-cert''),
                  co_accessTokenPath := string_option cml (p @ ''access-token''),
                  co_tokenReloadInterval := string_option cml (p @ ''token-reload-interval''),
                  co_useGoogleApiAuth := google,
                  co_retryLimit := string_option cml (p @ ''retry-limit''),
                  co_retryDelay := string_option cml (p @ ''retry-delay''),
                  co_loadBalancingPolicy := string_option cml (p @ ''load-balancing-policy'')\<rparr>))"

section \<open>Printing and parsing\<close>

text \<open>Parsing a list of arguments, which succeeds when every argument is recognised.\<close>

fun parse_all :: "string option \<Rightarrow> string list \<Rightarrow> connection_options \<Rightarrow> bool \<times> connection_options" where
  "parse_all prefix [] co = (True, co)"
| "parse_all prefix (arg # args) co =
     (let (r, co1) = parseArg arg prefix co;
          (rs, co2) = parse_all prefix args co1
      in (r \<and> rs, co2))"

definition prefix_string :: "string option \<Rightarrow> string" where
  "prefix_string prefix = (case prefix of None \<Rightarrow> [] | Some p \<Rightarrow> p)"

lemma split_option_key: "CHR ''='' \<notin> set key \<Longrightarrow> split_option (key @ CHR ''='' # value) = (key, Some value)"
  by (induction key) (auto simp: split_option_def)

lemma parseArg_put:
  assumes "CHR ''='' \<notin> set key"
  shows "parseArg (''--'' @ prefix_string prefix @ key @ ''='' @ value) prefix co = assign_option key value co"
  using split_option_key [OF assms] by (cases prefix) (simp_all add: parseArg_def prefix_string_def)

text \<open>One printed option, when the field it sets is empty before.\<close>

lemma parse_all_put:
  assumes "CHR ''='' \<notin> set key" "\<And>v. assign_option key v co = (True, f (Some v))" "f None = co \<or> value \<noteq> None"
  shows "parse_all prefix (put_option (prefix_string prefix) key value @ args) co = parse_all prefix args (f value)"
  using parseArg_put [OF assms(1), of prefix _ co] assms(2,3)
  by (cases "value") (auto simp: put_option_def case_prod_beta)

lemma putArgs_parsed:
  assumes "co_retryLimit co \<noteq> None" "co_retryDelay co \<noteq> None"
    and "co_useGoogleApiAuth co \<longrightarrow> prefix = None \<or> prefix = Some []"
  shows "parse_all prefix (putArgs prefix co) new_connection_options =
    (True, co\<lparr>co_clientCert := None, co_clientKey := None, co_serverCert := None\<rparr>)"
proof -
  let ?c0 = new_connection_options
  let ?c1 = "?c0\<lparr>co_url := co_url co\<rparr>"
  let ?c2 = "?c1\<lparr>co_instanceName := co_instanceName co\<rparr>"
  let ?c3 = "?c2\<lparr>co_serverCertPath := co_serverCertPath co\<rparr>"
  let ?c4 = "?c3\<lparr>co_clientKeyPath := co_clientKeyPath co\<rparr>"
  let ?c5 = "?c4\<lparr>co_clientCertPath := co_clientCertPath co\<rparr>"
  let ?c6 = "?c5\<lparr>co_accessTokenPath := co_accessTokenPath co\<rparr>"
  let ?c7 = "?c6\<lparr>co_tokenReloadInterval := co_tokenReloadInterval co\<rparr>"
  let ?c8 = "?c7\<lparr>co_retryLimit := co_retryLimit co\<rparr>"
  let ?c9 = "?c8\<lparr>co_retryDelay := co_retryDelay co\<rparr>"
  let ?c10 = "?c9\<lparr>co_useGoogleApiAuth := co_useGoogleApiAuth co\<rparr>"
  let ?c11 = "?c10\<lparr>co_loadBalancingPolicy := co_loadBalancingPolicy co\<rparr>"
  note eval = assign_option_def new_connection_options_def
  have s1: "parse_all prefix (put_option (prefix_string prefix) ''remote'' (co_url co) @ args) ?c0 = parse_all prefix args ?c1" for args
    by (rule parse_all_put [where f = "\<lambda>v. ?c0\<lparr>co_url := v\<rparr>"]) (use assms in \<open>simp_all add: eval\<close>)
  have s2: "parse_all prefix (put_option (prefix_string prefix) ''instance'' (co_instanceName co) @ args) ?c1 = parse_all prefix args ?c2" for args
    by (rule parse_all_put [where f = "\<lambda>v. ?c1\<lparr>co_instanceName := v\<rparr>"]) (use assms in \<open>simp_all add: eval\<close>)
  have s3: "parse_all prefix (put_option (prefix_string prefix) ''server-cert'' (co_serverCertPath co) @ args) ?c2 = parse_all prefix args ?c3" for args
    by (rule parse_all_put [where f = "\<lambda>v. ?c2\<lparr>co_serverCertPath := v\<rparr>"]) (use assms in \<open>simp_all add: eval\<close>)
  have s4: "parse_all prefix (put_option (prefix_string prefix) ''client-key'' (co_clientKeyPath co) @ args) ?c3 = parse_all prefix args ?c4" for args
    by (rule parse_all_put [where f = "\<lambda>v. ?c3\<lparr>co_clientKeyPath := v\<rparr>"]) (use assms in \<open>simp_all add: eval\<close>)
  have s5: "parse_all prefix (put_option (prefix_string prefix) ''client-cert'' (co_clientCertPath co) @ args) ?c4 = parse_all prefix args ?c5" for args
    by (rule parse_all_put [where f = "\<lambda>v. ?c4\<lparr>co_clientCertPath := v\<rparr>"]) (use assms in \<open>simp_all add: eval\<close>)
  have s6: "parse_all prefix (put_option (prefix_string prefix) ''access-token'' (co_accessTokenPath co) @ args) ?c5 = parse_all prefix args ?c6" for args
    by (rule parse_all_put [where f = "\<lambda>v. ?c5\<lparr>co_accessTokenPath := v\<rparr>"]) (use assms in \<open>simp_all add: eval\<close>)
  have s7: "parse_all prefix (put_option (prefix_string prefix) ''token-reload-interval'' (co_tokenReloadInterval co) @ args) ?c6 = parse_all prefix args ?c7" for args
    by (rule parse_all_put [where f = "\<lambda>v. ?c6\<lparr>co_tokenReloadInterval := v\<rparr>"]) (use assms in \<open>simp_all add: eval\<close>)
  have s8: "parse_all prefix (put_option (prefix_string prefix) ''retry-limit'' (co_retryLimit co) @ args) ?c7 = parse_all prefix args ?c8" for args
    by (rule parse_all_put [where f = "\<lambda>v. ?c7\<lparr>co_retryLimit := v\<rparr>"]) (use assms in \<open>simp_all add: eval\<close>)
  have s9: "parse_all prefix (put_option (prefix_string prefix) ''retry-delay'' (co_retryDelay co) @ args) ?c8 = parse_all prefix args ?c9" for args
    by (rule parse_all_put [where f = "\<lambda>v. ?c8\<lparr>co_retryDelay := v\<rparr>"]) (use assms in \<open>simp_all add: eval\<close>)
  have s11: "parse_all prefix (put_option (prefix_string prefix) ''load-balancing-policy'' (co_loadBalancingPolicy co) @ args) ?c10 = parse_all prefix args ?c11" for args
    by (rule parse_all_put [where f = "\<lambda>v. ?c10\<lparr>co_loadBalancingPolicy := v\<rparr>"]) (use assms in \<open>simp_all add: eval\<close>)
  have google: "parse_all prefix ((if co_useGoogleApiAuth co then [''--googleapi-auth''] else []) @ args) ?c9 =
      parse_all prefix args ?c10" for args
    using assms(3) by (auto simp: parseArg_def split_option_def new_connection_options_def case_prod_beta)
  have "parse_all prefix (putArgs prefix co @ []) ?c0 = (True, ?c11)"
    unfolding putArgs_def Let_def prefix_string_def [symmetric] append_assoc s1 s2 s3 s4 s5 s6 s7 s8 s9 google s11
    by simp
  also have "?c11 = co\<lparr>co_clientCert := None, co_clientKey := None, co_serverCert := None\<rparr>"
    by (cases co) (simp add: new_connection_options_def)
  finally show ?thesis by simp
qed

text \<open>
  The arguments that \<^verbatim>\<open>putArgs\<close> makes for the runner are all recognised by \<^verbatim>\<open>parseArg\<close> with the same
  prefix and give the same options, up to the certificates and keys that are held in memory and have
  no argument; a prefix together with Google authentication is excluded.
\<close>

theorem putArgs_roundtrip:
  assumes "co_retryLimit co \<noteq> None" "co_retryDelay co \<noteq> None"
    and "co_useGoogleApiAuth co \<longrightarrow> prefix = None \<or> prefix = Some []"
  shows "parse_all prefix (putArgs prefix co) new_connection_options =
    (True, co\<lparr>co_clientCert := None, co_clientKey := None, co_serverCert := None\<rparr>)"
  using assms by (rule putArgs_parsed)

theorem putArgs_roundtrip_witness:
  "parse_all (Some ''cas-'') (putArgs (Some ''cas-'') (setUrl ''http://[::1]:50051'' (setInstanceName ''a=b'' new_connection_options)))
     new_connection_options =
   (True, setUrl ''http://[::1]:50051'' (setInstanceName ''a=b'' new_connection_options))"
  using putArgs_roundtrip [of "setUrl ''http://[::1]:50051'' (setInstanceName ''a=b'' new_connection_options)" "Some ''cas-''"]
  by (simp add: setters new_connection_options_def)

text \<open>
  With a prefix, the argument that \<^verbatim>\<open>putArgs\<close> makes for Google authentication is not recognised by
  \<^verbatim>\<open>parseArg\<close> with the same prefix.
\<close>

theorem putArgs_google_prefix:
  assumes "co_useGoogleApiAuth co" "p \<noteq> []"
  shows "''--googleapi-auth'' \<in> set (putArgs (Some p) co) \<and> parseArg ''--googleapi-auth'' (Some p) co' = (False, co')"
proof -
  have "drop (length p) ''googleapi-auth'' \<noteq> ''googleapi-auth''"
  proof
    assume "drop (length p) ''googleapi-auth'' = ''googleapi-auth''"
    then have "length ''googleapi-auth'' - length p = length ''googleapi-auth''" by (metis length_drop)
    then show False using assms(2) by (cases p) auto
  qed
  moreover have "snd (split_option (drop (length p) ''googleapi-auth'')) = None"
    using in_set_dropD [of "CHR ''=''" "length p" "''googleapi-auth''"] by (auto simp: split_option_def)
  ultimately show ?thesis
    using assms by (auto simp: putArgs_def Let_def parseArg_def split: prod.split option.split)
qed

theorem putArgs_google_prefix_witness:
  "parseArg ''--googleapi-auth'' (Some ''cas-'') new_connection_options = (False, new_connection_options)"
  using putArgs_google_prefix [of "setUseGoogleApiAuth True new_connection_options" "''cas-''" new_connection_options]
  by (simp add: setters)

section \<open>Secure channels\<close>

text \<open>
  C15: A channel is encrypted exactly when the scheme of its URL is that of a secure connection, and
  options that only make sense for such a connection (certificates, keys, tokens) never go
  into an insecure channel.
\<close>

theorem createChannel_secure:
  assumes "createChannel read_file google current_time co = Inr ch"
  shows "\<exists>url. co_url co = Some url \<and>
    (ch_credentials ch \<noteq> InsecureCredentials \<longleftrightarrow> take 8 url = ''https://'' \<or> take 8 url = ''grpcs://'') \<and>
    (secure_only co \<longrightarrow> ch_credentials ch \<noteq> InsecureCredentials)"
proof -
  have prefix: "take 7 url = take 7 s \<and> take 5 url = take 5 s" if "take 8 url = s" for url s :: string
    using that by (auto simp: min_def)
  have schemes: "take 8 url = ''https://'' \<or> take 8 url = ''grpcs://'' \<Longrightarrow>
      take 7 url \<noteq> ''http://'' \<and> take 7 url \<noteq> ''grpc://'' \<and> take 5 url \<noteq> ''unix:''" for url :: string
    using prefix [of url] by fastforce
  have secure: "creds \<noteq> InsecureCredentials" if "secure_credentials read_file google current_time co = Inr creds" for creds
    using that
    by (cases "new_authenticator read_file current_time (the (co_accessTokenPath co)) (co_tokenReloadInterval co)")
      (auto simp: secure_credentials_def Let_def split: sum.splits if_splits option.splits)
  show ?thesis
    using assms schemes secure
    by (auto simp: createChannel_def url_target_def split: option.splits sum.splits if_splits)
qed

theorem createChannel_secure_witness:
  "\<exists>url. co_url (setAccessTokenPath ''/token'' (setUrl ''https://cas'' new_connection_options)) = Some url \<and>
     take 8 url = ''https://''"
proof -
  let ?co = "setAccessTokenPath ''/token'' (setUrl ''https://cas'' new_connection_options)"
  have "\<exists>ch. createChannel (\<lambda>_. Inr ''secret'') False 0 ?co = Inr ch \<and> secure_only ?co"
    by (simp add: createChannel_def secure_credentials_def url_target_def pem_option_def new_authenticator_def TrimAndSetToken_def
        setters new_connection_options_def secure_only_def)
  then obtain ch where "createChannel (\<lambda>_. Inr ''secret'') False 0 ?co = Inr ch" "secure_only ?co" by blast
  with createChannel_secure [OF this(1)] show ?thesis by (auto simp: setters)
qed

section \<open>The interval of the reload\<close>

definition unit_seconds :: "string \<Rightarrow> int option" where
  "unit_seconds u =
     (if u = [] \<or> u = ''M'' \<or> u = ''m'' then Some 60 else if u = ''H'' \<or> u = ''h'' then Some 3600 else None)"

text \<open>
  An interval written as a number and an optional unit, minutes or hours, is that time in seconds, as
  long as it fits 32 bits.
\<close>

theorem ParseTime_units:
  assumes "unit_seconds u = Some m" "- (2 ^ 31) \<le> n * m" "n * m < 2 ^ 31"
  shows "ParseTime (show_int n @ u) = Inr (n * m)"
proof -
  have m: "m = 60 \<and> u \<in> {[], ''M'', ''m''} \<or> m = 3600 \<and> u \<in> {''H'', ''h''}"
    using assms(1) by (auto simp: unit_seconds_def split: if_splits)
  have "- (2 ^ 31) \<le> n" "n < 2 ^ 31" using assms(2,3) m by auto
  then have stoi: "stoi_pos (show_int n @ u) = Inr (n, length (show_int n))"
    using m by (intro stoi_show) (auto simp: is_digit_def)
  have ne: "show_int n \<noteq> []" using show_nat_value by (auto simp: show_int_def)
  have "list_all is_digit (show_nat k)" "show_nat k \<noteq> []" for k using show_nat_value by auto
  then have "is_digit (last (show_nat k))" for k by (metis last_in_set list_all_iff)
  then have "is_digit (last (show_int n))" using show_nat_value by (auto simp: show_int_def)
  then have last: "toupper (last (show_int n)) \<noteq> CHR ''M''" "toupper (last (show_int n)) \<noteq> CHR ''H''"
    by (auto simp: is_digit_def toupper_def Let_def split: if_splits)
  have "toupper (CHR ''M'') = CHR ''M''" "toupper (CHR ''m'') = CHR ''M''" "toupper (CHR ''H'') = CHR ''H''"
    "toupper (CHR ''h'') = CHR ''H''"
    by code_simp+
  then show ?thesis
    using stoi m ne last assms(2,3) by (auto simp: ParseTime_def Let_def)
qed

theorem ParseTime_units_witness: "ParseTime ''12h'' = Inr 43200"
proof -
  have "show_int 12 = ''12''" by code_simp
  then show ?thesis using ParseTime_units [of "''h''" 3600 12] by (simp add: unit_seconds_def)
qed

section \<open>The options through the command line parser\<close>

definition pair_option :: "string \<Rightarrow> string option \<Rightarrow> (string \<times> string) list" where
  "pair_option name value = (case value of None \<Rightarrow> [] | Some v \<Rightarrow> [(name, v)])"

definition option_pairs :: "string \<Rightarrow> connection_options \<Rightarrow> (string \<times> string) list" where
  "option_pairs p co =
     pair_option (p @ ''remote'') (co_url co) @
     pair_option (p @ ''instance'') (co_instanceName co) @
     pair_option (p @ ''server-cert'') (co_serverCertPath co) @
     pair_option (p @ ''client-key'') (co_clientKeyPath co) @
     pair_option (p @ ''client-cert'') (co_clientCertPath co) @
     pair_option (p @ ''access-token'') (co_accessTokenPath co) @
     pair_option (p @ ''token-reload-interval'') (co_tokenReloadInterval co) @
     pair_option (p @ ''retry-limit'') (co_retryLimit co) @
     pair_option (p @ ''retry-delay'') (co_retryDelay co) @
     pair_option (p @ ''load-balancing-policy'') (co_loadBalancingPolicy co)"

lemma put_pair: "put_option p key value = map print_option (pair_option (p @ key) value)"
  by (simp add: put_option_def pair_option_def print_option_def split: option.split)

lemma putArgs_pairs: "\<not> co_useGoogleApiAuth co \<Longrightarrow> putArgs (Some p) co = map print_option (option_pairs p co)"
  by (simp add: putArgs_def option_pairs_def put_pair)

lemma values_of_append [simp]: "values_of n (xs @ ys) = values_of n xs @ values_of n ys"
  by (simp add: values_of_def)

lemma values_of_pair [simp]:
  "values_of n (pair_option m value) = (if n = m then (case value of None \<Rightarrow> [] | Some v \<Rightarrow> [v]) else [])"
  by (simp add: values_of_def pair_option_def split: option.split)

lemma names_pair [simp]: "fst ` set (pair_option m value) = (if value = None then {} else {m})"
  by (cases "value") (simp_all add: pair_option_def)

text \<open>The ten string options of the specification, with the field and the default value of each.\<close>

definition string_keys :: "(string \<times> (connection_options \<Rightarrow> string option) \<times> string option) list" where
  "string_keys =
     [(''remote'', co_url, None), (''instance'', co_instanceName, Some []), (''server-cert'', co_serverCertPath, None),
      (''client-key'', co_clientKeyPath, None), (''client-cert'', co_clientCertPath, None),
      (''access-token'', co_accessTokenPath, None), (''token-reload-interval'', co_tokenReloadInterval, None),
      (''retry-limit'', co_retryLimit, Some ''4''), (''retry-delay'', co_retryDelay, Some ''1000''),
      (''load-balancing-policy'', co_loadBalancingPolicy, None)]"

lemmas spec_eval = connectionOptionsSpec_def connection_spec_def spec_dataType_def default_entry_def hasDefaultValue_def
  default_argument_def new_argument_value_def

lemma option_pairs_keys: "option_pairs p co = concat (map (\<lambda>(key, field, d). pair_option (p @ key) (field co)) string_keys)"
  by (simp add: option_pairs_def string_keys_def)

lemma string_keys_distinct: "distinct (map fst string_keys)"
  by (simp add: string_keys_def)

lemma img_snd: "(a, b) \<in> set xs \<Longrightarrow> a \<in> fst ` set xs"
  by force

lemma pairs_values:
  assumes "distinct (map fst keys)" "(key, field, d) \<in> set keys"
  shows "values_of (p @ key) (concat (map (\<lambda>(key, field, d). pair_option (p @ key) (field co)) keys)) =
    (case field co of None \<Rightarrow> [] | Some v \<Rightarrow> [v])"
  using assms
proof (induction keys)
  case (Cons k keys)
  have "values_of (p @ key) (concat (map (\<lambda>(key, field, d). pair_option (p @ key) (field co)) keys)) = []"
    if "key \<notin> fst ` set keys"
    using that by (induction keys) (auto simp: values_of_def [of _ "[]"])
  then show ?case using Cons by (cases k) (auto split: option.split dest: img_snd)
qed simp

lemma pairs_names:
  "fst ` set (concat (map (\<lambda>(key, field, d). pair_option (p @ key) (field co)) keys)) =
     {p @ key |key field d. (key, field, d) \<in> set keys \<and> field co \<noteq> None}"
proof (induction keys)
  case (Cons k keys)
  obtain key field d where k: "k = (key, field, d)" by (cases k) auto
  have "fst ` set (concat (map (\<lambda>(key, field, d). pair_option (p @ key) (field co)) (k # keys))) =
      fst ` set (pair_option (p @ key) (field co)) \<union>
      fst ` set (concat (map (\<lambda>(key, field, d). pair_option (p @ key) (field co)) keys))"
    using k by (simp add: image_Un)
  then show ?case unfolding Cons.IH names_pair using k by auto
qed simp

text \<open>What the specification says of a string option: its type and its default value.\<close>

lemma string_keys_spec:
  "list_all (\<lambda>(key, field, d). CHR ''='' \<notin> set key \<and> length key > 4 \<and>
     map_option spec_dataType (find (\<lambda>spec. as_name spec = p @ key) (connectionOptionsSpec svc p r)) = Some COMMANDLINE_DT_STRING \<and>
     map_option (av_str \<circ> fst) (default_entry (connectionOptionsSpec svc p r) (p @ key)) = d) string_keys"
  by (simp add: string_keys_def spec_eval)

lemma parsed_string_options:
  fixes stod :: "string \<Rightarrow> 'd::zero result"
  assumes "CHR ''='' \<notin> set p" "co_url co \<noteq> None"
  shows "\<exists>cl. parse stod (process # map print_option (option_pairs p co))
      (new_command_line (connectionOptionsSpec svc p True) variables) = (Inr True, cl) \<and>
    list_all (\<lambda>(key, field, d). field co \<noteq> None \<or> d = None \<longrightarrow> string_option cl (p @ key) = field co) string_keys \<and>
    exists_arg cl (p @ ''googleapi-auth'') \<and> getBool cl (p @ ''googleapi-auth'') = Inr False"
proof -
  let ?specs = "connectionOptionsSpec svc p True :: 'd argument_spec list" and ?opts = "option_pairs p co"
  note names = pairs_names [of p co string_keys, folded option_pairs_keys]
  note vals = pairs_values [OF string_keys_distinct, of _ _ _ p co, folded option_pairs_keys]
  have key: "CHR ''='' \<notin> set key" "length key > 4"
    "\<exists>spec. find (\<lambda>spec. as_name spec = p @ key) ?specs = Some spec \<and> spec_dataType spec = COMMANDLINE_DT_STRING"
    "map_option (av_str \<circ> fst) (default_entry ?specs (p @ key)) = d"
    if "(key, field, d) \<in> set string_keys" for key field d
    using string_keys_spec [of p svc True] that by (auto simp: list_all_iff)
  have "text_option ?specs n" if "n \<in> fst ` set ?opts" for n
  proof -
    obtain key field d where n: "n = p @ key" "(key, field, d) \<in> set string_keys" using \<open>n \<in> _\<close> unfolding names by blast
    then show ?thesis using key(1,3) [OF n(2)] assms(1) by (auto simp: text_option_def)
  qed
  then have texts: "\<forall>q \<in> set ?opts. text_option ?specs (fst q)" by blast
  have "(''remote'', co_url, None) \<in> set string_keys" by (simp add: string_keys_def)
  then have asks: "asks_only ?specs (fst ` set ?opts)"
    using assms(2) unfolding names by (auto simp: asks_only_def spec_eval isRequired_def)
  obtain cl where cl: "parse stod (process # map print_option ?opts) (new_command_line ?specs variables) = (Inr True, cl)"
    and given: "\<And>n. n \<in> fst ` set ?opts \<Longrightarrow> smap_find (cl_parsedArgs cl) n =
       map_option (\<lambda>spec. (collected_value spec (values_of n ?opts), spec)) (find (\<lambda>spec. as_name spec = n) ?specs)"
    and absent: "\<And>n. ''help'' \<notin> fst ` set ?opts \<Longrightarrow> n \<notin> fst ` set ?opts \<Longrightarrow> smap_find (cl_parsedArgs cl) n = default_entry ?specs n"
    using parse_print_lookup [OF texts asks] by blast
  have "n \<noteq> ''help''" if "n \<in> fst ` set ?opts" for n
  proof -
    obtain key field d where n: "n = p @ key" "(key, field, d) \<in> set string_keys" using \<open>n \<in> _\<close> unfolding names by blast
    then have "length n > length ''help''" using key(2) [OF n(2)] by simp
    then show ?thesis by blast
  qed
  then have no_help: "''help'' \<notin> fst ` set ?opts" by blast
  have option: "string_option cl (p @ key) = field co"
    if k: "(key, field, d) \<in> set string_keys" and f: "field co \<noteq> None \<or> d = None" for key field d
  proof (cases "field co")
    case None
    then have "p @ key \<notin> fst ` set ?opts" using vals [OF k] by (auto simp: values_of_def filter_empty_conv)
    then show ?thesis
      using absent [OF no_help] key(4) [OF k] f None by (auto simp: string_option_def exists_arg_def)
  next
    case (Some v)
    then have "p @ key \<in> fst ` set ?opts" using k unfolding names by blast
    then show ?thesis
      using given [of "p @ key"] key(3) [OF k] vals [OF k] Some
      by (auto simp: string_option_def exists_arg_def getString_def get_arg_def collected_value_def)
  qed
  have "p @ ''googleapi-auth'' \<notin> fst ` set ?opts" unfolding names by (simp add: string_keys_def)
  then have "smap_find (cl_parsedArgs cl) (p @ ''googleapi-auth'') = default_entry ?specs (p @ ''googleapi-auth'')"
    by (rule absent [OF no_help])
  then have "exists_arg cl (p @ ''googleapi-auth'') \<and> getBool cl (p @ ''googleapi-auth'') = Inr False"
    by (simp add: exists_arg_def getBool_def get_arg_def bool_part_def spec_eval)
  then show ?thesis using cl option by (intro exI [of _ cl]) (auto simp: list_all_iff)
qed



text \<open>
  The flag \<^verbatim>\<open>putArgs\<close> makes for Google authentication is an option with an argument in the specification:
  the command line parser rejects it.
\<close>

theorem googleapi_auth_flag_rejected:
  "fst (parse (\<lambda>_. Inl InvalidArgument) (''runner'' # putArgs None (setUseGoogleApiAuth True (setUrl ''https://cas'' new_connection_options)))
     (new_command_line (connectionOptionsSpec ''CAS'' [] True) (\<lambda>_. new_argument_value :: int argument_value))) = Inr False"
  by code_simp

end
