(* ===== verification/Token_Reload.thy ===== *)
theory Token_Reload
  imports Connection
begin

text \<open>
  The reload of the bearer token under concurrent calls: \<^verbatim>\<open>ReloadTokenAuthenticator\<close> is shared by the
  threads that issue requests.

  A step relation interleaves the threads inside of \<^verbatim>\<open>GetMetadata\<close>: each reads the time of the next refresh,
  tries the lock, reads the file, stores the token and the next time, and reads the token for its
  request.  The file is rewritten and the clock advances at any time, reading can fail, and
  \<^verbatim>\<open>try_lock\<close> may fail although the lock is free, as the standard allows.  The token has a lock of its
  own that is held from storing it until the next time is stored: no thread reads the token then.
\<close>

section \<open>The machine\<close>

datatype reload_pc = Idle | Due | Locked | HasRead string | Stored | Ready

record reload_state =
  rs_auth :: authenticator
  rs_file :: string
  rs_history :: "string list"
  rs_clock :: int
  rs_lock :: "nat option"
  rs_pc :: "nat \<Rightarrow> reload_pc"
  rs_sent :: "(nat \<times> string) list"

definition goto :: "nat \<Rightarrow> reload_pc \<Rightarrow> reload_state \<Rightarrow> reload_state" where
  "goto i pc s = s\<lparr>rs_pc := (rs_pc s)(i := pc)\<rparr>"

inductive reload_step :: "reload_state \<Rightarrow> reload_state \<Rightarrow> bool" where
  write_file: "reload_step s (s\<lparr>rs_file := c, rs_history := c # rs_history s\<rparr>)"
| tick: "rs_clock s \<le> t \<Longrightarrow> reload_step s (s\<lparr>rs_clock := t\<rparr>)"
| skip: "rs_pc s i = Idle \<Longrightarrow> ra_skip_refresh (rs_auth s) \<Longrightarrow> reload_step s (goto i Ready s)"
| fresh: "rs_pc s i = Idle \<Longrightarrow> \<not> ra_skip_refresh (rs_auth s) \<Longrightarrow> ra_next_refresh_time (rs_auth s) = Some t \<Longrightarrow>
    rs_clock s < t \<Longrightarrow> reload_step s (goto i Ready s)"
| due: "rs_pc s i = Idle \<Longrightarrow> \<not> ra_skip_refresh (rs_auth s) \<Longrightarrow> ra_next_refresh_time (rs_auth s) = Some t \<Longrightarrow>
    rs_clock s \<ge> t \<Longrightarrow> reload_step s (goto i Due s)"
| lock: "rs_pc s i = Due \<Longrightarrow> rs_lock s = None \<Longrightarrow> reload_step s (goto i Locked (s\<lparr>rs_lock := Some i\<rparr>))"
| busy: "rs_pc s i = Due \<Longrightarrow> reload_step s (goto i Ready s)"
| read: "rs_pc s i = Locked \<Longrightarrow> reload_step s (goto i (HasRead (rs_file s)) s)"
| read_fails: "rs_pc s i = Locked \<Longrightarrow> reload_step s (goto i Idle (s\<lparr>rs_lock := None\<rparr>))"
| store: "rs_pc s i = HasRead c \<Longrightarrow>
    reload_step s (goto i Stored (s\<lparr>rs_auth := (rs_auth s)\<lparr>ra_token_string := bearer c\<rparr>\<rparr>))"
| release: "rs_pc s i = Stored \<Longrightarrow>
    reload_step s (goto i Ready (s\<lparr>rs_auth := SetNextRefreshTimeFromNow (rs_clock s) (rs_auth s), rs_lock := None\<rparr>))"
| send: "rs_pc s i = Ready \<Longrightarrow> \<forall>j. rs_pc s j \<noteq> Stored \<Longrightarrow>
    reload_step s (goto i Idle (s\<lparr>rs_sent := (i, ra_token_string (rs_auth s)) # rs_sent s\<rparr>))"

text \<open>The start: an authenticator that has just been made from a file with some contents.\<close>

definition reload_start :: "authenticator \<Rightarrow> string \<Rightarrow> int \<Rightarrow> reload_state" where
  "reload_start a c t =
     \<lparr>rs_auth = a, rs_file = c, rs_history = [c], rs_clock = t, rs_lock = None, rs_pc = (\<lambda>_. Idle), rs_sent = []\<rparr>"

abbreviation reload_run :: "reload_state \<Rightarrow> reload_state \<Rightarrow> bool" where
  "reload_run \<equiv> reload_step\<^sup>*\<^sup>*"

section \<open>Safety\<close>

definition reloading :: "reload_pc \<Rightarrow> bool" where
  "reloading pc \<longleftrightarrow> (case pc of Locked \<Rightarrow> True | HasRead _ \<Rightarrow> True | Stored \<Rightarrow> True | _ \<Rightarrow> False)"

lemma reloading_simps [simp]:
  "reloading Locked" "reloading (HasRead c)" "reloading Stored" "\<not> reloading Idle" "\<not> reloading Due" "\<not> reloading Ready"
  by (simp_all add: reloading_def)

definition from_file :: "reload_state \<Rightarrow> string \<Rightarrow> bool" where
  "from_file s t \<longleftrightarrow> (\<exists>c \<in> set (rs_history s). t = bearer c)"

definition reload_inv :: "reload_state \<Rightarrow> bool" where
  "reload_inv s \<longleftrightarrow>
     (\<forall>i. reloading (rs_pc s i) \<longleftrightarrow> rs_lock s = Some i) \<and>
     (\<forall>i c. rs_pc s i = HasRead c \<longrightarrow> c \<in> set (rs_history s)) \<and>
     rs_file s \<in> set (rs_history s) \<and>
     from_file s (ra_token_string (rs_auth s)) \<and>
     (\<forall>(i, t) \<in> set (rs_sent s). from_file s t)"

lemma next_refresh_token [simp]:
  "ra_token_string (SetNextRefreshTimeFromNow t a) = ra_token_string a"
  "ra_skip_refresh (SetNextRefreshTimeFromNow t a) = ra_skip_refresh a"
  "ra_token_path (SetNextRefreshTimeFromNow t a) = ra_token_path a"
  by (simp_all add: SetNextRefreshTimeFromNow_def)

lemma reload_inv_step: "reload_step s s' \<Longrightarrow> reload_inv s \<Longrightarrow> reload_inv s'"
proof (induction rule: reload_step.induct)
  case (write_file s c)
  then show ?case by (fastforce simp: reload_inv_def from_file_def)
qed (auto simp: reload_inv_def from_file_def goto_def split: if_splits; metis reloading_simps)+

lemma reload_inv_run: "reload_run s s' \<Longrightarrow> reload_inv s \<Longrightarrow> reload_inv s'"
  by (induction rule: rtranclp_induct) (auto intro: reload_inv_step)

lemma reload_inv_start:
  "new_authenticator read_file t path interval = Inr a \<Longrightarrow> read_file path = Inr c \<Longrightarrow> reload_inv (reload_start a c t)"
  by (auto simp: new_authenticator_def TrimAndSetToken_def reload_inv_def reload_start_def from_file_def Let_def
      map_sum_def split: sum.splits option.splits)

text \<open>
  C17: However the threads are interleaved with each other and with rewritings of the file, at most one
  thread reloads the token at a time, and every token that is sent is that of some contents the
  file has had: none is half written or mixed.
\<close>

theorem reload_safe:
  assumes "new_authenticator read_file t path interval = Inr a" "read_file path = Inr c"
    and "reload_run (reload_start a c t) s"
  shows "(reloading (rs_pc s i) \<and> reloading (rs_pc s j) \<longrightarrow> i = j) \<and>
    (\<forall>(i, token) \<in> set (rs_sent s). \<exists>contents \<in> set (rs_history s). token = ''Bearer '' @ trim contents)"
  using reload_inv_run [OF assms(3) reload_inv_start [OF assms(1,2)]]
  by (fastforce simp: reload_inv_def from_file_def bearer_def)

section \<open>Progress\<close>

text \<open>A call that runs alone takes the steps of \<^verbatim>\<open>GetMetadata\<close>.\<close>

lemma run_release:
  assumes "rs_pc s i = Locked"
  shows "reload_run s (goto i Ready (s\<lparr>rs_auth := SetNextRefreshTimeFromNow (rs_clock s)
      ((rs_auth s)\<lparr>ra_token_string := bearer (rs_file s)\<rparr>), rs_lock := None\<rparr>))"
proof -
  let ?s1 = "goto i (HasRead (rs_file s)) s"
  let ?s2 = "goto i Stored (?s1\<lparr>rs_auth := (rs_auth ?s1)\<lparr>ra_token_string := bearer (rs_file s)\<rparr>\<rparr>)"
  have "reload_step s ?s1" "reload_step ?s1 ?s2"
    "reload_step ?s2 (goto i Ready (?s2\<lparr>rs_auth := SetNextRefreshTimeFromNow (rs_clock ?s2) (rs_auth ?s2), rs_lock := None\<rparr>))"
    by (rule reload_step.read [OF assms] reload_step.store reload_step.release; simp add: goto_def)+
  moreover have "goto i Ready (?s2\<lparr>rs_auth := SetNextRefreshTimeFromNow (rs_clock ?s2) (rs_auth ?s2), rs_lock := None\<rparr>) =
      goto i Ready (s\<lparr>rs_auth := SetNextRefreshTimeFromNow (rs_clock s)
        ((rs_auth s)\<lparr>ra_token_string := bearer (rs_file s)\<rparr>), rs_lock := None\<rparr>)"
    by (simp add: goto_def)
  ultimately show ?thesis by (metis rtranclp.simps)
qed

lemma lock_released:
  assumes inv: "reload_inv s"
  shows "\<exists>s'. reload_run s s' \<and> rs_lock s' = None"
proof (cases "rs_lock s")
  case (Some j)
  then have "reloading (rs_pc s j)" using inv by (simp add: reload_inv_def)
  then consider "rs_pc s j = Locked" | d where "rs_pc s j = HasRead d" | "rs_pc s j = Stored"
    by (cases "rs_pc s j") auto
  then obtain s' where "reload_run s s'" "rs_lock s' = None"
  proof cases
    case 1
    show ?thesis using that [OF r_into_rtranclp, OF reload_step.read_fails [OF 1]] by (simp add: goto_def)
  next
    case 2
    let ?s = "goto j Stored (s\<lparr>rs_auth := (rs_auth s)\<lparr>ra_token_string := bearer d\<rparr>\<rparr>)"
    have "rs_pc ?s j = Stored" by (simp add: goto_def)
    show ?thesis
      using that [OF rtranclp.rtrancl_into_rtrancl, OF r_into_rtranclp, OF reload_step.store [OF 2]
          reload_step.release [OF \<open>rs_pc ?s j = Stored\<close>]]
      by (simp add: goto_def)
  next
    case 3
    show ?thesis using that [OF r_into_rtranclp, OF reload_step.release [OF 3]] by (simp add: goto_def)
  qed
  then show ?thesis by blast
qed blast

lemma call_alone:
  assumes inv: "reload_inv s"
    and idle: "rs_lock s = None \<and> rs_pc s i = Idle \<and> \<not> ra_skip_refresh (rs_auth s) \<and>
      ra_next_refresh_time (rs_auth s) = Some n \<and> n \<le> rs_clock s"
  shows "\<exists>s'. reload_run s s' \<and> hd (rs_sent s') = (i, bearer (rs_file s)) \<and>
    GetMetadata (\<lambda>_. Inr (rs_file s)) (rs_clock s) True (rs_auth s) = (Inr (''authorization'', snd (hd (rs_sent s'))), rs_auth s')"
proof -
  let ?s1 = "goto i Due s" and ?s2 = "goto i Locked (goto i Due s\<lparr>rs_lock := Some i\<rparr>)"
  let ?s3 = "goto i Ready (?s2\<lparr>rs_auth := SetNextRefreshTimeFromNow (rs_clock ?s2)
      ((rs_auth ?s2)\<lparr>ra_token_string := bearer (rs_file ?s2)\<rparr>), rs_lock := None\<rparr>)"
  have "reload_step s ?s1" using idle by (intro reload_step.due) auto
  moreover have "reload_step ?s1 ?s2" by (rule reload_step.lock) (use idle in \<open>simp_all add: goto_def\<close>)
  ultimately have "reload_run s ?s2" by (metis rtranclp.simps)
  moreover have "reload_run ?s2 ?s3" by (rule run_release) (simp add: goto_def)
  moreover have "reload_step ?s3 (goto i Idle (?s3\<lparr>rs_sent := (i, ra_token_string (rs_auth ?s3)) # rs_sent ?s3\<rparr>))"
  proof (rule reload_step.send)
    have "rs_pc s j \<noteq> Stored" for j using inv idle by (metis option.distinct(1) reload_inv_def reloading_simps(3))
    then show "\<forall>j. rs_pc ?s3 j \<noteq> Stored" by (simp add: goto_def)
  qed (simp add: goto_def)
  ultimately have "reload_run s (goto i Idle (?s3\<lparr>rs_sent := (i, ra_token_string (rs_auth ?s3)) # rs_sent ?s3\<rparr>))"
    by (meson rtranclp.rtrancl_into_rtrancl rtranclp_trans)
  then show ?thesis
    using idle
    by (intro exI [of _ "goto i Idle (?s3\<lparr>rs_sent := (i, ra_token_string (rs_auth ?s3)) # rs_sent ?s3\<rparr>)"])
      (simp add: goto_def GetMetadata_def RefreshTokenIfNeeded_def TrimAndSetToken_def)
qed


section \<open>Witnesses\<close>

definition demo_authenticator :: authenticator where
  "demo_authenticator =
     \<lparr>ra_token_path = ''/token'', ra_token_string = ''Bearer abc'', ra_next_refresh_time = Some 60000000000,
      ra_refresh_duration = Some 60, ra_skip_refresh = False\<rparr>"

lemma demo_authenticator_made: "new_authenticator (\<lambda>_. Inr (''abc'' @ [CHR 0x0A])) 0 ''/token'' (Some ''1'') = Inr demo_authenticator"
  by code_simp

definition demo_sent :: reload_state where
  "demo_sent =
     (let s = goto 5 Ready (reload_start demo_authenticator (''abc'' @ [CHR 0x0A]) 0)
      in goto 5 Idle (s\<lparr>rs_sent := (5, ra_token_string (rs_auth s)) # rs_sent s\<rparr>))"

lemma demo_sent_run: "reload_run (reload_start demo_authenticator (''abc'' @ [CHR 0x0A]) 0) demo_sent"
proof -
  let ?s = "reload_start demo_authenticator (''abc'' @ [CHR 0x0A]) 0"
  have "reload_step ?s (goto 5 Ready ?s)"
    by (rule reload_step.fresh [where t = 60000000000]) (simp_all add: reload_start_def demo_authenticator_def)
  moreover have "reload_step (goto 5 Ready ?s) demo_sent"
    unfolding demo_sent_def Let_def by (rule reload_step.send) (simp_all add: goto_def reload_start_def)
  ultimately show ?thesis by (metis rtranclp.simps)
qed

theorem reload_safe_witness:
  "rs_sent demo_sent = [(5, ''Bearer abc'')] \<and>
   (\<exists>contents \<in> set (rs_history demo_sent). ''Bearer abc'' = ''Bearer '' @ trim contents)"
proof -
  have "rs_sent demo_sent = [(5, ''Bearer abc'')]"
    by (simp add: demo_sent_def goto_def reload_start_def demo_authenticator_def)
  then show ?thesis
    using reload_safe [OF demo_authenticator_made refl demo_sent_run, of 1 2] by auto
qed


end
