(* ===== verification/Staged.thy ===== *)
theory Staged
  imports Paths Protos
begin

text \<open>
  Capturing the outputs of an action from a staged directory:
  \<^verbatim>\<open>buildboxcommon_stageddirectory.cpp\<close>, and the two kinds of staged directories,
  \<^verbatim>\<open>buildboxcommon_fallbackstageddirectory.cpp\<close> and
  \<^verbatim>\<open>buildboxcommon_localcasstageddirectory.cpp\<close>.

  The file system is a record of operations on a state; a descriptor is a number.  The
  lexical checks rest on the interpretation \<open>fnorm\<close> of the locale of path normalisers.
\<close>

section \<open>Messages\<close>

record command =
  cmd_working_directory :: string
  cmd_output_paths :: "string list"
  cmd_output_files :: "string list"
  cmd_output_directories :: "string list"
  cmd_output_node_properties :: "string list"

record output_file =
  of_path :: string
  of_digest :: digest
  of_is_executable :: bool
  of_mtime :: "timestamp option"

record output_directory =
  od_path :: string
  od_tree_digest :: digest

definition empty_output_file :: output_file where
  "empty_output_file = \<lparr>of_path = [], of_digest = empty_digest, of_is_executable = False, of_mtime = None\<rparr>"

definition empty_output_directory :: output_directory where
  "empty_output_directory = \<lparr>od_path = [], od_tree_digest = empty_digest\<rparr>"

record action_result =
  ar_output_files :: "output_file list"
  ar_output_directories :: "output_directory list"

section \<open>Checks of the paths of a command\<close>

definition getWorkingDirectory :: "string \<Rightarrow> string result" where
  "getWorkingDirectory working_directory =
     (if working_directory = [] then Inr []
      else
        (let wd = normalizePath working_directory @ ''/''
         in if hd wd = slash then Inl InvalidArgument
            else if take 3 wd = ''../'' then Inl InvalidArgument
            else Inr wd))"

definition assertNoInvalidSlashes :: "string \<Rightarrow> unit result" where
  "assertNoInvalidSlashes path =
     (if path \<noteq> [] \<and> (hd path = slash \<or> last path = slash) then Inl InvalidArgument else Inr ())"

definition assertPathInsideInputRoot :: "string \<Rightarrow> unit result" where
  "assertPathInsideInputRoot pathFromRoot =
     (if pathFromRoot = ''..'' \<or> take 3 pathFromRoot = ''../'' then Inl InvalidArgument else Inr ())"

definition pathInInputRoot :: "string \<Rightarrow> string \<Rightarrow> string result" where
  "pathInInputRoot name workingDirectory =
     (case assertNoInvalidSlashes name of
        Inl e \<Rightarrow> Inl e
      | Inr _ \<Rightarrow>
          (let res = normalizePath (workingDirectory @ name)
           in case assertPathInsideInputRoot res of Inl e \<Rightarrow> Inl e | Inr _ \<Rightarrow> Inr res))"

section \<open>Capturing all outputs\<close>

datatype st_mode = ModeDirectory | ModeRegular | ModeOther

definition ENOENT :: int where
  "ENOENT = 2"

text \<open>\<open>lstat\<close> gives an error number or the mode.\<close>

definition getStatMode ::
  "(string \<Rightarrow> 's \<Rightarrow> (int + st_mode) \<times> 's) \<Rightarrow> string \<Rightarrow> 's \<Rightarrow> st_mode option result \<times> 's" where
  "getStatMode lstat path s =
     (case lstat path s of
        (Inl e, s') \<Rightarrow> (if e = ENOENT then Inr None else Inl (SystemError e), s')
      | (Inr mode, s') \<Rightarrow> (Inr (Some mode), s'))"

text \<open>
  An output that the callback found, which has a path then, gets the name given in the command.
\<close>

definition captureFile ::
  "string \<Rightarrow> string \<Rightarrow> (string \<Rightarrow> 's \<Rightarrow> output_file result \<times> 's) \<Rightarrow> 's \<Rightarrow> output_file result \<times> 's" where
  "captureFile name path captureFileFunction s =
     (let (r, s') = captureFileFunction path s
      in (map_sum id (\<lambda>outputFile. if of_path outputFile \<noteq> [] then outputFile\<lparr>of_path := name\<rparr> else outputFile) r, s'))"

definition captureDirectory ::
  "string \<Rightarrow> string \<Rightarrow> (string \<Rightarrow> 's \<Rightarrow> output_directory result \<times> 's) \<Rightarrow> 's \<Rightarrow> output_directory result \<times> 's" where
  "captureDirectory name path captureDirectoryFunction s =
     (let (r, s') = captureDirectoryFunction path s
      in (map_sum id (\<lambda>outputDirectory.
            if od_path outputDirectory \<noteq> [] then outputDirectory\<lparr>od_path := name\<rparr> else outputDirectory) r, s'))"

text \<open>The lambdas that capture an output and add it to the result when it has a path.\<close>

definition captureFileAndAddToResult ::
  "(string \<Rightarrow> 's \<Rightarrow> output_file result \<times> 's) \<Rightarrow> string \<Rightarrow> string \<Rightarrow> action_result \<Rightarrow> 's \<Rightarrow>
   unit result \<times> action_result \<times> 's" where
  "captureFileAndAddToResult captureFileFunction name path result s =
     (case captureFile name path captureFileFunction s of
        (Inl e, s') \<Rightarrow> (Inl e, result, s')
      | (Inr outputFile, s') \<Rightarrow>
          (Inr (), if of_path outputFile \<noteq> []
                   then result\<lparr>ar_output_files := ar_output_files result @ [outputFile]\<rparr>
                   else result, s'))"

definition captureDirectoryAndAddToResult ::
  "(string \<Rightarrow> 's \<Rightarrow> output_directory result \<times> 's) \<Rightarrow> string \<Rightarrow> string \<Rightarrow> action_result \<Rightarrow> 's \<Rightarrow>
   unit result \<times> action_result \<times> 's" where
  "captureDirectoryAndAddToResult captureDirectoryFunction name path result s =
     (case captureDirectory name path captureDirectoryFunction s of
        (Inl e, s') \<Rightarrow> (Inl e, result, s')
      | (Inr outputDirectory, s') \<Rightarrow>
          (Inr (), if od_path outputDirectory \<noteq> []
                   then result\<lparr>ar_output_directories := ar_output_directories result @ [outputDirectory]\<rparr>
                   else result, s'))"

fun capture_paths ::
  "string \<Rightarrow> (string \<Rightarrow> 's \<Rightarrow> (int + st_mode) \<times> 's) \<Rightarrow> (string \<Rightarrow> 's \<Rightarrow> output_file result \<times> 's) \<Rightarrow>
   (string \<Rightarrow> 's \<Rightarrow> output_directory result \<times> 's) \<Rightarrow> string \<Rightarrow> string list \<Rightarrow> action_result \<Rightarrow> 's \<Rightarrow>
   unit result \<times> action_result \<times> 's" where
  "capture_paths d_path lstat capF capD workingDirectory [] result s = (Inr (), result, s)"
| "capture_paths d_path lstat capF capD workingDirectory (outputPath # outputPaths) result s =
     (case pathInInputRoot outputPath workingDirectory of
        Inl e \<Rightarrow> (Inl e, result, s)
      | Inr relative_path \<Rightarrow>
          (case makePathAbsolute relative_path d_path of
             Inl e \<Rightarrow> (Inl e, result, s)
           | Inr absolute_path \<Rightarrow>
               (case getStatMode lstat absolute_path s of
                  (Inl e, s') \<Rightarrow> (Inl e, result, s')
                | (Inr None, s') \<Rightarrow> capture_paths d_path lstat capF capD workingDirectory outputPaths result s'
                | (Inr (Some mode), s') \<Rightarrow>
                    (case (case mode of
                             ModeDirectory \<Rightarrow> captureDirectoryAndAddToResult capD outputPath relative_path result s'
                           | ModeRegular \<Rightarrow> captureFileAndAddToResult capF outputPath relative_path result s'
                           | ModeOther \<Rightarrow> (Inl InvalidArgument, result, s')) of
                       (Inl e, result', s'') \<Rightarrow> (Inl e, result', s'')
                     | (Inr _, result', s'') \<Rightarrow>
                         capture_paths d_path lstat capF capD workingDirectory outputPaths result' s''))))"

fun capture_each ::
  "(string \<Rightarrow> string \<Rightarrow> action_result \<Rightarrow> 's \<Rightarrow> unit result \<times> action_result \<times> 's) \<Rightarrow> string \<Rightarrow> string list \<Rightarrow>
   action_result \<Rightarrow> 's \<Rightarrow> unit result \<times> action_result \<times> 's" where
  "capture_each capture workingDirectory [] result s = (Inr (), result, s)"
| "capture_each capture workingDirectory (name # names) result s =
     (case pathInInputRoot name workingDirectory of
        Inl e \<Rightarrow> (Inl e, result, s)
      | Inr path \<Rightarrow>
          (case capture name path result s of
             (Inl e, result', s') \<Rightarrow> (Inl e, result', s')
           | (Inr _, result', s') \<Rightarrow> capture_each capture workingDirectory names result' s'))"

definition captureAllOutputs ::
  "string \<Rightarrow> (string \<Rightarrow> 's \<Rightarrow> (int + st_mode) \<times> 's) \<Rightarrow> (string \<Rightarrow> 's \<Rightarrow> output_file result \<times> 's) \<Rightarrow>
   (string \<Rightarrow> 's \<Rightarrow> output_directory result \<times> 's) \<Rightarrow> command \<Rightarrow> action_result \<Rightarrow> 's \<Rightarrow>
   unit result \<times> action_result \<times> 's" where
  "captureAllOutputs d_path lstat capF capD command result s =
     (case getWorkingDirectory (cmd_working_directory command) of
        Inl e \<Rightarrow> (Inl e, result, s)
      | Inr workingDirectory \<Rightarrow>
          if cmd_output_paths command \<noteq> []
          then capture_paths d_path lstat capF capD workingDirectory (cmd_output_paths command) result s
          else
            (case capture_each (captureFileAndAddToResult capF) workingDirectory (cmd_output_files command) result s of
               (Inl e, result', s') \<Rightarrow> (Inl e, result', s')
             | (Inr _, result', s') \<Rightarrow>
                 capture_each (captureDirectoryAndAddToResult capD) workingDirectory
                   (cmd_output_directories command) result' s'))"

section \<open>Opening files below the input root\<close>

text \<open>
  The operations on descriptors: \<open>openat_directory\<close> is \<^verbatim>\<open>openat\<close> with
  \<^verbatim>\<open>O_DIRECTORY | O_RDONLY | O_NOFOLLOW\<close>, \<open>openat_file\<close> with
  \<^verbatim>\<open>O_RDONLY | O_NOFOLLOW\<close>.
\<close>

record 's root_env =
  openat_directory :: "nat \<Rightarrow> string \<Rightarrow> 's \<Rightarrow> (int + nat) \<times> 's"
  openat_file :: "nat \<Rightarrow> string \<Rightarrow> 's \<Rightarrow> (int + nat) \<times> 's"
  close_fd :: "nat \<Rightarrow> 's \<Rightarrow> 's"

lemma dropWhile_Cons_shorter: "dropWhile P s = c # rest \<Longrightarrow> length rest < length s"
  by (metis length_dropWhile_le length_Cons less_le_trans lessI)

text \<open>
  The loop over the components; the third argument is the part of the path from
  \<^verbatim>\<open>subdir_start\<close> to \<^verbatim>\<open>path_end\<close>.  The search for the next separator starts after
  the first character of a component; where there is none, it starts behind the end of the
  range and the behaviour is undefined.
\<close>

function open_subdirs :: "'s root_env \<Rightarrow> nat \<Rightarrow> string \<Rightarrow> nat \<Rightarrow> 's \<Rightarrow> nat result \<times> 's" where
  "open_subdirs env root_dir_fd rest current_dir_fd s =
     (case rest of
        [] \<Rightarrow> (Inl Undefined, s)
      | c # cs \<Rightarrow>
          (case openat_directory env current_dir_fd (c # takeWhile (\<lambda>x. x \<noteq> slash) cs) s of
             (Inl e, s1) \<Rightarrow> (Inl (SystemError e), s1)
           | (Inr subdir_fd, s1) \<Rightarrow>
               (case dropWhile (\<lambda>x. x \<noteq> slash) cs of
                  [] \<Rightarrow> (Inr subdir_fd, s1)
                | _ # rest' \<Rightarrow>
                    open_subdirs env root_dir_fd rest' subdir_fd
                      (if current_dir_fd \<noteq> root_dir_fd then close_fd env current_dir_fd s1 else s1))))"
  by pat_completeness auto

termination
  by (relation "measure (\<lambda>(env, root, rest, cur, s). length rest)")
    (auto dest: dropWhile_Cons_shorter)

declare open_subdirs.simps [simp del]

definition openDirectoryInInputRoot :: "'s root_env \<Rightarrow> nat \<Rightarrow> string \<Rightarrow> 's \<Rightarrow> nat result \<times> 's" where
  "openDirectoryInInputRoot env root_dir_fd path s =
     (if path = [] then (Inl Undefined, s)
      else open_subdirs env root_dir_fd (if last path = slash then butlast path else path) root_dir_fd s)"

definition openFileInInputRoot :: "'s root_env \<Rightarrow> nat \<Rightarrow> string \<Rightarrow> 's \<Rightarrow> nat result \<times> 's" where
  "openFileInInputRoot env root_dir_fd relative_path s =
     (let directory =
            (case rfind slash relative_path of
               None \<Rightarrow> (Inr (root_dir_fd, relative_path), s)
             | Some lastSlash \<Rightarrow>
                 (let (r, s') = openDirectoryInInputRoot env root_dir_fd (take lastSlash relative_path) s
                  in (map_sum id (\<lambda>fd. (fd, drop (lastSlash + 1) relative_path)) r, s')))
      in case directory of
           (Inl e, s1) \<Rightarrow> (Inl e, s1)
         | (Inr (directory_fd, filename), s1) \<Rightarrow>
             (let (r, s2) = openat_file env directory_fd filename s1;
                  s3 = (if directory_fd \<noteq> root_dir_fd then close_fd env directory_fd s2 else s2)
              in case r of Inl e \<Rightarrow> (Inl (SystemError e), s3) | Inr file_fd \<Rightarrow> (Inr file_fd, s3)))"

text \<open>Only \<^verbatim>\<open>std::system_error\<close> is caught.\<close>

definition opened :: "'s root_env \<Rightarrow> nat result \<times> 's \<Rightarrow> bool result \<times> 's" where
  "opened env r =
     (case r of
        (Inr fd, s) \<Rightarrow> (Inr True, close_fd env fd s)
      | (Inl (SystemError e), s) \<Rightarrow> (Inr False, s)
      | (Inl e, s) \<Rightarrow> (Inl e, s))"

definition fileInInputRoot :: "'s root_env \<Rightarrow> nat \<Rightarrow> string \<Rightarrow> 's \<Rightarrow> bool result \<times> 's" where
  "fileInInputRoot env root_dir_fd path s = opened env (openFileInInputRoot env root_dir_fd path s)"

definition directoryInInputRoot :: "'s root_env \<Rightarrow> nat \<Rightarrow> string \<Rightarrow> 's \<Rightarrow> bool result \<times> 's" where
  "directoryInInputRoot env root_dir_fd path s =
     (if path = [] then (Inr True, s) else opened env (openDirectoryInInputRoot env root_dir_fd path s))"

section \<open>FallbackStagedDirectory\<close>

text \<open>
  \<open>hash_fd\<close> is \<^verbatim>\<open>CASHash::hash\<close> of a descriptor, \<open>upload\<close> the upload function,
  \<open>is_executable\<close> and \<open>mtime\<close> what \<^verbatim>\<open>fstat\<close> says of the file.  An exception of the hash
  leaves the descriptor open, one of the upload closes it.
\<close>

record 's capture_env =
  cap_root :: "'s root_env"
  cap_hash :: "nat \<Rightarrow> 's \<Rightarrow> digest result \<times> 's"
  cap_upload :: "nat \<Rightarrow> digest \<Rightarrow> 's \<Rightarrow> unit result \<times> 's"
  cap_is_executable :: "nat \<Rightarrow> 's \<Rightarrow> bool"
  cap_mtime :: "nat \<Rightarrow> 's \<Rightarrow> timestamp result"

definition capture_mtime :: "command \<Rightarrow> bool" where
  "capture_mtime command \<longleftrightarrow> ''mtime'' \<in> set (cmd_output_node_properties command)"

definition ENOTDIR_errno :: int where
  "ENOTDIR_errno = 20"

definition fallback_captureFile ::
  "'s capture_env \<Rightarrow> nat \<Rightarrow> bool \<Rightarrow> string \<Rightarrow> 's \<Rightarrow> output_file result \<times> 's" where
  "fallback_captureFile env stage_fd with_mtime relative_path s =
     (case openFileInInputRoot (cap_root env) stage_fd relative_path s of
        (Inl (SystemError e), s1) \<Rightarrow>
          (if e = ENOENT \<or> e = ENOTDIR_errno then Inr empty_output_file else Inl (SystemError e), s1)
      | (Inl e, s1) \<Rightarrow> (Inl e, s1)
      | (Inr fd, s1) \<Rightarrow>
          (case cap_hash env fd s1 of
             (Inl e, s2) \<Rightarrow> (Inl e, s2)
           | (Inr digest, s2) \<Rightarrow>
               (case cap_upload env fd digest s2 of
                  (Inl e, s3) \<Rightarrow> (Inl e, close_fd (cap_root env) fd s3)
                | (Inr _, s3) \<Rightarrow>
                    (case (if with_mtime then map_sum id Some (cap_mtime env fd s3) else Inr None) of
                       Inl e \<Rightarrow> (Inl e, s3)
                     | Inr mtime \<Rightarrow>
                         (Inr \<lparr>of_path = relative_path, of_digest = digest,
                               of_is_executable = cap_is_executable env fd s3, of_mtime = mtime\<rparr>,
                          close_fd (cap_root env) fd s3)))))"

definition fallback_captureDirectory ::
  "'s root_env \<Rightarrow> (string \<Rightarrow> 's \<Rightarrow> digest result \<times> 's) \<Rightarrow> nat \<Rightarrow> string \<Rightarrow> string \<Rightarrow> 's \<Rightarrow> output_directory result \<times> 's" where
  "fallback_captureDirectory env upload_directory stage_fd d_path relative_path s =
     (case directoryInInputRoot env stage_fd relative_path s of
        (Inl e, s1) \<Rightarrow> (Inl e, s1)
      | (Inr False, s1) \<Rightarrow> (Inr empty_output_directory, s1)
      | (Inr True, s1) \<Rightarrow>
          (case makePathAbsolute relative_path d_path of
             Inl e \<Rightarrow> (Inl e, s1)
           | Inr absolute_path \<Rightarrow>
               (let (r, s2) = upload_directory absolute_path s1
                in (map_sum id (\<lambda>tree_digest. \<lparr>od_path = relative_path, od_tree_digest = tree_digest\<rparr>) r, s2))))"

section \<open>LocalCasStagedDirectory\<close>

text \<open>
  \<open>capture_files\<close> and \<open>capture_tree\<close> are the requests of the client; a response holds for each
  path a status code, the digest and the captured properties.
\<close>

record captured =
  cp_code :: status_code
  cp_digest :: digest
  cp_mtime :: "timestamp option"

definition localcas_captureFile ::
  "'s root_env \<Rightarrow> (string list \<Rightarrow> string list \<Rightarrow> bool \<Rightarrow> 's \<Rightarrow> captured list result \<times> 's) \<Rightarrow> (string \<Rightarrow> 's \<Rightarrow> bool) \<Rightarrow>
   nat \<Rightarrow> string \<Rightarrow> command \<Rightarrow> string \<Rightarrow> 's \<Rightarrow> output_file result \<times> 's" where
  "localcas_captureFile env capture_files is_executable stage_fd d_path command relative_path s =
     (case fileInInputRoot env stage_fd relative_path s of
        (Inl e, s1) \<Rightarrow> (Inl e, s1)
      | (Inr False, s1) \<Rightarrow> (Inr empty_output_file, s1)
      | (Inr True, s1) \<Rightarrow>
          (case makePathAbsolute relative_path d_path of
             Inl e \<Rightarrow> (Inl e, s1)
           | Inr absolute_path \<Rightarrow>
               (case capture_files [absolute_path] (cmd_output_node_properties command) False s1 of
                  (Inl e, s2) \<Rightarrow> (Inl e, s2)
                | (Inr [], s2) \<Rightarrow> (Inl RuntimeError, s2)
                | (Inr (captured_file # _), s2) \<Rightarrow>
                    if cp_code captured_file \<noteq> OK then (Inl RuntimeError, s2)
                    else (Inr \<lparr>of_path = relative_path, of_digest = cp_digest captured_file,
                               of_is_executable = is_executable absolute_path s2,
                               of_mtime = cp_mtime captured_file\<rparr>, s2))))"

text \<open>The response for a directory is used without a check: an empty response is undefined behaviour.\<close>

definition localcas_captureDirectory ::
  "'s root_env \<Rightarrow> (string list \<Rightarrow> string list \<Rightarrow> bool \<Rightarrow> 's \<Rightarrow> captured list result \<times> 's) \<Rightarrow>
   nat \<Rightarrow> string \<Rightarrow> command \<Rightarrow> string \<Rightarrow> 's \<Rightarrow> output_directory result \<times> 's" where
  "localcas_captureDirectory env capture_tree stage_fd d_path command relative_path s =
     (case directoryInInputRoot env stage_fd relative_path s of
        (Inl e, s1) \<Rightarrow> (Inl e, s1)
      | (Inr False, s1) \<Rightarrow> (Inr empty_output_directory, s1)
      | (Inr True, s1) \<Rightarrow>
          (case makePathAbsolute relative_path d_path of
             Inl e \<Rightarrow> (Inl e, s1)
           | Inr absolute_path \<Rightarrow>
               (case capture_tree [absolute_path] (cmd_output_node_properties command) False s1 of
                  (Inl e, s2) \<Rightarrow> (Inl e, s2)
                | (Inr [], s2) \<Rightarrow> (Inl Undefined, s2)
                | (Inr (r # _), s2) \<Rightarrow>
                    (Inr \<lparr>od_path = relative_path, od_tree_digest = cp_digest r\<rparr>, s2))))"

section \<open>Outputs stay inside of the input root\<close>

text \<open>
  A path is inside when it is relative and, from every root, leads to the root or below it without
  going up; its components are then plain names.
\<close>

definition inside :: "string \<Rightarrow> bool" where
  "inside p \<longleftrightarrow> \<not> is_absolute p \<and> (\<forall>root. \<exists>rest. ''..'' \<notin> set rest \<and> resolve root p = root @ rest)"

lemma getWorkingDirectory_relative:
  "getWorkingDirectory w = Inr wd \<Longrightarrow> \<not> is_absolute wd"
  using fnorm.norm_not_Nil [of w]
  by (auto simp: getWorkingDirectory_def Let_def is_absolute_def split: if_splits)

lemma pathInInputRoot_norm:
  assumes "pathInInputRoot name wd = Inr p" "\<not> is_absolute wd"
  shows "\<not> is_absolute (wd @ name) \<and> p = normalizePath (wd @ name) \<and> p \<noteq> ''..'' \<and> take 3 p \<noteq> ''../''"
proof -
  have "name = [] \<or> hd name \<noteq> slash"
    using assms(1) by (auto simp: pathInInputRoot_def assertNoInvalidSlashes_def split: if_splits)
  then have "\<not> is_absolute (wd @ name)"
    using assms(2) by (cases wd) (auto simp: is_absolute_def)
  then show ?thesis
    using assms(1)
    by (auto simp: pathInInputRoot_def assertPathInsideInputRoot_def Let_def split: sum.splits if_splits)
qed

lemma pathInInputRoot_inside:
  assumes "pathInInputRoot name wd = Inr p" "\<not> is_absolute wd"
  shows "inside p"
  using pathInInputRoot_norm [OF assms] fnorm.norm_stays_inside [of "wd @ name"]
  by (auto simp: inside_def resolve_normalize)

text \<open>The operations of two environments agree on the paths inside.\<close>

definition agree_inside ::
  "string \<Rightarrow> (string \<Rightarrow> 's \<Rightarrow> (int + st_mode) \<times> 's) \<Rightarrow> (string \<Rightarrow> 's \<Rightarrow> (int + st_mode) \<times> 's) \<Rightarrow>
   (string \<Rightarrow> 's \<Rightarrow> output_file result \<times> 's) \<Rightarrow> (string \<Rightarrow> 's \<Rightarrow> output_file result \<times> 's) \<Rightarrow>
   (string \<Rightarrow> 's \<Rightarrow> output_directory result \<times> 's) \<Rightarrow> (string \<Rightarrow> 's \<Rightarrow> output_directory result \<times> 's) \<Rightarrow> bool" where
  "agree_inside d_path lstat lstat' capF capF' capD capD' \<longleftrightarrow>
     (\<forall>p. inside p \<longrightarrow> capF p = capF' p \<and> capD p = capD' p \<and>
        (\<forall>q. makePathAbsolute p d_path = Inr q \<longrightarrow> lstat q = lstat' q))"

lemma capture_paths_inside:
  assumes "\<not> is_absolute wd" "agree_inside d_path lstat lstat' capF capF' capD capD'"
  shows "capture_paths d_path lstat capF capD wd names result s = capture_paths d_path lstat' capF' capD' wd names result s"
proof (induction names arbitrary: result s)
  case (Cons name names)
  show ?case
  proof (cases "pathInInputRoot name wd")
    case (Inr p)
    have ag: "capF p = capF' p" "capD p = capD' p" "\<And>q. makePathAbsolute p d_path = Inr q \<Longrightarrow> lstat q = lstat' q"
      using pathInInputRoot_inside [OF Inr assms(1)] assms(2) by (auto simp: agree_inside_def)
    then show ?thesis
      using Inr Cons.IH
      by (simp add: getStatMode_def captureFileAndAddToResult_def captureDirectoryAndAddToResult_def
            captureFile_def captureDirectory_def
          split: sum.split prod.split option.split st_mode.split)
  qed simp
qed simp

lemma capture_each_inside:
  assumes "\<not> is_absolute wd" "\<And>name p r s. inside p \<Longrightarrow> cap name p r s = cap' name p r s"
  shows "capture_each cap wd names result s = capture_each cap' wd names result s"
proof (induction names arbitrary: result s)
  case (Cons name names)
  show ?case
  proof (cases "pathInInputRoot name wd")
    case (Inr p)
    then show ?thesis
      using Cons.IH assms(2) [OF pathInInputRoot_inside [OF Inr assms(1)]] by (simp split: sum.split prod.split)
  qed simp
qed simp

text \<open>
  C18: \<^verbatim>\<open>captureAllOutputs\<close> never touches anything outside of the input root, whatever paths the
  command names: it calls the capture functions with inside paths only and looks only at the
  absolute form of inside paths, so that operations that agree on these give the same result.
\<close>

theorem captureAllOutputs_inside:
  assumes "agree_inside d_path lstat lstat' capF capF' capD capD'"
  shows "captureAllOutputs d_path lstat capF capD command result s =
    captureAllOutputs d_path lstat' capF' capD' command result s"
proof (cases "getWorkingDirectory (cmd_working_directory command)")
  case (Inr wd)
  note wd = getWorkingDirectory_relative [OF Inr]
  have "capture_each (captureFileAndAddToResult capF) wd names r s = capture_each (captureFileAndAddToResult capF') wd names r s"
    "capture_each (captureDirectoryAndAddToResult capD) wd names r s = capture_each (captureDirectoryAndAddToResult capD') wd names r s"
    for names r s
    using assms
    by (auto intro!: capture_each_inside [OF wd]
        simp: agree_inside_def captureFileAndAddToResult_def captureDirectoryAndAddToResult_def
          captureFile_def captureDirectory_def)
  then show ?thesis
    using Inr capture_paths_inside [OF wd assms] by (simp add: captureAllOutputs_def split: sum.split prod.split)
qed (simp add: captureAllOutputs_def)

theorem captureAllOutputs_inside_witness:
  "captureAllOutputs ''/stage'' (\<lambda>p n. (Inr ModeRegular, n + 1)) (\<lambda>p n. (Inr (empty_output_file\<lparr>of_path := p\<rparr>), n + (1::nat)))
     (\<lambda>p n. (Inl RuntimeError, n))
     \<lparr>cmd_working_directory = ''build'', cmd_output_paths = [''../a.o''], cmd_output_files = [], cmd_output_directories = [],
      cmd_output_node_properties = []\<rparr> \<lparr>ar_output_files = [], ar_output_directories = []\<rparr> 0 =
   captureAllOutputs ''/stage'' (\<lambda>p n. (Inr ModeRegular, n + 1))
     (\<lambda>p n. (if is_absolute p then Inl RuntimeError else Inr (empty_output_file\<lparr>of_path := p\<rparr>), n + 1))
     (\<lambda>p n. (Inl RuntimeError, n))
     \<lparr>cmd_working_directory = ''build'', cmd_output_paths = [''../a.o''], cmd_output_files = [], cmd_output_directories = [],
      cmd_output_node_properties = []\<rparr> \<lparr>ar_output_files = [], ar_output_directories = []\<rparr> 0"
proof (rule captureAllOutputs_inside)
  show "agree_inside ''/stage'' (\<lambda>p n. (Inr ModeRegular, n + 1)) (\<lambda>p n. (Inr ModeRegular, n + 1))
     (\<lambda>p n. (Inr (empty_output_file\<lparr>of_path := p\<rparr>), n + (1::nat)))
     (\<lambda>p n. (if is_absolute p then Inl RuntimeError else Inr (empty_output_file\<lparr>of_path := p\<rparr>), n + 1))
     (\<lambda>p n. (Inl RuntimeError, n)) (\<lambda>p n. (Inl RuntimeError, n))"
    by (auto simp: agree_inside_def inside_def)
qed

section \<open>Opening goes down the components\<close>

text \<open>Opening a chain of directories, each in the one before; directories between are closed.\<close>

fun open_chain :: "'s root_env \<Rightarrow> nat \<Rightarrow> nat \<Rightarrow> string list \<Rightarrow> 's \<Rightarrow> nat result \<times> 's" where
  "open_chain env rfd cur [] s = (Inr cur, s)"
| "open_chain env rfd cur (name # names) s =
     (case openat_directory env cur name s of
        (Inl e, s1) \<Rightarrow> (Inl (SystemError e), s1)
      | (Inr fd, s1) \<Rightarrow>
          if names = [] then (Inr fd, s1)
          else open_chain env rfd fd names (if cur \<noteq> rfd then close_fd env cur s1 else s1))"

lemma open_subdirs_chain:
  assumes "segs \<noteq> []" "\<forall>x \<in> set segs. x \<noteq> [] \<and> slash \<notin> set x"
  shows "open_subdirs env rfd (join_segs segs) cur s = open_chain env rfd cur segs s"
  using assms
proof (induction segs arbitrary: cur s)
  case (Cons x xs)
  obtain c cs where x: "x = c # cs" "slash \<notin> set cs" using Cons.prems(2) by (cases x) auto
  show ?case
  proof (cases "xs = []")
    case True
    then have "dropWhile (\<lambda>y. y \<noteq> slash) cs = []" "takeWhile (\<lambda>y. y \<noteq> slash) cs = cs"
      using x by (auto simp: dropWhile_eq_Nil_conv takeWhile_eq_all_conv)
    then show ?thesis
      using True x by (simp add: open_subdirs.simps [of env rfd "c # cs"] del: dropWhile_eq_Nil_conv takeWhile_eq_all_conv split: prod.split sum.split)
  next
    case False
    have d: "dropWhile (\<lambda>y. y \<noteq> slash) (cs @ slash # t) = slash # t" "takeWhile (\<lambda>y. y \<noteq> slash) (cs @ slash # t) = cs" for t
      using x by (auto simp: dropWhile_append takeWhile_append dropWhile_eq_Nil_conv takeWhile_eq_all_conv)
    show ?thesis
      using False x Cons.IH [OF False] Cons.prems(2)
      by (simp add: join_segs_Cons open_subdirs.simps [of env rfd "c # cs @ slash # join_segs xs"] d split: prod.split sum.split)
  qed
qed simp

text \<open>
  C20: Opening a directory at a path that has passed the checks goes down one plain name after the
  other from the root: every \<^verbatim>\<open>openat\<close> gets a name without a slash that is neither
  \<open>.\<close> nor \<open>..\<close>, relative to the directory opened before, and does not follow links.
\<close>

theorem openDirectoryInInputRoot_descends:
  assumes "getWorkingDirectory w = Inr wd" "pathInInputRoot name wd = Inr p" "p \<noteq> ''.''"
  shows "\<exists>segs. segs \<noteq> [] \<and> (\<forall>x \<in> set segs. plain_name x \<and> x \<noteq> ''..'') \<and>
    openDirectoryInInputRoot env rfd p s = open_chain env rfd rfd segs s"
proof -
  note p = pathInInputRoot_norm [OF assms(2) getWorkingDirectory_relative [OF assms(1)]]
  let ?segs = "path_segs (wd @ name)"
  have norm: "norm_segs False ?segs" using p path_segs_norm [of "wd @ name"] by simp
  have show_p: "p = show_segs False ?segs" using p normalizePath_eq [of "wd @ name"] by simp
  then have segs: "?segs \<noteq> []" "p = join_segs ?segs" using assms(3) by (auto simp: show_segs_def split: if_splits)
  have plain: "\<forall>x \<in> set ?segs. plain_name x" using norm by (simp add: norm_segs_def list_all_iff)
  have "''..'' \<notin> set ?segs" using show_segs_goes_up [OF norm] show_p p by blast
  moreover have "p \<noteq> []" "last p \<noteq> slash"
  proof -
    obtain xs x where xs: "?segs = xs @ [x]" using segs(1) by (metis rev_exhaust)
    have x: "x \<noteq> []" "slash \<notin> set x" using plain xs by (auto simp: plain_name_def)
    have "p = x \<or> (\<exists>t. p = t @ slash # x)" using segs(2) xs join_segs_append [of xs "[x]"] by (cases "xs = []") auto
    moreover have "last x \<noteq> slash" using x last_in_set by metis
    ultimately show "p \<noteq> []" "last p \<noteq> slash" using x by auto
  qed
  ultimately show ?thesis
    using open_subdirs_chain [OF segs(1)] plain segs
    by (intro exI [of _ ?segs]) (auto simp: openDirectoryInInputRoot_def plain_name_def)
qed

theorem openDirectoryInInputRoot_descends_witness:
  "\<exists>segs. segs \<noteq> [] \<and> (\<forall>x \<in> set segs. plain_name x \<and> x \<noteq> ''..'') \<and>
    openDirectoryInInputRoot
      \<lparr>openat_directory = \<lambda>d name n. (Inr (n + 1), n + 1), openat_file = \<lambda>d name n. (Inl 2, n), close_fd = \<lambda>fd n. n\<rparr>
      3 ''build/lib'' (7::nat) =
    open_chain
      \<lparr>openat_directory = \<lambda>d name n. (Inr (n + 1), n + 1), openat_file = \<lambda>d name n. (Inl 2, n), close_fd = \<lambda>fd n. n\<rparr>
      3 3 segs (7::nat)"
proof (rule openDirectoryInInputRoot_descends [of "''build/sub/..''" "''build/''" "''./lib''" "''build/lib''"])
  show "getWorkingDirectory ''build/sub/..'' = Inr ''build/''" "pathInInputRoot ''./lib'' ''build/'' = Inr ''build/lib''"
    "''build/lib'' \<noteq> ''.''"
    by code_simp+
qed

text \<open>
  An output named by the empty string, which stands for the whole working directory, is captured
  and left out of the result.
\<close>

theorem captureDirectory_empty_name_dropped:
  "fst (snd (captureDirectoryAndAddToResult capD [] path result s)) = result"
  by (cases "capD path s"; cases "fst (capD path s)")
    (auto simp: captureDirectoryAndAddToResult_def captureDirectory_def)

end
