(* ===== verification/File_System.thy ===== *)
theory File_System
  imports Staged Utils "HOL-Library.Word"
begin

unbundle bit_operations_syntax

text \<open>
  The operations of \<^verbatim>\<open>buildboxcommon_fileutils.cpp\<close> on the file system, and the temporary files and
  directories of \<^verbatim>\<open>buildboxcommon_temporaryfile.cpp\<close> and \<^verbatim>\<open>buildboxcommon_temporarydirectory.cpp\<close>.

  The system calls are a record of functions on a state; a call that fails gives the value of
  \<^verbatim>\<open>errno\<close>.  What a theorem needs of the operating system is a predicate on the record, relative to
  a view of the state: which locations exist, or what the file at a location contains.  A location is
  the list of names from the root; \<open>resolve\<close> gives that of a path.
\<close>

section \<open>System calls\<close>

definition EEXIST :: int where
  "EEXIST = 17"

definition EIO :: int where
  "EIO = 5"

definition EBADF :: int where
  "EBADF = 9"

datatype file_kind = RegularFile | DirectoryFile | SymbolicLink | OtherFile

text \<open>\<open>st_permissions\<close> are the permission bits of \<^verbatim>\<open>st_mode\<close>, \<open>st_kind\<close> is the rest of it.\<close>

record stat_buf =
  st_kind :: file_kind
  st_permissions :: "32 word"
  st_size :: int
  st_atim :: "int \<times> int"
  st_mtim :: "int \<times> int"

text \<open>
  \<open>fe_open_read\<close> is \<^verbatim>\<open>open\<close> with \<^verbatim>\<open>O_RDONLY\<close>, \<open>fe_open_write\<close> with \<^verbatim>\<open>O_WRONLY | O_CREAT | O_TRUNC\<close>;
  \<open>fe_mkstemp\<close> gives the descriptor and the name it filled in.  \<open>fe_write_stream\<close> is an
  \<^verbatim>\<open>std::ofstream\<close> that is opened, written and closed; \<open>fe_read_stream\<close> is an \<^verbatim>\<open>std::ifstream\<close>, which
  can fail to open or to read.
\<close>

record 's file_env =
  fe_stat :: "string \<Rightarrow> 's \<Rightarrow> int + stat_buf"
  fe_lstat :: "string \<Rightarrow> 's \<Rightarrow> int + stat_buf"
  fe_fstat :: "nat \<Rightarrow> 's \<Rightarrow> int + stat_buf"
  fe_mkdir :: "string \<Rightarrow> 32 word \<Rightarrow> 's \<Rightarrow> int option \<times> 's"
  fe_chmod :: "string \<Rightarrow> 32 word \<Rightarrow> 's \<Rightarrow> int option \<times> 's"
  fe_fchmod :: "nat \<Rightarrow> 32 word \<Rightarrow> 's \<Rightarrow> int option \<times> 's"
  fe_utimensat :: "string \<Rightarrow> int \<times> int \<Rightarrow> int \<times> int \<Rightarrow> 's \<Rightarrow> int option \<times> 's"
  fe_futimens :: "nat \<Rightarrow> int \<times> int \<Rightarrow> int \<times> int \<Rightarrow> 's \<Rightarrow> int option \<times> 's"
  fe_open_read :: "string \<Rightarrow> 's \<Rightarrow> (int + nat) \<times> 's"
  fe_open_write :: "string \<Rightarrow> 32 word \<Rightarrow> 's \<Rightarrow> (int + nat) \<times> 's"
  fe_read :: "nat \<Rightarrow> nat \<Rightarrow> 's \<Rightarrow> (int + string) \<times> 's"
  fe_write :: "nat \<Rightarrow> string \<Rightarrow> 's \<Rightarrow> (int + nat) \<times> 's"
  fe_close :: "nat \<Rightarrow> 's \<Rightarrow> int option \<times> 's"
  fe_unlink :: "string \<Rightarrow> 's \<Rightarrow> int option \<times> 's"
  fe_rename :: "string \<Rightarrow> string \<Rightarrow> 's \<Rightarrow> int option \<times> 's"
  fe_mkstemp :: "string \<Rightarrow> 's \<Rightarrow> (int + nat \<times> string) \<times> 's"
  fe_mkdtemp :: "string \<Rightarrow> 's \<Rightarrow> (int + string) \<times> 's"
  fe_read_stream :: "string \<Rightarrow> 's \<Rightarrow> string option \<times> 's"
  fe_write_stream :: "string \<Rightarrow> string \<Rightarrow> 's \<Rightarrow> int option \<times> 's"
  fe_getenv :: "string \<Rightarrow> string option"

section \<open>Queries\<close>

text \<open>The common form of the predicates on paths: a path that does not exist is of no kind.\<close>

definition kind_is :: "file_kind \<Rightarrow> int + stat_buf \<Rightarrow> bool result" where
  "kind_is k r =
     (case r of
        Inr statResult \<Rightarrow> Inr (st_kind statResult = k)
      | Inl e \<Rightarrow> if e = ENOENT \<or> e = ENOTDIR_errno then Inr False else Inl (SystemError e))"

definition isRegularFileNoFollow :: "'s file_env \<Rightarrow> string \<Rightarrow> 's \<Rightarrow> bool result" where
  "isRegularFileNoFollow env path s = kind_is RegularFile (fe_lstat env path s)"

definition isRegularFile :: "'s file_env \<Rightarrow> string \<Rightarrow> 's \<Rightarrow> bool result" where
  "isRegularFile env path s = kind_is RegularFile (fe_stat env path s)"

definition isDirectoryNoFollow :: "'s file_env \<Rightarrow> string \<Rightarrow> 's \<Rightarrow> bool result" where
  "isDirectoryNoFollow env path s = kind_is DirectoryFile (fe_lstat env path s)"

definition isDirectory :: "'s file_env \<Rightarrow> string \<Rightarrow> 's \<Rightarrow> bool result" where
  "isDirectory env path s = kind_is DirectoryFile (fe_stat env path s)"

definition isDirectory_fd :: "'s file_env \<Rightarrow> nat \<Rightarrow> 's \<Rightarrow> bool result" where
  "isDirectory_fd env fd s =
     (case fe_fstat env fd s of Inr statResult \<Rightarrow> Inr (st_kind statResult = DirectoryFile) | Inl e \<Rightarrow> Inl (SystemError e))"

definition isSymlink :: "'s file_env \<Rightarrow> string \<Rightarrow> 's \<Rightarrow> bool result" where
  "isSymlink env path s = kind_is SymbolicLink (fe_lstat env path s)"

definition S_IXUSR :: "32 word" where
  "S_IXUSR = 0x40"

definition S_IXGRP :: "32 word" where
  "S_IXGRP = 0x08"

definition S_IXOTH :: "32 word" where
  "S_IXOTH = 0x01"

definition isExecutable :: "'s file_env \<Rightarrow> string \<Rightarrow> 's \<Rightarrow> bool" where
  "isExecutable env path s =
     (case fe_stat env path s of Inr statResult \<Rightarrow> st_permissions statResult AND S_IXUSR \<noteq> 0 | Inl _ \<Rightarrow> False)"

definition isExecutable_fd :: "'s file_env \<Rightarrow> nat \<Rightarrow> 's \<Rightarrow> bool" where
  "isExecutable_fd env fd s =
     (case fe_fstat env fd s of Inr statResult \<Rightarrow> st_permissions statResult AND S_IXUSR \<noteq> 0 | Inl _ \<Rightarrow> False)"

definition getFileStat :: "'s file_env \<Rightarrow> string \<Rightarrow> 's \<Rightarrow> stat_buf result" where
  "getFileStat env path s = map_sum SystemError id (fe_stat env path s)"

definition getFileStat_fd :: "'s file_env \<Rightarrow> nat \<Rightarrow> 's \<Rightarrow> stat_buf result" where
  "getFileStat_fd env fd s = map_sum SystemError id (fe_fstat env fd s)"

definition getFileSize :: "'s file_env \<Rightarrow> string \<Rightarrow> 's \<Rightarrow> int result" where
  "getFileSize env path s = map_sum id st_size (getFileStat env path s)"

definition getFileSize_fd :: "'s file_env \<Rightarrow> nat \<Rightarrow> 's \<Rightarrow> int result" where
  "getFileSize_fd env fd s = map_sum id st_size (getFileStat_fd env fd s)"

text \<open>A point in time is a number of nanoseconds, as in \<^verbatim>\<open>TimeUtils\<close>.\<close>

definition getMtimeTimepoint :: "stat_buf \<Rightarrow> int" where
  "getMtimeTimepoint result = fst (st_mtim result) * 1000000000 + (snd (st_mtim result) sdiv 1000) * 1000"

definition getFileMtime :: "'s file_env \<Rightarrow> string \<Rightarrow> 's \<Rightarrow> int result" where
  "getFileMtime env path s = map_sum id getMtimeTimepoint (getFileStat env path s)"

definition getFileMtime_fd :: "'s file_env \<Rightarrow> nat \<Rightarrow> 's \<Rightarrow> int result" where
  "getFileMtime_fd env fd s = map_sum id getMtimeTimepoint (getFileStat_fd env fd s)"

section \<open>Updates\<close>

definition checked :: "int option \<times> 's \<Rightarrow> unit result \<times> 's" where
  "checked r = (case r of (None, s) \<Rightarrow> (Inr (), s) | (Some e, s) \<Rightarrow> (Inl (SystemError e), s))"

definition setFileMtime_fd :: "'s file_env \<Rightarrow> nat \<Rightarrow> int \<Rightarrow> 's \<Rightarrow> unit result \<times> 's" where
  "setFileMtime_fd env fd timepoint s =
     (let new_mtime = make_timespec timepoint
      in case getFileStat_fd env fd s of
           Inl e \<Rightarrow> (Inl e, s)
         | Inr stat_result \<Rightarrow> checked (fe_futimens env fd (st_atim stat_result) new_mtime s))"

definition setFileMtime :: "'s file_env \<Rightarrow> string \<Rightarrow> int \<Rightarrow> 's \<Rightarrow> unit result \<times> 's" where
  "setFileMtime env path timepoint s =
     (let new_mtime = make_timespec timepoint
      in case getFileStat env path s of
           Inl e \<Rightarrow> (Inl e, s)
         | Inr stat_result \<Rightarrow> checked (fe_utimensat env path (st_atim stat_result) new_mtime s))"

definition makeExecutable :: "'s file_env \<Rightarrow> string \<Rightarrow> 's \<Rightarrow> unit result \<times> 's" where
  "makeExecutable env path s =
     (case fe_stat env path s of
        Inl e \<Rightarrow> (Inl (SystemError e), s)
      | Inr statResult \<Rightarrow>
          checked (fe_chmod env path (st_permissions statResult OR S_IXUSR OR S_IXGRP OR S_IXOTH) s))"

definition FileUtils_getFileContents :: "'s file_env \<Rightarrow> string \<Rightarrow> 's \<Rightarrow> string result \<times> 's" where
  "FileUtils_getFileContents env path s =
     (case fe_read_stream env path s of
        (None, s') \<Rightarrow> (Inl RuntimeError, s')
      | (Some contents, s') \<Rightarrow> (Inr contents, s'))"

section \<open>Creating directories\<close>

definition parent_path :: "string \<Rightarrow> string" where
  "parent_path path = (case rfind slash path of None \<Rightarrow> path | Some i \<Rightarrow> take i path)"

text \<open>The recursion follows the error of \<^verbatim>\<open>mkdir\<close> and need not end; not returning is \<open>None\<close>.\<close>

partial_function (option) createDirectoriesInPath ::
  "'s file_env \<Rightarrow> string \<Rightarrow> 32 word \<Rightarrow> 's \<Rightarrow> (unit result \<times> 's) option" where
  "createDirectoriesInPath env path mode s =
     (case fe_mkdir env path mode s of
        (None, s1) \<Rightarrow> Some (Inr (), s1)
      | (Some mkdir_error, s1) \<Rightarrow>
          if mkdir_error = EEXIST then Some (Inr (), s1)
          else if mkdir_error \<noteq> ENOENT then Some (Inl (SystemError mkdir_error), s1)
          else
            Option.bind (createDirectoriesInPath env (parent_path path) mode s1) (\<lambda>(r, s2).
              case r of
                Inl e \<Rightarrow> Some (Inl e, s2)
              | Inr _ \<Rightarrow> Some (checked (fe_mkdir env path mode s2))))"

declare createDirectoriesInPath.simps [code]

definition createDirectory :: "'s file_env \<Rightarrow> string \<Rightarrow> 32 word \<Rightarrow> 's \<Rightarrow> (unit result \<times> 's) option" where
  "createDirectory env path mode s = createDirectoriesInPath env (normalizePath path) mode s"

section \<open>Copying\<close>

text \<open>The loop gives the error number, or none at the end of the source.\<close>

partial_function (option) copy_loop :: "'s file_env \<Rightarrow> nat \<Rightarrow> nat \<Rightarrow> 's \<Rightarrow> (int option \<times> 's) option" where
  "copy_loop env src dest s =
     (case fe_read env src 65536 s of
        (Inl e, s1) \<Rightarrow> Some (Some e, s1)
      | (Inr buf, s1) \<Rightarrow>
          if buf = [] then Some (None, s1)
          else
            (case fe_write env dest buf s1 of
               (wrsize, s2) \<Rightarrow> if wrsize = Inr (length buf) then copy_loop env src dest s2 else Some (Some EIO, s2)))"

declare copy_loop.simps [code]

text \<open>Closing a descriptor that was not opened is the error \<^verbatim>\<open>EBADF\<close>.\<close>

definition close_opened :: "'s file_env \<Rightarrow> int + nat \<Rightarrow> 's \<Rightarrow> int option \<times> 's" where
  "close_opened env fd s = (case fd of Inl _ \<Rightarrow> (Some EBADF, s) | Inr n \<Rightarrow> fe_close env n s)"

definition later_error :: "int option \<Rightarrow> int option \<Rightarrow> int option" where
  "later_error err e = (case e of None \<Rightarrow> err | Some _ \<Rightarrow> e)"

definition copy_opened ::
  "'s file_env \<Rightarrow> stat_buf \<Rightarrow> int + nat \<Rightarrow> int + nat \<Rightarrow> 's \<Rightarrow> (int option \<times> 's) option" where
  "copy_opened env st src dest s =
     (case dest of
        Inl e \<Rightarrow> Some (Some e, s)
      | Inr dest_fd \<Rightarrow>
          (case src of
             Inl e \<Rightarrow> Some (Some e, s)
           | Inr src_fd \<Rightarrow>
               Option.bind (copy_loop env src_fd dest_fd s) (\<lambda>(err, s1).
                 (let (e, s2) = fe_fchmod env dest_fd (st_permissions st) s1 in Some (later_error err e, s2)))))"

definition copyFile :: "'s file_env \<Rightarrow> string \<Rightarrow> string \<Rightarrow> 's \<Rightarrow> (unit result \<times> 's) option" where
  "copyFile env src_path dest_path s =
     (case getFileStat env src_path s of
        Inl e \<Rightarrow> Some (Inl e, s)
      | Inr st \<Rightarrow>
          (let (src, s1) = fe_open_read env src_path s;
               (dest, s2) = fe_open_write env dest_path 0x1A4 s1
           in Option.bind (copy_opened env st src dest s2) (\<lambda>(err, s3).
                (let (e1, s4) = close_opened env src s3;
                     (e2, s5) = close_opened env dest s4
                 in case later_error (later_error err e1) e2 of
                      None \<Rightarrow> Some (Inr (), s5)
                    | Some e \<Rightarrow>
                        (let (u, s6) = fe_unlink env dest_path s5
                         in Some (Inl (SystemError (case u of None \<Rightarrow> e | Some e' \<Rightarrow> e')), s6))))))"

section \<open>Temporary files and directories\<close>

definition DEFAULT_TMP_DIR :: string where
  "DEFAULT_TMP_DIR = ''/tmp''"

definition tempDirectory :: "'s file_env \<Rightarrow> string" where
  "tempDirectory env =
     (case fe_getenv env ''TMPDIR'' of
        None \<Rightarrow> DEFAULT_TMP_DIR
      | Some tmpdir \<Rightarrow> if tmpdir = [] then DEFAULT_TMP_DIR else tmpdir)"

record temporary_file =
  tf_name :: string
  tf_fd :: "nat option"

text \<open>The result of \<^verbatim>\<open>fchmod\<close> is not looked at.\<close>

definition TemporaryFile_create ::
  "'s file_env \<Rightarrow> string \<Rightarrow> string \<Rightarrow> 32 word \<Rightarrow> 's \<Rightarrow> temporary_file result \<times> 's" where
  "TemporaryFile_create env directory prefix mode s =
     (case fe_mkstemp env (directory @ ''/'' @ prefix @ ''XXXXXX'') s of
        (Inl e, s1) \<Rightarrow> (Inl (SystemError e), s1)
      | (Inr (fd, name), s1) \<Rightarrow>
          (Inr \<lparr>tf_name = normalizePath name, tf_fd = Some fd\<rparr>,
           if mode \<noteq> 0x180 then snd (fe_fchmod env fd mode s1) else s1))"

definition new_TemporaryFile :: "'s file_env \<Rightarrow> string \<Rightarrow> 's \<Rightarrow> temporary_file result \<times> 's" where
  "new_TemporaryFile env prefix s = TemporaryFile_create env (tempDirectory env) prefix 0x180 s"

definition TemporaryFile_close :: "'s file_env \<Rightarrow> temporary_file \<Rightarrow> 's \<Rightarrow> temporary_file \<times> 's" where
  "TemporaryFile_close env t s =
     (t\<lparr>tf_fd := None\<rparr>, case tf_fd t of None \<Rightarrow> s | Some fd \<Rightarrow> snd (fe_close env fd s))"

definition TemporaryFile_destroy :: "'s file_env \<Rightarrow> temporary_file \<Rightarrow> 's \<Rightarrow> 's" where
  "TemporaryFile_destroy env t s =
     (let s1 = (case tf_fd t of None \<Rightarrow> s | Some fd \<Rightarrow> snd (fe_close env fd s))
      in snd (fe_unlink env (tf_name t) s1))"

text \<open>
  \<open>path\<close> is \<open>None\<close> for a null pointer.  The directory is removed by \<open>delete_directory\<close>, which is
  \<^verbatim>\<open>FileUtils::deleteDirectory\<close>.
\<close>

record temporary_directory =
  td_name :: string
  td_auto_remove :: bool

definition constructTmpDirPath :: "'s file_env \<Rightarrow> string option \<Rightarrow> string result" where
  "constructTmpDirPath env path =
     (case path of
        None \<Rightarrow> Inl RuntimeError
      | Some p \<Rightarrow> Inr (if p = [] then tempDirectory env else p))"

definition TemporaryDirectory_create :: "'s file_env \<Rightarrow> string option \<Rightarrow> string \<Rightarrow> 's \<Rightarrow> temporary_directory result \<times> 's" where
  "TemporaryDirectory_create env path prefix s =
     (case constructTmpDirPath env path of
        Inl e \<Rightarrow> (Inl e, s)
      | Inr p \<Rightarrow>
          (case fe_mkdtemp env (normalizePath (p @ ''/'' @ prefix @ ''XXXXXX'')) s of
             (Inl e, s1) \<Rightarrow> (Inl (SystemError e), s1)
           | (Inr name, s1) \<Rightarrow> (Inr \<lparr>td_name = name, td_auto_remove = True\<rparr>, s1)))"

definition setAutoRemove :: "bool \<Rightarrow> temporary_directory \<Rightarrow> temporary_directory" where
  "setAutoRemove auto_remove t = t\<lparr>td_auto_remove := auto_remove\<rparr>"

definition TemporaryDirectory_destroy ::
  "(string \<Rightarrow> 's \<Rightarrow> (unit result \<times> 's) option) \<Rightarrow> temporary_directory \<Rightarrow> 's \<Rightarrow> (unit result \<times> 's) option" where
  "TemporaryDirectory_destroy delete_directory t s =
     (if td_auto_remove t then delete_directory (td_name t) s else Some (Inr (), s))"

section \<open>Atomic writing\<close>

text \<open>\<^verbatim>\<open>dirname\<close> of the C library.\<close>

definition strip_slashes :: "string \<Rightarrow> string" where
  "strip_slashes p = rtrim_filter (\<lambda>c. c = slash) p"

definition dirname :: "string \<Rightarrow> string" where
  "dirname path =
     (if path = [] then ''.''
      else if strip_slashes path = [] then ''/''
      else
        (case rfind slash (strip_slashes path) of
           None \<Rightarrow> ''.''
         | Some i \<Rightarrow> (let d = strip_slashes (take i path) in if d = [] then ''/'' else d)))"

text \<open>The destructor of the temporary file runs on every way out.\<close>

definition writeFileAtomically ::
  "'s file_env \<Rightarrow> string \<Rightarrow> string \<Rightarrow> 32 word \<Rightarrow> string \<Rightarrow> string \<Rightarrow> 's \<Rightarrow> unit result \<times> 's" where
  "writeFileAtomically env path data mode intermediate_directory prefix s =
     (let temporary_directory = (if intermediate_directory \<noteq> [] then intermediate_directory else dirname path)
      in case TemporaryFile_create env temporary_directory prefix mode s of
           (Inl e, s1) \<Rightarrow> (Inl e, s1)
         | (Inr temp_file, s1) \<Rightarrow>
             (let (r, s2) =
                    (case fe_write_stream env (tf_name temp_file) data s1 of
                       (Some e, s2) \<Rightarrow> (Inl (SystemError e), s2)
                     | (None, s2) \<Rightarrow> checked (fe_rename env (tf_name temp_file) path s2))
              in (r, TemporaryFile_destroy env temp_file s2)))"

section \<open>createDirectory makes the directory and its parents\<close>

text \<open>
  \<open>kind_at s l\<close> is what exists at a location.  The working directory and its parents are directories;
  \<^verbatim>\<open>mkdir\<close> makes a directory in an existing one and fails with \<^verbatim>\<open>EEXIST\<close> where something is, and with
  \<^verbatim>\<open>ENOENT\<close> where the parent is missing and nothing but directories is on the way.
\<close>

definition clear_way :: "(string list \<Rightarrow> file_kind option) \<Rightarrow> string list \<Rightarrow> bool" where
  "clear_way kinds l \<longleftrightarrow> (\<forall>k \<le> length l. kinds (take k l) = None \<or> kinds (take k l) = Some DirectoryFile)"

lemma clear_way_snoc: "clear_way kinds (l @ [x]) \<Longrightarrow> clear_way kinds l"
  unfolding clear_way_def
proof (intro allI impI)
  fix k
  assume way: "\<forall>k \<le> length (l @ [x]). kinds (take k (l @ [x])) = None \<or> kinds (take k (l @ [x])) = Some DirectoryFile"
    and k: "k \<le> length l"
  have "k \<le> length (l @ [x])" using k by simp
  then have "kinds (take k (l @ [x])) = None \<or> kinds (take k (l @ [x])) = Some DirectoryFile" using way by blast
  then show "kinds (take k l) = None \<or> kinds (take k l) = Some DirectoryFile" using k by simp
qed

definition mkdir_law :: "'s file_env \<Rightarrow> string list \<Rightarrow> ('s \<Rightarrow> string list \<Rightarrow> file_kind option) \<Rightarrow> bool" where
  "mkdir_law env cwd kind_at \<longleftrightarrow>
     (\<forall>s k. kind_at s (take k cwd) = Some DirectoryFile) \<and>
     (\<forall>s l n. kind_at s (l @ [n]) \<noteq> None \<longrightarrow> kind_at s l = Some DirectoryFile) \<and>
     (\<forall>path mode s. path \<noteq> [] \<longrightarrow> kind_at s (resolve cwd path) \<noteq> None \<longrightarrow>
        fe_mkdir env path mode s = (Some EEXIST, s)) \<and>
     (\<forall>path mode s. path \<noteq> [] \<longrightarrow> kind_at s (resolve cwd path) = None \<longrightarrow>
        kind_at s (butlast (resolve cwd path)) = Some DirectoryFile \<longrightarrow>
        (\<exists>s'. fe_mkdir env path mode s = (None, s') \<and>
           kind_at s' = (kind_at s)(resolve cwd path := Some DirectoryFile))) \<and>
     (\<forall>path mode s. path \<noteq> [] \<longrightarrow> clear_way (kind_at s) (resolve cwd path) \<longrightarrow>
        kind_at s (butlast (resolve cwd path)) = None \<longrightarrow> fe_mkdir env path mode s = (Some ENOENT, s))"

lemma mkdir_lawD:
  assumes "mkdir_law env cwd kind_at"
  shows "kind_at s (take k cwd) = Some DirectoryFile"
    and "kind_at s (l @ [n]) \<noteq> None \<Longrightarrow> kind_at s l = Some DirectoryFile"
    and "path \<noteq> [] \<Longrightarrow> kind_at s (resolve cwd path) \<noteq> None \<Longrightarrow> fe_mkdir env path mode s = (Some EEXIST, s)"
    and "path \<noteq> [] \<Longrightarrow> kind_at s (resolve cwd path) = None \<Longrightarrow>
      kind_at s (butlast (resolve cwd path)) = Some DirectoryFile \<Longrightarrow>
      \<exists>s'. fe_mkdir env path mode s = (None, s') \<and> kind_at s' = (kind_at s)(resolve cwd path := Some DirectoryFile)"
    and "path \<noteq> [] \<Longrightarrow> clear_way (kind_at s) (resolve cwd path) \<Longrightarrow>
      kind_at s (butlast (resolve cwd path)) = None \<Longrightarrow> fe_mkdir env path mode s = (Some ENOENT, s)"
  using assms by (simp_all add: mkdir_law_def) metis

lemma parent_show_segs:
  assumes "norm_segs g (segs @ [x])" "segs \<noteq> []"
  shows "parent_path (show_segs g (segs @ [x])) = show_segs g segs"
proof -
  have x: "slash \<notin> set x" using assms(1) by (simp add: norm_segs_snoc plain_name_def)
  have "show_segs g (segs @ [x]) = show_segs g segs @ slash # x"
    using assms(2) by (simp add: show_segs_def join_segs_append)
  then show ?thesis using rfind_last [OF x] by (simp add: parent_path_def)
qed

lemma walk_dotdots: "\<forall>t \<in> set segs. t = ''..'' \<Longrightarrow> \<exists>k. foldl walk_seg loc segs = take k loc"
proof (induction segs rule: rev_induct)
  case Nil
  then show ?case by (intro exI [of _ "length loc"]) simp
next
  case (snoc t segs)
  then obtain k where "foldl walk_seg loc segs = take k loc" by auto
  then have "foldl walk_seg loc (segs @ [t]) = take (min k (length loc) - 1) loc"
    using snoc.prems by (auto simp: walk_seg_def butlast_conv_take min_def)
  then show ?case by blast
qed


text \<open>What the recursion does on a normalised path.\<close>

definition made_dirs :: "(string list \<Rightarrow> file_kind option) \<Rightarrow> string list \<Rightarrow> string list \<Rightarrow> file_kind option" where
  "made_dirs kinds l q = (if \<exists>k. q = take k l then Some DirectoryFile else kinds q)"

lemma ancestors_exist:
  assumes "mkdir_law env cwd kind_at" "kind_at s l = Some DirectoryFile"
  shows "kind_at s (take k l) = Some DirectoryFile"
proof -
  have "kind_at s (a @ b) = Some DirectoryFile \<Longrightarrow> kind_at s a = Some DirectoryFile" for a b
  proof (induction b rule: rev_induct)
    case (snoc n b)
    then show ?case using mkdir_lawD(2) [OF assms(1), of s "a @ b" n] by simp
  qed simp
  from this [of "take k l" "drop k l"] show ?thesis using assms(2) by simp
qed

lemma made_dirs_same:
  "mkdir_law env cwd kind_at \<Longrightarrow> kind_at s l = Some DirectoryFile \<Longrightarrow> made_dirs (kind_at s) l = kind_at s"
  using ancestors_exist by (fastforce simp: made_dirs_def)

lemma made_dirs_self [simp]: "made_dirs kinds l l = Some DirectoryFile"
  by (simp add: made_dirs_def) (metis order_refl take_all)

lemma made_dirs_snoc: "made_dirs kinds (l @ [n]) = (made_dirs kinds l)(l @ [n] := Some DirectoryFile)"
proof -
  have "(\<exists>k. q = take k (l @ [n])) \<longleftrightarrow> q = l @ [n] \<or> (\<exists>k. q = take k l)" for q
  proof
    assume "\<exists>k. q = take k (l @ [n])"
    then obtain k where "q = take k (l @ [n])" by blast
    then show "q = l @ [n] \<or> (\<exists>k. q = take k l)" by (cases "k \<le> length l") auto
  next
    assume "q = l @ [n] \<or> (\<exists>k. q = take k l)"
    then consider "q = take (Suc (length l)) (l @ [n])" | k where "q = take (min k (length l)) (l @ [n])" by (auto simp: min_def) (metis append_Nil2 diff_is_0_eq' nat_le_linear take0 take_all)
    then show "\<exists>k. q = take k (l @ [n])" by cases blast+
  qed
  then show ?thesis by (auto simp: made_dirs_def)
qed

lemma createDirectoriesInPath_made:
  assumes law: "mkdir_law env cwd kind_at"
  shows "norm_segs g segs \<Longrightarrow> l = foldl walk_seg (if g then [] else cwd) segs \<Longrightarrow> clear_way (kind_at s) l \<Longrightarrow>
    \<exists>s'. createDirectoriesInPath env (show_segs g segs) mode s = Some (Inr (), s') \<and> kind_at s' = made_dirs (kind_at s) l"
proof (induction segs arbitrary: l rule: rev_induct)
  case Nil
  have path: "resolve cwd (show_segs g []) = l" "show_segs g [] \<noteq> []"
    using Nil by (simp_all add: resolve_path_segs path_segs_show is_absolute_show) (simp add: show_segs_def)
  have "kind_at s l = Some DirectoryFile" using Nil(2) mkdir_lawD(1) [OF law, of s "if g then 0 else length cwd"] by (auto split: if_splits)
  then show ?case
    using mkdir_lawD(3) [OF law path(2), of s] made_dirs_same [OF law] path(1)
    by (simp add: createDirectoriesInPath.simps)
next
  case (snoc x segs)
  let ?p = "show_segs g (segs @ [x])" and ?l = "foldl walk_seg (if g then [] else cwd) segs"
  have norm: "norm_segs g segs" using snoc.prems(1) by (simp add: norm_segs_snoc)
  have "hd (segs @ [x]) \<noteq> []" using norm_segs_hd_not_Nil [OF snoc.prems(1)] by simp
  then have path: "resolve cwd ?p = l" "?p \<noteq> []"
    using snoc.prems(1,2) join_segs_hd [of "segs @ [x]"]
    by (simp_all add: resolve_path_segs path_segs_show is_absolute_show) (simp add: show_segs_def)
  have there: ?case if "kind_at s l = Some DirectoryFile"
    using mkdir_lawD(3) [OF law path(2), of s] made_dirs_same [OF law that] path(1) that
    by (simp add: createDirectoriesInPath.simps)
  show ?case
  proof (cases "x = ''..''")
    case True
    then have "\<not> g" "\<forall>t \<in> set (segs @ [x]). t = ''..''" using snoc.prems(1) by (auto simp: norm_segs_snoc)
    then obtain k where "l = take k cwd" using walk_dotdots [of "segs @ [x]" cwd] snoc.prems(2) by auto
    then show ?thesis using there mkdir_lawD(1) [OF law] by blast
  next
    case False
    then have "walk_seg ?l x = ?l @ [x]" using snoc.prems(1) by (simp add: norm_segs_snoc plain_name_def walk_seg_def)
    then have l: "l = ?l @ [x]" using snoc.prems(2) by simp
    have way: "clear_way (kind_at s) ?l" using snoc.prems(3) l clear_way_snoc by blast
    obtain s1 where s1: "createDirectoriesInPath env (show_segs g segs) mode s = Some (Inr (), s1)"
        "kind_at s1 = made_dirs (kind_at s) ?l"
      using snoc.IH [OF norm refl way] by blast
    show ?thesis
    proof (cases "kind_at s l = Some DirectoryFile")
      case True
      then show ?thesis by (rule there)
    next
      case missing: False
      then have none: "kind_at s l = None" using snoc.prems(3) by (metis clear_way_def le_refl take_all)
      have new: "made_dirs (kind_at s) ?l l = None" using none by (auto simp: made_dirs_def l dest!: arg_cong [where f = length])
      show ?thesis
      proof (cases "kind_at s ?l")
        case None
        have "segs \<noteq> []"
          using None mkdir_lawD(1) [OF law, of s "if g then 0 else length cwd"] by (auto split: if_splits)
        then have "parent_path ?p = show_segs g segs" using parent_show_segs snoc.prems(1) by blast
        moreover have "fe_mkdir env ?p mode s = (Some ENOENT, s)"
          using mkdir_lawD(5) [OF law path(2), of s] path(1) snoc.prems(3) None l by simp
        moreover obtain s2 where "fe_mkdir env ?p mode s1 = (None, s2)" "kind_at s2 = (kind_at s1)(l := Some DirectoryFile)"
          using mkdir_lawD(4) [OF law path(2), of s1 mode] path(1) new s1(2) l by auto
        ultimately show ?thesis
          using s1 by (simp add: createDirectoriesInPath.simps [of env ?p] checked_def ENOENT_def EEXIST_def l made_dirs_snoc fun_eq_iff)
      next
        case (Some k)
        then have dir: "kind_at s ?l = Some DirectoryFile" using way by (metis clear_way_def le_refl option.distinct(1) take_all)
        obtain s2 where "fe_mkdir env ?p mode s = (None, s2)" "kind_at s2 = (kind_at s)(l := Some DirectoryFile)"
          using mkdir_lawD(4) [OF law path(2), of s mode] path(1) none dir l by auto
        then show ?thesis
          using made_dirs_same [OF law dir] made_dirs_snoc [of "kind_at s" ?l x]
          by (simp add: createDirectoriesInPath.simps [of env ?p] l fun_upd_def)
      qed
    qed
  qed
qed

lemma createDirectory_made:
  assumes "mkdir_law env cwd kind_at" "clear_way (kind_at s) (resolve cwd path)"
  shows "\<exists>s'. createDirectory env path mode s = Some (Inr (), s') \<and> kind_at s' = made_dirs (kind_at s) (resolve cwd path)"
  using createDirectoriesInPath_made [OF assms(1) path_segs_norm resolve_path_segs assms(2), of mode]
  unfolding createDirectory_def normalizePath_eq [of path] by simp


text \<open>
  What is at the path need not be a directory: when there is a file, \<^verbatim>\<open>createDirectory\<close> returns as if
  it had made the directory.
\<close>

theorem createDirectory_over_file:
  assumes "mkdir_law env cwd kind_at" "kind_at s (resolve cwd path) = Some RegularFile"
  shows "createDirectory env path mode s = Some (Inr (), s)"
proof -
  have "fe_mkdir env (normalizePath path) mode s = (Some EEXIST, s)"
    by (rule mkdir_lawD(3) [OF assms(1)]) (simp_all add: assms(2) fnorm.norm_not_Nil resolve_normalize)
  then show ?thesis by (simp add: createDirectory_def createDirectoriesInPath.simps)
qed

text \<open>
  The parent of a relative path of one name is taken to be the path itself: where \<^verbatim>\<open>mkdir\<close> reports
  \<^verbatim>\<open>ENOENT\<close> for it, as in a working directory that has been removed, the recursion never ends.
\<close>

theorem createDirectoriesInPath_diverges:
  assumes "slash \<notin> set path" "\<forall>s. fe_mkdir env path mode s = (Some ENOENT, s)"
  shows "createDirectoriesInPath env path mode s = None"
proof -
  have "parent_path path = path" using assms(1) by (simp add: parent_path_def rfind_def)
  have "\<not> (e = env \<and> p = path \<and> m = mode)" if "createDirectoriesInPath e p m t = Some y" for e p m t y
  proof (rule createDirectoriesInPath.raw_induct [OF _ that])
    fix f e p m t y
    assume IH: "\<And>e p m t y. f e p m t = Some y \<Longrightarrow> \<not> (e = env \<and> p = path \<and> m = mode)"
      and step: "(case fe_mkdir e p m t of
          (None, s1) \<Rightarrow> Some (Inr (), s1)
        | (Some mkdir_error, s1) \<Rightarrow>
            if mkdir_error = EEXIST then Some (Inr (), s1)
            else if mkdir_error \<noteq> ENOENT then Some (Inl (SystemError mkdir_error), s1)
            else Option.bind (f e (parent_path p) m s1) (\<lambda>(r, s2).
              case r of Inl e \<Rightarrow> Some (Inl e, s2) | Inr _ \<Rightarrow> Some (checked (fe_mkdir e p m s2)))) = Some y"
    show "\<not> (e = env \<and> p = path \<and> m = mode)"
      using step IH [of env path mode] assms(2) \<open>parent_path path = path\<close>
      by (auto simp: ENOENT_def EEXIST_def bind_eq_Some_conv)
  qed
  then show ?thesis by (cases "createDirectoriesInPath env path mode s") blast+
qed

text \<open>
  Two calls that make the same directory and its parent at once: the one that loses the race on the
  last directory fails, although the directory exists.
\<close>

theorem createDirectory_race:
  assumes "fe_mkdir env ''a/b'' mode s = (Some ENOENT, s)" "fe_mkdir env ''a'' mode s = (None, s1)"
    and "fe_mkdir env ''a/b'' mode s1 = (Some EEXIST, s1)"
  shows "createDirectory env ''a/b'' mode s = Some (Inl (SystemError EEXIST), s1)"
proof -
  have "normalizePath ''a/b'' = ''a/b''" by code_simp
  moreover have "parent_path ''a/b'' = ''a''" by code_simp
  ultimately show ?thesis
    using assms by (simp add: createDirectory_def createDirectoriesInPath.simps checked_def ENOENT_def EEXIST_def)
qed

section \<open>Copying keeps the source and copies all of it\<close>

text \<open>
  The view is the contents of the regular file at a location, the location and offset a descriptor
  reads from, and the location a descriptor writes to.
\<close>

definition open_law ::
  "'s file_env \<Rightarrow> string list \<Rightarrow> ('s \<Rightarrow> string list \<Rightarrow> string option) \<Rightarrow> ('s \<Rightarrow> nat \<Rightarrow> string list \<times> nat) \<Rightarrow>
   ('s \<Rightarrow> nat \<Rightarrow> string list) \<Rightarrow> bool" where
  "open_law env cwd contents reading writing \<longleftrightarrow>
     (\<forall>path s r s'. fe_open_read env path s = (r, s') \<longrightarrow>
        contents s' = contents s \<and> (\<forall>fd. r = Inr fd \<longrightarrow> reading s' fd = (resolve cwd path, 0))) \<and>
     (\<forall>path mode s r s'. fe_open_write env path mode s = (r, s') \<longrightarrow>
        reading s' = reading s \<and>
        (case r of
           Inl e \<Rightarrow> contents s' = contents s
         | Inr fd \<Rightarrow> contents s' = (contents s)(resolve cwd path := Some []) \<and> writing s' fd = resolve cwd path))"

definition read_law ::
  "'s file_env \<Rightarrow> ('s \<Rightarrow> string list \<Rightarrow> string option) \<Rightarrow> ('s \<Rightarrow> nat \<Rightarrow> string list \<times> nat) \<Rightarrow>
   ('s \<Rightarrow> nat \<Rightarrow> string list) \<Rightarrow> bool" where
  "read_law env contents reading writing \<longleftrightarrow>
     (\<forall>fd n s r s'. fe_read env fd n s = (r, s') \<longrightarrow>
        contents s' = contents s \<and> writing s' = writing s \<and>
        (\<forall>buf l k c. r = Inr buf \<longrightarrow> reading s fd = (l, k) \<longrightarrow> contents s l = Some c \<longrightarrow>
           (\<exists>rest. drop k c = buf @ rest \<and> (buf = [] \<longrightarrow> rest = [])) \<and> reading s' fd = (l, k + length buf)))"

definition write_law ::
  "'s file_env \<Rightarrow> ('s \<Rightarrow> string list \<Rightarrow> string option) \<Rightarrow> ('s \<Rightarrow> nat \<Rightarrow> string list \<times> nat) \<Rightarrow>
   ('s \<Rightarrow> nat \<Rightarrow> string list) \<Rightarrow> bool" where
  "write_law env contents reading writing \<longleftrightarrow>
     (\<forall>fd buf s r s'. fe_write env fd buf s = (r, s') \<longrightarrow>
        (\<forall>l. l \<noteq> writing s fd \<longrightarrow> contents s' l = contents s l) \<and> reading s' = reading s \<and> writing s' = writing s \<and>
        (\<forall>c. r = Inr (length buf) \<longrightarrow> contents s (writing s fd) = Some c \<longrightarrow>
           contents s' (writing s fd) = Some (c @ buf)))"

text \<open>Changing attributes and closing leave the contents alone, \<^verbatim>\<open>unlink\<close> removes a file or fails.\<close>

definition keep_law :: "'s file_env \<Rightarrow> string list \<Rightarrow> ('s \<Rightarrow> string list \<Rightarrow> string option) \<Rightarrow> bool" where
  "keep_law env cwd contents \<longleftrightarrow>
     (\<forall>fd mode s. contents (snd (fe_fchmod env fd mode s)) = contents s) \<and>
     (\<forall>fd s. contents (snd (fe_close env fd s)) = contents s) \<and>
     (\<forall>path s. contents (snd (fe_unlink env path s)) =
        (if fst (fe_unlink env path s) = None then (contents s)(resolve cwd path := None) else contents s))"

lemma keep_lawD:
  assumes "keep_law env cwd contents"
  shows "contents (snd (fe_fchmod env fd mode s)) = contents s"
    and "contents (snd (fe_close env fd s)) = contents s"
    and "contents (snd (close_opened env r s)) = contents s"
    and "contents (snd (fe_unlink env path s)) =
      (if fst (fe_unlink env path s) = None then (contents s)(resolve cwd path := None) else contents s)"
  using assms by (simp_all add: keep_law_def close_opened_def split: sum.split)

text \<open>The loop ends, and copies what is left of the source behind what has been written.\<close>

lemma copy_loop_copies:
  assumes laws: "read_law env contents reading writing" "write_law env contents reading writing"
    and src: "reading s src = (l, k)" "contents s l = Some c" "k \<le> length c"
    and dest: "writing s dest \<noteq> l" "contents s (writing s dest) = Some (take k c)"
  shows "\<exists>r s'. copy_loop env src dest s = Some (r, s') \<and>
    (\<forall>q. q \<noteq> writing s dest \<longrightarrow> contents s' q = contents s q) \<and> (r = None \<longrightarrow> contents s' (writing s dest) = Some c)"
  using src dest
proof (induction "length c - k" arbitrary: s k rule: less_induct)
  case less
  obtain r s1 where rd: "fe_read env src 65536 s = (r, s1)" by fastforce
  then have s1: "contents s1 = contents s" "writing s1 = writing s" using laws(1) unfolding read_law_def by blast+
  show ?case
  proof (cases r)
    case (Inl e)
    then show ?thesis using rd s1 by (simp add: copy_loop.simps)
  next
    case (Inr buf)
    have "(\<exists>rest. drop k c = buf @ rest \<and> (buf = [] \<longrightarrow> rest = [])) \<and> reading s1 src = (l, k + length buf)"
      using laws(1) [unfolded read_law_def, rule_format, OF rd] Inr less.prems(1,2) by blast
    then obtain rest where buf: "drop k c = buf @ rest" "buf = [] \<longrightarrow> rest = []" "reading s1 src = (l, k + length buf)"
      by blast
    obtain w s2 where wr: "fe_write env dest buf s1 = (w, s2)" by fastforce
    then have s2: "\<forall>q. q \<noteq> writing s dest \<longrightarrow> contents s2 q = contents s q" "reading s2 = reading s1" "writing s2 = writing s"
        "w = Inr (length buf) \<longrightarrow> contents s2 (writing s dest) = Some (take k c @ buf)"
      using laws(2) s1 less.prems(5) unfolding write_law_def by metis+
    show ?thesis
    proof (cases "buf = [] \<or> w \<noteq> Inr (length buf)")
      case True
      then show ?thesis using rd Inr wr s1 s2(1) buf less.prems(3,5) by (auto simp: copy_loop.simps)
    next
      case False
      have len: "length buf + length rest = length c - k" using arg_cong [OF buf(1), of length] by simp
      have "0 < length buf" using False by simp
      then have dec: "length c - (k + length buf) < length c - k" using len by linarith
      have take: "take (k + length buf) c = take k c @ buf" using buf(1) by (simp add: take_add)
      have "\<exists>r s'. copy_loop env src dest s2 = Some (r, s') \<and>
          (\<forall>q. q \<noteq> writing s2 dest \<longrightarrow> contents s' q = contents s2 q) \<and> (r = None \<longrightarrow> contents s' (writing s2 dest) = Some c)"
        by (rule less.hyps [of "k + length buf"]) (use dec False len less.prems buf(3) s2 take in \<open>simp_all\<close>)
      then show ?thesis using rd Inr wr False s2(1,3) by (simp add: copy_loop.simps [of env src dest s])
    qed
  qed
qed

lemma copy_opened_copies:
  assumes laws: "read_law env contents reading writing" "write_law env contents reading writing" "keep_law env cwd contents"
    and src: "\<And>fd. src = Inr fd \<Longrightarrow> reading s fd = (l, 0)" "contents s l = Some c"
    and dest: "\<And>fd. dest = Inr fd \<Longrightarrow> writing s fd = l' \<and> contents s l' = Some []" "l' \<noteq> l"
  shows "\<exists>r s'. copy_opened env st src dest s = Some (r, s') \<and> (\<forall>q. q \<noteq> l' \<longrightarrow> contents s' q = contents s q) \<and>
    (r = None \<longrightarrow> contents s' l' = Some c)"
proof (cases dest)
  case (Inr dfd)
  show ?thesis
  proof (cases src)
    case src': (Inr sfd)
    obtain r s1 where r: "copy_loop env sfd dfd s = Some (r, s1)" "\<forall>q. q \<noteq> l' \<longrightarrow> contents s1 q = contents s q"
        "r = None \<longrightarrow> contents s1 l' = Some c"
      using copy_loop_copies [OF laws(1,2) src(1) [OF src'] src(2), of dfd] dest Inr by auto
    then show ?thesis
      using Inr src' keep_lawD(1) [OF laws(3), of dfd "st_permissions st" s1]
      by (auto simp: copy_opened_def later_error_def split: prod.splits option.splits)
  qed (simp add: copy_opened_def Inr)
qed (simp add: copy_opened_def)

text \<open>
  \<^verbatim>\<open>copyFile\<close> returns; it never changes the source, nor any file but the destination; when it reports
  success the destination has the contents of the source, and when the copy is undone without an
  error the destination is gone.
\<close>

theorem copyFile_copies:
  assumes laws: "open_law env cwd contents reading writing" "read_law env contents reading writing"
      "write_law env contents reading writing" "keep_law env cwd contents"
    and src: "contents s (resolve cwd src_path) = Some c" and differ: "resolve cwd src_path \<noteq> resolve cwd dest_path"
  shows "\<exists>r s'. copyFile env src_path dest_path s = Some (r, s') \<and>
    (\<forall>q. q \<noteq> resolve cwd dest_path \<longrightarrow> contents s' q = contents s q) \<and>
    (r = Inr () \<longrightarrow> contents s' (resolve cwd dest_path) = Some c)"
proof (cases "getFileStat env src_path s")
  case (Inr st)
  let ?l = "resolve cwd src_path" and ?l' = "resolve cwd dest_path"
  obtain src s1 where o1: "fe_open_read env src_path s = (src, s1)" by fastforce
  obtain dest s2 where o2: "fe_open_write env dest_path 0x1A4 s1 = (dest, s2)" by fastforce
  have s1: "contents s1 = contents s" "\<And>fd. src = Inr fd \<Longrightarrow> reading s1 fd = (?l, 0)"
    using laws(1) o1 unfolding open_law_def by blast+
  have "reading s2 = reading s1 \<and> (case dest of Inl e \<Rightarrow> contents s2 = contents s1
      | Inr fd \<Rightarrow> contents s2 = (contents s1)(?l' := Some []) \<and> writing s2 fd = ?l')"
    using laws(1) o2 unfolding open_law_def by blast
  then have s2: "\<And>fd. src = Inr fd \<Longrightarrow> reading s2 fd = (?l, 0)" "\<forall>q. q \<noteq> ?l' \<longrightarrow> contents s2 q = contents s q"
      "\<And>fd. dest = Inr fd \<Longrightarrow> writing s2 fd = ?l' \<and> contents s2 ?l' = Some []"
    using s1 by (auto split: sum.splits)
  obtain err s3 where c: "copy_opened env st src dest s2 = Some (err, s3)" "\<forall>q. q \<noteq> ?l' \<longrightarrow> contents s3 q = contents s q"
      "err = None \<longrightarrow> contents s3 ?l' = Some c"
    using copy_opened_copies [OF laws(2,3,4) s2(1) _ s2(3), where src = src and dest = dest and c = c and st = st] s2(2) src differ by auto
  obtain e1 s4 where k1: "close_opened env src s3 = (e1, s4)" by fastforce
  obtain e2 s5 where k2: "close_opened env dest s4 = (e2, s5)" by fastforce
  obtain u s6 where u: "fe_unlink env dest_path s5 = (u, s6)" by fastforce
  have "contents s5 = contents s3" using keep_lawD(3) [OF laws(4)] k1 k2 by (metis snd_conv)
  moreover have "\<forall>q. q \<noteq> ?l' \<longrightarrow> contents s6 q = contents s5 q"
    using keep_lawD(4) [OF laws(4), of dest_path s5] u by (auto split: if_splits)
  ultimately show ?thesis
    using Inr o1 o2 c k1 k2 u by (auto simp: copyFile_def later_error_def split: option.splits)
qed (use src in \<open>simp add: copyFile_def\<close>)

text \<open>
  When the source exists but cannot be opened, \<^verbatim>\<open>copyFile\<close> has by then emptied the destination and then
  removes it, and the error it reports is that of closing a descriptor that was never opened.
\<close>

theorem copyFile_unreadable_source:
  assumes laws: "open_law env cwd contents reading writing" "keep_law env cwd contents"
    and "getFileStat env src_path s = Inr st" "fe_open_read env src_path s = (Inl e, s1)"
    and "fe_open_write env dest_path 0x1A4 s1 = (Inr fd, s2)" "fe_close env fd s2 = (None, s3)"
    and "fe_unlink env dest_path s3 = (None, s4)"
  shows "copyFile env src_path dest_path s = Some (Inl (SystemError EBADF), s4) \<and>
    contents s4 (resolve cwd dest_path) = None"
  using assms(3-) keep_lawD(4) [OF laws(2), of dest_path s3]
  by (simp add: copyFile_def copy_opened_def close_opened_def later_error_def)

section \<open>Atomic writing is all or nothing\<close>

text \<open>
  \<^verbatim>\<open>mkstemp\<close> makes an empty file where there was none; a stream writes its data or fails with the file
  in any state; \<^verbatim>\<open>rename\<close> moves the file or fails.
\<close>

definition replace_law :: "'s file_env \<Rightarrow> string list \<Rightarrow> ('s \<Rightarrow> string list \<Rightarrow> string option) \<Rightarrow> bool" where
  "replace_law env cwd contents \<longleftrightarrow>
     (\<forall>template s r s'. fe_mkstemp env template s = (r, s') \<longrightarrow>
        (case r of
           Inl e \<Rightarrow> contents s' = contents s
         | Inr (fd, name) \<Rightarrow>
             contents s (resolve cwd name) = None \<and> contents s' = (contents s)(resolve cwd name := Some []))) \<and>
     (\<forall>name data s r s'. fe_write_stream env name data s = (r, s') \<longrightarrow>
        (\<forall>l. l \<noteq> resolve cwd name \<longrightarrow> contents s' l = contents s l) \<and>
        (r = None \<longrightarrow> contents s' (resolve cwd name) = Some data)) \<and>
     (\<forall>a b s r s'. fe_rename env a b s = (r, s') \<longrightarrow>
        contents s' =
          (if r = None then (contents s)(resolve cwd b := contents s (resolve cwd a), resolve cwd a := None) else contents s)) \<and>
     (\<forall>path s. contents (snd (fe_unlink env path s)) = (contents s)(resolve cwd path := None))"

lemma TemporaryFile_create_fresh:
  assumes laws: "replace_law env cwd contents" "keep_law env cwd contents"
    and "TemporaryFile_create env directory pre mode s = (r, s')"
  shows "case r of
      Inl e \<Rightarrow> contents s' = contents s
    | Inr t \<Rightarrow> contents s (resolve cwd (tf_name t)) = None \<and> contents s' = (contents s)(resolve cwd (tf_name t) := Some [])"
proof -
  obtain m s1 where m: "fe_mkstemp env (directory @ ''/'' @ pre @ ''XXXXXX'') s = (m, s1)" by fastforce
  have "case m of Inl e \<Rightarrow> contents s1 = contents s
      | Inr (fd, name) \<Rightarrow> contents s (resolve cwd name) = None \<and> contents s1 = (contents s)(resolve cwd name := Some [])"
    using laws(1) m unfolding replace_law_def by blast
  then show ?thesis
    using assms(3) m keep_lawD(1) [OF laws(2)]
    by (auto simp: TemporaryFile_create_def resolve_normalize split: sum.splits prod.splits if_splits)
qed


section \<open>Modification times\<close>

text \<open>\<^verbatim>\<open>utimensat\<close> sets the two times of a file and nothing else, or fails.\<close>

definition times_law :: "'s file_env \<Rightarrow> bool" where
  "times_law env \<longleftrightarrow>
     (\<forall>path atime mtime s s' st. fe_utimensat env path atime mtime s = (None, s') \<longrightarrow> fe_stat env path s = Inr st \<longrightarrow>
        fe_stat env path s' = Inr (st\<lparr>st_atim := atime, st_mtim := mtime\<rparr>))"

text \<open>
  A modification time that \<^verbatim>\<open>setFileMtime\<close> has set is what \<^verbatim>\<open>getFileMtime\<close> returns, to the microsecond, and the
  time of access stays as it was.
\<close>

theorem setFileMtime_getFileMtime:
  assumes "times_law env" "setFileMtime env path t s = (Inr (), s')"
  shows "getFileMtime env path s' = Inr (microseconds t * 1000) \<and>
    map_sum id st_atim (getFileStat env path s') = map_sum id st_atim (getFileStat env path s)"
proof -
  obtain st where st: "fe_stat env path s = Inr st" "fe_utimensat env path (st_atim st) (make_timespec t) s = (None, s')"
    using assms(2) by (cases "fe_stat env path s") (auto simp: setFileMtime_def getFileStat_def checked_def split: prod.splits option.splits)
  then have "fe_stat env path s' = Inr (st\<lparr>st_mtim := make_timespec t\<rparr>)"
    using assms(1) unfolding times_law_def by fastforce
  moreover have "microseconds t smod 1000000 * 1000 sdiv 1000 = microseconds t smod 1000000"
    by (simp add: signed_divide_int_def sgn_mult abs_mult sgn_mult_abs)
  moreover have "microseconds t sdiv 1000000 * 1000000000 + microseconds t smod 1000000 * 1000 = microseconds t * 1000"
    using sdiv_mult_smod_eq [of "microseconds t" 1000000] by linarith
  ultimately show ?thesis
    using st by (simp add: getFileMtime_def getFileStat_def getMtimeTimepoint_def make_timespec_def)
qed

section \<open>Witnesses\<close>

text \<open>
  A small file system with the root as working directory: directories that have been made, files
  with their contents, and what the descriptors 0 and 1 read and write.
\<close>

record demo_fs =
  df_dirs :: "string list list"
  df_files :: "string list \<Rightarrow> string option"
  df_reading :: "string list \<times> nat"
  df_writing :: "string list"

definition df_kind :: "demo_fs \<Rightarrow> string list \<Rightarrow> file_kind option" where
  "df_kind s l =
     (if l = [] \<or> (\<exists>d \<in> set (df_dirs s). is_prefix l d) then Some DirectoryFile
      else if length l = 1 \<and> df_files s l \<noteq> None then Some RegularFile
      else None)"

definition demo_stat :: stat_buf where
  "demo_stat = \<lparr>st_kind = RegularFile, st_permissions = 0x1A4, st_size = 0, st_atim = (5, 0), st_mtim = (7, 0)\<rparr>"

definition demo_fe :: "demo_fs file_env" where
  "demo_fe =
     \<lparr>fe_stat = (\<lambda>path s. if df_files s (resolve [] path) = None then Inl ENOENT else Inr demo_stat),
      fe_lstat = (\<lambda>path s. if df_files s (resolve [] path) = None then Inl ENOENT else Inr demo_stat),
      fe_fstat = (\<lambda>fd s. Inr demo_stat),
      fe_mkdir = (\<lambda>path mode s.
        let l = resolve [] path
        in if df_kind s l \<noteq> None then (Some EEXIST, s)
           else if df_kind s (butlast l) = Some DirectoryFile then (None, s\<lparr>df_dirs := l # df_dirs s\<rparr>)
           else (Some ENOENT, s)),
      fe_chmod = (\<lambda>path mode s. (None, s)),
      fe_fchmod = (\<lambda>fd mode s. (None, s)),
      fe_utimensat = (\<lambda>path atime mtime s. (Some EIO, s)),
      fe_futimens = (\<lambda>fd atime mtime s. (Some EIO, s)),
      fe_open_read = (\<lambda>path s.
        if path = ''/locked'' then (Inl 13, s) else (Inr 0, s\<lparr>df_reading := (resolve [] path, 0)\<rparr>)),
      fe_open_write = (\<lambda>path mode s.
        (Inr 1, s\<lparr>df_files := (df_files s)(resolve [] path := Some []), df_writing := resolve [] path\<rparr>)),
      fe_read = (\<lambda>fd n s.
        let (l, k) = df_reading s; buf = take 3 (drop k (case df_files s l of None \<Rightarrow> [] | Some c \<Rightarrow> c))
        in (Inr buf, s\<lparr>df_reading := (l, k + length buf)\<rparr>)),
      fe_write = (\<lambda>fd buf s.
        (Inr (length buf), s\<lparr>df_files := (df_files s)(df_writing s :=
           Some ((case df_files s (df_writing s) of None \<Rightarrow> [] | Some c \<Rightarrow> c) @ buf))\<rparr>)),
      fe_close = (\<lambda>fd s. (None, s)),
      fe_unlink = (\<lambda>path s. (None, s\<lparr>df_files := (df_files s)(resolve [] path := None)\<rparr>)),
      fe_rename = (\<lambda>a b s.
        (None, s\<lparr>df_files := (df_files s)(resolve [] b := df_files s (resolve [] a), resolve [] a := None)\<rparr>)),
      fe_mkstemp = (\<lambda>template s.
        if df_files s (resolve [] template) = None
        then (Inr (2, template), s\<lparr>df_files := (df_files s)(resolve [] template := Some [])\<rparr>)
        else (Inl EEXIST, s)),
      fe_mkdtemp = (\<lambda>template s. (Inl EIO, s)),
      fe_read_stream = (\<lambda>path s. (df_files s (resolve [] path), s)),
      fe_write_stream = (\<lambda>name data s. (None, s\<lparr>df_files := (df_files s)(resolve [] name := Some data)\<rparr>)),
      fe_getenv = (\<lambda>_. None)\<rparr>"

definition demo_files :: demo_fs where
  "demo_files =
     \<lparr>df_dirs = [[''etc'']], df_files = [[''src''] \<mapsto> ''data'', [''dest''] \<mapsto> ''old'', [''locked''] \<mapsto> ''x''],
      df_reading = ([], 0), df_writing = []\<rparr>"

lemma df_kind_made:
  assumes "df_kind s l = None" "df_kind s (butlast l) = Some DirectoryFile"
  shows "df_kind (s\<lparr>df_dirs := l # df_dirs s\<rparr>) = (df_kind s)(l := Some DirectoryFile)"
proof -
  have below: "df_kind s q = Some DirectoryFile" if q: "is_prefix q l" "q \<noteq> l" for q
  proof -
    obtain t where "l = q @ t" "t \<noteq> []" using q by (auto simp: is_prefix_iff)
    then have "butlast l = q @ butlast t" by (simp add: butlast_append)
    then show ?thesis using assms(2) by (fastforce simp: df_kind_def is_prefix_iff split: if_splits)
  qed
  have "is_prefix l l" by (simp add: is_prefix_iff)
  then have "df_kind (s\<lparr>df_dirs := l # df_dirs s\<rparr>) q = ((df_kind s)(l := Some DirectoryFile)) q" for q
    using below [of q] by (cases "is_prefix q l") (auto simp: df_kind_def)
  then show ?thesis by blast
qed

lemma demo_mkdir_law: "mkdir_law demo_fe [] df_kind"
proof -
  have snoc: "df_kind s (l @ [n]) \<noteq> None \<Longrightarrow> df_kind s l = Some DirectoryFile" for s l n
    by (fastforce simp: df_kind_def is_prefix_iff split: if_splits)
  moreover have "df_kind s l \<noteq> None \<Longrightarrow> df_kind s (butlast l) = Some DirectoryFile" for s l
    using snoc [of s "butlast l" "last l"] by (cases "l = []") (simp_all add: df_kind_def)
  moreover have "df_kind s [] = Some DirectoryFile" for s by (simp add: df_kind_def)
  ultimately show ?thesis
    using df_kind_made
    by (auto simp: mkdir_law_def demo_fe_def Let_def clear_way_def)
qed


lemma take_rest: "\<exists>rest. drop k c = take 3 (drop k c) @ rest \<and> (length c \<le> k \<longrightarrow> rest = [])"
  by (intro exI [of _ "drop 3 (drop k c)"]) (simp del: drop_drop)

lemma demo_laws:
  "open_law demo_fe [] df_files (\<lambda>s fd. df_reading s) (\<lambda>s fd. df_writing s)"
  "read_law demo_fe df_files (\<lambda>s fd. df_reading s) (\<lambda>s fd. df_writing s)"
  "write_law demo_fe df_files (\<lambda>s fd. df_reading s) (\<lambda>s fd. df_writing s)"
  "keep_law demo_fe [] df_files" "replace_law demo_fe [] df_files"
  using take_rest
  by (auto simp: open_law_def read_law_def write_law_def keep_law_def replace_law_def demo_fe_def Let_def
      split: if_splits prod.splits)

lemma demo_paths: "resolve [] ''/src'' = [''src'']" "resolve [] ''/dest'' = [''dest'']" "resolve [] ''/locked'' = [''locked'']"
  by code_simp+

lemma demo_locked: "df_files demo_files [''locked''] = Some ''x''"
  by (simp add: demo_files_def)

lemma demo_source: "df_files demo_files [''src''] = Some ''data''"
  by (simp add: demo_files_def)

lemma demo_env_simps:
  "fe_stat demo_fe path s = (if df_files s (resolve [] path) = None then Inl ENOENT else Inr demo_stat)"
  "fe_open_read demo_fe ''/src'' s = (Inr 0, s\<lparr>df_reading := ([''src''], 0)\<rparr>)"
  "fe_open_write demo_fe ''/dest'' mode s = (Inr 1, s\<lparr>df_files := (df_files s)([''dest''] := Some []), df_writing := [''dest'']\<rparr>)"
  "fe_fchmod demo_fe fd mode s = (None, s)" "fe_close demo_fe fd s = (None, s)"
  by (simp_all add: demo_fe_def demo_paths)

lemma demo_loop: "copy_loop demo_fe src dest s = Some y \<Longrightarrow> fst y = None"
proof -
  have "e = demo_fe \<longrightarrow> fst y = None" if "copy_loop e src dest s = Some y" for e
    by (rule copy_loop.raw_induct [OF _ that, where P = "\<lambda>e a b s y. e = demo_fe \<longrightarrow> fst y = None"])
      (auto simp: demo_fe_def Let_def split: if_splits prod.splits)
  then show "copy_loop demo_fe src dest s = Some y \<Longrightarrow> fst y = None" by blast
qed

theorem copyFile_copies_witness:
  "\<exists>s'. copyFile demo_fe ''/src'' ''/dest'' demo_files = Some (Inr (), s') \<and>
     df_files s' [''src''] = Some ''data'' \<and> df_files s' [''dest''] = Some ''data''"
proof -
  have "df_files demo_files (resolve [] ''/src'') = Some ''data''" by (simp add: demo_files_def demo_paths)
  note copied = copyFile_copies [OF demo_laws(1-4) this, of "''/dest''"]
  obtain r s' where run: "copyFile demo_fe ''/src'' ''/dest'' demo_files = Some (r, s')" using copied by (auto simp: demo_paths)
  then have "r = Inr ()"
    by (auto simp: copyFile_def getFileStat_def copy_opened_def close_opened_def later_error_def demo_env_simps demo_source demo_paths
        bind_eq_Some_conv dest: demo_loop)
  with copied run show ?thesis by (auto simp: demo_paths demo_files_def)
qed

theorem copyFile_unreadable_source_witness:
  "\<exists>s'. copyFile demo_fe ''/locked'' ''/dest'' demo_files = Some (Inl (SystemError EBADF), s') \<and> df_files s' [''dest''] = None"
proof -
  let ?s2 = "demo_files\<lparr>df_files := (df_files demo_files)([''dest''] := Some []), df_writing := [''dest'']\<rparr>"
  obtain s4 where "fe_unlink demo_fe ''/dest'' ?s2 = (None, s4)" by (simp add: demo_fe_def)
  moreover have "getFileStat demo_fe ''/locked'' demo_files = Inr demo_stat" "fe_open_read demo_fe ''/locked'' demo_files = (Inl 13, demo_files)"
      "fe_open_write demo_fe ''/dest'' 0x1A4 demo_files = (Inr 1, ?s2)" "fe_close demo_fe 1 ?s2 = (None, ?s2)"
    by (simp_all add: demo_fe_def getFileStat_def demo_locked demo_paths)
  ultimately show ?thesis
    using copyFile_unreadable_source [OF demo_laws(1,4)] by (metis demo_paths(2))
qed

theorem createDirectory_over_file_witness:
  "createDirectory demo_fe ''/src'' 0x1FF demo_files = Some (Inr (), demo_files)"
  by (rule createDirectory_over_file [OF demo_mkdir_law]) (simp add: demo_paths df_kind_def demo_files_def is_prefix_def)

theorem createDirectoriesInPath_diverges_witness:
  "createDirectoriesInPath (demo_fe\<lparr>fe_mkdir := \<lambda>path mode s. (Some ENOENT, s)\<rparr>) ''a'' 0x1FF demo_files = None"
  by (rule createDirectoriesInPath_diverges) simp_all

theorem createDirectory_race_witness:
  "createDirectory (demo_fe\<lparr>fe_mkdir := \<lambda>path mode s.
       if path = ''a'' then (None, s\<lparr>df_dirs := [[''a'', ''b'']]\<rparr>) else if df_dirs s = [[''a'', ''b'']] then (Some EEXIST, s) else (Some ENOENT, s)\<rparr>)
     ''a/b'' 0x1FF demo_files = Some (Inl (SystemError EEXIST), demo_files\<lparr>df_dirs := [[''a'', ''b'']]\<rparr>)"
  by (rule createDirectory_race) (simp_all add: demo_files_def)


theorem setFileMtime_getFileMtime_witness:
  "getFileMtime (demo_fe\<lparr>fe_stat := \<lambda>path s. Inr (demo_stat\<lparr>st_mtim := (int (snd (df_reading s)), 0)\<rparr>),
       fe_utimensat := \<lambda>path atime mtime s. if atime = (5, 0) \<and> 0 \<le> fst mtime \<and> snd mtime = 0
         then (None, s\<lparr>df_reading := ([], nat (fst mtime))\<rparr>) else (Some EIO, s)\<rparr>) ''/src'' (demo_files\<lparr>df_reading := ([], 9)\<rparr>) = Inr 9000000000"
proof -
  let ?env = "demo_fe\<lparr>fe_stat := \<lambda>path s. Inr (demo_stat\<lparr>st_mtim := (int (snd (df_reading s)), 0)\<rparr>),
       fe_utimensat := \<lambda>path atime mtime s. if atime = (5, 0) \<and> 0 \<le> fst mtime \<and> snd mtime = 0
         then (None, s\<lparr>df_reading := ([], nat (fst mtime))\<rparr>) else (Some EIO, s)\<rparr>"
  have "times_law ?env" by (auto simp: times_law_def demo_stat_def split: if_splits)
  moreover have "setFileMtime ?env ''/src'' 9000000000 demo_files = (Inr (), demo_files\<lparr>df_reading := ([], 9)\<rparr>)"
    by (simp add: setFileMtime_def getFileStat_def checked_def demo_stat_def make_timespec_def microseconds_def)
  ultimately show ?thesis using setFileMtime_getFileMtime [of ?env "''/src''" 9000000000 demo_files] by (simp add: microseconds_def)
qed

end
