(* ===== verification/Runner_Args.thy ===== *)
theory Runner_Args
  imports Connection File_System
begin

text \<open>
  The members of \<^verbatim>\<open>Runner\<close> (\<^verbatim>\<open>buildboxcommon_runner.h\<close>) and its command line,
  \<^verbatim>\<open>Runner::parseArguments\<close> in \<^verbatim>\<open>buildboxcommon_runner.cpp\<close>, with the log levels of
  \<^verbatim>\<open>buildboxcommon_logging.cpp\<close>.

  \<open>special\<close> is the method \<^verbatim>\<open>parseArg\<close> of a subclass with a state of its own, \<open>is_directory\<close> is
  \<^verbatim>\<open>FileUtils::isDirectory\<close>.
\<close>

section \<open>Members\<close>

datatype log_level = TRACE | DEBUG | INFO | WARNING | ERROR

definition stringToLogLevelMap :: "(string, log_level) smap" where
  "stringToLogLevelMap =
     [(''debug'', DEBUG), (''error'', ERROR), (''info'', INFO), (''trace'', TRACE), (''warning'', WARNING)]"

definition logLevelToStringMap :: "(log_level \<times> string) list" where
  "logLevelToStringMap =
     [(TRACE, ''trace''), (DEBUG, ''debug''), (INFO, ''info''), (WARNING, ''warning''), (ERROR, ''error'')]"

definition stringifyLogLevels :: string where
  "stringifyLogLevels = butlast (concat (map (\<lambda>p. snd p @ ''/'') logLevelToStringMap))"

definition printableCommandLine :: "string list \<Rightarrow> string" where
  "printableCommandLine commandLine =
     (if commandLine = [] then [] else concat (map (\<lambda>token. token @ '' '') (butlast commandLine)) @ last commandLine)"

record capture_config =
  stdout_file_path :: string
  stderr_file_path :: string
  skip_capture :: bool

text \<open>
  \<open>rn_verbose\<close> says whether \<^verbatim>\<open>--verbose\<close> has set the level of the logger, which is not a member;
  \<open>rn_logDirectory\<close> is the output directory of the logger.
\<close>

record runner =
  rn_use_localcas_protocol :: bool
  rn_stage_path :: string
  rn_standardOutputsCaptureConfig :: capture_config
  rn_validateParametersAndExit :: bool
  rn_casRemote :: connection_options
  rn_inputPath :: string
  rn_outputPath :: string
  rn_logLevel :: log_level
  rn_verbose :: bool
  rn_logDirectory :: "string option"

definition new_runner :: runner where
  "new_runner =
     \<lparr>rn_use_localcas_protocol = True, rn_stage_path = [],
      rn_standardOutputsCaptureConfig = \<lparr>stdout_file_path = [], stderr_file_path = [], skip_capture = False\<rparr>,
      rn_validateParametersAndExit = False, rn_casRemote = new_connection_options, rn_inputPath = [], rn_outputPath = [],
      rn_logLevel = INFO, rn_verbose = False, rn_logDirectory = None\<rparr>"

definition setOutputPath :: "string \<Rightarrow> runner \<Rightarrow> unit result \<times> runner" where
  "setOutputPath path rn =
     (if rn_outputPath rn \<noteq> [] then (Inl RuntimeError, rn) else (Inr (), rn\<lparr>rn_outputPath := path\<rparr>))"

text \<open>A function returns, throws, or ends the process.\<close>

datatype 'a outcome = Returns 'a | Throws exn | Exits int

section \<open>Arguments\<close>

definition tolower :: "char \<Rightarrow> char" where
  "tolower c = (let n = of_char c :: nat in if 65 \<le> n \<and> n \<le> 90 then char_of (n + 32) else c)"

text \<open>The options with a value.\<close>

definition value_option :: "(string \<Rightarrow> bool result) \<Rightarrow> string \<Rightarrow> string \<Rightarrow> runner \<Rightarrow> bool outcome \<times> runner" where
  "value_option is_directory key value rn =
     (if key = ''action'' then (Returns True, rn\<lparr>rn_inputPath := value\<rparr>)
      else if key = ''action-result'' then (Returns True, rn\<lparr>rn_outputPath := value\<rparr>)
      else if key = ''workspace-path'' then (Returns True, rn\<lparr>rn_stage_path := value\<rparr>)
      else if key = ''log-level'' then
        (case smap_find stringToLogLevelMap (map tolower value) of
           None \<Rightarrow> (Returns False, rn)
         | Some level \<Rightarrow> (Returns True, rn\<lparr>rn_logLevel := level\<rparr>))
      else if key = ''log-file'' then (Returns False, rn)
      else if key = ''log-directory'' then
        (case is_directory value of
           Inl e \<Rightarrow> (Throws e, rn)
         | Inr False \<Rightarrow> (Returns False, rn)
         | Inr True \<Rightarrow> (Returns True, rn\<lparr>rn_logDirectory := Some value\<rparr>))
      else if key = ''stdout-file'' then
        (Returns True, rn\<lparr>rn_standardOutputsCaptureConfig := (rn_standardOutputsCaptureConfig rn)\<lparr>stdout_file_path := value\<rparr>\<rparr>)
      else if key = ''stderr-file'' then
        (Returns True, rn\<lparr>rn_standardOutputsCaptureConfig := (rn_standardOutputsCaptureConfig rn)\<lparr>stderr_file_path := value\<rparr>\<rparr>)
      else (Returns False, rn))"

definition flag_option :: "string \<Rightarrow> runner \<Rightarrow> bool outcome \<times> runner" where
  "flag_option arg rn =
     (if arg = ''help'' then (Exits 0, rn)
      else if arg = ''use-localcas'' then (Returns True, rn\<lparr>rn_use_localcas_protocol := True\<rparr>)
      else if arg = ''disable-localcas'' then (Returns True, rn\<lparr>rn_use_localcas_protocol := False\<rparr>)
      else if arg = ''no-logs-capture'' then
        (Returns True, rn\<lparr>rn_standardOutputsCaptureConfig := (rn_standardOutputsCaptureConfig rn)\<lparr>skip_capture := True\<rparr>\<rparr>)
      else if arg = ''verbose'' then (Returns True, rn\<lparr>rn_verbose := True\<rparr>)
      else if arg = ''capabilities'' then (Exits 0, rn)
      else if arg = ''validate-parameters'' then (Returns True, rn\<lparr>rn_validateParametersAndExit := True\<rparr>)
      else (Returns False, rn))"

definition runner_arg ::
  "(string \<Rightarrow> 'x \<Rightarrow> bool \<times> 'x) \<Rightarrow> (string \<Rightarrow> bool result) \<Rightarrow> string \<Rightarrow> runner \<Rightarrow> 'x \<Rightarrow> bool outcome \<times> runner \<times> 'x" where
  "runner_arg special is_directory arg rn x =
     (case special arg x of
        (True, x') \<Rightarrow> (Returns True, rn, x')
      | (False, x') \<Rightarrow>
          (case parseArg arg None (rn_casRemote rn) of
             (True, co) \<Rightarrow> (Returns True, rn\<lparr>rn_casRemote := co\<rparr>, x')
           | (False, co) \<Rightarrow>
               (let rn' = rn\<lparr>rn_casRemote := co\<rparr>;
                    (r, rn'') =
                      (if take 2 arg = ''--'' then
                         (case split_option (drop 2 arg) of
                            (key, Some value) \<Rightarrow> value_option is_directory key value rn'
                          | (name, None) \<Rightarrow> flag_option name rn')
                       else (Returns False, rn'))
                in (r, rn'', x'))))"

fun parse_arguments ::
  "(string \<Rightarrow> 'x \<Rightarrow> bool \<times> 'x) \<Rightarrow> (string \<Rightarrow> bool result) \<Rightarrow> string list \<Rightarrow> runner \<Rightarrow> 'x \<Rightarrow> bool outcome \<times> runner \<times> 'x" where
  "parse_arguments special is_directory [] rn x = (Returns (co_url (rn_casRemote rn) \<noteq> None), rn, x)"
| "parse_arguments special is_directory (arg # argv) rn x =
     (case runner_arg special is_directory arg rn x of
        (Returns True, rn', x') \<Rightarrow> parse_arguments special is_directory argv rn' x'
      | (r, rn', x') \<Rightarrow> (r, rn', x'))"

definition parseArguments ::
  "(string \<Rightarrow> 'x \<Rightarrow> bool \<times> 'x) \<Rightarrow> (string \<Rightarrow> bool result) \<Rightarrow> string list \<Rightarrow> runner \<Rightarrow> 'x \<Rightarrow> bool outcome \<times> runner \<times> 'x" where
  "parseArguments special is_directory argv rn x = parse_arguments special is_directory (tl argv) rn x"

section \<open>The connection options a worker prints are accepted\<close>

text \<open>Arguments of the connection that no subclass takes are all given to the connection options.\<close>

lemma parse_arguments_connection:
  assumes "\<And>arg. arg \<in> set args \<Longrightarrow> special arg x = (False, x)"
    and "parse_all None args (rn_casRemote rn) = (True, co)"
  shows "parse_arguments special is_directory (args @ rest) rn x =
    parse_arguments special is_directory rest (rn\<lparr>rn_casRemote := co\<rparr>) x"
  using assms
proof (induction args arbitrary: rn)
  case Nil
  then show ?case by (cases rn) simp
next
  case (Cons arg args)
  obtain r co1 where r: "parseArg arg None (rn_casRemote rn) = (r, co1)" by fastforce
  then have rest: "r" "parse_all None args (rn_casRemote (rn\<lparr>rn_casRemote := co1\<rparr>)) = (True, co)"
    using Cons.prems(2) by (auto simp: case_prod_beta Let_def) (metis fst_conv prod.collapse snd_conv)
  then have "runner_arg special is_directory arg rn x = (Returns True, rn\<lparr>rn_casRemote := co1\<rparr>, x)"
    using r Cons.prems(1) by (simp add: runner_arg_def)
  then show ?case using Cons.IH [OF _ rest(2)] Cons.prems(1) by simp
qed

text \<open>
  A runner started with the arguments that \<^verbatim>\<open>putArgs\<close> makes for a connection has that connection and goes on
  with the arguments behind them, as long as the subclass does not take them for its own.
\<close>

theorem runner_accepts_putArgs:
  assumes "\<And>arg. arg \<in> set (putArgs None co) \<Longrightarrow> special arg x = (False, x)"
    and "co_retryLimit co \<noteq> None" "co_retryDelay co \<noteq> None"
  shows "parseArguments special is_directory (program # putArgs None co @ rest) new_runner x =
    parse_arguments special is_directory rest
      (new_runner\<lparr>rn_casRemote := co\<lparr>co_clientCert := None, co_clientKey := None, co_serverCert := None\<rparr>\<rparr>) x"
  using parse_arguments_connection [where args = "putArgs None co" and special = special and x = x and rn = new_runner] assms(1)
    putArgs_parsed [OF assms(2,3), of None]
  by (simp add: parseArguments_def new_runner_def)

theorem runner_accepts_putArgs_witness:
  "parseArguments (\<lambda>_ x. (False, x)) (\<lambda>_. Inr True) (''runner'' # putArgs None (setUrl ''http://cas'' new_connection_options) @ [''--action=a'']) new_runner ()
   = (Returns True, new_runner\<lparr>rn_casRemote := setUrl ''http://cas'' new_connection_options, rn_inputPath := ''a''\<rparr>, ())"
  using runner_accepts_putArgs [of "setUrl ''http://cas'' new_connection_options" "\<lambda>_ x. (False, x)" "()" "\<lambda>_. Inr True" "''runner''" "[''--action=a'']"]
  by (simp add: runner_arg_def value_option_def parseArg_def split_option_def assign_option_def setUrl_def new_connection_options_def new_runner_def)

section \<open>What is accepted\<close>

text \<open>Accepted arguments name the CAS server.\<close>

lemma parseArguments_accepts:
  assumes "parseArguments special is_directory argv rn x = (Returns True, rn', x')"
  shows "co_url (rn_casRemote rn') \<noteq> None"
proof -
  have "parse_arguments special is_directory args rn x = (Returns True, rn', x') \<Longrightarrow> co_url (rn_casRemote rn') \<noteq> None" for args
  proof (induction args arbitrary: rn x)
    case (Cons arg args)
    then show ?case by (auto split: prod.splits outcome.splits bool.splits)
  qed simp
  then show ?thesis using assms by (auto simp: parseArguments_def)
qed

end
