(* ===== verification/Traversal.thy ===== *)
theory Traversal
  imports File_System
begin

text \<open>
  Directory streams (\<^verbatim>\<open>buildboxcommon_direntwrapper.cpp\<close>), the recursive traversal of
  \<^verbatim>\<open>buildboxcommon_fileutils.cpp\<close> and what is built on it: deleting and clearing directories, and the
  change of permissions in \<^verbatim>\<open>buildboxcommon_runner.cpp\<close>.

  A directory stream is identified by its descriptor.  The traversal follows what the system calls
  say and need not end; not returning is \<open>None\<close>.
\<close>

section \<open>Directory streams\<close>

text \<open>
  \<open>de_openat\<close> is \<^verbatim>\<open>openat\<close> with \<^verbatim>\<open>O_DIRECTORY\<close>, \<open>de_fstatat\<close> is \<^verbatim>\<open>fstatat\<close> with
  \<^verbatim>\<open>AT_SYMLINK_NOFOLLOW\<close>; the flag of \<open>de_unlinkat\<close> is \<^verbatim>\<open>AT_REMOVEDIR\<close> and its descriptor is absent for
  \<^verbatim>\<open>AT_FDCWD\<close>.
\<close>

record 's dir_env =
  de_opendir :: "string \<Rightarrow> 's \<Rightarrow> (int + nat) \<times> 's"
  de_openat :: "nat \<Rightarrow> string \<Rightarrow> 's \<Rightarrow> (int + nat) \<times> 's"
  de_fdopendir :: "nat \<Rightarrow> 's \<Rightarrow> int option \<times> 's"
  de_close :: "nat \<Rightarrow> 's \<Rightarrow> 's"
  de_readdir :: "nat \<Rightarrow> 's \<Rightarrow> (int + string option) \<times> 's"
  de_closedir :: "nat \<Rightarrow> 's \<Rightarrow> 's"
  de_fstatat :: "nat \<Rightarrow> string \<Rightarrow> 's \<Rightarrow> int + file_kind"
  de_unlinkat :: "nat option \<Rightarrow> string \<Rightarrow> bool \<Rightarrow> 's \<Rightarrow> int option \<times> 's"
  de_fchmod :: "nat \<Rightarrow> 32 word \<Rightarrow> 's \<Rightarrow> int option \<times> 's"

record dirent_wrapper =
  dw_fd :: nat
  dw_entry :: "string option"
  dw_path :: string
  dw_p_fd :: "nat option"

definition is_dots :: "string \<Rightarrow> bool" where
  "is_dots name \<longleftrightarrow> name = ''.'' \<or> name = ''..''"

partial_function (option) dw_next ::
  "'s dir_env \<Rightarrow> dirent_wrapper \<Rightarrow> 's \<Rightarrow> (dirent_wrapper result \<times> 's) option" where
  "dw_next env dw s =
     (case de_readdir env (dw_fd dw) s of
        (Inl e, s1) \<Rightarrow> Some (Inl (SystemError e), s1)
      | (Inr entry, s1) \<Rightarrow>
          if (case entry of None \<Rightarrow> False | Some name \<Rightarrow> is_dots name) then dw_next env dw s1
          else Some (Inr (dw\<lparr>dw_entry := entry\<rparr>), s1))"

text \<open>The two constructors; an exception in them leaves the stream open, since there is no object to destroy.\<close>

definition DirentWrapper_path :: "'s dir_env \<Rightarrow> string \<Rightarrow> 's \<Rightarrow> (dirent_wrapper result \<times> 's) option" where
  "DirentWrapper_path env path s =
     (case de_opendir env path s of
        (Inl e, s1) \<Rightarrow> Some (Inl (SystemError e), s1)
      | (Inr fd, s1) \<Rightarrow> dw_next env \<lparr>dw_fd = fd, dw_entry = None, dw_path = path, dw_p_fd = None\<rparr> s1)"

definition DirentWrapper_fd ::
  "'s dir_env \<Rightarrow> nat \<Rightarrow> nat option \<Rightarrow> string \<Rightarrow> 's \<Rightarrow> (dirent_wrapper result \<times> 's) option" where
  "DirentWrapper_fd env fd p_fd path s =
     (case de_fdopendir env fd s of
        (Some e, s1) \<Rightarrow> Some (Inl (SystemError e), de_close env fd s1)
      | (None, s1) \<Rightarrow> dw_next env \<lparr>dw_fd = fd, dw_entry = None, dw_path = path, dw_p_fd = p_fd\<rparr> s1)"

definition DirentWrapper_destroy :: "'s dir_env \<Rightarrow> dirent_wrapper \<Rightarrow> 's \<Rightarrow> 's" where
  "DirentWrapper_destroy env dw s = de_closedir env (dw_fd dw) s"

definition currentEntryIs :: "file_kind \<Rightarrow> 's dir_env \<Rightarrow> dirent_wrapper \<Rightarrow> 's \<Rightarrow> bool result" where
  "currentEntryIs k env dw s =
     (case dw_entry dw of
        None \<Rightarrow> Inr False
      | Some d_name \<Rightarrow> map_sum SystemError (\<lambda>kind. kind = k) (de_fstatat env (dw_fd dw) d_name s))"

definition currentEntryIsFile :: "'s dir_env \<Rightarrow> dirent_wrapper \<Rightarrow> 's \<Rightarrow> bool result" where
  "currentEntryIsFile env dw s = currentEntryIs RegularFile env dw s"

definition currentEntryIsDirectory :: "'s dir_env \<Rightarrow> dirent_wrapper \<Rightarrow> 's \<Rightarrow> bool result" where
  "currentEntryIsDirectory env dw s = currentEntryIs DirectoryFile env dw s"

definition openEntry :: "'s dir_env \<Rightarrow> dirent_wrapper \<Rightarrow> 's \<Rightarrow> nat option \<times> 's" where
  "openEntry env dw s =
     (case dw_entry dw of
        None \<Rightarrow> (None, s)
      | Some d_name \<Rightarrow>
          (case de_openat env (dw_fd dw) d_name s of (Inl _, s1) \<Rightarrow> (None, s1) | (Inr fd, s1) \<Rightarrow> (Some fd, s1)))"

definition currentEntryPath :: "dirent_wrapper \<Rightarrow> string" where
  "currentEntryPath dw = (case dw_entry dw of None \<Rightarrow> [] | Some d_name \<Rightarrow> dw_path dw @ ''/'' @ d_name)"

definition nextDir :: "'s dir_env \<Rightarrow> dirent_wrapper \<Rightarrow> 's \<Rightarrow> (dirent_wrapper result \<times> 's) option" where
  "nextDir env dw s =
     (case openEntry env dw s of
        (None, s1) \<Rightarrow> Some (Inl RuntimeError, s1)
      | (Some next_fd, s1) \<Rightarrow> DirentWrapper_fd env next_fd (Some (dw_fd dw)) (currentEntryPath dw) s1)"

section \<open>The traversal\<close>

type_synonym 's traversal_fn = "string \<Rightarrow> nat option \<Rightarrow> 's \<Rightarrow> unit result \<times> 's"

definition apply_fn :: "'s traversal_fn option \<Rightarrow> string \<Rightarrow> nat option \<Rightarrow> 's \<Rightarrow> unit result \<times> 's" where
  "apply_fn f path fd s = (case f of None \<Rightarrow> (Inr (), s) | Some g \<Rightarrow> g path fd s)"

partial_function (option) fileDescriptorTraverseAndApply ::
  "'s dir_env \<Rightarrow> 's traversal_fn option \<Rightarrow> 's traversal_fn option \<Rightarrow> bool \<Rightarrow> bool \<Rightarrow> dirent_wrapper \<Rightarrow> 's \<Rightarrow>
   (unit result \<times> 's) option" where
  "fileDescriptorTraverseAndApply env dir_func file_func apply_to_root pass_parent_fd dir s =
     (case dw_entry dir of
        None \<Rightarrow>
          Some (if apply_to_root
                then apply_fn dir_func (dw_path dir) (if pass_parent_fd then dw_p_fd dir else Some (dw_fd dir)) s
                else (Inr (), s))
      | Some d_name \<Rightarrow>
          (case currentEntryIsDirectory env dir s of
             Inl e \<Rightarrow> Some (Inl e, s)
           | Inr is_directory \<Rightarrow>
               Option.bind
                 (if is_directory
                  then Option.bind (nextDir env dir s) (\<lambda>(r, s1).
                    case r of
                      Inl e \<Rightarrow> Some (Inl e, s1)
                    | Inr next_dir \<Rightarrow>
                        Option.bind (fileDescriptorTraverseAndApply env dir_func file_func True pass_parent_fd next_dir s1)
                          (\<lambda>(r, s2). Some (r, DirentWrapper_destroy env next_dir s2)))
                  else Some (apply_fn file_func d_name (Some (dw_fd dir)) s))
                 (\<lambda>(r, s3).
                   case r of
                     Inl e \<Rightarrow> Some (Inl e, s3)
                   | Inr _ \<Rightarrow>
                       Option.bind (dw_next env dir s3) (\<lambda>(r, s4).
                         case r of
                           Inl e \<Rightarrow> Some (Inl e, s4)
                         | Inr dir' \<Rightarrow>
                             fileDescriptorTraverseAndApply env dir_func file_func apply_to_root pass_parent_fd dir' s4))))"

section \<open>What is built on it\<close>

definition rmdir_func :: "'s dir_env \<Rightarrow> 's traversal_fn" where
  "rmdir_func env dir_path fd s =
     (case fd of
        Some _ \<Rightarrow>
          if pathBasename dir_path = [] then (Inr (), s)
          else checked (de_unlinkat env fd (pathBasename dir_path) True s)
      | None \<Rightarrow> checked (de_unlinkat env None dir_path True s))"

definition unlink_func :: "'s dir_env \<Rightarrow> 's traversal_fn" where
  "unlink_func env file_path fd s = checked (de_unlinkat env fd file_path False s)"

text \<open>An object \<open>DirentWrapper root(path)\<close>, what is done with it, and its destructor.\<close>

definition with_directory ::
  "'s dir_env \<Rightarrow> string \<Rightarrow> (dirent_wrapper \<Rightarrow> 's \<Rightarrow> ('a result \<times> 's) option) \<Rightarrow> 's \<Rightarrow> ('a result \<times> 's) option" where
  "with_directory env path body s =
     Option.bind (DirentWrapper_path env path s) (\<lambda>(r, s1).
       case r of
         Inl e \<Rightarrow> Some (Inl e, s1)
       | Inr dir \<Rightarrow> Option.bind (body dir s1) (\<lambda>(r, s2). Some (r, DirentWrapper_destroy env dir s2)))"

definition deleteRecursively :: "'s dir_env \<Rightarrow> string \<Rightarrow> bool \<Rightarrow> 's \<Rightarrow> (unit result \<times> 's) option" where
  "deleteRecursively env path delete_root_directory s =
     with_directory env path
       (fileDescriptorTraverseAndApply env (Some (rmdir_func env)) (Some (unlink_func env)) delete_root_directory True) s"

definition deleteDirectory :: "'s dir_env \<Rightarrow> string \<Rightarrow> 's \<Rightarrow> (unit result \<times> 's) option" where
  "deleteDirectory env path s = deleteRecursively env path True s"

definition clearDirectory :: "'s dir_env \<Rightarrow> string \<Rightarrow> 's \<Rightarrow> (unit result \<times> 's) option" where
  "clearDirectory env path s = deleteRecursively env path False s"

definition directoryIsEmpty :: "'s dir_env \<Rightarrow> string \<Rightarrow> 's \<Rightarrow> (bool result \<times> 's) option" where
  "directoryIsEmpty env path s = with_directory env path (\<lambda>dir s. Some (Inr (dw_entry dir = None), s)) s"

text \<open>Errors of \<^verbatim>\<open>fchmod\<close> are only logged.\<close>

definition chmod_func :: "'s dir_env \<Rightarrow> 32 word \<Rightarrow> 's traversal_fn" where
  "chmod_func env mode dir_path fd s =
     (case fd of None \<Rightarrow> (Inr (), s) | Some d \<Rightarrow> (Inr (), snd (de_fchmod env d mode s)))"

definition recursively_chmod_directories :: "'s dir_env \<Rightarrow> string \<Rightarrow> 32 word \<Rightarrow> 's \<Rightarrow> (unit result \<times> 's) option" where
  "recursively_chmod_directories env path mode s =
     with_directory env path
       (fileDescriptorTraverseAndApply env (Some (chmod_func env mode)) None True False) s"

section \<open>Deleting removes exactly the tree\<close>

text \<open>
  The view of the state: what exists at each location, and the location and the remaining names of
  each open stream.  A tree has plain names, finitely many nodes, and nothing below what is not a directory.
\<close>

type_synonym nodes = "string list \<Rightarrow> file_kind option"

definition names_in :: "nodes \<Rightarrow> string list \<Rightarrow> string set" where
  "names_in N l = {n. N (l @ [n]) \<noteq> None}"

definition tree_ok :: "nodes \<Rightarrow> bool" where
  "tree_ok N \<longleftrightarrow>
     finite (dom N) \<and>
     (\<forall>l n r. N (l @ n # r) \<noteq> None \<longrightarrow>
        n \<noteq> [] \<and> \<not> is_dots n \<and> slash \<notin> set n \<and> (r \<noteq> [] \<longrightarrow> N (l @ [n]) = Some DirectoryFile))"

definition removed :: "string list \<Rightarrow> nodes \<Rightarrow> nodes" where
  "removed l N q = (if is_prefix l q then None else N q)"

definition cleared :: "string list \<Rightarrow> nodes \<Rightarrow> nodes" where
  "cleared l N q = (if is_prefix l q \<and> q \<noteq> l then None else N q)"

text \<open>A stream just opened holds the names in the directory, in any order, with or without the dots.\<close>

definition opened_stream ::
  "('s \<Rightarrow> nodes) \<Rightarrow> ('s \<Rightarrow> nat \<Rightarrow> (string list \<times> string list) option) \<Rightarrow> 's \<Rightarrow> nat \<Rightarrow> string list \<Rightarrow> 's \<Rightarrow> bool" where
  "opened_stream nodes streams s d l s' \<longleftrightarrow>
     (\<exists>names. streams s d = None \<and> nodes s' = nodes s \<and> streams s' = (streams s)(d \<mapsto> (l, names)) \<and>
        distinct names \<and> {n \<in> set names. \<not> is_dots n} = names_in (nodes s) l)"

definition opendir_law where
  "opendir_law env cwd nodes streams \<longleftrightarrow>
     (\<forall>path s. tree_ok (nodes s) \<longrightarrow> nodes s (resolve cwd path) = Some DirectoryFile \<longrightarrow>
        (\<exists>d s'. de_opendir env path s = (Inr d, s') \<and> opened_stream nodes streams s d (resolve cwd path) s'))"

definition openat_law where
  "openat_law env nodes streams \<longleftrightarrow>
     (\<forall>d l rest n s. tree_ok (nodes s) \<longrightarrow> streams s d = Some (l, rest) \<longrightarrow> nodes s (l @ [n]) = Some DirectoryFile \<longrightarrow>
        (\<exists>fd s1 s2. de_openat env d n s = (Inr fd, s1) \<and> de_fdopendir env fd s1 = (None, s2) \<and>
           opened_stream nodes streams s fd (l @ [n]) s2))"

definition readdir_law where
  "readdir_law env nodes streams \<longleftrightarrow>
     (\<forall>d l rest s. streams s d = Some (l, rest) \<longrightarrow>
        (\<exists>s'. de_readdir env d s = (Inr (case rest of [] \<Rightarrow> None | n # ns \<Rightarrow> Some n), s') \<and>
           nodes s' = nodes s \<and> streams s' = (streams s)(d \<mapsto> (l, tl rest))))"

definition closedir_law where
  "closedir_law env nodes streams \<longleftrightarrow>
     (\<forall>d s. nodes (de_closedir env d s) = nodes s \<and> streams (de_closedir env d s) = (streams s)(d := None))"

definition fstatat_law where
  "fstatat_law env nodes streams \<longleftrightarrow>
     (\<forall>d l rest n s k. streams s d = Some (l, rest) \<longrightarrow> nodes s (l @ [n]) = Some k \<longrightarrow> de_fstatat env d n s = Inr k)"

text \<open>
  The removal of a file, and of a directory without entries, below a stream or at a path; a path that
  ends in a dot is not removed.
\<close>

definition unlinkat_law where
  "unlinkat_law env cwd nodes streams \<longleftrightarrow>
     (\<forall>fd path l s dir.
        (case fd of
           None \<Rightarrow> l = resolve cwd path \<and> \<not> is_dots (last (split_at slash path))
         | Some d \<Rightarrow> (\<exists>p rest. streams s d = Some (p, rest) \<and> l = p @ [path])) \<longrightarrow>
        nodes s l \<noteq> None \<longrightarrow> dir = (nodes s l = Some DirectoryFile) \<longrightarrow> names_in (nodes s) l = {} \<longrightarrow>
        (\<exists>s'. de_unlinkat env fd path dir s = (None, s') \<and> nodes s' = (nodes s)(l := None) \<and> streams s' = streams s))"

definition dir_law ::
  "'s dir_env \<Rightarrow> string list \<Rightarrow> ('s \<Rightarrow> nodes) \<Rightarrow> ('s \<Rightarrow> nat \<Rightarrow> (string list \<times> string list) option) \<Rightarrow> bool" where
  "dir_law env cwd nodes streams \<longleftrightarrow>
     opendir_law env cwd nodes streams \<and> openat_law env nodes streams \<and> readdir_law env nodes streams \<and>
     closedir_law env nodes streams \<and> fstatat_law env nodes streams \<and> unlinkat_law env cwd nodes streams"

lemma basename_entry:
  assumes "n \<noteq> []" "slash \<notin> set n"
  shows "pathBasename (p @ ''/'' @ n) = n"
proof -
  have "last n \<noteq> slash" using assms last_in_set [of n] by metis
  then show ?thesis
    using assms rfind_last [of slash n p] by (simp add: pathBasename_def Let_def)
qed

lemma tree_okD:
  assumes "tree_ok N" "N (l @ n # r) \<noteq> None"
  shows "n \<noteq> []" "\<not> is_dots n" "slash \<notin> set n" "r \<noteq> [] \<Longrightarrow> N (l @ [n]) = Some DirectoryFile" "n \<in> names_in N l"
proof -
  have *: "n \<noteq> [] \<and> \<not> is_dots n \<and> slash \<notin> set n \<and> (r \<noteq> [] \<longrightarrow> N (l @ [n]) = Some DirectoryFile)"
    using assms unfolding tree_ok_def by blast
  then show "n \<noteq> []" "\<not> is_dots n" "slash \<notin> set n" "r \<noteq> [] \<Longrightarrow> N (l @ [n]) = Some DirectoryFile" by blast+
  show "n \<in> names_in N l" using * assms(2) by (cases "r = []") (auto simp: names_in_def)
qed

lemma is_prefix_strict: "is_prefix l q \<and> q \<noteq> l \<longleftrightarrow> (\<exists>n r. q = l @ n # r)"
  by (auto simp: is_prefix_iff) (metis append_Nil2 list.exhaust)

lemma removed_entry:
  assumes ok: "tree_ok N" and none: "names_in N l = {}"
  shows "N(l := None) = removed l N"
proof
  fix q
  show "(N(l := None)) q = removed l N q"
  proof (cases "is_prefix l q \<and> q \<noteq> l")
    case True
    then obtain n r where "q = l @ n # r" by (auto simp: is_prefix_strict)
    then show ?thesis using True tree_okD(5) [OF ok, of l n r] none by (cases "N q") (auto simp: removed_def)
  qed (auto simp: removed_def is_prefix_iff)
qed

lemma tree_ok_removed:
  assumes ok: "tree_ok N"
  shows "tree_ok (removed l N)"
  unfolding tree_ok_def
proof (intro conjI allI impI)
  have "dom (removed l N) \<subseteq> dom N" by (auto simp: removed_def split: if_splits)
  then show "finite (dom (removed l N))" using ok finite_subset unfolding tree_ok_def by blast
  fix a n r
  assume "removed l N (a @ n # r) \<noteq> None"
  then have N: "N (a @ n # r) \<noteq> None" "\<not> is_prefix l (a @ n # r)" by (auto simp: removed_def split: if_splits)
  then show "n \<noteq> []" "\<not> is_dots n" "slash \<notin> set n" using tree_okD [OF ok] by blast+
  assume "r \<noteq> []"
  moreover have "\<not> is_prefix l (a @ [n])" using N(2) unfolding is_prefix_iff by (metis append.assoc append_Cons append_Nil)
  ultimately show "removed l N (a @ [n]) = Some DirectoryFile" using tree_okD(4) [OF ok N(1)] by (simp add: removed_def)
qed

definition inside_of :: "nodes \<Rightarrow> string list \<Rightarrow> string list set" where
  "inside_of N l = {q. N q \<noteq> None \<and> is_prefix l q \<and> q \<noteq> l}"

lemma inside_smaller:
  assumes "tree_ok N" "N (l @ [n]) \<noteq> None"
  shows "card (inside_of N (l @ [n])) < card (inside_of N l)"
    and "card (inside_of (removed (l @ [n]) N) l) < card (inside_of N l)"
proof -
  have fin: "finite (inside_of N l)" using assms(1) by (auto simp: tree_ok_def inside_of_def dom_def elim: finite_subset [rotated])
  have here: "l @ [n] \<in> inside_of N l" using assms(2) by (auto simp: inside_of_def is_prefix_iff)
  have "inside_of N (l @ [n]) \<subseteq> inside_of N l - {l @ [n]}"
    "inside_of (removed (l @ [n]) N) l \<subseteq> inside_of N l - {l @ [n]}"
    by (auto simp: inside_of_def removed_def is_prefix_iff split: if_splits)
  then show "card (inside_of N (l @ [n])) < card (inside_of N l)"
    "card (inside_of (removed (l @ [n]) N) l) < card (inside_of N l)"
    using fin here by (meson card_Diff1_less card_mono finite_Diff le_less_trans)+
qed

lemma cleared_empty:
  assumes "tree_ok N" "names_in N l = {}"
  shows "cleared l N = N"
proof
  fix q
  show "cleared l N q = N q"
    using tree_okD(5) [OF assms(1), of l] assms(2) by (cases "N q") (auto simp: cleared_def is_prefix_strict)
qed

lemma cleared_removed: "cleared l (removed (l @ [n]) N) = cleared l N"
  by (auto simp: cleared_def removed_def is_prefix_iff fun_eq_iff)

lemma names_in_removed: "names_in (removed (l @ [n]) N) l = names_in N l - {n}"
  by (auto simp: names_in_def removed_def is_prefix_iff)

section \<open>The loop over a directory\<close>

text \<open>The names that are still to be visited: the present one and those left in the stream.\<close>

definition pending :: "string option \<Rightarrow> string list \<Rightarrow> string list" where
  "pending entry rest = (case entry of None \<Rightarrow> [] | Some n \<Rightarrow> n # filter (\<lambda>n. \<not> is_dots n) rest)"

lemma dw_next_reads:
  assumes law: "readdir_law env nodes streams" and "streams s (dw_fd dw) = Some (l, rest)"
  shows "\<exists>s' entry rest'. dw_next env dw s = Some (Inr (dw\<lparr>dw_entry := entry\<rparr>), s') \<and> nodes s' = nodes s \<and>
    streams s' = (streams s)(dw_fd dw \<mapsto> (l, rest')) \<and> pending entry rest' = filter (\<lambda>n. \<not> is_dots n) rest \<and>
    (entry = None \<longrightarrow> rest' = [])"
  using assms(2)
proof (induction rest arbitrary: s)
  case Nil
  obtain s' where "de_readdir env (dw_fd dw) s = (Inr None, s')" "nodes s' = nodes s" "streams s' = (streams s)(dw_fd dw \<mapsto> (l, []))"
    using law Nil unfolding readdir_law_def by fastforce
  then show ?case by (intro exI [of _ s'] exI [of _ None] exI [of _ "[]"]) (simp add: dw_next.simps pending_def)
next
  case (Cons n ns)
  obtain s' where s': "de_readdir env (dw_fd dw) s = (Inr (Some n), s')" "nodes s' = nodes s" "streams s' = (streams s)(dw_fd dw \<mapsto> (l, ns))"
    using law Cons.prems unfolding readdir_law_def by fastforce
  show ?case
  proof (cases "is_dots n")
    case True
    have "streams s' (dw_fd dw) = Some (l, ns)" using s'(3) by simp
    then obtain t entry rest' where "dw_next env dw s' = Some (Inr (dw\<lparr>dw_entry := entry\<rparr>), t)" "nodes t = nodes s'"
        "streams t = (streams s')(dw_fd dw \<mapsto> (l, rest'))" "pending entry rest' = filter (\<lambda>n. \<not> is_dots n) ns" "entry = None \<longrightarrow> rest' = []"
      using Cons.IH by blast
    then show ?thesis
      using True s' by (intro exI [of _ t] exI [of _ entry] exI [of _ rest']) (simp add: dw_next.simps [of env dw s])
  next
    case False
    then show ?thesis
      using s' by (intro exI [of _ s'] exI [of _ "Some n"] exI [of _ ns]) (simp add: dw_next.simps pending_def)
  qed
qed

text \<open>Removing one entry, file or directory.\<close>

definition visit_entry ::
  "'s dir_env \<Rightarrow> dirent_wrapper \<Rightarrow> string \<Rightarrow> bool \<Rightarrow> 's \<Rightarrow> (unit result \<times> 's) option" where
  "visit_entry env dir d_name is_directory s =
     (if is_directory
      then Option.bind (nextDir env dir s) (\<lambda>(r, s1).
        case r of
          Inl e \<Rightarrow> Some (Inl e, s1)
        | Inr next_dir \<Rightarrow>
            Option.bind (fileDescriptorTraverseAndApply env (Some (rmdir_func env)) (Some (unlink_func env)) True True next_dir s1)
              (\<lambda>(r, s2). Some (r, DirentWrapper_destroy env next_dir s2)))
      else Some (apply_fn (Some (unlink_func env)) d_name (Some (dw_fd dir)) s))"

lemma traverse_step:
  assumes "dw_entry dir = Some n" "currentEntryIsDirectory env dir s = Inr b" "visit_entry env dir n b s = Some (Inr (), s3)"
    and "dw_next env dir s3 = Some (Inr dir', s4)"
  shows "fileDescriptorTraverseAndApply env (Some (rmdir_func env)) (Some (unlink_func env)) at_root True dir s =
    fileDescriptorTraverseAndApply env (Some (rmdir_func env)) (Some (unlink_func env)) at_root True dir' s4"
  using assms by (subst fileDescriptorTraverseAndApply.simps) (simp add: visit_entry_def)

definition deletes ::
  "'s dir_env \<Rightarrow> ('s \<Rightarrow> nodes) \<Rightarrow> ('s \<Rightarrow> nat \<Rightarrow> (string list \<times> string list) option) \<Rightarrow> bool \<Rightarrow> dirent_wrapper \<Rightarrow> string list \<Rightarrow> 's \<Rightarrow> bool" where
  "deletes env nodes streams at_root dir l s \<longleftrightarrow>
     (\<exists>s'. fileDescriptorTraverseAndApply env (Some (rmdir_func env)) (Some (unlink_func env)) at_root True dir s =
           Some (if at_root then rmdir_func env (dw_path dir) (dw_p_fd dir) s' else (Inr (), s')) \<and>
        nodes s' = cleared l (nodes s) \<and> streams s' = (streams s)(dw_fd dir \<mapsto> (l, [])))"

definition visiting ::
  "('s \<Rightarrow> nodes) \<Rightarrow> ('s \<Rightarrow> nat \<Rightarrow> (string list \<times> string list) option) \<Rightarrow> dirent_wrapper \<Rightarrow> string list \<Rightarrow> 's \<Rightarrow> bool" where
  "visiting nodes streams dir l s \<longleftrightarrow>
     tree_ok (nodes s) \<and>
     (\<exists>rest. streams s (dw_fd dir) = Some (l, rest) \<and> distinct (pending (dw_entry dir) rest) \<and>
        set (pending (dw_entry dir) rest) = names_in (nodes s) l \<and> (dw_entry dir = None \<longrightarrow> rest = []))"

text \<open>A stream that has just been opened is at its first entry.\<close>

lemma opened_visiting:
  assumes "readdir_law env nodes streams" "tree_ok (nodes s)" "opened_stream nodes streams s fd l s1"
  shows "\<exists>dir s2. dw_next env \<lparr>dw_fd = fd, dw_entry = None, dw_path = path, dw_p_fd = p\<rparr> s1 = Some (Inr dir, s2) \<and>
    dw_fd dir = fd \<and> dw_path dir = path \<and> dw_p_fd dir = p \<and> visiting nodes streams dir l s2 \<and>
    nodes s2 = nodes s \<and> (\<exists>rest. streams s2 = (streams s)(fd \<mapsto> (l, rest)))"
proof -
  let ?dw = "\<lparr>dw_fd = fd, dw_entry = None, dw_path = path, dw_p_fd = p\<rparr>"
  obtain names where names: "nodes s1 = nodes s" "streams s1 = (streams s)(fd \<mapsto> (l, names))" "distinct names"
      "{n \<in> set names. \<not> is_dots n} = names_in (nodes s) l"
    using assms(3) unfolding opened_stream_def by blast
  have "streams s1 (dw_fd ?dw) = Some (l, names)" using names(2) by simp
  from dw_next_reads [OF assms(1) this] obtain s2 entry rest where
    "dw_next env ?dw s1 = Some (Inr (?dw\<lparr>dw_entry := entry\<rparr>), s2)" "nodes s2 = nodes s1"
    "streams s2 = (streams s1)(fd \<mapsto> (l, rest))" "pending entry rest = filter (\<lambda>n. \<not> is_dots n) names" "entry = None \<longrightarrow> rest = []"
    by auto
  then show ?thesis
    using names assms(2)
    by (intro exI [of _ "?dw\<lparr>dw_entry := entry\<rparr>"] exI [of _ s2]) (auto simp: visiting_def)
qed

lemma visit_entry_removes:
  assumes law: "dir_law env cwd nodes streams" and ok: "tree_ok (nodes s)"
    and str: "streams s (dw_fd dir) = Some (l, rest)" and dir: "dw_entry dir = Some n" and k: "nodes s (l @ [n]) = Some k"
    and IH: "\<And>dir' s1. visiting nodes streams dir' (l @ [n]) s1 \<Longrightarrow> nodes s1 = nodes s \<Longrightarrow> deletes env nodes streams True dir' (l @ [n]) s1"
  shows "\<exists>s3. visit_entry env dir n (k = DirectoryFile) s = Some (Inr (), s3) \<and> nodes s3 = removed (l @ [n]) (nodes s) \<and> streams s3 = streams s"
proof -
  have unlink: "\<exists>s'. de_unlinkat env fd path b t = (None, s') \<and> nodes s' = (nodes t)(q := None) \<and> streams s' = streams t"
    if "case fd of None \<Rightarrow> q = resolve cwd path \<and> \<not> is_dots (last (split_at slash path)) | Some d \<Rightarrow> \<exists>p rest. streams t d = Some (p, rest) \<and> q = p @ [path]"
      "nodes t q \<noteq> None" "b = (nodes t q = Some DirectoryFile)" "names_in (nodes t) q = {}" for fd t q path b
    using law that unfolding dir_law_def unlinkat_law_def by blast
  show ?thesis
proof (cases "k = DirectoryFile")
  case False
  have "names_in (nodes s) (l @ [n]) = {}"
    using tree_okD(4) [OF ok, of l n "[m]" for m] k False by (fastforce simp: names_in_def)
  moreover have "\<exists>s3. de_unlinkat env (Some (dw_fd dir)) n False s = (None, s3) \<and> nodes s3 = (nodes s)(l @ [n] := None) \<and> streams s3 = streams s"
    using unlink [where fd = "Some (dw_fd dir)" and t = s and q = "l @ [n]" and path = n and b = False] str k False calculation by auto
  ultimately show ?thesis
    using False removed_entry [OF ok] by (auto simp: visit_entry_def apply_fn_def unlink_func_def checked_def)
next
  case True
  obtain fd s1 s2 where o: "de_openat env (dw_fd dir) n s = (Inr fd, s1)" "de_fdopendir env fd s1 = (None, s2)"
      "opened_stream nodes streams s fd (l @ [n]) s2"
    using law ok str k True unfolding dir_law_def openat_law_def by blast
  have fresh: "streams s fd = None" using o(3) unfolding opened_stream_def by blast
  let ?path = "dw_path dir @ ''/'' @ n"
  have "readdir_law env nodes streams" using law by (simp add: dir_law_def)
  from opened_visiting [OF this ok o(3), of ?path "Some (dw_fd dir)"] obtain dir' s3 rest' where
    d: "dw_next env \<lparr>dw_fd = fd, dw_entry = None, dw_path = ?path, dw_p_fd = Some (dw_fd dir)\<rparr> s2 = Some (Inr dir', s3)"
      "dw_fd dir' = fd" "dw_path dir' = ?path" "dw_p_fd dir' = Some (dw_fd dir)" "visiting nodes streams dir' (l @ [n]) s3"
      "nodes s3 = nodes s" "streams s3 = (streams s)(fd \<mapsto> (l @ [n], rest'))"
    by blast
  have nd: "nextDir env dir s = Some (Inr dir', s3)"
    using o d dir by (simp add: nextDir_def openEntry_def DirentWrapper_fd_def currentEntryPath_def)
  obtain s4 where s4: "fileDescriptorTraverseAndApply env (Some (rmdir_func env)) (Some (unlink_func env)) True True dir' s3 =
        Some (rmdir_func env ?path (Some (dw_fd dir)) s4)"
      "nodes s4 = cleared (l @ [n]) (nodes s)" "streams s4 = (streams s)(fd \<mapsto> (l @ [n], []))"
    using IH [OF d(5,6)] d(2,3,4,6,7) unfolding deletes_def by auto
  have "fd \<noteq> dw_fd dir" using fresh str by auto
  then have "streams s4 (dw_fd dir) = Some (l, rest)" using s4(3) str by simp
  moreover have "nodes s4 (l @ [n]) = Some DirectoryFile" using s4(2) k True by (simp add: cleared_def)
  moreover have "names_in (nodes s4) (l @ [n]) = {}" using s4(2) by (auto simp: names_in_def cleared_def is_prefix_iff)
  ultimately obtain s5 where s5: "de_unlinkat env (Some (dw_fd dir)) n True s4 = (None, s5)" "nodes s5 = (nodes s4)(l @ [n] := None)" "streams s5 = streams s4"
    using unlink [where fd = "Some (dw_fd dir)" and t = s4 and q = "l @ [n]" and path = n and b = True] by auto
  have "n \<noteq> []" "slash \<notin> set n" using tree_okD [OF ok, of l n "[]"] k by auto
  then have "rmdir_func env ?path (Some (dw_fd dir)) s4 = (Inr (), s5)"
    using s5(1) basename_entry [of n "dw_path dir"] by (simp add: rmdir_func_def checked_def)
  then have "visit_entry env dir n True s = Some (Inr (), de_closedir env fd s5)"
    using nd s4(1) d(2) by (simp add: visit_entry_def DirentWrapper_destroy_def)
  moreover have "nodes (de_closedir env fd s5) = nodes s5 \<and> streams (de_closedir env fd s5) = (streams s5)(fd := None)"
    using law by (simp add: dir_law_def closedir_law_def)
  moreover have "(cleared (l @ [n]) (nodes s))(l @ [n] := None) = removed (l @ [n]) (nodes s)"
    by (auto simp: cleared_def removed_def is_prefix_iff fun_eq_iff)
  ultimately show ?thesis using True s4 s5 fresh by (auto simp: fun_upd_idem)
qed
qed

lemma traverse_deletes:
  assumes law: "dir_law env cwd nodes streams"
  shows "visiting nodes streams dir l s \<Longrightarrow> deletes env nodes streams at_root dir l s"
proof (induction "card (inside_of (nodes s) l)" arbitrary: s dir l at_root rule: less_induct)
  case less
  obtain rest where v: "tree_ok (nodes s)" "streams s (dw_fd dir) = Some (l, rest)" "distinct (pending (dw_entry dir) rest)"
      "set (pending (dw_entry dir) rest) = names_in (nodes s) l" "dw_entry dir = None \<longrightarrow> rest = []"
    using less.prems unfolding visiting_def by auto
  show ?case
  proof (cases "dw_entry dir")
    case None
    then have "names_in (nodes s) l = {}" using v(4) by (simp add: pending_def)
    then show ?thesis
      using None v(2,5) cleared_empty [OF v(1)]
      by (auto simp: deletes_def fileDescriptorTraverseAndApply.simps apply_fn_def fun_upd_idem intro!: exI [of _ s])
  next
    case (Some n)
    then obtain k where k: "nodes s (l @ [n]) = Some k" using v(4) by (auto simp: pending_def names_in_def)
    have smaller: "card (inside_of (nodes s) (l @ [n])) < card (inside_of (nodes s) l)"
        "card (inside_of (removed (l @ [n]) (nodes s)) l) < card (inside_of (nodes s) l)"
      using inside_smaller [OF v(1)] k by blast+
    have stat: "currentEntryIsDirectory env dir s = Inr (k = DirectoryFile)"
      using law v(2) k Some by (auto simp: currentEntryIsDirectory_def currentEntryIs_def dir_law_def fstatat_law_def)
    obtain s3 where s3: "visit_entry env dir n (k = DirectoryFile) s = Some (Inr (), s3)"
        "nodes s3 = removed (l @ [n]) (nodes s)" "streams s3 = streams s"
      using visit_entry_removes [OF law v(1,2) Some k] less.hyps smaller(1) by metis
    have read: "readdir_law env nodes streams" and "streams s3 (dw_fd dir) = Some (l, rest)"
      using law v(2) s3(3) by (simp_all add: dir_law_def)
    from dw_next_reads [OF this] obtain s4 entry rest' where
      nx: "dw_next env dir s3 = Some (Inr (dir\<lparr>dw_entry := entry\<rparr>), s4)" "nodes s4 = nodes s3"
        "streams s4 = (streams s3)(dw_fd dir \<mapsto> (l, rest'))" "pending entry rest' = filter (\<lambda>n. \<not> is_dots n) rest" "entry = None \<longrightarrow> rest' = []"
      by blast
    have "n \<notin> set (pending entry rest')" "set (pending entry rest') = names_in (nodes s) l - {n}" "distinct (pending entry rest')"
      using v(3,4) Some nx(4) by (auto simp: pending_def)
    then have "visiting nodes streams (dir\<lparr>dw_entry := entry\<rparr>) l s4"
      using nx s3 tree_ok_removed [OF v(1)] names_in_removed by (auto simp: visiting_def)
    then have "deletes env nodes streams at_root (dir\<lparr>dw_entry := entry\<rparr>) l s4"
      using less.hyps smaller(2) nx(2) s3(2) by metis
    then show ?thesis
      using traverse_step [OF Some stat s3(1) nx(1)] nx(2,3) s3(2,3) cleared_removed by (auto simp: deletes_def)
  qed
qed

section \<open>Deleting and clearing\<close>

lemma with_directory_visits:
  assumes law: "dir_law env cwd nodes streams" and ok: "tree_ok (nodes s)"
    and dir: "nodes s (resolve cwd path) = Some DirectoryFile"
  obtains d s1 rest where "DirentWrapper_path env path s = Some (Inr d, s1)"
    "visiting nodes streams d (resolve cwd path) s1" "dw_path d = path" "dw_p_fd d = None"
    "nodes s1 = nodes s" "streams s1 = (streams s)(dw_fd d \<mapsto> (resolve cwd path, rest))" "streams s (dw_fd d) = None"
proof -
  have read: "readdir_law env nodes streams" using law by (simp add: dir_law_def)
  obtain fd s0 where o: "de_opendir env path s = (Inr fd, s0)" "opened_stream nodes streams s fd (resolve cwd path) s0"
    using law ok dir unfolding dir_law_def opendir_law_def by blast
  from opened_visiting [OF read ok o(2), of path None] obtain d s1 rest where
    "dw_next env \<lparr>dw_fd = fd, dw_entry = None, dw_path = path, dw_p_fd = None\<rparr> s0 = Some (Inr d, s1)"
    "dw_fd d = fd" "dw_path d = path" "dw_p_fd d = None" "visiting nodes streams d (resolve cwd path) s1"
    "nodes s1 = nodes s" "streams s1 = (streams s)(fd \<mapsto> (resolve cwd path, rest))"
    by blast
  moreover have "streams s fd = None" using o(2) unfolding opened_stream_def by blast
  ultimately show thesis
    using that [of d s1 rest] o(1) by (simp add: DirentWrapper_path_def)
qed

lemma closed_again:
  assumes "dir_law env cwd nodes streams" "streams s2 = (streams s)(d \<mapsto> x)" "streams s d = None"
  shows "nodes (de_closedir env d s2) = nodes s2" "streams (de_closedir env d s2) = streams s"
  using assms by (auto simp: dir_law_def closedir_law_def fun_upd_idem)

lemma deleteDirectory_removes:
  assumes law: "dir_law env cwd nodes streams" and ok: "tree_ok (nodes s)"
    and dir: "nodes s (resolve cwd path) = Some DirectoryFile" and dots: "\<not> is_dots (last (split_at slash path))"
  shows "\<exists>s'. deleteDirectory env path s = Some (Inr (), s') \<and> streams s' = streams s \<and> nodes s' = removed (resolve cwd path) (nodes s)"
proof -
  let ?l = "resolve cwd path"
  obtain d s1 rest where d: "DirentWrapper_path env path s = Some (Inr d, s1)"
      "visiting nodes streams d ?l s1" "dw_path d = path" "dw_p_fd d = None"
      "nodes s1 = nodes s" "streams s1 = (streams s)(dw_fd d \<mapsto> (?l, rest))" "streams s (dw_fd d) = None"
    using with_directory_visits [OF law ok dir, of thesis] by blast
  obtain s2 where s2: "fileDescriptorTraverseAndApply env (Some (rmdir_func env)) (Some (unlink_func env)) True True d s1 =
        Some (rmdir_func env path None s2)" "nodes s2 = cleared ?l (nodes s)" "streams s2 = (streams s)(dw_fd d \<mapsto> (?l, []))"
    using traverse_deletes [OF law d(2), of True] d(3-6) unfolding deletes_def by auto
  have "nodes s2 ?l = Some DirectoryFile" "names_in (nodes s2) ?l = {}"
    using s2(2) dir by (auto simp: cleared_def names_in_def is_prefix_iff)
  then obtain s3 where s3: "de_unlinkat env None path True s2 = (None, s3)" "nodes s3 = (nodes s2)(?l := None)" "streams s3 = streams s2"
    using law dots unfolding dir_law_def unlinkat_law_def by (fastforce dest: spec [of _ None])
  have "deleteDirectory env path s = Some (Inr (), de_closedir env (dw_fd d) s3)"
    using d(1) s2(1) s3(1) by (simp add: deleteDirectory_def deleteRecursively_def with_directory_def DirentWrapper_destroy_def rmdir_func_def checked_def)
  moreover have "nodes (de_closedir env (dw_fd d) s3) = nodes s3" "streams (de_closedir env (dw_fd d) s3) = streams s"
    using closed_again [OF law s2(3) [folded s3(3)] d(7)] by auto
  ultimately show ?thesis using s3(2) s2(2) by (auto simp: cleared_def removed_def is_prefix_iff fun_eq_iff)
qed

text \<open>
  C13: \<^verbatim>\<open>deleteDirectory\<close> returns, removes exactly what is at and below the directory, and closes every stream
  it opened; symbolic links are removed and not followed.
\<close>

theorem deleteDirectory_exact:
  assumes law: "dir_law env cwd nodes streams" and ok: "tree_ok (nodes s)"
    and dir: "nodes s (resolve cwd path) = Some DirectoryFile" and dots: "\<not> is_dots (last (split_at slash path))"
  shows "\<exists>s'. deleteDirectory env path s = Some (Inr (), s') \<and> streams s' = streams s \<and>
    (\<forall>q. nodes s' q = (if is_prefix (resolve cwd path) q then None else nodes s q))"
  using deleteDirectory_removes [OF assms] by (auto simp: removed_def)

text \<open>
  \<^verbatim>\<open>clearDirectory\<close> returns, removes exactly what is below the directory and keeps the directory.
\<close>

theorem clearDirectory_exact:
  assumes law: "dir_law env cwd nodes streams" and ok: "tree_ok (nodes s)"
    and dir: "nodes s (resolve cwd path) = Some DirectoryFile"
  shows "\<exists>s'. clearDirectory env path s = Some (Inr (), s') \<and> streams s' = streams s \<and>
    (\<forall>q. nodes s' q = (if is_prefix (resolve cwd path) q \<and> q \<noteq> resolve cwd path then None else nodes s q))"
proof -
  let ?l = "resolve cwd path"
  obtain d s1 rest where d: "DirentWrapper_path env path s = Some (Inr d, s1)"
      "visiting nodes streams d ?l s1" "nodes s1 = nodes s" "streams s1 = (streams s)(dw_fd d \<mapsto> (?l, rest))" "streams s (dw_fd d) = None"
    using with_directory_visits [OF law ok dir, of thesis] by blast
  obtain s2 where s2: "fileDescriptorTraverseAndApply env (Some (rmdir_func env)) (Some (unlink_func env)) False True d s1 =
        Some (Inr (), s2)" "nodes s2 = cleared ?l (nodes s)" "streams s2 = (streams s)(dw_fd d \<mapsto> (?l, []))"
    using traverse_deletes [OF law d(2), of False] d(3,4) unfolding deletes_def by auto
  have "clearDirectory env path s = Some (Inr (), de_closedir env (dw_fd d) s2)"
    using d(1) s2(1) by (simp add: clearDirectory_def deleteRecursively_def with_directory_def DirentWrapper_destroy_def)
  then show ?thesis using closed_again [OF law s2(3) d(5)] s2(2) by (auto simp: cleared_def)
qed

lemma directoryIsEmpty_names:
  assumes law: "dir_law env cwd nodes streams" and ok: "tree_ok (nodes s)"
    and dir: "nodes s (resolve cwd path) = Some DirectoryFile"
  shows "\<exists>s'. directoryIsEmpty env path s = Some (Inr (names_in (nodes s) (resolve cwd path) = {}), s') \<and>
    nodes s' = nodes s \<and> streams s' = streams s"
proof -
  let ?l = "resolve cwd path"
  obtain d s1 rest where d: "DirentWrapper_path env path s = Some (Inr d, s1)"
      "visiting nodes streams d ?l s1" "nodes s1 = nodes s" "streams s1 = (streams s)(dw_fd d \<mapsto> (?l, rest))" "streams s (dw_fd d) = None"
    using with_directory_visits [OF law ok dir, of thesis] by blast
  have "dw_entry d = None \<longleftrightarrow> names_in (nodes s) ?l = {}"
    using d(2,3) by (auto simp: visiting_def pending_def split: option.splits)
  then show ?thesis using d(1,3) closed_again [OF law d(4,5)] by (simp add: directoryIsEmpty_def with_directory_def DirentWrapper_destroy_def)
qed

section \<open>Witnesses\<close>

text \<open>A file system in memory: the nodes, and the open streams by their descriptors.\<close>

record memory =
  mem_nodes :: "(string list \<times> file_kind) list"
  mem_streams :: "(nat \<times> string list \<times> string list) list"

definition mem_names :: "(string list \<times> file_kind) list \<Rightarrow> string list \<Rightarrow> string list" where
  "mem_names ns l = remdups [last q. (q, k) \<leftarrow> ns, q \<noteq> [] \<and> butlast q = l]"

definition mem_open :: "string list \<Rightarrow> memory \<Rightarrow> nat \<times> memory" where
  "mem_open l m =
     (let fd = Suc (sum_list (map fst (mem_streams m)))
      in (fd, m\<lparr>mem_streams := (fd, l, ''.'' # mem_names (mem_nodes m) l @ [''..'']) # mem_streams m\<rparr>))"

definition mem_remove :: "string list \<Rightarrow> memory \<Rightarrow> memory" where
  "mem_remove l m = m\<lparr>mem_nodes := filter (\<lambda>(q, k). q \<noteq> l) (mem_nodes m)\<rparr>"

definition mem_env :: "memory dir_env" where
  "mem_env =
     \<lparr>de_opendir = (\<lambda>path m.
        if map_of (mem_nodes m) (resolve [] path) = Some DirectoryFile
        then (let (fd, m') = mem_open (resolve [] path) m in (Inr fd, m')) else (Inl ENOENT, m)),
      de_openat = (\<lambda>d name m.
        case map_of (mem_streams m) d of
          None \<Rightarrow> (Inl EBADF, m)
        | Some (l, _) \<Rightarrow> (let (fd, m') = mem_open (l @ [name]) m in (Inr fd, m'))),
      de_fdopendir = (\<lambda>fd m. (None, m)),
      de_close = (\<lambda>fd m. m\<lparr>mem_streams := filter (\<lambda>(d, _). d \<noteq> fd) (mem_streams m)\<rparr>),
      de_readdir = (\<lambda>d m.
        case map_of (mem_streams m) d of
          None \<Rightarrow> (Inl EBADF, m)
        | Some (l, names) \<Rightarrow>
            (Inr (case names of [] \<Rightarrow> None | n # _ \<Rightarrow> Some n), m\<lparr>mem_streams := (d, l, tl names) # mem_streams m\<rparr>)),
      de_closedir = (\<lambda>fd m. m\<lparr>mem_streams := filter (\<lambda>(d, _). d \<noteq> fd) (mem_streams m)\<rparr>),
      de_fstatat = (\<lambda>d name m.
        case map_of (mem_streams m) d of
          None \<Rightarrow> Inl EBADF
        | Some (l, _) \<Rightarrow> (case map_of (mem_nodes m) (l @ [name]) of None \<Rightarrow> Inl ENOENT | Some k \<Rightarrow> Inr k)),
      de_unlinkat = (\<lambda>fd path dir m.
        case fd of
          None \<Rightarrow> (None, mem_remove (resolve [] path) m)
        | Some d \<Rightarrow>
            (case map_of (mem_streams m) d of
               None \<Rightarrow> (Some EBADF, m)
             | Some (l, _) \<Rightarrow> (None, mem_remove (l @ [path]) m))),
      de_fchmod = (\<lambda>fd mode m. (None, m))\<rparr>"

abbreviation mem_view :: "memory \<Rightarrow> nodes" where
  "mem_view m \<equiv> map_of (mem_nodes m)"

lemma map_of_other: "map_of (filter (\<lambda>(q, k). q \<noteq> l) ns) = (map_of ns)(l := None)"
  by (induction ns) (auto simp: fun_eq_iff)

lemma fresh_descriptor: "map_of m (Suc (sum_list (map fst m))) = None"
proof -
  have "d \<in> fst ` set m \<Longrightarrow> d < Suc (sum_list (map fst m))" for d by (induction m) fastforce+
  then show ?thesis by (metis less_irrefl map_of_eq_None_iff)
qed

lemma mem_names_set: "set (mem_names ns l) = names_in (map_of ns) l"
proof -
  have "n \<in> set (mem_names ns l) \<longleftrightarrow> l @ [n] \<in> fst ` set ns" for n
    by (force simp: mem_names_def dest: append_butlast_last_id)
  then show ?thesis by (simp add: names_in_def set_eq_iff map_of_eq_None_iff)
qed

lemma mem_opened:
  assumes "tree_ok (mem_view m)" "mem_open l m = (fd, m')"
  shows "opened_stream mem_view (\<lambda>m. map_of (mem_streams m)) m fd l m'"
proof -
  let ?names = "''.'' # mem_names (mem_nodes m) l @ [''..'']"
  have "\<not> is_dots n" if "n \<in> set (mem_names (mem_nodes m) l)" for n
    using that tree_okD(2) [OF assms(1), of l n "[]"] by (simp add: mem_names_set names_in_def)
  moreover have "distinct (mem_names (mem_nodes m) l)" by (simp add: mem_names_def)
  ultimately have "distinct ?names" "{n \<in> set ?names. \<not> is_dots n} = names_in (mem_view m) l"
    using mem_names_set [of "mem_nodes m" l] by (auto simp: is_dots_def)
  moreover have "map_of (mem_streams m) fd = None" "mem_nodes m' = mem_nodes m" "mem_streams m' = (fd, l, ?names) # mem_streams m"
    using assms(2) fresh_descriptor [of "mem_streams m"] by (auto simp: mem_open_def Let_def)
  ultimately show ?thesis
    unfolding opened_stream_def by (intro exI [of _ ?names]) simp
qed

lemma mem_law: "dir_law mem_env [] mem_view (\<lambda>m. map_of (mem_streams m))"
  unfolding dir_law_def
proof (intro conjI)
  show "opendir_law mem_env [] mem_view (\<lambda>m. map_of (mem_streams m))"
    using mem_opened by (fastforce simp: opendir_law_def mem_env_def split: prod.split)
  show "openat_law mem_env mem_view (\<lambda>m. map_of (mem_streams m))"
    using mem_opened by (fastforce simp: openat_law_def mem_env_def split: prod.split)
  show "readdir_law mem_env mem_view (\<lambda>m. map_of (mem_streams m))"
    by (auto simp: readdir_law_def mem_env_def)
  show "closedir_law mem_env mem_view (\<lambda>m. map_of (mem_streams m))"
    by (simp add: closedir_law_def mem_env_def map_of_other [where ns = "mem_streams m" for m, simplified case_prod_beta] case_prod_beta)
  show "fstatat_law mem_env mem_view (\<lambda>m. map_of (mem_streams m))"
    by (simp add: fstatat_law_def mem_env_def)
  show "unlinkat_law mem_env [] mem_view (\<lambda>m. map_of (mem_streams m))"
    by (auto simp: unlinkat_law_def mem_env_def mem_remove_def map_of_other split: option.splits)
qed

definition demo_memory :: memory where
  "demo_memory =
     \<lparr>mem_nodes = [([], DirectoryFile), ([''keep''], RegularFile), ([''d''], DirectoryFile), ([''d'', ''e''], DirectoryFile),
        ([''d'', ''e'', ''f''], RegularFile), ([''d'', ''link''], SymbolicLink)], mem_streams = []\<rparr>"

lemma demo_memory_ok: "tree_ok (mem_view demo_memory)"
  unfolding tree_ok_def
proof (intro conjI allI impI)
  show "finite (dom (mem_view demo_memory))" by (simp add: finite_dom_map_of)
  fix l n r
  assume "mem_view demo_memory (l @ n # r) \<noteq> None"
  then have "l @ n # r \<in> {[''keep''], [''d''], [''d'', ''e''], [''d'', ''e'', ''f''], [''d'', ''link'']}"
    by (auto simp: demo_memory_def split: if_splits)
  then show "n \<noteq> []" "\<not> is_dots n" "slash \<notin> set n" "r \<noteq> [] \<Longrightarrow> mem_view demo_memory (l @ [n]) = Some DirectoryFile"
    by (auto simp: append_eq_Cons_conv is_dots_def demo_memory_def)
qed

theorem deleteDirectory_exact_witness:
  "\<exists>m. deleteDirectory mem_env ''/d'' demo_memory = Some (Inr (), m) \<and>
     mem_view m [''keep''] = Some RegularFile \<and> mem_view m [''d''] = None \<and> mem_view m [''d'', ''e'', ''f''] = None"
proof -
  have r: "resolve [] ''/d'' = [''d'']" by code_simp
  have "mem_view demo_memory (resolve [] ''/d'') = Some DirectoryFile" by (simp add: r demo_memory_def)
  moreover have "\<not> is_dots (last (split_at slash ''/d''))" by code_simp
  ultimately show ?thesis
    using deleteDirectory_exact [OF mem_law demo_memory_ok, of "''/d''"]
    by (auto simp: r is_prefix_def demo_memory_def)
qed

theorem clearDirectory_exact_witness:
  "\<exists>m. clearDirectory mem_env ''/d'' demo_memory = Some (Inr (), m) \<and>
     mem_view m [''d''] = Some DirectoryFile \<and> mem_view m [''d'', ''link''] = None"
proof -
  have r: "resolve [] ''/d'' = [''d'']" by code_simp
  have "mem_view demo_memory (resolve [] ''/d'') = Some DirectoryFile" by (simp add: r demo_memory_def)
  then show ?thesis
    using clearDirectory_exact [OF mem_law demo_memory_ok, of "''/d''"]
    by (auto simp: r is_prefix_def demo_memory_def)
qed

end
