(* ===== verification/System_Utils.thy ===== *)
theory System_Utils
  imports File_System
begin

text \<open>
  \<^verbatim>\<open>buildboxcommon_systemutils.cpp\<close>: running commands, waiting for processes, searching the path and the
  working directory, over a record of system calls.
\<close>

section \<open>Processes\<close>

definition EINTR :: int where
  "EINTR = 4"

definition ERANGE :: int where
  "ERANGE = 34"

text \<open>
  \<open>pe_waitpid\<close> gives the status word of the child, \<open>pe_fork\<close> the identifier of the child in the parent
  process.  \<open>pe_open_output\<close> is \<^verbatim>\<open>open\<close> with \<^verbatim>\<open>O_CREAT | O_TRUNC | O_APPEND | O_WRONLY\<close>.
\<close>

record 's proc_env =
  pe_waitpid :: "int \<Rightarrow> 's \<Rightarrow> (int + 32 word) \<times> 's"
  pe_fork :: "'s \<Rightarrow> (int + int) \<times> 's"
  pe_kill :: "int \<Rightarrow> int \<Rightarrow> 's \<Rightarrow> 's"
  pe_getcwd :: "32 word \<Rightarrow> 's \<Rightarrow> int + string"
  pe_open_output :: "string \<Rightarrow> 's \<Rightarrow> (int + nat) \<times> 's"
  pe_dup2 :: "nat \<Rightarrow> nat \<Rightarrow> 's \<Rightarrow> int option \<times> 's"
  pe_close :: "nat \<Rightarrow> 's \<Rightarrow> 's"

text \<open>The macros of \<^verbatim>\<open>sys/wait.h\<close> on Linux.\<close>

definition WTERMSIG :: "32 word \<Rightarrow> int" where
  "WTERMSIG status = uint (status AND 0x7F)"

definition WIFEXITED :: "32 word \<Rightarrow> bool" where
  "WIFEXITED status \<longleftrightarrow> WTERMSIG status = 0"

definition WEXITSTATUS :: "32 word \<Rightarrow> int" where
  "WEXITSTATUS status = uint (drop_bit 8 (status AND 0xFF00))"

definition WIFSIGNALED :: "32 word \<Rightarrow> bool" where
  "WIFSIGNALED status \<longleftrightarrow> 0 < WTERMSIG status \<and> WTERMSIG status < 0x7F"

definition logLineForCommand :: "string list \<Rightarrow> string" where
  "logLineForCommand command = concat (map (\<lambda>token. token @ '' '') command)"

text \<open>\<open>exec_error\<close> is the error of \<^verbatim>\<open>execv\<close>, which does not return otherwise.\<close>

definition executeCommand :: "(string list \<Rightarrow> int) \<Rightarrow> string list \<Rightarrow> int" where
  "executeCommand exec_error command = (if exec_error command = ENOENT then 127 else 126)"

definition waitPidOrSignal :: "'s proc_env \<Rightarrow> int \<Rightarrow> 's \<Rightarrow> int result \<times> 's" where
  "waitPidOrSignal env pid s =
     (case pe_waitpid env pid s of
        (Inl waitpid_error, s1) \<Rightarrow> (if waitpid_error = EINTR then Inr (- EINTR) else Inl (SystemError waitpid_error), s1)
      | (Inr status, s1) \<Rightarrow>
          (if WIFEXITED status then Inr (WEXITSTATUS status)
           else if WIFSIGNALED status then Inr (128 + WTERMSIG status)
           else Inl RuntimeError, s1))"

partial_function (option) waitPid :: "'s proc_env \<Rightarrow> int \<Rightarrow> 's \<Rightarrow> (int result \<times> 's) option" where
  "waitPid env pid s =
     (case waitPidOrSignal env pid s of
        (r, s1) \<Rightarrow> if r = Inr (- EINTR) then waitPid env pid s1 else Some (r, s1))"

text \<open>The parent process; the child runs \<open>executeCommand\<close> and exits with its result when that returns.\<close>

definition executeCommandAndWait :: "'s proc_env \<Rightarrow> 's \<Rightarrow> (int result \<times> 's) option" where
  "executeCommandAndWait env s =
     (case pe_fork env s of
        (Inl e, s1) \<Rightarrow> Some (Inl (SystemError e), s1)
      | (Inr pid, s1) \<Rightarrow> waitPid env pid s1)"

definition redirectStandardOutputToFile :: "'s proc_env \<Rightarrow> nat \<Rightarrow> string \<Rightarrow> 's \<Rightarrow> unit result \<times> 's" where
  "redirectStandardOutputToFile env standardOutputFd path s =
     (if standardOutputFd \<noteq> 1 \<and> standardOutputFd \<noteq> 2 then (Inl InvalidArgument, s)
      else
        (case pe_open_output env path s of
           (Inl e, s1) \<Rightarrow> (Inl (SystemError e), s1)
         | (Inr fileFd, s1) \<Rightarrow>
             (case pe_dup2 env fileFd standardOutputFd s1 of
                (Some e, s2) \<Rightarrow> (Inl (SystemError e), s2)
              | (None, s2) \<Rightarrow> (Inr (), pe_close env fileFd s2))))"

section \<open>Paths\<close>

text \<open>The loop over \<^verbatim>\<open>strtok\<close>, which skips empty entries.\<close>

fun search_path :: "'s file_env \<Rightarrow> string \<Rightarrow> string list \<Rightarrow> 's \<Rightarrow> string result" where
  "search_path env command [] s = Inr []"
| "search_path env command (token # tokens) s =
     (let path = token @ ''/'' @ command
      in case isRegularFile env path s of
           Inl e \<Rightarrow> Inl e
         | Inr regular \<Rightarrow>
             if regular \<and> isExecutable env path s then Inr path else search_path env command tokens s)"

definition getPathToCommand :: "'s file_env \<Rightarrow> string \<Rightarrow> 's \<Rightarrow> string result" where
  "getPathToCommand env command s =
     (if slash \<in> set command then Inr command
      else
        (case fe_getenv env ''PATH'' of
           None \<Rightarrow> Inr []
         | Some path_pointer \<Rightarrow>
             search_path env command (filter (\<lambda>token. token \<noteq> []) (split_at (CHR '':'') path_pointer)) s))"

text \<open>The buffer size is a 32-bit \<^verbatim>\<open>unsigned int\<close> that is doubled.\<close>

partial_function (option) cwd_loop :: "'s proc_env \<Rightarrow> 32 word \<Rightarrow> 's \<Rightarrow> string result option" where
  "cwd_loop env bufferSize s =
     (case pe_getcwd env bufferSize s of
        Inr cwd \<Rightarrow> Some (Inr cwd)
      | Inl e \<Rightarrow> if e = ERANGE then cwd_loop env (bufferSize * 2) s else Some (Inl RuntimeError))"

definition get_current_working_directory :: "'s proc_env \<Rightarrow> 's \<Rightarrow> string result option" where
  "get_current_working_directory env s = cwd_loop env 1024 s"

section \<open>Exit codes\<close>

lemma WTERMSIG_range: "0 \<le> WTERMSIG status \<and> WTERMSIG status \<le> 127"
proof -
  have "status AND 0x7F \<le> 0x7F" by (rule word_and_le1)
  then show ?thesis by (simp add: WTERMSIG_def word_le_def)
qed

lemma WEXITSTATUS_range: "0 \<le> WEXITSTATUS status \<and> WEXITSTATUS status \<le> 255"
proof -
  have "status AND 0xFF00 \<le> 0xFF00" by (rule word_and_le1)
  then have "uint (status AND 0xFF00) \<le> 0xFF00" by (simp add: word_le_def)
  moreover have "0 \<le> uint (status AND 0xFF00)" by simp
  ultimately have "0 \<le> uint (status AND 0xFF00) div 256 \<and> uint (status AND 0xFF00) div 256 \<le> 255" by linarith
  then show ?thesis by (simp add: WEXITSTATUS_def drop_bit_eq_div uint_div)
qed

text \<open>
  What \<^verbatim>\<open>waitPidOrSignal\<close> returns is negative exactly when the wait was interrupted by a signal; otherwise it
  is an exit code between 0 and 255: below 128 or the status of a process that exited, or 128 and the
  number of the signal that ended it.
\<close>

theorem waitPidOrSignal_code:
  assumes "waitPidOrSignal env pid s = (Inr code, s')"
  shows "(code < 0 \<longleftrightarrow> fst (pe_waitpid env pid s) = Inl EINTR) \<and> - EINTR \<le> code \<and> code \<le> 255 \<and>
    (\<forall>status. fst (pe_waitpid env pid s) = Inr status \<longrightarrow>
       code = (if WIFEXITED status then WEXITSTATUS status else 128 + WTERMSIG status) \<and> (WIFEXITED status \<or> WIFSIGNALED status))"
proof (cases "fst (pe_waitpid env pid s)")
  case (Inl e)
  then show ?thesis using assms by (auto simp: waitPidOrSignal_def EINTR_def split: prod.splits if_splits)
next
  case (Inr status)
  then show ?thesis
    using assms WTERMSIG_range [of status] WEXITSTATUS_range [of status]
    by (auto simp: waitPidOrSignal_def EINTR_def WIFSIGNALED_def split: prod.splits if_splits)
qed

lemma waitPidOrSignal_range:
  assumes "waitPidOrSignal env pid s = (Inr code, s')" "0 \<le> code"
  shows "code \<le> 255"
  using assms WEXITSTATUS_range WTERMSIG_range
  by (auto simp: waitPidOrSignal_def EINTR_def WIFSIGNALED_def split: prod.splits sum.splits if_splits)

lemma waitPidOrSignal_interrupted:
  assumes "waitPidOrSignal env pid s = (Inr code, s')" "code < 0"
  shows "pe_waitpid env pid s = (Inl EINTR, s')"
  using assms WEXITSTATUS_range WTERMSIG_range
  by (auto simp: waitPidOrSignal_def not_less split: prod.splits sum.splits if_splits) (smt (verit))+

section \<open>Waiting ends\<close>

lemma wait_not_interrupted:
  assumes "fst (pe_waitpid env pid s) \<noteq> Inl EINTR"
  shows "fst (waitPidOrSignal env pid s) \<noteq> Inr (- EINTR)"
proof (cases "fst (pe_waitpid env pid s)")
  case (Inr status)
  then show ?thesis
    using WTERMSIG_range [of status] WEXITSTATUS_range [of status]
    by (auto simp: waitPidOrSignal_def EINTR_def split: prod.splits if_splits)
qed (use assms in \<open>auto simp: waitPidOrSignal_def split: prod.splits\<close>)

primrec waits :: "'s proc_env \<Rightarrow> int \<Rightarrow> nat \<Rightarrow> 's \<Rightarrow> 's" where
  "waits env pid 0 s = s"
| "waits env pid (Suc n) s = waits env pid n (snd (pe_waitpid env pid s))"

lemma waitPid_after:
  assumes "\<forall>i < n. fst (pe_waitpid env pid (waits env pid i s)) = Inl EINTR"
    and "fst (pe_waitpid env pid (waits env pid n s)) \<noteq> Inl EINTR"
  shows "waitPid env pid s = Some (waitPidOrSignal env pid (waits env pid n s)) \<and>
    fst (waitPidOrSignal env pid (waits env pid n s)) \<noteq> Inr (- EINTR)"
  using assms
proof (induction n arbitrary: s)
  case 0
  have "fst (waitPidOrSignal env pid s) \<noteq> Inr (- EINTR)"
    using 0 wait_not_interrupted by simp
  then show ?case by (cases "waitPidOrSignal env pid s") (simp add: waitPid.simps [of env pid s])
next
  case (Suc n)
  have "fst (pe_waitpid env pid s) = Inl EINTR" using Suc.prems(1) by force
  then have "waitPidOrSignal env pid s = (Inr (- EINTR), snd (pe_waitpid env pid s))"
    by (cases "pe_waitpid env pid s") (simp add: waitPidOrSignal_def)
  moreover have "\<forall>i < n. fst (pe_waitpid env pid (waits env pid i (snd (pe_waitpid env pid s)))) = Inl EINTR"
    using Suc.prems(1) by (metis Suc_less_eq waits.simps(2))
  ultimately show ?case using Suc.IH [of "snd (pe_waitpid env pid s)"] Suc.prems(2) by (simp add: waitPid.simps [of env pid s])
qed

text \<open>
  C25: \<^verbatim>\<open>waitPid\<close> goes on through any number of interruptions and returns what the first wait that is not
  interrupted gives.
\<close>

theorem waitPid_returns:
  assumes "\<forall>i < n. fst (pe_waitpid env pid (waits env pid i s)) = Inl EINTR"
    and "fst (pe_waitpid env pid (waits env pid n s)) \<noteq> Inl EINTR"
  shows "waitPid env pid s = Some (waitPidOrSignal env pid (waits env pid n s)) \<and>
    fst (waitPidOrSignal env pid (waits env pid n s)) \<noteq> Inr (- EINTR)"
  using waitPid_after [OF assms] .

text \<open>
  What \<^verbatim>\<open>getcwd\<close> documents: the size zero is invalid, a buffer that is too small is an error of its own.
\<close>

definition getcwd_law :: "'s proc_env \<Rightarrow> string \<Rightarrow> 's \<Rightarrow> bool" where
  "getcwd_law env cwd s \<longleftrightarrow>
     (\<forall>size. pe_getcwd env size s =
        (if size = 0 then Inl 22 else if length cwd < unat size then Inr cwd else Inl ERANGE))"

lemma cwd_loop_doubles:
  assumes "getcwd_law env cwd s" "k \<le> 22"
  shows "cwd_loop env (2 ^ (32 - k)) s = Some (if length cwd < 2 ^ 31 \<and> 0 < k then Inr cwd else Inl RuntimeError)"
  using assms(2)
proof (induction k)
  case 0
  have "(2 :: 32 word) ^ 32 = 0" by simp
  then show ?case using assms(1) by (simp add: cwd_loop.simps getcwd_law_def ERANGE_def)
next
  case (Suc k)
  let ?n = "32 - Suc k"
  have n: "?n < 32" "32 - k = Suc ?n" using Suc.prems by simp_all
  then have u: "unat ((2 :: 32 word) ^ ?n) = 2 ^ ?n" using unat_of_nat [of "2 ^ ?n", where 'a = 32] power_strict_increasing [of ?n 32 "2 :: nat"] by simp
  have nz: "(2 :: 32 word) ^ ?n \<noteq> 0" using u by (metis power_not_zero unat_0 zero_neq_numeral)
  have d: "(2 :: 32 word) ^ ?n * 2 = 2 ^ (32 - k)" using n(2) by (simp only: power_Suc mult.commute)
  have le: "(2 :: nat) ^ ?n \<le> 2 ^ 31" by (rule power_increasing) simp_all
  show ?case
  proof (cases "length cwd < 2 ^ ?n")
    case True
    then show ?thesis using assms(1) u nz le by (simp add: cwd_loop.simps getcwd_law_def)
  next
    case False
    then have "pe_getcwd env (2 ^ ?n) s = Inl ERANGE" using assms(1) u nz by (simp add: getcwd_law_def)
    then have "cwd_loop env (2 ^ ?n) s = cwd_loop env (2 ^ (32 - k)) s" using d by (subst cwd_loop.simps) simp
    then show ?thesis using Suc.IH Suc.prems False by (cases k) auto
  qed
qed

text \<open>
  The search for the working directory ends for every length of the path: the buffer is doubled until
  the path fits, and when the 32-bit size wraps around to zero the call fails and the loop gives up.
\<close>

theorem get_current_working_directory_returns:
  assumes "getcwd_law env cwd s"
  shows "get_current_working_directory env s = Some (if length cwd < 2 ^ 31 then Inr cwd else Inl RuntimeError)"
  using cwd_loop_doubles [OF assms, of 22] by (simp add: get_current_working_directory_def)

section \<open>Searching commands\<close>

definition runnable :: "'s file_env \<Rightarrow> string \<Rightarrow> 's \<Rightarrow> bool" where
  "runnable env path s \<longleftrightarrow> isRegularFile env path s = Inr True \<and> isExecutable env path s"

lemma search_path_first:
  "search_path env command tokens s = Inr path \<Longrightarrow>
   (if \<exists>token \<in> set tokens. runnable env (token @ ''/'' @ command) s
    then \<exists>before token after. tokens = before @ token # after \<and> path = token @ ''/'' @ command \<and> runnable env path s \<and>
      (\<forall>t \<in> set before. \<not> runnable env (t @ ''/'' @ command) s)
    else path = [])"
proof (induction tokens)
  case (Cons token tokens)
  let ?p = "token @ ''/'' @ command"
  show ?case
  proof (cases "runnable env ?p s")
    case True
    then show ?thesis using Cons.prems by (fastforce simp: runnable_def intro: exI [of _ "[]"])
  next
    case False
    then have rest: "search_path env command tokens s = Inr path"
      using Cons.prems by (auto simp: runnable_def Let_def split: sum.splits if_splits)
    show ?thesis
    proof (cases "\<exists>t \<in> set tokens. runnable env (t @ ''/'' @ command) s")
      case True
      then obtain before t after where "tokens = before @ t # after" "path = t @ ''/'' @ command" "runnable env path s"
          "\<forall>t \<in> set before. \<not> runnable env (t @ ''/'' @ command) s"
        using Cons.IH [OF rest] by auto
      then have "token # tokens = (token # before) @ t # after \<and> path = t @ ''/'' @ command \<and> runnable env path s \<and>
          (\<forall>t \<in> set (token # before). \<not> runnable env (t @ ''/'' @ command) s)"
        using False by simp
      then show ?thesis using True by (smt (verit, best) list.set_intros(2))
    qed (use Cons.IH [OF rest] False in auto)
  qed
qed simp

text \<open>
  A command without a slash is looked up in the entries of \<^verbatim>\<open>PATH\<close> that are not empty: the result is the
  path in the first entry where there is an executable regular file, or empty when there is none.
\<close>

theorem getPathToCommand_first:
  assumes "getPathToCommand env command s = Inr path" "slash \<notin> set command" "fe_getenv env ''PATH'' = Some entries"
  shows "if \<exists>token \<in> set (split_at (CHR '':'') entries). token \<noteq> [] \<and> runnable env (token @ ''/'' @ command) s
    then \<exists>before token after. filter (\<lambda>t. t \<noteq> []) (split_at (CHR '':'') entries) = before @ token # after \<and>
      path = token @ ''/'' @ command \<and> runnable env path s \<and> (\<forall>t \<in> set before. \<not> runnable env (t @ ''/'' @ command) s)
    else path = []"
  using search_path_first [of env command "filter (\<lambda>t. t \<noteq> []) (split_at (CHR '':'') entries)" s path] assms
  by (auto simp: getPathToCommand_def split: if_splits)

section \<open>Witnesses\<close>

text \<open>A child that exits with the code 3 after two interruptions, counted by the state.\<close>

definition demo_proc :: "nat proc_env" where
  "demo_proc =
     \<lparr>pe_waitpid = (\<lambda>pid n. (if n < 2 then Inl EINTR else Inr 0x300, Suc n)), pe_fork = (\<lambda>n. (Inr 7, n)), pe_kill = (\<lambda>_ _ n. n),
      pe_getcwd = (\<lambda>size n. if size = 0 then Inl 22 else if 2 < unat size then Inr ''/x'' else Inl ERANGE),
      pe_open_output = (\<lambda>_ n. (Inr 5, n)), pe_dup2 = (\<lambda>_ _ n. (None, n)), pe_close = (\<lambda>_ n. n)\<rparr>"

theorem waitPid_returns_witness: "waitPid demo_proc 7 0 = Some (Inr 3, 3)"
proof -
  have w: "waits demo_proc 7 2 0 = 2" "\<forall>i < 2. waits demo_proc 7 i 0 < 2" by (simp_all add: demo_proc_def numeral_2_eq_2 less_Suc_eq)
  have "waitPid demo_proc 7 0 = Some (waitPidOrSignal demo_proc 7 (waits demo_proc 7 2 0))"
    by (rule conjunct1 [OF waitPid_returns]) (use w in \<open>auto simp: demo_proc_def\<close>)
  moreover have "waitPidOrSignal demo_proc 7 2 = (Inr 3, 3)" by code_simp
  ultimately show ?thesis by (simp add: w(1))
qed

theorem waitPidOrSignal_code_witness: "- EINTR \<le> (3::int) \<and> (3::int) \<le> 255 \<and> waitPidOrSignal demo_proc 7 2 = (Inr 3, 3)"
proof -
  have "waitPidOrSignal demo_proc 7 2 = (Inr 3, 3)" by code_simp
  from waitPidOrSignal_code [OF this] this show ?thesis by blast
qed

theorem get_current_working_directory_returns_witness: "get_current_working_directory demo_proc 0 = Some (Inr ''/x'')"
proof -
  have "getcwd_law demo_proc ''/x'' 0" by (auto simp: getcwd_law_def demo_proc_def)
  from get_current_working_directory_returns [OF this] show ?thesis by simp
qed

theorem getPathToCommand_first_witness:
  "getPathToCommand (demo_fe\<lparr>fe_getenv := \<lambda>_. Some ''/a::/b'', fe_stat := \<lambda>path s.
       if path = ''/b/cc'' then Inr (demo_stat\<lparr>st_permissions := 0x1ED\<rparr>) else Inl ENOENT\<rparr>) ''cc'' demo_files = Inr ''/b/cc'' \<and>
   runnable (demo_fe\<lparr>fe_getenv := \<lambda>_. Some ''/a::/b'', fe_stat := \<lambda>path s.
       if path = ''/b/cc'' then Inr (demo_stat\<lparr>st_permissions := 0x1ED\<rparr>) else Inl ENOENT\<rparr>) ''/b/cc'' demo_files"
proof -
  let ?env = "demo_fe\<lparr>fe_getenv := \<lambda>_. Some ''/a::/b'', fe_stat := \<lambda>path s.
       if path = ''/b/cc'' then Inr (demo_stat\<lparr>st_permissions := 0x1ED\<rparr>) else Inl ENOENT\<rparr>"
  have sp: "split_at (CHR '':'') ''/a::/b'' = [''/a'', [], ''/b'']" by code_simp
  have g: "getPathToCommand ?env ''cc'' demo_files = Inr ''/b/cc''"
    by (simp add: getPathToCommand_def sp Let_def isRegularFile_def kind_is_def isExecutable_def demo_stat_def S_IXUSR_def)
  show ?thesis
    using getPathToCommand_first [OF g] g by (auto simp: sp split: if_splits)
qed

end
