(* ===== verification/Client_Blobs.thy ===== *)
theory Client_Blobs
  imports Client_Stream Merklize_Fs
begin

text \<open>
  The transfers of many blobs in \<^verbatim>\<open>buildboxcommon_client.cpp\<close>: batch requests, the mixed
  uploads and downloads that use batches for small blobs and the byte stream for the others,
  \<^verbatim>\<open>findMissingBlobs\<close>, and the upload and download of whole directories.
\<close>

section \<open>Environment\<close>

text \<open>
  The content-addressable storage service and the file functions of \<^verbatim>\<open>FileUtils\<close> and of the
  operating system that are used here.  The unary calls return a status and a response.
\<close>

record 's cas_env =
  ce_stream :: "'s stream_env"
  cas_batch_update :: "client_context \<Rightarrow> string \<Rightarrow> (digest \<times> string) list \<Rightarrow> 's \<Rightarrow>
    (grpc_status \<times> (digest \<times> status_code) list) \<times> 's"
  cas_batch_read :: "client_context \<Rightarrow> string \<Rightarrow> digest list \<Rightarrow> 's \<Rightarrow>
    (grpc_status \<times> (digest \<times> string \<times> status_code) list) \<times> 's"
  cas_find_missing :: "client_context \<Rightarrow> string \<Rightarrow> digest list \<Rightarrow> 's \<Rightarrow> (grpc_status \<times> digest list) \<times> 's"
  cas_get_tree :: "client_context \<Rightarrow> string \<Rightarrow> digest \<Rightarrow> 's \<Rightarrow> (directory list list \<times> grpc_status) \<times> 's"
  ce_getFileContents :: "string \<Rightarrow> 's \<Rightarrow> string result \<times> 's"
  ce_writeFileAtomically :: "string \<Rightarrow> string \<Rightarrow> nat \<Rightarrow> 's \<Rightarrow> unit result \<times> 's"
  write_ofstream :: "string \<Rightarrow> string \<Rightarrow> 's \<Rightarrow> int option \<times> 's"
  os_mkdir :: "string \<Rightarrow> 's \<Rightarrow> int option \<times> 's"
  os_symlink :: "string \<Rightarrow> string \<Rightarrow> 's \<Rightarrow> int option \<times> 's"

text \<open>A unary request: the response of the last call is in a variable the lambda captures.\<close>

definition unary_call :: "(client_context \<Rightarrow> 's \<Rightarrow> (grpc_status \<times> 'r) \<times> 's) \<Rightarrow> ('s \<times> 'r option) call" where
  "unary_call rpc context w =
     (let ((status, response), s') = rpc context (fst w) in (Inr status, (s', Some response)))"

definition issue_unary ::
  "client \<Rightarrow> (client_context \<Rightarrow> 's \<Rightarrow> (grpc_status \<times> 'r) \<times> 's) \<Rightarrow> 's \<Rightarrow> 'r result \<times> 's" where
  "issue_unary cl rpc s =
     (case issueRequestAndThrowOnErrors (makeRetrier cl) (unary_call rpc) (s, None) of
        (Inl e, (s', _)) \<Rightarrow> (Inl e, s')
      | (Inr _, (s', None)) \<Rightarrow> (Inl Undefined, s')
      | (Inr _, (s', Some response)) \<Rightarrow> (Inr response, s'))"

section \<open>Batches and single transfers\<close>

text \<open>
  The common frame of \<^verbatim>\<open>uploadBlobs\<close> and \<^verbatim>\<open>downloadBlobs\<close>: the batches first, each in
  a \<^verbatim>\<open>try\<close> block, then the items after the last batch one by one.  \<^verbatim>\<open>throw e\<close> in the
  handlers throws a copy of the static type \<^verbatim>\<open>std::runtime_error\<close>.
\<close>

type_synonym transfer_result = "(digest \<times> status_code) list"

fun transfer_batches ::
  "('i list \<Rightarrow> 'w \<Rightarrow> transfer_result result \<times> 'w) \<Rightarrow> ('i \<Rightarrow> digest) \<Rightarrow> bool \<Rightarrow> 'i list \<Rightarrow> (nat \<times> nat) list \<Rightarrow>
   transfer_result \<Rightarrow> 'w \<Rightarrow> transfer_result result \<times> 'w" where
  "transfer_batches batch key throw_on_error request_list [] results w = (Inr results, w)"
| "transfer_batches batch key throw_on_error request_list ((batch_start, batch_end) # batches) results w =
     (case batch (batch_items batch_start batch_end request_list) w of
        (Inr batch_results, w') \<Rightarrow>
          transfer_batches batch key throw_on_error request_list batches (results @ batch_results) w'
      | (Inl e, w') \<Rightarrow>
          if \<not> is_runtime_error e then (Inl e, w')
          else if throw_on_error then (Inl RuntimeError, w')
          else transfer_batches batch key throw_on_error request_list batches
                 (results @ map (\<lambda>i. (key i, INTERNAL)) (batch_items batch_start batch_end request_list)) w')"

text \<open>A \<^verbatim>\<open>GrpcError\<close> is reported with its code, every other runtime error as internal.\<close>

definition error_report :: "exn \<Rightarrow> status_code" where
  "error_report e = (case e of GrpcError c \<Rightarrow> c | _ \<Rightarrow> INTERNAL)"

fun transfer_rest ::
  "('i \<Rightarrow> 'w \<Rightarrow> transfer_result result \<times> 'w) \<Rightarrow> ('i \<Rightarrow> digest) \<Rightarrow> bool \<Rightarrow> 'i list \<Rightarrow>
   transfer_result \<Rightarrow> 'w \<Rightarrow> transfer_result result \<times> 'w" where
  "transfer_rest single key throw_on_error [] results w = (Inr results, w)"
| "transfer_rest single key throw_on_error (item # items) results w =
     (case single item w of
        (Inr r, w') \<Rightarrow> transfer_rest single key throw_on_error items (results @ r) w'
      | (Inl e, w') \<Rightarrow>
          if \<not> is_runtime_error e then (Inl e, w')
          else if throw_on_error then (Inl RuntimeError, w')
          else transfer_rest single key throw_on_error items (results @ [(key item, error_report e)]) w')"

definition transfer_all ::
  "('i list \<Rightarrow> 'w \<Rightarrow> transfer_result result \<times> 'w) \<Rightarrow> ('i \<Rightarrow> 'w \<Rightarrow> transfer_result result \<times> 'w) \<Rightarrow>
   ('i \<Rightarrow> digest) \<Rightarrow> 64 word \<Rightarrow> bool \<Rightarrow> 'i list \<Rightarrow> 'w \<Rightarrow> transfer_result result \<times> 'w" where
  "transfer_all batch single key maxBatch throw_on_error request_list w =
     (let batches = makeBatches maxBatch (map key request_list)
      in case transfer_batches batch key throw_on_error request_list batches [] w of
           (Inl e, w') \<Rightarrow> (Inl e, w')
         | (Inr results, w') \<Rightarrow>
             transfer_rest single key throw_on_error (drop (last_end batches) request_list) results w')"

text \<open>\<^verbatim>\<open>std::sort\<close> by size: any permutation in ascending order of the sizes.\<close>

definition sorts_by :: "('i \<Rightarrow> int) \<Rightarrow> ('i list \<Rightarrow> 'i list) \<Rightarrow> bool" where
  "sorts_by key f \<longleftrightarrow> (\<forall>xs. mset (f xs) = mset xs \<and> sorted (map key (f xs)))"

section \<open>Uploads\<close>

fun batch_entries :: "'s cas_env \<Rightarrow> upload_request list \<Rightarrow> 's \<Rightarrow> (digest \<times> string) list result \<times> 's" where
  "batch_entries env [] s = (Inr [], s)"
| "batch_entries env (request # requests) s =
     (case (if ur_path request = [] then (Inr (ur_data request), s) else ce_getFileContents env (ur_path request) s) of
        (Inl e, s') \<Rightarrow> (Inl e, s')
      | (Inr data, s') \<Rightarrow>
          (let (r, s'') = batch_entries env requests s'
           in (map_sum id (\<lambda>es. (ur_digest request, data) # es) r, s'')))"

definition batchUpload ::
  "'s cas_env \<Rightarrow> client \<Rightarrow> upload_request list \<Rightarrow> 's \<Rightarrow> transfer_result result \<times> 's" where
  "batchUpload env cl requests s =
     (case batch_entries env requests s of
        (Inl e, s') \<Rightarrow> (Inl e, s')
      | (Inr entries, s') \<Rightarrow>
          (let (r, s'') = issue_unary cl (\<lambda>context. cas_batch_update env context (d_instanceName cl) entries) s'
           in (map_sum id (filter (\<lambda>response. snd response \<noteq> OK)) r, s'')))"

definition streamUpload :: "'s cas_env \<Rightarrow> client \<Rightarrow> upload_request \<Rightarrow> 's \<Rightarrow> transfer_result result \<times> 's" where
  "streamUpload env cl request s =
     (let (r, s') = uploadRequest (ce_stream env) cl request s in (map_sum id (\<lambda>_. []) r, s'))"

definition uploadBlobs ::
  "'s cas_env \<Rightarrow> client \<Rightarrow> (upload_request list \<Rightarrow> upload_request list) \<Rightarrow> bool \<Rightarrow> upload_request list \<Rightarrow>
   's \<Rightarrow> transfer_result result \<times> 's" where
  "uploadBlobs env cl sort_requests throw_on_error requests s =
     transfer_all (batchUpload env cl) (streamUpload env cl)
       ur_digest (d_maxBatchTotalSizeBytes cl) throw_on_error (sort_requests requests) s"

section \<open>Downloads\<close>

text \<open>
  A callback gets the hash and the data, or the path of a file with the data, and works on the
  world and on the variables \<open>'c\<close> it captures.
\<close>

type_synonym ('s, 'c) write_blob = "string \<Rightarrow> string \<Rightarrow> 's \<times> 'c \<Rightarrow> unit result \<times> ('s \<times> 'c)"

definition on_world :: "('s \<Rightarrow> 'a \<times> 's) \<Rightarrow> 's \<times> 'c \<Rightarrow> 'a \<times> ('s \<times> 'c)" where
  "on_world f w = (let (r, s') = f (fst w) in (r, (s', snd w)))"

text \<open>Handing over one blob of a batch, through a file when there is a directory for them.\<close>

definition deliver ::
  "'s cas_env \<Rightarrow> ('s, 'c) write_blob \<Rightarrow> string option \<Rightarrow> digest \<Rightarrow> string \<Rightarrow> 's \<times> 'c \<Rightarrow> unit result \<times> ('s \<times> 'c)" where
  "deliver env write_blob temp_directory digest data w =
     (case temp_directory of
        None \<Rightarrow> write_blob (hash_other digest) data w
      | Some dir \<Rightarrow>
          (let path = dir @ ''/'' @ hash_other digest
           in case on_world (write_ofstream env path data) w of
                (Some e, w') \<Rightarrow> (Inl (SystemError e), w')
              | (None, w') \<Rightarrow> write_blob (hash_other digest) path w'))"

fun receive_blobs ::
  "'s cas_env \<Rightarrow> (string \<Rightarrow> digest result) \<Rightarrow> ('s, 'c) write_blob \<Rightarrow> string option \<Rightarrow>
   (digest \<times> string \<times> status_code) list \<Rightarrow> transfer_result \<Rightarrow> 's \<times> 'c \<Rightarrow> transfer_result result \<times> ('s \<times> 'c)" where
  "receive_blobs env hash write_blob temp_directory [] download_results w = (Inr download_results, w)"
| "receive_blobs env hash write_blob temp_directory ((digest, data, code) # responses) download_results w =
     (if code = OK
      then
        (case hash data of
           Inl e \<Rightarrow> (Inl e, w)
         | Inr downloaded_digest \<Rightarrow>
             if \<not> digest_eq downloaded_digest digest
             then receive_blobs env hash write_blob temp_directory responses (download_results @ [(digest, INTERNAL)]) w
             else
               (case deliver env write_blob temp_directory digest data w of
                  (Inl e, w') \<Rightarrow> (Inl e, w')
                | (Inr _, w') \<Rightarrow>
                    receive_blobs env hash write_blob temp_directory responses (download_results @ [(digest, OK)]) w'))
      else receive_blobs env hash write_blob temp_directory responses (download_results @ [(digest, code)]) w)"

definition batchDownload ::
  "'s cas_env \<Rightarrow> client \<Rightarrow> (string \<Rightarrow> digest result) \<Rightarrow> ('s, 'c) write_blob \<Rightarrow> string option \<Rightarrow> digest list \<Rightarrow>
   's \<times> 'c \<Rightarrow> transfer_result result \<times> ('s \<times> 'c)" where
  "batchDownload env cl hash write_blob temp_directory digests w =
     (case on_world (issue_unary cl (\<lambda>context. cas_batch_read env context (d_instanceName cl) digests)) w of
        (Inl e, w') \<Rightarrow> (Inl e, w')
      | (Inr responses, w') \<Rightarrow> receive_blobs env hash write_blob temp_directory responses [] w')"

text \<open>One blob over the byte stream, into a string or a file.\<close>

definition streamDownload ::
  "'s cas_env \<Rightarrow> client \<Rightarrow> 'h hash_library \<Rightarrow> digest_function option \<Rightarrow> ('s, 'c) write_blob \<Rightarrow> string option \<Rightarrow>
   digest \<Rightarrow> 's \<times> 'c \<Rightarrow> transfer_result result \<times> ('s \<times> 'c)" where
  "streamDownload env cl lib functionStruct write_blob temp_directory digest w =
     (let fetched =
        (case temp_directory of
           None \<Rightarrow> on_world (fetchString (ce_stream env) cl (hash_string lib functionStruct) digest) w
         | Some dir \<Rightarrow>
             (let path = dir @ ''/'' @ hash_other digest
              in case on_world (fd_open_write (ce_stream env) path) w of
                   (Some e, w') \<Rightarrow> (Inl (SystemError e), w')
                 | (None, w') \<Rightarrow>
                     (let (r, w'') = on_world (download (ce_stream env) cl lib functionStruct digest) w'
                      in (map_sum id (\<lambda>_. path) r, (fd_close (ce_stream env) (fst w''), snd w'')))))
      in case fetched of
           (Inl e, w') \<Rightarrow> (Inl e, w')
         | (Inr data, w') \<Rightarrow>
             (let (r, w'') = write_blob (hash_other digest) data w'
              in (map_sum id (\<lambda>_. [(digest, OK)]) r, w'')))"

definition downloadBlobs ::
  "'s cas_env \<Rightarrow> client \<Rightarrow> 'h hash_library \<Rightarrow> digest_function option \<Rightarrow> (digest list \<Rightarrow> digest list) \<Rightarrow>
   ('s, 'c) write_blob \<Rightarrow> string option \<Rightarrow> bool \<Rightarrow> digest list \<Rightarrow> 's \<times> 'c \<Rightarrow> transfer_result result \<times> ('s \<times> 'c)" where
  "downloadBlobs env cl lib functionStruct sort_digests write_blob temp_directory throw_on_error digests w =
     transfer_all (batchDownload env cl (hash_string lib functionStruct) write_blob temp_directory)
       (streamDownload env cl lib functionStruct write_blob temp_directory)
       (\<lambda>d. d) (d_maxBatchTotalSizeBytes cl) throw_on_error (sort_digests digests) w"

text \<open>
  The form that returns the data: \<^verbatim>\<open>emplace\<close> keeps the entry of a hash that is present.
\<close>

type_synonym blobs_result = "(string \<times> (status_code \<times> string)) list"

definition blobs_emplace :: "string \<Rightarrow> status_code \<times> string \<Rightarrow> blobs_result \<Rightarrow> blobs_result" where
  "blobs_emplace h v m = (case map_of m h of None \<Rightarrow> m @ [(h, v)] | Some _ \<Rightarrow> m)"

definition collect_blob :: "('s, blobs_result) write_blob" where
  "collect_blob hash data w = (Inr (), (fst w, blobs_emplace hash (OK, data) (snd w)))"

definition downloadBlobs_map ::
  "'s cas_env \<Rightarrow> client \<Rightarrow> 'h hash_library \<Rightarrow> digest_function option \<Rightarrow> (digest list \<Rightarrow> digest list) \<Rightarrow>
   digest list \<Rightarrow> string option \<Rightarrow> 's \<Rightarrow> blobs_result result \<times> 's" where
  "downloadBlobs_map env cl lib functionStruct sort_digests digests temp_directory s =
     (case downloadBlobs env cl lib functionStruct sort_digests collect_blob temp_directory False digests (s, []) of
        (Inl e, (s', _)) \<Rightarrow> (Inl e, s')
      | (Inr download_results, (s', downloaded_data)) \<Rightarrow>
          (Inr (fold (\<lambda>(digest, code) m.
                  if code \<noteq> OK then blobs_emplace (hash_other digest) (code, []) m else m)
                download_results downloaded_data), s'))"

text \<open>The form that writes the files of an \<^verbatim>\<open>OutputMap\<close>, a multimap from hashes to paths.\<close>

type_synonym output_map = "(string \<times> (string \<times> bool)) list"

fun write_outputs :: "'s cas_env \<Rightarrow> (string \<times> bool) list \<Rightarrow> string \<Rightarrow> 's \<times> 'c \<Rightarrow> unit result \<times> ('s \<times> 'c)" where
  "write_outputs env [] data w = (Inr (), w)"
| "write_outputs env ((path, is_executable) # outputs) data w =
     (case on_world (ce_writeFileAtomically env path data (if is_executable then 493 else 420)) w of
        (Inl e, w') \<Rightarrow> (Inl e, w')
      | (Inr _, w') \<Rightarrow> write_outputs env outputs data w')"

definition downloadBlobs_files ::
  "'s cas_env \<Rightarrow> client \<Rightarrow> 'h hash_library \<Rightarrow> digest_function option \<Rightarrow> (digest list \<Rightarrow> digest list) \<Rightarrow>
   digest list \<Rightarrow> output_map \<Rightarrow> 's \<Rightarrow> unit result \<times> 's" where
  "downloadBlobs_files env cl lib functionStruct sort_digests digests outputs s =
     (let (r, w) = downloadBlobs env cl lib functionStruct sort_digests
                     (\<lambda>hash data w. write_outputs env (map snd (filter (\<lambda>out. fst out = hash) outputs)) data w)
                     None True digests (s, ())
      in (map_sum id (\<lambda>_. ()) r, fst w))"

section \<open>A concrete server\<close>

text \<open>It accepts every blob but the empty one and has the blob of the world for every digest asked for.\<close>

definition demo_cas :: "demo_world cas_env" where
  "demo_cas = \<lparr>ce_stream = demo_env,
     cas_batch_update = (\<lambda>c inst es s. ((status_of OK, map (\<lambda>(d, data). (d, if data = [] then DATA_LOSS else OK)) es), s)),
     cas_batch_read = (\<lambda>c inst ds s. ((status_of OK, map (\<lambda>d. (d, dw_blob s, OK)) ds), s)),
     cas_find_missing = (\<lambda>c inst ds s. ((status_of OK, filter (\<lambda>d. size_bytes d > 1) ds), s)),
     cas_get_tree = (\<lambda>c inst d s. (([[empty_directory]], status_of OK), s)),
     ce_getFileContents = (\<lambda>p s. (Inr (dw_file s), s)),
     ce_writeFileAtomically = (\<lambda>p data mode s. (Inr (), s\<lparr>dw_file := data\<rparr>)),
     write_ofstream = (\<lambda>p data s. (None, s\<lparr>dw_file := data\<rparr>)),
     os_mkdir = (\<lambda>p s. (None, s)), os_symlink = (\<lambda>t p s. (None, s))\<rparr>"

definition demo_requests :: "upload_request list" where
  "demo_requests =
     [\<lparr>ur_digest = demo_digest, ur_data = ''abc'', ur_path = []\<rparr>,
      \<lparr>ur_digest = empty_digest, ur_data = [], ur_path = []\<rparr>]"

lemma sorts_by_sort_key: "sorts_by key (sort_key key)"
  by (simp add: sorts_by_def)

section \<open>Every item is transferred once\<close>

text \<open>
  One attempt to transfer items: a batch with the report of the server or the exception, or a
  single item with its report or the exception.
\<close>

datatype 'i attempt =
    BatchAttempt "'i list" "transfer_result result"
  | SingleAttempt 'i "transfer_result result"

fun attempted :: "'i attempt \<Rightarrow> 'i list" where
  "attempted (BatchAttempt items _) = items"
| "attempted (SingleAttempt item _) = [item]"

text \<open>What an attempt contributes to the results.\<close>

fun reported :: "('i \<Rightarrow> digest) \<Rightarrow> 'i attempt \<Rightarrow> transfer_result" where
  "reported key (BatchAttempt items (Inr r)) = r"
| "reported key (BatchAttempt items (Inl e)) = map (\<lambda>i. (key i, INTERNAL)) items"
| "reported key (SingleAttempt item (Inr r)) = r"
| "reported key (SingleAttempt item (Inl e)) = [(key item, error_report e)]"

text \<open>The operations of a transfer with a log of the attempts beside the state.\<close>

definition log_batch ::
  "('i list \<Rightarrow> 'w \<Rightarrow> transfer_result result \<times> 'w) \<Rightarrow> 'i list \<Rightarrow> 'w \<times> 'i attempt list \<Rightarrow>
   transfer_result result \<times> ('w \<times> 'i attempt list)" where
  "log_batch batch items wl = (let (r, w') = batch items (fst wl) in (r, (w', snd wl @ [BatchAttempt items r])))"

definition log_single ::
  "('i \<Rightarrow> 'w \<Rightarrow> transfer_result result \<times> 'w) \<Rightarrow> 'i \<Rightarrow> 'w \<times> 'i attempt list \<Rightarrow>
   transfer_result result \<times> ('w \<times> 'i attempt list)" where
  "log_single single item wl = (let (r, w') = single item (fst wl) in (r, (w', snd wl @ [SingleAttempt item r])))"

text \<open>The log does not influence the transfer, and holds all of its attempts.\<close>

lemma transfer_batches_log:
  "\<exists>extra. transfer_batches (log_batch batch) key thr xs bs rs (w, l) =
     (fst (transfer_batches batch key thr xs bs rs w), (snd (transfer_batches batch key thr xs bs rs w), l @ extra)) \<and>
   (\<forall>results. fst (transfer_batches batch key thr xs bs rs w) = Inr results \<longrightarrow>
      concat (map attempted extra) = concat (map (\<lambda>(a, b). batch_items a b xs) bs) \<and>
      results = rs @ concat (map (reported key) extra))"
proof (induction bs arbitrary: rs w l)
  case (Cons p bs)
  obtain a b where p: "p = (a, b)" by fastforce
  obtain r w' where r: "batch (batch_items a b xs) w = (r, w')" by fastforce
  let ?items = "batch_items a b xs"
  let ?l = "l @ [BatchAttempt ?items r]"
  show ?case
  proof (cases r)
    case (Inr res)
    then show ?thesis
      using Cons.IH [of "rs @ res" w' ?l] p r
      by (elim exE) (rule exI [of _ "BatchAttempt ?items r # _"], auto simp: log_batch_def)
  next
    case (Inl e)
    show ?thesis
    proof (cases "\<not> is_runtime_error e \<or> thr")
      case True
      then show ?thesis
        using Inl p r by (intro exI [of _ "[BatchAttempt ?items r]"]) (auto simp: log_batch_def)
    next
      case False
      then show ?thesis
        using Cons.IH [of "rs @ map (\<lambda>i. (key i, INTERNAL)) ?items" w' ?l] Inl p r
        by (elim exE) (rule exI [of _ "BatchAttempt ?items r # _"], auto simp: log_batch_def)
    qed
  qed
qed simp

lemma transfer_rest_log:
  "\<exists>extra. transfer_rest (log_single single) key thr xs rs (w, l) =
     (fst (transfer_rest single key thr xs rs w), (snd (transfer_rest single key thr xs rs w), l @ extra)) \<and>
   (\<forall>results. fst (transfer_rest single key thr xs rs w) = Inr results \<longrightarrow>
      concat (map attempted extra) = xs \<and> results = rs @ concat (map (reported key) extra))"
proof (induction xs arbitrary: rs w l)
  case (Cons x xs)
  obtain r w' where r: "single x w = (r, w')" by fastforce
  let ?l = "l @ [SingleAttempt x r]"
  show ?case
  proof (cases r)
    case (Inr res)
    then show ?thesis
      using Cons.IH [of "rs @ res" w' ?l] r
      by (elim exE) (rule exI [of _ "SingleAttempt x r # _"], auto simp: log_single_def)
  next
    case (Inl e)
    show ?thesis
    proof (cases "\<not> is_runtime_error e \<or> thr")
      case True
      then show ?thesis
        using Inl r by (intro exI [of _ "[SingleAttempt x r]"]) (auto simp: log_single_def)
    next
      case False
      then show ?thesis
        using Cons.IH [of "rs @ [(key x, error_report e)]" w' ?l] Inl r
        by (elim exE) (rule exI [of _ "SingleAttempt x r # _"], auto simp: log_single_def)
    qed
  qed
qed simp

lemma transfer_all_log:
  "\<exists>log. transfer_all (log_batch batch) (log_single single) key m thr xs (w, []) =
     (fst (transfer_all batch single key m thr xs w), (snd (transfer_all batch single key m thr xs w), log)) \<and>
   (\<forall>results. fst (transfer_all batch single key m thr xs w) = Inr results \<longrightarrow>
      concat (map attempted log) = xs \<and> results = concat (map (reported key) log))"
proof -
  let ?bs = "makeBatches m (map key xs)"
  obtain l1 where l1: "transfer_batches (log_batch batch) key thr xs ?bs [] (w, []) =
     (fst (transfer_batches batch key thr xs ?bs [] w), (snd (transfer_batches batch key thr xs ?bs [] w), l1))"
    and c1: "\<And>results. fst (transfer_batches batch key thr xs ?bs [] w) = Inr results \<Longrightarrow>
      concat (map attempted l1) = concat (map (\<lambda>(a, b). batch_items a b xs) ?bs) \<and>
      results = concat (map (reported key) l1)"
    using transfer_batches_log [of batch key thr xs ?bs "[]" w "[]"] by auto
  obtain r w' where r: "transfer_batches batch key thr xs ?bs [] w = (r, w')" by fastforce
  show ?thesis
  proof (cases r)
    case (Inl e)
    then show ?thesis using l1 r by (simp add: transfer_all_def Let_def)
  next
    case (Inr rs)
    note rest = transfer_rest_log [of single key thr "drop (last_end ?bs) xs" rs w' l1]
    then show ?thesis
      using l1 c1 [of rs] r Inr mb.batches_cover [where ds = "map key xs" and xs = xs]
      by (elim exE) (rule exI [of _ "l1 @ _"], auto simp: transfer_all_def Let_def)
  qed
qed

text \<open>
  C4: \<^verbatim>\<open>uploadBlobs\<close> loses no request and sends none twice: when it returns, its attempts, the
  batches and then the single uploads, consist of exactly the given requests, in ascending
  order of size; and the results are what these attempts report, where a batch that failed as
  a whole reports every one of its digests.
\<close>

theorem uploadBlobs_complete:
  assumes "uploadBlobs env cl sort_requests throw_on_error requests s = (Inr results, s')"
    and "sorts_by (\<lambda>r. size_bytes (ur_digest r)) sort_requests"
  shows "\<exists>log. transfer_all (log_batch (batchUpload env cl)) (log_single (streamUpload env cl))
       ur_digest (d_maxBatchTotalSizeBytes cl) throw_on_error (sort_requests requests) (s, []) = (Inr results, (s', log)) \<and>
     mset (concat (map attempted log)) = mset requests \<and>
     sorted (map (\<lambda>r. size_bytes (ur_digest r)) (concat (map attempted log))) \<and>
     results = concat (map (reported ur_digest) log)"
  using transfer_all_log [of "batchUpload env cl" "streamUpload env cl" ur_digest "d_maxBatchTotalSizeBytes cl"
      throw_on_error "sort_requests requests" s] assms
  by (auto simp: uploadBlobs_def sorts_by_def)

theorem uploadBlobs_complete_witness:
  "\<exists>log. mset (concat (map attempted log)) = mset demo_requests \<and>
     [(empty_digest, DATA_LOSS)] = concat (map (reported ur_digest) log)"
proof -
  let ?u = "uploadBlobs demo_cas demo_client (sort_key (\<lambda>r. size_bytes (ur_digest r))) False demo_requests demo_start"
  have u: "?u = (Inr [(empty_digest, DATA_LOSS)], demo_start)" by code_simp
  show ?thesis using uploadBlobs_complete [OF u sorts_by_sort_key] by blast
qed

text \<open>
  \<^verbatim>\<open>downloadBlobs\<close>, too, asks for every digest exactly once, and its results are the
  reports of these attempts.
\<close>

theorem downloadBlobs_complete:
  assumes "downloadBlobs env cl lib fs sort_digests write_blob temp_directory throw_on_error digests w = (Inr results, w')"
    and "sorts_by size_bytes sort_digests"
  shows "\<exists>log. transfer_all (log_batch (batchDownload env cl (hash_string lib fs) write_blob temp_directory))
       (log_single (streamDownload env cl lib fs write_blob temp_directory))
       (\<lambda>d. d) (d_maxBatchTotalSizeBytes cl) throw_on_error (sort_digests digests) (w, []) = (Inr results, (w', log)) \<and>
     mset (concat (map attempted log)) = mset digests \<and>
     sorted (map size_bytes (concat (map attempted log))) \<and>
     results = concat (map (reported (\<lambda>d. d)) log)"
  using transfer_all_log [of "batchDownload env cl (hash_string lib fs) write_blob temp_directory"
      "streamDownload env cl lib fs write_blob temp_directory" "\<lambda>d. d" "d_maxBatchTotalSizeBytes cl"
      throw_on_error "sort_digests digests" w] assms
  by (auto simp: downloadBlobs_def sorts_by_def)

theorem downloadBlobs_complete_witness:
  "\<exists>log. mset (concat (map attempted log)) = mset [demo_digest, empty_digest] \<and>
     [(empty_digest, INTERNAL), (demo_digest, OK)] = concat (map (reported (\<lambda>d. d)) log)"
proof -
  let ?d = "downloadBlobs demo_cas demo_client plain_library (Some SHA256) (sort_key size_bytes) collect_blob None False
     [demo_digest, empty_digest] (demo_start, [])"
  have d: "?d = (Inr [(empty_digest, INTERNAL), (demo_digest, OK)], snd ?d)" by code_simp
  show ?thesis using downloadBlobs_complete [OF d sorts_by_sort_key] by blast
qed

section \<open>Integrity of downloaded blobs\<close>

text \<open>An invariant of the callback's variables that a transfer keeps.\<close>

lemma transfer_batches_keeps:
  assumes "\<And>items w. P w \<Longrightarrow> P (snd (batch items w))"
  shows "P w \<Longrightarrow> P (snd (transfer_batches batch key thr xs bs rs w))"
proof (induction bs arbitrary: rs w)
  case (Cons p bs)
  obtain a b where p: "p = (a, b)" by fastforce
  obtain r w' where r: "batch (batch_items a b xs) w = (r, w')" by fastforce
  have "P w'" using assms [OF Cons.prems, of "batch_items a b xs"] r by simp
  then show ?case using Cons.IH p r by (cases r; cases thr) simp_all
qed simp

lemma transfer_rest_keeps:
  assumes "\<And>item w. P w \<Longrightarrow> P (snd (single item w))"
  shows "P w \<Longrightarrow> P (snd (transfer_rest single key thr xs rs w))"
proof (induction xs arbitrary: rs w)
  case (Cons x xs)
  obtain r w' where r: "single x w = (r, w')" by fastforce
  have "P w'" using assms [OF Cons.prems, of x] r by simp
  then show ?case using Cons.IH r by (cases r; cases thr) simp_all
qed simp

lemma transfer_all_keeps:
  assumes "\<And>items w. P w \<Longrightarrow> P (snd (batch items w))" "\<And>item w. P w \<Longrightarrow> P (snd (single item w))" "P w"
  shows "P (snd (transfer_all batch single key m thr xs w))"
  using transfer_batches_keeps [of P batch, OF assms(1,3), of key thr xs "makeBatches m (map key xs)" "[]"]
    transfer_rest_keeps [of P single, OF assms(2)]
  by (auto simp: transfer_all_def Let_def case_prod_beta split: sum.split)

text \<open>The data collected under a hash has that hash.\<close>

definition blobs_intact :: "(string \<Rightarrow> digest result) \<Rightarrow> blobs_result \<Rightarrow> bool" where
  "blobs_intact hash m \<longleftrightarrow>
     (\<forall>h data. (h, (OK, data)) \<in> set m \<longrightarrow> (\<exists>d. hash data = Inr d \<and> hash_other d = h))"

lemma blobs_intact_emplace:
  "blobs_intact hash m \<Longrightarrow> (fst v = OK \<Longrightarrow> \<exists>d. hash (snd v) = Inr d \<and> hash_other d = h) \<Longrightarrow>
   blobs_intact hash (blobs_emplace h v m)"
  by (auto simp: blobs_intact_def blobs_emplace_def split: option.splits)

lemma on_world_snd [simp]: "snd (snd (on_world f w)) = snd w"
  by (simp add: on_world_def Let_def case_prod_beta)

lemma receive_blobs_intact:
  "blobs_intact hash (snd w) \<Longrightarrow>
   blobs_intact hash (snd (snd (receive_blobs env hash collect_blob None responses rs w)))"
proof (induction responses arbitrary: rs w)
  case (Cons q responses)
  obtain d data c where q: "q = (d, data, c)" by (metis prod.collapse)
  have "blobs_intact hash (blobs_emplace (hash_other d) (OK, data) (snd w))"
    if "hash data = Inr dd" "digest_eq dd d" for dd
    using Cons.prems that by (intro blobs_intact_emplace) (auto simp: digest_eq_def)
  then show ?case
    using Cons q by (auto simp: deliver_def collect_blob_def split: sum.split)
qed simp

lemma batchDownload_intact:
  "blobs_intact hash (snd w) \<Longrightarrow>
   blobs_intact hash (snd (snd (batchDownload env cl hash collect_blob None digests w)))"
  by (auto simp: batchDownload_def case_prod_beta split: sum.split intro!: receive_blobs_intact)

lemma streamDownload_intact:
  assumes "blobs_intact (hash_string lib fs) (snd w)"
  shows "blobs_intact (hash_string lib fs) (snd (snd (streamDownload env cl lib fs collect_blob None digest w)))"
proof -
  obtain r s' where f: "fetchString (ce_stream env) cl (hash_string lib fs) digest (fst w) = (r, s')" by fastforce
  show ?thesis
  proof (cases r)
    case (Inl e)
    then show ?thesis using assms f by (simp add: streamDownload_def on_world_def)
  next
    case (Inr data)
    have "intact (hash_string lib fs) digest data" by (rule fetchString_intact [OF f [unfolded Inr]])
    then show ?thesis
      using assms f Inr by (auto simp: streamDownload_def on_world_def collect_blob_def intact_def digest_eq_def
          intro!: blobs_intact_emplace)
  qed
qed

text \<open>
  C5: The blobs that \<^verbatim>\<open>downloadBlobs\<close> returns are intact, whether they came in a batch or over
  the byte stream: data returned with status OK under a hash has that hash.
\<close>

theorem downloadBlobs_map_integrity:
  assumes "downloadBlobs_map env cl lib fs sort_digests digests None s = (Inr m, s')"
    and "(h, (OK, data)) \<in> set m"
  shows "\<exists>d. hash_string lib fs data = Inr d \<and> hash_other d = h"
proof -
  obtain rs s1 m1 where d: "downloadBlobs env cl lib fs sort_digests collect_blob None False digests (s, []) = (Inr rs, (s1, m1))"
    and m: "m = fold (\<lambda>(digest, code) m. if code \<noteq> OK then blobs_emplace (hash_other digest) (code, []) m else m) rs m1"
    using assms(1) by (auto simp: downloadBlobs_map_def split: prod.splits sum.splits)
  have "blobs_intact (hash_string lib fs) (snd (snd (downloadBlobs env cl lib fs sort_digests collect_blob None False digests (s, []))))"
    unfolding downloadBlobs_def
    by (rule transfer_all_keeps [where P = "\<lambda>w. blobs_intact (hash_string lib fs) (snd w)"])
      (auto intro: batchDownload_intact streamDownload_intact simp: blobs_intact_def [of _ "[]"])
  then have "blobs_intact (hash_string lib fs) m1" using d by simp
  moreover have "blobs_intact H m0 \<Longrightarrow> blobs_intact H
      (fold (\<lambda>(digest, code) m. if code \<noteq> OK then blobs_emplace (hash_other digest) (code, []) m else m) rs m0)" for H m0
  proof (induction rs arbitrary: m0)
    case (Cons q rs)
    have "blobs_intact H (if snd q \<noteq> OK then blobs_emplace (hash_other (fst q)) (snd q, []) m0 else m0)"
      using Cons.prems by (auto intro!: blobs_intact_emplace)
    then show ?case using Cons.IH by (simp add: case_prod_beta)
  qed simp
  ultimately show ?thesis using m assms(2) by (auto simp: blobs_intact_def)
qed

theorem downloadBlobs_map_integrity_witness:
  "\<exists>d. hash_string plain_library (Some SHA256) ''abc'' = Inr d \<and> hash_other d = ''616263''"
proof -
  let ?d = "downloadBlobs_map demo_cas demo_client plain_library (Some SHA256) (sort_key size_bytes)
     [demo_digest, empty_digest] None demo_start"
  have d: "?d = (Inr [(''616263'', (OK, ''abc'')), ([], (INTERNAL, []))], snd ?d)" by code_simp
  show ?thesis by (rule downloadBlobs_map_integrity [OF d]) simp
qed

end
