(* ===== verification/Client_Dirs.thy ===== *)
theory Client_Dirs
  imports Client_Blobs
begin

text \<open>
  Directories in \<^verbatim>\<open>buildboxcommon_client.cpp\<close>: \<^verbatim>\<open>findMissingBlobs\<close>,
  \<^verbatim>\<open>missingDigests\<close>, the upload of a directory, its recursive download and
  \<^verbatim>\<open>getTree\<close>, and the requests to the local service.
\<close>

section \<open>Missing blobs\<close>

fun missing_loop :: "'s cas_env \<Rightarrow> client \<Rightarrow> digest list list \<Rightarrow> digest list \<Rightarrow> 's \<Rightarrow> digest list result \<times> 's" where
  "missing_loop env cl [] missing_blobs s = (Inr missing_blobs, s)"
| "missing_loop env cl (request # requests_to_issue) missing_blobs s =
     (case issue_unary cl (\<lambda>context. cas_find_missing env context (d_instanceName cl) request) s of
        (Inl e, s') \<Rightarrow> (Inl e, s')
      | (Inr response, s') \<Rightarrow> missing_loop env cl requests_to_issue (missing_blobs @ response) s')"

definition findMissingBlobs ::
  "'s cas_env \<Rightarrow> client \<Rightarrow> (digest \<Rightarrow> nat) \<Rightarrow> digest list \<Rightarrow> 's \<Rightarrow> digest list result \<times> 's" where
  "findMissingBlobs env cl byteSize digests s =
     missing_loop env cl (missing_requests byteSize digests) [] s"

text \<open>\<^verbatim>\<open>directory_map.at\<close> throws when the server names a digest that was not asked for.\<close>

fun select_missing :: "digest_string_map \<Rightarrow> digest list \<Rightarrow> digest_string_map \<Rightarrow> digest_string_map result" where
  "select_missing directory_map [] missing_files = Inr missing_files"
| "select_missing directory_map (digest # missing_blobs) missing_files =
     (case dmap_find directory_map digest of
        None \<Rightarrow> Inl OutOfRange
      | Some v \<Rightarrow> select_missing directory_map missing_blobs (dmap_set digest v missing_files))"

definition missingDigests ::
  "'s cas_env \<Rightarrow> client \<Rightarrow> (digest \<Rightarrow> nat) \<Rightarrow> (digest_string_map \<Rightarrow> digest_string_map) \<Rightarrow> digest_string_map \<Rightarrow>
   's \<Rightarrow> digest_string_map result \<times> 's" where
  "missingDigests env cl byteSize order directory_map s =
     (case findMissingBlobs env cl byteSize (map fst (order directory_map)) s of
        (Inl e, s') \<Rightarrow> (Inl e, s')
      | (Inr missing_blobs, s') \<Rightarrow> (select_missing directory_map missing_blobs [], s'))"

section \<open>Uploading a directory\<close>

text \<open>\<open>parse\<close> is \<^verbatim>\<open>Directory::ParseFromString\<close>, \<open>None\<close> where it returns false.\<close>

fun directory_requests ::
  "'s cas_env \<Rightarrow> (string \<Rightarrow> directory option) \<Rightarrow> digest_string_map \<Rightarrow> 's \<Rightarrow> upload_request list result \<times> 's" where
  "directory_requests env parse [] s = (Inr [], s)"
| "directory_requests env parse ((digest, v) # entries) s =
     (case (case parse v of Some _ \<Rightarrow> (Inr v, s) | None \<Rightarrow> ce_getFileContents env v s) of
        (Inl e, s') \<Rightarrow> (Inl e, s')
      | (Inr data, s') \<Rightarrow>
          (let (r, s'') = directory_requests env parse entries s'
           in (map_sum id (\<lambda>rs. \<lparr>ur_digest = digest, ur_data = data, ur_path = []\<rparr> # rs) r, s'')))"

record dir_upload =
  du_results :: transfer_result
  du_root_digest :: digest
  du_tree :: tree

text \<open>
  \<open>fs\<close> is the directory at \<^verbatim>\<open>path\<close> as the walk finds it, \<open>hash\<close> the digest of the contents of a
  file, \<open>S\<close>, \<open>H\<close> and \<open>ts\<close> the serialisation, digest and time functions of the Merkle tree.
\<close>

definition uploadDirectory ::
  "'s cas_env \<Rightarrow> client \<Rightarrow> (digest \<Rightarrow> nat) \<Rightarrow> (digest_string_map \<Rightarrow> digest_string_map) \<Rightarrow>
   (upload_request list \<Rightarrow> upload_request list) \<Rightarrow> (string \<Rightarrow> directory option) \<Rightarrow> (string \<Rightarrow> digest result) \<Rightarrow>
   (directory \<Rightarrow> string) \<Rightarrow> (string \<Rightarrow> digest) \<Rightarrow> (int \<Rightarrow> timestamp) \<Rightarrow> string \<Rightarrow> fs_node \<Rightarrow> 's \<Rightarrow> dir_upload result \<times> 's" where
  "uploadDirectory env cl byteSize order sort_requests parse hash S H ts path fs s =
     (case make_nesteddirectory hash [] False [] path fs (Some []) of
        Inl e \<Rightarrow> (Inl e, s)
      | Inr (nested_dir, directory_map) \<Rightarrow>
          (case to_digest S H ts nested_dir directory_map of
             (_, None) \<Rightarrow> (Inl Undefined, s)
           | (directory_digest, Some dmap) \<Rightarrow>
               (case missingDigests env cl byteSize order dmap s of
                  (Inl e, s1) \<Rightarrow> (Inl e, s1)
                | (Inr missing, s1) \<Rightarrow>
                    (case directory_requests env parse (order missing) s1 of
                       (Inl e, s2) \<Rightarrow> (Inl e, s2)
                     | (Inr upload_requests, s2) \<Rightarrow>
                         (let (r, s3) = uploadBlobs env cl sort_requests False upload_requests s2
                          in (map_sum id (\<lambda>results. \<lparr>du_results = results, du_root_digest = directory_digest,
                                                     du_tree = to_tree S H ts nested_dir\<rparr>) r, s3))))))"

section \<open>Downloading a directory\<close>

text \<open>
  The recursion follows the digests of subdirectories that the server returns, so it is bounded
  by fuel.  \<open>download_callback\<close> and \<open>return_directory\<close> are the two callbacks.
\<close>

definition directory_outputs :: "string \<Rightarrow> file_node list \<Rightarrow> output_map" where
  "directory_outputs path fs =
     map (\<lambda>f. (hash_other (fn_digest f), (path @ ''/'' @ fn_name f, fn_is_executable f))) fs"

fun make_symlinks :: "'s cas_env \<Rightarrow> string \<Rightarrow> symlink_node list \<Rightarrow> 's \<Rightarrow> unit result \<times> 's" where
  "make_symlinks env path [] s = (Inr (), s)"
| "make_symlinks env path (node # nodes) s =
     (if sn_target node = [] \<or> sn_name node = [] then make_symlinks env path nodes s
      else
        (case os_symlink env (sn_target node) (path @ ''/'' @ sn_name node) s of
           (Some e, s') \<Rightarrow> (Inl (SystemError e), s')
         | (None, s') \<Rightarrow> make_symlinks env path nodes s'))"

fun download_subdirs ::
  "(digest \<Rightarrow> string \<Rightarrow> 's \<Rightarrow> (unit result \<times> 's) option) \<Rightarrow> 's cas_env \<Rightarrow> string \<Rightarrow> directory_node list \<Rightarrow> 's \<Rightarrow>
   (unit result \<times> 's) option" where
  "download_subdirs rec env path [] s = Some (Inr (), s)"
| "download_subdirs rec env path (node # nodes) s =
     (let directory_path = path @ ''/'' @ dn_name node
      in case os_mkdir env directory_path s of
           (Some e, s') \<Rightarrow> Some (Inl (SystemError e), s')
         | (None, s') \<Rightarrow>
             (case rec (dn_digest node) directory_path s' of
                None \<Rightarrow> None
              | Some (Inl e, s'') \<Rightarrow> Some (Inl e, s'')
              | Some (Inr _, s'') \<Rightarrow> download_subdirs rec env path nodes s''))"

primrec downloadDirectory ::
  "nat \<Rightarrow> 's cas_env \<Rightarrow> (digest list \<Rightarrow> output_map \<Rightarrow> 's \<Rightarrow> unit result \<times> 's) \<Rightarrow>
   (digest \<Rightarrow> 's \<Rightarrow> directory result \<times> 's) \<Rightarrow> digest \<Rightarrow> string \<Rightarrow> 's \<Rightarrow> (unit result \<times> 's) option" where
  "downloadDirectory 0 env download_callback return_directory digest path s = None"
| "downloadDirectory (Suc fuel) env download_callback return_directory digest path s =
     (case return_directory digest s of
        (Inl e, s1) \<Rightarrow> Some (Inl e, s1)
      | (Inr directory, s1) \<Rightarrow>
          (case download_callback (map fn_digest (files directory)) (directory_outputs path (files directory)) s1 of
             (Inl e, s2) \<Rightarrow> Some (Inl e, s2)
           | (Inr _, s2) \<Rightarrow>
               (case download_subdirs (downloadDirectory fuel env download_callback return_directory) env path
                       (directories directory) s2 of
                  None \<Rightarrow> None
                | Some (Inl e, s3) \<Rightarrow> Some (Inl e, s3)
                | Some (Inr _, s3) \<Rightarrow> Some (make_symlinks env path (symlinks directory) s3))))"

text \<open>\<^verbatim>\<open>fetchMessage<Directory>\<close>: a message that does not parse is a runtime error.\<close>

definition fetchDirectoryMessage ::
  "'s cas_env \<Rightarrow> client \<Rightarrow> (string \<Rightarrow> digest result) \<Rightarrow> (string \<Rightarrow> directory option) \<Rightarrow> digest \<Rightarrow> 's \<Rightarrow> directory result \<times> 's" where
  "fetchDirectoryMessage env cl hash parse digest s =
     (case fetchString (ce_stream env) cl hash digest s of
        (Inl e, s') \<Rightarrow> (Inl e, s')
      | (Inr blob, s') \<Rightarrow> ((case parse blob of None \<Rightarrow> Inl RuntimeError | Some d \<Rightarrow> Inr d), s'))"

definition downloadDirectory_client ::
  "nat \<Rightarrow> 's cas_env \<Rightarrow> client \<Rightarrow> 'h hash_library \<Rightarrow> digest_function option \<Rightarrow> (digest list \<Rightarrow> digest list) \<Rightarrow>
   (string \<Rightarrow> directory option) \<Rightarrow> digest \<Rightarrow> string \<Rightarrow> 's \<Rightarrow> (unit result \<times> 's) option" where
  "downloadDirectory_client fuel env cl lib functionStruct sort_digests parse digest path s =
     downloadDirectory fuel env (downloadBlobs_files env cl lib functionStruct sort_digests)
       (fetchDirectoryMessage env cl (hash_string lib functionStruct) parse) digest path s"

definition getTree :: "'s cas_env \<Rightarrow> client \<Rightarrow> digest \<Rightarrow> 's \<Rightarrow> directory list result \<times> 's" where
  "getTree env cl root_digest s =
     (let ((responses, status), s') = cas_get_tree env [] (d_instanceName cl) root_digest s
      in (if \<not> ok status then Inl RuntimeError else Inr (concat responses), s'))"

section \<open>Initialisation\<close>

text \<open>
  \<^verbatim>\<open>Client::init\<close>: the batch limit is adjusted by the capabilities of the server; a server that
  does not implement the request is accepted.  \<open>rpc\<close> is \<^verbatim>\<open>GetCapabilities\<close>, its response the
  limit of the server.
\<close>

definition capabilities_call ::
  "(client_context \<Rightarrow> string \<Rightarrow> 's \<Rightarrow> (grpc_status \<times> int) \<times> 's) \<Rightarrow> string \<Rightarrow> ('s \<times> 64 word) call" where
  "capabilities_call rpc instance_name context w =
     (let ((status, server_max), s') = rpc context instance_name (fst w)
      in (Inr status, (s', if ok status then adjust_max_batch (of_int server_max) (snd w) else snd w)))"

definition init ::
  "(client_context \<Rightarrow> string \<Rightarrow> 's \<Rightarrow> (grpc_status \<times> int) \<times> 's) \<Rightarrow> string \<Rightarrow> client \<Rightarrow> 's \<Rightarrow> client result \<times> 's" where
  "init rpc uuid cl s =
     (let i = issueRequest (capabilities_call rpc (d_instanceName cl)) (makeRetrier cl) (s, default_max_batch);
          status = d_status (i_retrier i)
      in case i_result i of
           Inl e \<Rightarrow> (Inl e, fst (i_state i))
         | Inr answered \<Rightarrow>
             if \<not> answered \<or> (\<not> ok status \<and> error_code status \<noteq> UNIMPLEMENTED)
             then (Inl (GrpcError (error_code status)), fst (i_state i))
             else (Inr (cl\<lparr>d_maxBatchTotalSizeBytes := snd (i_state i), d_uuid := uuid\<rparr>), fst (i_state i)))"

section \<open>The local service\<close>

record capture_request =
  cr_instance_name :: string
  cr_path :: "string list"
  cr_node_properties :: "string list"
  cr_bypass_local_cache :: bool

record fetch_tree_request =
  ft_instance_name :: string
  ft_root_digest :: digest
  ft_fetch_file_blobs :: bool

definition fetchTree ::
  "client \<Rightarrow> (client_context \<Rightarrow> fetch_tree_request \<Rightarrow> 's \<Rightarrow> (grpc_status \<times> 'r) \<times> 's) \<Rightarrow> digest \<Rightarrow> bool \<Rightarrow> 's \<Rightarrow> 'r result \<times> 's" where
  "fetchTree cl rpc digest fetch_file_blobs s =
     issue_unary cl (\<lambda>context. rpc context \<lparr>ft_instance_name = d_instanceName cl, ft_root_digest = digest,
       ft_fetch_file_blobs = fetch_file_blobs\<rparr>) s"

definition captureTree ::
  "client \<Rightarrow> (client_context \<Rightarrow> capture_request \<Rightarrow> 's \<Rightarrow> (grpc_status \<times> 'r) \<times> 's) \<Rightarrow> string list \<Rightarrow> string list \<Rightarrow> bool \<Rightarrow>
   's \<Rightarrow> 'r result \<times> 's" where
  "captureTree cl rpc paths properties bypass_local_cache s =
     issue_unary cl (\<lambda>context. rpc context \<lparr>cr_instance_name = d_instanceName cl, cr_path = paths,
       cr_node_properties = properties, cr_bypass_local_cache = bypass_local_cache\<rparr>) s"

text \<open>\<^verbatim>\<open>captureFiles\<close> builds its request in the same way and calls another method of the service.\<close>

definition captureFiles ::
  "client \<Rightarrow> (client_context \<Rightarrow> capture_request \<Rightarrow> 's \<Rightarrow> (grpc_status \<times> 'r) \<times> 's) \<Rightarrow> string list \<Rightarrow> string list \<Rightarrow> bool \<Rightarrow>
   's \<Rightarrow> 'r result \<times> 's" where
  "captureFiles cl rpc paths properties bypass_local_cache s =
     issue_unary cl (\<lambda>context. rpc context \<lparr>cr_instance_name = d_instanceName cl, cr_path = paths,
       cr_node_properties = properties, cr_bypass_local_cache = bypass_local_cache\<rparr>) s"

text \<open>
  \<^verbatim>\<open>stage\<close>: one request is written and one response read on a stream that stays open; the
  destructor of the staged directory writes an empty request, which makes the server clean up.
\<close>

record stage_request =
  sr_instance_name :: string
  sr_root_digest :: digest
  sr_path :: string

definition empty_stage_request :: stage_request where
  "empty_stage_request = \<lparr>sr_instance_name = [], sr_root_digest = empty_digest, sr_path = []\<rparr>"

record 's stage_stream =
  st_write :: "stage_request \<Rightarrow> 's \<Rightarrow> bool \<times> 's"
  st_read :: "'s \<Rightarrow> string option \<times> 's"
  st_writes_done :: "'s \<Rightarrow> 's"
  st_finish :: "'s \<Rightarrow> grpc_status \<times> 's"

definition stage :: "'s stage_stream \<Rightarrow> client \<Rightarrow> digest \<Rightarrow> string \<Rightarrow> 's \<Rightarrow> string result \<times> 's" where
  "stage stream cl root_digest path s =
     (case st_write stream \<lparr>sr_instance_name = d_instanceName cl, sr_root_digest = root_digest, sr_path = path\<rparr> s of
        (False, s1) \<Rightarrow> (Inl RuntimeError, snd (st_finish stream s1))
      | (True, s1) \<Rightarrow>
          (case st_read stream s1 of
             (None, s2) \<Rightarrow> (Inl RuntimeError, snd (st_finish stream (st_writes_done stream s2)))
           | (Some response_path, s2) \<Rightarrow> (Inr response_path, s2)))"

definition unstage :: "'s stage_stream \<Rightarrow> 's \<Rightarrow> 's" where
  "unstage stream s = st_writes_done stream (snd (st_write stream empty_stage_request s))"

section \<open>Exactness of missingDigests\<close>

interpretation un: retried_call "unary_call rpc" "\<lambda>w. True"
    "\<lambda>w. (\<forall>c s. ok (fst (fst (rpc c s))) \<longrightarrow> Q (snd (fst (rpc c s)))) \<longrightarrow> (\<exists>r. snd w = Some r \<and> Q r)"
  for rpc Q
  by unfold_locales (auto simp: unary_call_def Let_def case_prod_beta)

lemma issue_unary_response:
  assumes "issue_unary cl rpc s = (Inr r, s')" "\<And>c s. ok (fst (fst (rpc c s))) \<Longrightarrow> Q (snd (fst (rpc c s)))"
  shows "Q r"
proof -
  have "fst (issueRequestAndThrowOnErrors (makeRetrier cl) (unary_call rpc) (s, None)) = Inr ()"
    "snd (snd (issueRequestAndThrowOnErrors (makeRetrier cl) (unary_call rpc) (s, None))) = Some r"
    using assms(1) by (auto simp: issue_unary_def split: prod.splits sum.splits option.splits)
  then show ?thesis using un.request_establishes [where Q = Q and s = "(s, None)" and rpc = rpc] assms(2) by fastforce
qed

text \<open>The promise of the server: the digests it returns are the missing ones among those asked for.\<close>

definition answers_missing :: "'s cas_env \<Rightarrow> (digest \<Rightarrow> bool) \<Rightarrow> bool" where
  "answers_missing env missing \<longleftrightarrow>
     (\<forall>c inst ds s. ok (fst (fst (cas_find_missing env c inst ds s))) \<longrightarrow>
        snd (fst (cas_find_missing env c inst ds s)) = filter missing ds)"

lemma missing_loop_filter:
  assumes "answers_missing env missing"
  shows "missing_loop env cl requests acc s = (Inr r, s') \<Longrightarrow> r = acc @ filter missing (concat requests)"
proof (induction requests arbitrary: acc s)
  case (Cons request requests)
  let ?rpc = "\<lambda>context. cas_find_missing env context (d_instanceName cl) request"
  obtain response s1 where u: "issue_unary cl ?rpc s = (Inr response, s1)"
    and rest: "missing_loop env cl requests (acc @ response) s1 = (Inr r, s')"
    using Cons.prems by (auto split: prod.splits sum.splits)
  have "response = filter missing request"
    using issue_unary_response [OF u, of "\<lambda>r. r = filter missing request"] assms by (simp add: answers_missing_def)
  then show ?case using Cons.IH [OF rest] by simp
qed simp

lemma select_missing_find:
  "select_missing dm ms m0 = Inr m \<Longrightarrow>
   dmap_find m d = (if \<exists>x \<in> set ms. digest_eq x d then dmap_find dm d else dmap_find m0 d)"
proof (induction ms arbitrary: m0)
  case (Cons x ms)
  then obtain v where v: "dmap_find dm x = Some v" "select_missing dm ms (dmap_set x v m0) = Inr m"
    by (auto split: option.splits)
  then show ?case
    using Cons.IH [OF v(2)] dmap_find_cong [of x d dm] by (auto simp: smap_simps)
qed simp

lemma select_missing_total:
  "\<forall>x \<in> set ms. dmap_find dm x \<noteq> None \<Longrightarrow> \<exists>m. select_missing dm ms m0 = Inr m"
  by (induction ms arbitrary: m0) auto

lemma dmap_find_order:
  "set m' = set m \<Longrightarrow> (\<exists>k \<in> set (map fst m'). digest_eq k d) \<longleftrightarrow> dmap_find m d \<noteq> None"
  using dmap_find_Some_iff_key [of m d] by (metis image_set not_None_eq)

text \<open>
  C31: \<^verbatim>\<open>missingDigests\<close> selects exactly the blobs the server lacks: for a server that answers each
  request with the missing digests among those asked for, once the requests succeed it never
  throws for an unknown digest, and a digest is found in its result if and only if it is in the
  given map and missing, with the same value.
\<close>

theorem missingDigests_exact:
  assumes "findMissingBlobs env cl byteSize (map fst (order directory_map)) s = (Inr ms, s')"
    and "answers_missing env missing" "mset (order directory_map) = mset directory_map"
    and "\<forall>a b. digest_eq a b \<longrightarrow> missing a = missing b"
  shows "\<exists>m. missingDigests env cl byteSize order directory_map s = (Inr m, s') \<and>
    (\<forall>d. dmap_find m d = (if missing d then dmap_find directory_map d else None))"
proof -
  let ?ks = "map fst (order directory_map)"
  have ms: "ms = filter missing ?ks"
    using missing_loop_filter [OF assms(2)] assms(1) split_digests_concat [of byteSize ?ks "[]" "[]" 0]
    by (fastforce simp: findMissingBlobs_def missing_requests_def)
  have keys: "set (order directory_map) = set directory_map" using mset_eq_setD [OF assms(3)] .
  have key: "(\<exists>k \<in> set ?ks. digest_eq k d) \<longleftrightarrow> dmap_find directory_map d \<noteq> None" for d
    by (rule dmap_find_order [OF keys])
  have "\<forall>x \<in> set ms. dmap_find directory_map x \<noteq> None" using key ms by (auto intro: digest_eq_refl)
  then obtain m where m: "select_missing directory_map ms [] = Inr m" using select_missing_total by blast
  have "dmap_find m d = (if missing d then dmap_find directory_map d else None)" for d
  proof -
    have "(\<exists>x \<in> set ms. digest_eq x d) \<longleftrightarrow> missing d \<and> dmap_find directory_map d \<noteq> None"
      using key [of d] assms(4) unfolding ms by auto
    then show ?thesis using select_missing_find [OF m, of d] by auto
  qed
  then show ?thesis using m assms(1) by (simp add: missingDigests_def)
qed

theorem missingDigests_exact_witness:
  "\<exists>m. missingDigests demo_cas demo_client (\<lambda>d. 70) rev [(demo_digest, ''abc''), (empty_digest, [])] demo_start = (Inr m, demo_start) \<and>
     dmap_find m demo_digest = Some ''abc'' \<and> dmap_find m empty_digest = None"
proof -
  let ?dm = "[(demo_digest, ''abc''), (empty_digest, [])]"
  have f: "findMissingBlobs demo_cas demo_client (\<lambda>d. 70) (map fst (rev ?dm)) demo_start = (Inr [demo_digest], demo_start)"
    by (simp add: findMissingBlobs_def missing_requests_def bytestreamChunkSizeBytes_def) code_simp
  have a: "answers_missing demo_cas (\<lambda>d. size_bytes d > 1)"
    by (simp add: answers_missing_def demo_cas_def)
  show ?thesis
    using missingDigests_exact [where order = rev and directory_map = ?dm, OF f a] by (fastforce simp: digest_eq_def demo_digest_def empty_digest_def)
qed

section \<open>Completeness of downloadDirectory\<close>

text \<open>
  The directories below a digest, for a service in which \<open>dir_of\<close> gives the message of every
  digest.
\<close>

inductive below :: "(digest \<Rightarrow> directory) \<Rightarrow> digest \<Rightarrow> string \<Rightarrow> string \<Rightarrow> directory \<Rightarrow> bool" for dir_of where
  below_here: "below dir_of digest path path (dir_of digest)"
| below_sub: "node \<in> set (directories (dir_of digest)) \<Longrightarrow>
    below dir_of (dn_digest node) (path @ ''/'' @ dn_name node) p d \<Longrightarrow> below dir_of digest path p d"

text \<open>The length of a chain of subdirectories.\<close>

inductive depth :: "(digest \<Rightarrow> directory) \<Rightarrow> digest \<Rightarrow> nat \<Rightarrow> bool" for dir_of where
  depth_0: "depth dir_of digest 0"
| depth_Suc: "node \<in> set (directories (dir_of digest)) \<Longrightarrow> depth dir_of (dn_digest node) n \<Longrightarrow>
    depth dir_of digest (Suc n)"

text \<open>
  The actions a download takes, in the form of a log: the blobs asked for with their output
  files, the directories and the links made.  \<open>logs\<close>: the operations succeed and are logged.
\<close>

datatype dl_action = Fetch "digest list" output_map | Mkdir string | Link string string

definition logs ::
  "dl_action list cas_env \<Rightarrow> (digest list \<Rightarrow> output_map \<Rightarrow> dl_action list \<Rightarrow> unit result \<times> dl_action list) \<Rightarrow>
   (digest \<Rightarrow> dl_action list \<Rightarrow> directory result \<times> dl_action list) \<Rightarrow> (digest \<Rightarrow> directory) \<Rightarrow> bool" where
  "logs env cb ret dir_of \<longleftrightarrow>
     (\<forall>p s. os_mkdir env p s = (None, s @ [Mkdir p])) \<and>
     (\<forall>t p s. os_symlink env t p s = (None, s @ [Link t p])) \<and>
     (\<forall>ds outs s. cb ds outs s = (Inr (), s @ [Fetch ds outs])) \<and>
     (\<forall>d s. ret d s = (Inr (dir_of d), s))"

definition dir_done :: "string \<Rightarrow> directory \<Rightarrow> dl_action list \<Rightarrow> bool" where
  "dir_done p d acts \<longleftrightarrow>
     Fetch (map fn_digest (files d)) (directory_outputs p (files d)) \<in> set acts \<and>
     (\<forall>n \<in> set (directories d). Mkdir (p @ ''/'' @ dn_name n) \<in> set acts) \<and>
     (\<forall>l \<in> set (symlinks d). sn_target l \<noteq> [] \<and> sn_name l \<noteq> [] \<longrightarrow> Link (sn_target l) (p @ ''/'' @ sn_name l) \<in> set acts)"

lemma dir_done_mono: "dir_done p d acts \<Longrightarrow> set acts \<subseteq> set acts' \<Longrightarrow> dir_done p d acts'"
  by (auto simp: dir_done_def)

lemma make_symlinks_log:
  assumes "logs env cb ret dir_of"
  shows "\<exists>acts. make_symlinks env p ls s = (Inr (), s @ acts) \<and>
    (\<forall>l \<in> set ls. sn_target l \<noteq> [] \<and> sn_name l \<noteq> [] \<longrightarrow> Link (sn_target l) (p @ ''/'' @ sn_name l) \<in> set acts)"
proof (induction ls arbitrary: s)
  case (Cons l ls)
  show ?case
  proof (cases "sn_target l = [] \<or> sn_name l = []")
    case True
    then show ?thesis using Cons [of s] by auto
  next
    case False
    have "os_symlink env (sn_target l) (p @ ''/'' @ sn_name l) s = (None, s @ [Link (sn_target l) (p @ ''/'' @ sn_name l)])"
      using assms by (simp add: logs_def)
    then show ?thesis using Cons [of "s @ [Link (sn_target l) (p @ ''/'' @ sn_name l)]"] False by auto
  qed
qed simp

lemma download_subdirs_log:
  assumes actl: "logs env cb ret dir_of"
    and rec: "\<And>node p s. node \<in> set nodes \<Longrightarrow>
      \<exists>acts. rec (dn_digest node) p s = Some (Inr (), s @ acts) \<and> (\<forall>q d. below dir_of (dn_digest node) p q d \<longrightarrow> dir_done q d acts)"
  shows "\<exists>acts. download_subdirs rec env path nodes s = Some (Inr (), s @ acts) \<and>
    (\<forall>n \<in> set nodes. Mkdir (path @ ''/'' @ dn_name n) \<in> set acts \<and>
       (\<forall>q d. below dir_of (dn_digest n) (path @ ''/'' @ dn_name n) q d \<longrightarrow> dir_done q d acts))"
  using rec
proof (induction nodes arbitrary: s)
  case (Cons node nodes)
  let ?p = "path @ ''/'' @ dn_name node"
  obtain l1 where l1: "rec (dn_digest node) ?p (s @ [Mkdir ?p]) = Some (Inr (), (s @ [Mkdir ?p]) @ l1)"
    "\<forall>q d. below dir_of (dn_digest node) ?p q d \<longrightarrow> dir_done q d l1"
    using Cons.prems [of node] by fastforce
  obtain l2 where l2: "download_subdirs rec env path nodes ((s @ [Mkdir ?p]) @ l1) = Some (Inr (), ((s @ [Mkdir ?p]) @ l1) @ l2)"
    "\<forall>n \<in> set nodes. Mkdir (path @ ''/'' @ dn_name n) \<in> set l2 \<and>
       (\<forall>q d. below dir_of (dn_digest n) (path @ ''/'' @ dn_name n) q d \<longrightarrow> dir_done q d l2)"
    using Cons.IH [of "(s @ [Mkdir ?p]) @ l1"] Cons.prems by fastforce
  let ?l = "[Mkdir ?p] @ l1 @ l2"
  have "download_subdirs rec env path (node # nodes) s = Some (Inr (), s @ ?l)"
    using actl l1(1) l2(1) by (simp add: logs_def Let_def)
  moreover have "dir_done q d ?l" if "below dir_of (dn_digest node) ?p q d" for q d
    by (rule dir_done_mono [of _ _ l1]) (use that l1(2) in auto)
  moreover have "dir_done q d ?l" if "n \<in> set nodes" "below dir_of (dn_digest n) (path @ ''/'' @ dn_name n) q d" for n q d
    by (rule dir_done_mono [of _ _ l2]) (use that l2(2) in auto)
  ultimately show ?case using l2(2) by (intro exI [of _ ?l]) auto
qed simp

lemma downloadDirectory_log:
  assumes "logs env cb ret dir_of" "\<forall>n. depth dir_of digest n \<longrightarrow> n < fuel"
  shows "\<exists>acts. downloadDirectory fuel env cb ret digest path s = Some (Inr (), s @ acts) \<and>
    (\<forall>p d. below dir_of digest path p d \<longrightarrow> dir_done p d acts)"
  using assms(2)
proof (induction fuel arbitrary: digest path s)
  case 0
  then show ?case using depth_0 by blast
next
  case (Suc fuel)
  let ?d = "dir_of digest"
  let ?f = "Fetch (map fn_digest (files ?d)) (directory_outputs path (files ?d))"
  have "\<exists>acts. downloadDirectory fuel env cb ret (dn_digest node) p s = Some (Inr (), s @ acts) \<and>
      (\<forall>q d. below dir_of (dn_digest node) p q d \<longrightarrow> dir_done q d acts)" if "node \<in> set (directories ?d)" for node p s
    using Suc.prems depth_Suc [where dir_of = dir_of and digest = digest, OF that] by (intro Suc.IH) fastforce
  then obtain l1 where l1: "download_subdirs (downloadDirectory fuel env cb ret) env path (directories ?d) (s @ [?f]) =
      Some (Inr (), (s @ [?f]) @ l1)"
    "\<forall>n \<in> set (directories ?d). Mkdir (path @ ''/'' @ dn_name n) \<in> set l1 \<and>
       (\<forall>q d. below dir_of (dn_digest n) (path @ ''/'' @ dn_name n) q d \<longrightarrow> dir_done q d l1)"
    using download_subdirs_log [OF assms(1)] by blast
  obtain l2 where l2: "make_symlinks env path (symlinks ?d) ((s @ [?f]) @ l1) = (Inr (), ((s @ [?f]) @ l1) @ l2)"
    "\<forall>l \<in> set (symlinks ?d). sn_target l \<noteq> [] \<and> sn_name l \<noteq> [] \<longrightarrow> Link (sn_target l) (path @ ''/'' @ sn_name l) \<in> set l2"
    using make_symlinks_log [OF assms(1)] by blast
  let ?l = "[?f] @ l1 @ l2"
  have run: "downloadDirectory (Suc fuel) env cb ret digest path s = Some (Inr (), s @ ?l)"
    using assms(1) l1(1) l2(1) by (simp add: logs_def)
  have "dir_done p d ?l" if "below dir_of digest path p d" for p d
    using that
  proof (cases rule: below.cases)
    case below_here
    then show ?thesis using l1(2) l2(2) by (auto simp: dir_done_def)
  next
    case (below_sub node)
    then have "dir_done p d l1" using l1(2) by blast
    then show ?thesis by (rule dir_done_mono) auto
  qed
  then show ?case using run by blast
qed


definition logging_cas :: "dl_action list cas_env" where
  "logging_cas = \<lparr>ce_stream = \<lparr>bs_read = (\<lambda>c rn off s. (([], status_of OK), s)), bs_open_write = (\<lambda>c s. s),
      bs_write = (\<lambda>q s. (True, s)), bs_finish = (\<lambda>s. ((status_of OK, 0), s)), fd_open_read = (\<lambda>p s. (None, s)),
      fd_open_write = (\<lambda>p s. (None, s)), fd_close = (\<lambda>s. s), fd_rewind = (\<lambda>s. s),
      fd_read = (\<lambda>n s. (Inr [], s)), fd_write = (\<lambda>d s. (Inr (length d), s)), fd_size = (\<lambda>s. 0)\<rparr>,
     cas_batch_update = (\<lambda>c inst es s. ((status_of OK, []), s)), cas_batch_read = (\<lambda>c inst ds s. ((status_of OK, []), s)),
     cas_find_missing = (\<lambda>c inst ds s. ((status_of OK, []), s)), cas_get_tree = (\<lambda>c inst d s. (([], status_of OK), s)),
     ce_getFileContents = (\<lambda>p s. (Inr [], s)), ce_writeFileAtomically = (\<lambda>p data mode s. (Inr (), s)),
     write_ofstream = (\<lambda>p data s. (None, s)),
     os_mkdir = (\<lambda>p s. (None, s @ [Mkdir p])), os_symlink = (\<lambda>t p s. (None, s @ [Link t p]))\<rparr>"

definition demo_dirs :: "digest \<Rightarrow> directory" where
  "demo_dirs d = (if size_bytes d = 3 then \<lparr>files = [], symlinks = [\<lparr>sn_name = ''l'', sn_target = ''t''\<rparr>],
     directories = [\<lparr>dn_name = ''sub'', dn_digest = empty_digest\<rparr>]\<rparr> else empty_directory)"


end
