(* ===== verification/Runner.thy ===== *)
theory Runner
  imports Runner_Args Traversal System_Utils Client_Dirs
begin

text \<open>
  \<^verbatim>\<open>buildboxcommon_runner.cpp\<close>: reading the action, fetching the command, staging, creating the output
  directories, executing a command and storing its outputs, and \<^verbatim>\<open>main\<close>; with the reading and writing of messages in
  \<^verbatim>\<open>buildboxcommon_protos.h\<close>.

  What a subclass implements (\<^verbatim>\<open>execute\<close>) and what the client does are operations of the environment.
  The signal handler sets the signal status, which any operation of the environment can change.
\<close>

section \<open>Messages\<close>

record action =
  ac_command_digest :: digest
  ac_input_root_digest :: digest

record runner_result = action_result +
  rr_exit_code :: int
  rr_stdout_digest :: digest
  rr_stderr_digest :: digest
  rr_execution_start :: "timestamp option"
  rr_execution_completed :: "timestamp option"
  rr_worker_start :: "timestamp option"
  rr_worker_completed :: "timestamp option"

text \<open>
  \<open>mf_open_write\<close> is \<^verbatim>\<open>open\<close> with \<^verbatim>\<open>O_CREAT | O_TRUNC | O_WRONLY\<close>; \<open>serialize\<close> and \<open>parse_message\<close> are
  \<^verbatim>\<open>SerializeToFileDescriptor\<close> and \<^verbatim>\<open>ParseFromFileDescriptor\<close> of the protobuf library.
\<close>

record 's message_files =
  mf_open_read :: "string \<Rightarrow> 's \<Rightarrow> (int + nat) \<times> 's"
  mf_open_write :: "string \<Rightarrow> 's \<Rightarrow> (int + nat) \<times> 's"
  mf_close :: "nat \<Rightarrow> 's \<Rightarrow> 's"

definition writeProtobufToFile ::
  "'s message_files \<Rightarrow> ('m \<Rightarrow> nat \<Rightarrow> 's \<Rightarrow> bool \<times> 's) \<Rightarrow> 'm \<Rightarrow> string \<Rightarrow> 's \<Rightarrow> unit result \<times> 's" where
  "writeProtobufToFile mf serialize proto path s =
     (case mf_open_write mf path s of
        (Inl e, s1) \<Rightarrow> (Inl (SystemError e), s1)
      | (Inr fd, s1) \<Rightarrow>
          (let (writeSucceeded, s2) = serialize proto fd s1; s3 = mf_close mf fd s2
           in (if writeSucceeded then Inr () else Inl RuntimeError, s3)))"

definition readProtobufFromFile ::
  "'s message_files \<Rightarrow> (nat \<Rightarrow> 's \<Rightarrow> 'm option \<times> 's) \<Rightarrow> string \<Rightarrow> 's \<Rightarrow> 'm result \<times> 's" where
  "readProtobufFromFile mf parse_message path s =
     (case mf_open_read mf path s of
        (Inl e, s1) \<Rightarrow> (Inl (SystemError e), s1)
      | (Inr fd, s1) \<Rightarrow>
          (let (proto, s2) = parse_message fd s1; s3 = mf_close mf fd s2
           in (case proto of Some m \<Rightarrow> Inr m | None \<Rightarrow> Inl RuntimeError, s3)))"

section \<open>The environment of a runner\<close>

record 's runner_env =
  re_files :: "'s message_files"
  re_parse_action :: "nat \<Rightarrow> 's \<Rightarrow> action option \<times> 's"
  re_serialize_result :: "runner_result \<Rightarrow> nat \<Rightarrow> 's \<Rightarrow> bool \<times> 's"
  re_serialize_status :: "status_code \<Rightarrow> nat \<Rightarrow> 's \<Rightarrow> bool \<times> 's"
  re_hash_action :: "action \<Rightarrow> digest result"
  re_now :: "'s \<Rightarrow> timestamp result \<times> 's"
  re_register_signal :: "int \<Rightarrow> 's \<Rightarrow> bool \<times> 's"
  re_signal_status :: "'s \<Rightarrow> int"
  re_init_client :: "connection_options \<Rightarrow> 's \<Rightarrow> unit result \<times> 's"
  re_fetch_command :: "digest \<Rightarrow> 's \<Rightarrow> command result \<times> 's"
  re_execute :: "command \<Rightarrow> digest \<Rightarrow> 's \<Rightarrow> runner_result result \<times> 's"

section \<open>Helpers that end the process on failures\<close>

definition SIGINT :: int where
  "SIGINT = 2"

definition SIGTERM :: int where
  "SIGTERM = 15"

definition SIGKILL :: int where
  "SIGKILL = 9"

definition registerSignals :: "'s runner_env \<Rightarrow> 's \<Rightarrow> unit outcome \<times> 's" where
  "registerSignals env s =
     (let (ok1, s1) = re_register_signal env SIGINT s
      in if \<not> ok1 then (Exits 1, s1)
         else
           (let (ok2, s2) = re_register_signal env SIGTERM s1
            in if \<not> ok2 then (Exits 1, s2) else (Returns (), s2)))"

definition errorStatusCodeFilePath :: "string \<Rightarrow> string" where
  "errorStatusCodeFilePath actionResultPath = (if actionResultPath = [] then [] else actionResultPath @ ''.error-status'')"

definition writeStatusFile :: "'s runner_env \<Rightarrow> status_code \<Rightarrow> string \<Rightarrow> 's \<Rightarrow> unit outcome \<times> 's" where
  "writeStatusFile env status path s =
     (case writeProtobufToFile (re_files env) (re_serialize_status env) status path s of
        (Inl e, s') \<Rightarrow> (if is_runtime_error e then Returns () else Throws e, s')
      | (Inr _, s') \<Rightarrow> (Returns (), s'))"

definition writeErrorStatusFile :: "'s runner_env \<Rightarrow> runner \<Rightarrow> status_code \<Rightarrow> 's \<Rightarrow> unit outcome \<times> 's" where
  "writeErrorStatusFile env rn errorCode s =
     (if rn_outputPath rn \<noteq> [] then writeStatusFile env errorCode (errorStatusCodeFilePath (rn_outputPath rn)) s
      else (Returns (), s))"

text \<open>Writing the error status and \<^verbatim>\<open>exit(1)\<close>.\<close>

definition fail_with :: "'s runner_env \<Rightarrow> runner \<Rightarrow> status_code \<Rightarrow> 's \<Rightarrow> 'a outcome \<times> 's" where
  "fail_with env rn errorCode s =
     (case writeErrorStatusFile env rn errorCode s of
        (Throws e, s') \<Rightarrow> (Throws e, s')
      | (_, s') \<Rightarrow> (Exits 1, s'))"

definition readAction :: "'s runner_env \<Rightarrow> runner \<Rightarrow> string \<Rightarrow> 's \<Rightarrow> action outcome \<times> 's" where
  "readAction env rn path s =
     (case readProtobufFromFile (re_files env) (re_parse_action env) path s of
        (Inr a, s') \<Rightarrow> (Returns a, s')
      | (Inl e, s') \<Rightarrow> if is_runtime_error e then fail_with env rn INTERNAL s' else (Throws e, s'))"

definition initializeCasClient :: "'s runner_env \<Rightarrow> runner \<Rightarrow> 's \<Rightarrow> unit outcome \<times> 's" where
  "initializeCasClient env rn s =
     (case re_init_client env (rn_casRemote rn) s of
        (Inr _, s') \<Rightarrow> (Returns (), s')
      | (Inl e, s') \<Rightarrow> (if is_runtime_error e then Exits 1 else Throws e, s'))"

definition writeActionResult :: "'s runner_env \<Rightarrow> runner_result \<Rightarrow> string \<Rightarrow> 's \<Rightarrow> unit outcome \<times> 's" where
  "writeActionResult env result path s =
     (case writeProtobufToFile (re_files env) (re_serialize_result env) result path s of
        (Inr _, s') \<Rightarrow> (Returns (), s')
      | (Inl e, s') \<Rightarrow> (if is_runtime_error e then Exits 1 else Throws e, s'))"

definition fetchCommand :: "'s runner_env \<Rightarrow> runner \<Rightarrow> digest \<Rightarrow> 's \<Rightarrow> command outcome \<times> 's" where
  "fetchCommand env rn command_digest s =
     (case re_fetch_command env command_digest s of
        (Inr command, s') \<Rightarrow> (Returns command, s')
      | (Inl (GrpcError code), s') \<Rightarrow> fail_with env rn code s'
      | (Inl e, s') \<Rightarrow> if is_runtime_error e then fail_with env rn INTERNAL s' else (Throws e, s'))"

section \<open>main\<close>

definition outcome_bind :: "'a outcome \<times> 's \<Rightarrow> ('a \<Rightarrow> 's \<Rightarrow> 'b outcome \<times> 's) \<Rightarrow> 'b outcome \<times> 's" where
  "outcome_bind r f =
     (case r of (Returns a, s) \<Rightarrow> f a s | (Throws e, s) \<Rightarrow> (Throws e, s) | (Exits c, s) \<Rightarrow> (Exits c, s))"

definition thrown :: "'a result \<times> 's \<Rightarrow> 'a outcome \<times> 's" where
  "thrown r = (case r of (Inr a, s) \<Rightarrow> (Returns a, s) | (Inl e, s) \<Rightarrow> (Throws e, s))"

definition main_execute :: "'s runner_env \<Rightarrow> runner \<Rightarrow> timestamp \<Rightarrow> action \<Rightarrow> command \<Rightarrow> 's \<Rightarrow> int outcome \<times> 's" where
  "main_execute env rn worker_start_time input command s =
     (if re_signal_status env s \<noteq> 0 then (Returns (re_signal_status env s), s)
      else
        (case re_execute env command (ac_input_root_digest input) s of
           (Inl e, s1) \<Rightarrow>
             if is_std_exception e
             then outcome_bind (writeErrorStatusFile env rn INTERNAL s1) (\<lambda>_ s2. (Returns 1, s2))
             else (Throws e, s1)
         | (Inr result, s1) \<Rightarrow>
             outcome_bind (thrown (re_now env s1)) (\<lambda>completed s2.
             outcome_bind
               (if rn_outputPath rn \<noteq> []
                then writeActionResult env
                  (result\<lparr>rr_worker_completed := Some completed, rr_worker_start := Some worker_start_time\<rparr>) (rn_outputPath rn) s2
                else (Returns (), s2)) (\<lambda>_ s3. (Returns (re_signal_status env s3), s3)))))"

text \<open>The level of the logger is set to \<open>rn_logLevel\<close> after the arguments, whatever \<^verbatim>\<open>--verbose\<close> did.\<close>

definition main_work :: "'s runner_env \<Rightarrow> runner \<Rightarrow> string \<Rightarrow> 's \<Rightarrow> int outcome \<times> 's" where
  "main_work env rn programName s =
     (if programName = [] then (Throws RuntimeError, s)
      else
        outcome_bind (thrown (re_now env s)) (\<lambda>worker_start_time s1.
        outcome_bind (readAction env rn (rn_inputPath rn) s1) (\<lambda>input s2.
        outcome_bind (thrown (re_hash_action env input, s2)) (\<lambda>action_digest s3.
        outcome_bind (registerSignals env s3) (\<lambda>_ s4.
        outcome_bind (initializeCasClient env rn s4) (\<lambda>_ s5.
        outcome_bind (fetchCommand env rn (ac_command_digest input) s5) (\<lambda>command s6.
          main_execute env rn worker_start_time input command s6)))))))"

definition main ::
  "'s runner_env \<Rightarrow> (string \<Rightarrow> 'x \<Rightarrow> bool \<times> 'x) \<Rightarrow> (string \<Rightarrow> bool result) \<Rightarrow> string list \<Rightarrow> runner \<Rightarrow> 'x \<Rightarrow> 's \<Rightarrow>
   int outcome \<times> 's" where
  "main env special is_directory argv rn x s =
     (case parseArguments special is_directory argv rn x of
        (Throws e, _) \<Rightarrow> (Throws e, s)
      | (Exits c, _) \<Rightarrow> (Exits c, s)
      | (Returns accepted, rn', _) \<Rightarrow>
          if \<not> accepted then (Returns 1, s)
          else if rn_validateParametersAndExit rn' then (Returns 0, s)
          else main_work env rn' (hd argv) s)"

section \<open>Staging and output directories\<close>

text \<open>\<open>local_cas\<close> and \<open>fallback\<close> are the two constructors, which give the path of the staged directory.\<close>

definition stage_directory ::
  "(digest \<Rightarrow> string \<Rightarrow> 's \<Rightarrow> string result \<times> 's) \<Rightarrow> (digest \<Rightarrow> string \<Rightarrow> 's \<Rightarrow> string result \<times> 's) \<Rightarrow>
   digest \<Rightarrow> string \<Rightarrow> bool \<Rightarrow> runner \<Rightarrow> 's \<Rightarrow> unit result \<times> runner \<times> 's" where
  "stage_directory local_cas fallback digest stage_path use_localcas_protocol rn s =
     (case (if use_localcas_protocol then local_cas digest stage_path s else fallback digest stage_path s) of
        (Inl e, s') \<Rightarrow> (Inl e, rn, s')
      | (Inr path, s') \<Rightarrow> (Inr (), rn\<lparr>rn_stage_path := path\<rparr>, s'))"

definition stageDirectory ::
  "(digest \<Rightarrow> string \<Rightarrow> 's \<Rightarrow> string result \<times> 's) \<Rightarrow> (digest \<Rightarrow> string \<Rightarrow> 's \<Rightarrow> string result \<times> 's) \<Rightarrow>
   digest \<Rightarrow> runner \<Rightarrow> 's \<Rightarrow> unit result \<times> runner \<times> 's" where
  "stageDirectory local_cas fallback digest rn s =
     stage_directory local_cas fallback digest (rn_stage_path rn) (rn_use_localcas_protocol rn) rn s"

fun create_parents :: "'s file_env \<Rightarrow> string \<Rightarrow> string list \<Rightarrow> 's \<Rightarrow> (unit result \<times> 's) option" where
  "create_parents env workingDir [] s = Some (Inr (), s)"
| "create_parents env workingDir (output # outputs) s =
     (case rfind slash output of
        None \<Rightarrow> create_parents env workingDir outputs s
      | Some i \<Rightarrow>
          (case createDirectory env (workingDir @ ''/'' @ take i output) 0x1FF s of
             None \<Rightarrow> None
           | Some (Inl e, s') \<Rightarrow> Some (Inl e, s')
           | Some (Inr _, s') \<Rightarrow> create_parents env workingDir outputs s'))"

definition createOutputDirectories :: "'s file_env \<Rightarrow> command \<Rightarrow> string \<Rightarrow> 's \<Rightarrow> (unit result \<times> 's) option" where
  "createOutputDirectories env command workingDir s =
     create_parents env workingDir
       (if cmd_output_paths command \<noteq> [] then cmd_output_paths command
        else cmd_output_files command @ cmd_output_directories command) s"

section \<open>Executing\<close>

text \<open>\<open>Inl\<close> is a path that was given, \<open>Inr\<close> a temporary file of which the name is kept.\<close>

type_synonym output_target = "string + temporary_file"

definition StandardOutputFile :: "'s file_env \<Rightarrow> string \<Rightarrow> 's \<Rightarrow> output_target result \<times> 's" where
  "StandardOutputFile env path s =
     (if path = []
      then
        (case new_TemporaryFile env ''buildbox'' s of
           (Inl e, s1) \<Rightarrow> (Inl e, s1)
         | (Inr t, s1) \<Rightarrow> (let (t', s2) = TemporaryFile_close env t s1 in (Inr (Inr t'), s2)))
      else (Inr (Inl path), s))"

definition output_name :: "output_target \<Rightarrow> string" where
  "output_name f = (case f of Inl path \<Rightarrow> path | Inr t \<Rightarrow> tf_name t)"

definition output_destroy :: "'s file_env \<Rightarrow> output_target \<Rightarrow> 's \<Rightarrow> 's" where
  "output_destroy env f s = (case f of Inl _ \<Rightarrow> s | Inr t \<Rightarrow> TemporaryFile_destroy env t s)"

text \<open>
  The loop in the parent process: the exit code of the child, or none when a signal has been caught.
\<close>

partial_function (option) wait_loop ::
  "'s runner_env \<Rightarrow> 's proc_env \<Rightarrow> int \<Rightarrow> 's \<Rightarrow> (int option result \<times> 's) option" where
  "wait_loop env proc pid s =
     (if re_signal_status env s \<noteq> 0 then Some (Inr None, s)
      else
        (case waitPidOrSignal proc pid s of
           (Inl e, s1) \<Rightarrow> Some (Inl e, s1)
         | (Inr exit_code, s1) \<Rightarrow>
             if exit_code \<ge> 0 then Some (Inr (Some exit_code), s1) else wait_loop env proc pid s1))"

text \<open>After the fork, with the names of the two files unless the capture is skipped.\<close>

definition run_child ::
  "'s runner_env \<Rightarrow> 's proc_env \<Rightarrow> (string \<Rightarrow> string \<Rightarrow> 's \<Rightarrow> (digest \<times> digest) result \<times> 's) \<Rightarrow> int \<Rightarrow> (string \<times> string) option \<Rightarrow>
   runner_result \<Rightarrow> 's \<Rightarrow> (unit result \<times> runner_result \<times> 's) option" where
  "run_child env proc upload_outputs pid names result s =
     Option.bind (wait_loop env proc pid s) (\<lambda>(r, s1).
       case r of
         Inl e \<Rightarrow> Some (Inl e, result, s1)
       | Inr None \<Rightarrow>
           Option.bind (waitPid proc pid (pe_kill proc pid SIGKILL s1)) (\<lambda>(r, s2).
             Some (map_sum id (\<lambda>_. ()) r, result, s2))
       | Inr (Some exit_code) \<Rightarrow>
           Some (case re_now env s1 of
                   (Inl e, s2) \<Rightarrow> (Inl e, result, s2)
                 | (Inr completed, s2) \<Rightarrow>
                     (let result1 = result\<lparr>rr_execution_completed := Some completed\<rparr>
                      in case names of
                           None \<Rightarrow> (Inr (), result1\<lparr>rr_exit_code := exit_code\<rparr>, s2)
                         | Some (out, err) \<Rightarrow>
                             (case upload_outputs out err s2 of
                                (Inl e, s3) \<Rightarrow> (Inl e, result1, s3)
                              | (Inr (stdout_digest, stderr_digest), s3) \<Rightarrow>
                                  (Inr (), result1\<lparr>rr_stdout_digest := stdout_digest, rr_stderr_digest := stderr_digest,
                                                   rr_exit_code := exit_code\<rparr>, s3)))))"

definition start_and_run ::
  "'s runner_env \<Rightarrow> 's proc_env \<Rightarrow> (string \<Rightarrow> string \<Rightarrow> 's \<Rightarrow> (digest \<times> digest) result \<times> 's) \<Rightarrow> (string \<times> string) option \<Rightarrow>
   runner_result \<Rightarrow> 's \<Rightarrow> (unit result \<times> runner_result \<times> 's) option" where
  "start_and_run env proc upload_outputs names result s =
     (case re_now env s of
        (Inl e, s1) \<Rightarrow> Some (Inl e, result, s1)
      | (Inr started, s1) \<Rightarrow>
          (let result1 = result\<lparr>rr_execution_start := Some started\<rparr>
           in case pe_fork proc s1 of
                (Inl e, s2) \<Rightarrow> Some (Inl (SystemError e), result1, s2)
              | (Inr pid, s2) \<Rightarrow> run_child env proc upload_outputs pid names result1 s2))"

definition executeAndStore ::
  "'s runner_env \<Rightarrow> 's file_env \<Rightarrow> 's proc_env \<Rightarrow> (string \<Rightarrow> string \<Rightarrow> 's \<Rightarrow> (digest \<times> digest) result \<times> 's) \<Rightarrow> capture_config \<Rightarrow>
   runner_result \<Rightarrow> 's \<Rightarrow> (unit result \<times> runner_result \<times> 's) option" where
  "executeAndStore env fenv proc upload_outputs config result s =
     (if skip_capture config then start_and_run env proc upload_outputs None result s
      else
        (case StandardOutputFile fenv (stdout_file_path config) s of
           (Inl e, s1) \<Rightarrow> Some (Inl e, result, s1)
         | (Inr stdoutFile, s1) \<Rightarrow>
             (case StandardOutputFile fenv (stderr_file_path config) s1 of
                (Inl e, s2) \<Rightarrow> Some (Inl e, result, output_destroy fenv stdoutFile s2)
              | (Inr stderrFile, s2) \<Rightarrow>
                  Option.bind
                    (start_and_run env proc upload_outputs (Some (output_name stdoutFile, output_name stderrFile)) result s2)
                    (\<lambda>(r, result', s3).
                      Some (r, result', output_destroy fenv stdoutFile (output_destroy fenv stderrFile s3))))))"

section \<open>Uploading the standard outputs\<close>

text \<open>The loop over the blobs that failed.\<close>

fun drop_failed :: "transfer_result \<Rightarrow> digest \<times> digest \<Rightarrow> digest \<times> digest" where
  "drop_failed [] ds = ds"
| "drop_failed ((digest, _) # failed_blobs) (stdout_digest, stderr_digest) =
     drop_failed failed_blobs
       (if digest_eq digest stdout_digest then (empty_digest, stderr_digest) else (stdout_digest, empty_digest))"

text \<open>\<open>hash_file\<close> is \<^verbatim>\<open>CASHash::hashFile\<close> on the files of the state.\<close>

definition uploadOutputs ::
  "'s cas_env \<Rightarrow> client \<Rightarrow> (upload_request list \<Rightarrow> upload_request list) \<Rightarrow> (string \<Rightarrow> 's \<Rightarrow> digest result \<times> 's) \<Rightarrow>
   string \<Rightarrow> string \<Rightarrow> 's \<Rightarrow> (digest \<times> digest) result \<times> 's" where
  "uploadOutputs env cl sort_requests hash_file stdout_file stderr_file s =
     (case hash_file stdout_file s of
        (Inl e, s1) \<Rightarrow> (Inl e, s1)
      | (Inr stdout_digest, s1) \<Rightarrow>
          (case hash_file stderr_file s1 of
             (Inl e, s2) \<Rightarrow> (Inl e, s2)
           | (Inr stderr_digest, s2) \<Rightarrow>
               (case uploadBlobs env cl sort_requests False
                       [\<lparr>ur_digest = stdout_digest, ur_data = [], ur_path = stdout_file\<rparr>,
                        \<lparr>ur_digest = stderr_digest, ur_data = [], ur_path = stderr_file\<rparr>] s2 of
                  (Inl e, s3) \<Rightarrow> (if is_std_exception e then Inr (empty_digest, empty_digest) else Inl e, s3)
                | (Inr failed_blobs, s3) \<Rightarrow> (Inr (drop_failed failed_blobs (stdout_digest, stderr_digest)), s3))))"


section \<open>What main reports\<close>

lemmas outcome_splits = prod.splits sum.splits outcome.splits if_splits

lemma outcome_bind_Returns:
  "outcome_bind r f = (Returns b, s') \<longleftrightarrow> (\<exists>a s. r = (Returns a, s) \<and> f a s = (Returns b, s'))"
  by (auto simp: outcome_bind_def split: outcome_splits)

lemma thrown_Returns: "thrown r = (Returns a, s) \<longleftrightarrow> r = (Inr a, s)"
  by (auto simp: thrown_def split: outcome_splits)

lemma fail_with_not_Returns [simp]: "fail_with env rn c s \<noteq> (Returns a, s')"
  by (auto simp: fail_with_def split: outcome_splits)

lemma readAction_Returns:
  "readAction env rn path s = (Returns a, s') \<longleftrightarrow>
   readProtobufFromFile (re_files env) (re_parse_action env) path s = (Inr a, s')"
  by (auto simp: readAction_def split: outcome_splits)

lemma fetchCommand_Returns:
  "fetchCommand env rn d s = (Returns c, s') \<longleftrightarrow> re_fetch_command env d s = (Inr c, s')"
  by (auto simp: fetchCommand_def split: outcome_splits exn.splits)

lemma writeActionResult_Returns:
  "writeActionResult env result path s = (Returns u, s') \<longleftrightarrow>
   writeProtobufToFile (re_files env) (re_serialize_result env) result path s = (Inr (), s')"
  by (auto simp: writeActionResult_def split: outcome_splits)

lemmas returns_simps = outcome_bind_Returns thrown_Returns readAction_Returns fetchCommand_Returns writeActionResult_Returns

lemma main_execute_zero:
  assumes "main_execute env rn started input command s = (Returns 0, s')"
  shows "\<exists>result s1 completed s2. re_execute env command (ac_input_root_digest input) s = (Inr result, s1) \<and>
    re_now env s1 = (Inr completed, s2) \<and>
    (if rn_outputPath rn = [] then s' = s2
     else writeProtobufToFile (re_files env) (re_serialize_result env)
       (result\<lparr>rr_worker_completed := Some completed, rr_worker_start := Some started\<rparr>) (rn_outputPath rn) s2 = (Inr (), s')) \<and>
    re_signal_status env s' = 0"
  using assms by (auto simp: main_execute_def returns_simps split: outcome_splits)


text \<open>The errors that are reported to the worker through the status file beside the result.\<close>

definition reported_code :: "exn \<Rightarrow> status_code" where
  "reported_code e = (case e of GrpcError code \<Rightarrow> code | _ \<Rightarrow> INTERNAL)"

lemma fail_with_reports:
  assumes "rn_outputPath rn \<noteq> []"
    and "writeProtobufToFile (re_files env) (re_serialize_status env) code (rn_outputPath rn @ ''.error-status'') s = (r, s')"
    and "\<And>e. r = Inl e \<Longrightarrow> is_runtime_error e"
  shows "fail_with env rn code s = (Exits 1, s')"
  using assms by (cases r) (simp_all add: fail_with_def writeErrorStatusFile_def writeStatusFile_def errorStatusCodeFilePath_def)

text \<open>
  When the command cannot be fetched, the code of the error is written to the status file beside the
  output path and the process ends with 1, whether or not writing that file succeeds: the code of the
  server for an error of gRPC, \<^verbatim>\<open>INTERNAL\<close> for the others.
\<close>

theorem fetchCommand_reports:
  assumes "re_fetch_command env d s = (Inl e, s1)" "is_runtime_error e" "rn_outputPath rn \<noteq> []"
    and "writeProtobufToFile (re_files env) (re_serialize_status env) (reported_code e) (rn_outputPath rn @ ''.error-status'') s1 = (r, s2)"
    and "\<And>e'. r = Inl e' \<Longrightarrow> is_runtime_error e'"
  shows "fetchCommand env rn d s = (Exits 1, s2)"
proof -
  have "fetchCommand env rn d s = fail_with env rn (reported_code e) s1"
    using assms(1,2) by (cases e) (simp_all add: fetchCommand_def reported_code_def)
  then show ?thesis using fail_with_reports [OF assms(3-5)] by simp
qed

section \<open>Output directories\<close>

definition parents_of :: "string list \<Rightarrow> string \<Rightarrow> string list \<Rightarrow> string list set" where
  "parents_of cwd workingDir outputs = {resolve cwd (workingDir @ ''/'' @ take i output) | output i. output \<in> set outputs \<and> rfind slash output = Some i}"

lemma parents_of_simps [simp]:
  "parents_of cwd workingDir [] = {}"
  "parents_of cwd workingDir (output # outputs) =
     (case rfind slash output of None \<Rightarrow> {} | Some i \<Rightarrow> {resolve cwd (workingDir @ ''/'' @ take i output)}) \<union> parents_of cwd workingDir outputs"
  by (auto simp: parents_of_def split: option.splits)

lemma clear_way_made: "clear_way kinds l \<Longrightarrow> clear_way (made_dirs kinds l') l"
  by (simp add: clear_way_def made_dirs_def)

lemma create_parents_made:
  assumes law: "mkdir_law env cwd kind_at"
  shows "(\<And>l. l \<in> parents_of cwd workingDir outputs \<Longrightarrow> clear_way (kind_at s) l) \<Longrightarrow>
    \<exists>s'. create_parents env workingDir outputs s = Some (Inr (), s') \<and>
      kind_at s' = (\<lambda>q. if \<exists>l \<in> parents_of cwd workingDir outputs. \<exists>k. q = take k l then Some DirectoryFile else kind_at s q)"
proof (induction outputs arbitrary: s)
  case (Cons out outputs)
  show ?case
  proof (cases "rfind slash out")
    case None
    then show ?thesis using Cons.IH [of s] Cons.prems by simp
  next
    case (Some i)
    let ?l = "resolve cwd (workingDir @ ''/'' @ take i out)"
    obtain s1 where s1: "createDirectory env (workingDir @ ''/'' @ take i out) 0x1FF s = Some (Inr (), s1)"
        "kind_at s1 = made_dirs (kind_at s) ?l"
      using createDirectory_made [OF law, of s "workingDir @ ''/'' @ take i out" "0x1FF"] Cons.prems Some by auto
    then obtain s2 where "create_parents env workingDir outputs s1 = Some (Inr (), s2)"
        "kind_at s2 = (\<lambda>q. if \<exists>l \<in> parents_of cwd workingDir outputs. \<exists>k. q = take k l then Some DirectoryFile else kind_at s1 q)"
      using Cons.IH [of s1] Cons.prems clear_way_made by auto
    then show ?thesis using s1 Some by (auto simp: made_dirs_def fun_eq_iff)
  qed
qed simp

text \<open>
  Before a command runs, the parent directory of every output that has one exists, with all directories on
  the way to it, and nothing else has changed; \<^verbatim>\<open>output_files\<close> and \<^verbatim>\<open>output_directories\<close> count only
  when there are no \<^verbatim>\<open>output_paths\<close>.
\<close>

theorem createOutputDirectories_creates:
  assumes "mkdir_law env cwd kind_at"
    and "outputs = (if cmd_output_paths command = [] then cmd_output_files command @ cmd_output_directories command
                    else cmd_output_paths command)"
    and "\<forall>l \<in> parents_of cwd workingDir outputs. clear_way (kind_at s) l"
  shows "\<exists>s'. createOutputDirectories env command workingDir s = Some (Inr (), s') \<and>
    kind_at s' = (\<lambda>q. if \<exists>l \<in> parents_of cwd workingDir outputs. \<exists>k. q = take k l then Some DirectoryFile else kind_at s q)"
  using create_parents_made [OF assms(1), of workingDir outputs s] assms(2,3) by (auto simp: createOutputDirectories_def)

section \<open>Execution\<close>

text \<open>Every wait for a child ends: it is not interrupted forever.\<close>

definition wait_fair :: "'s proc_env \<Rightarrow> bool" where
  "wait_fair proc \<longleftrightarrow> (\<forall>pid s. \<exists>n. fst (pe_waitpid proc pid (waits proc pid n s)) \<noteq> Inl EINTR)"

lemma waitPid_fair:
  assumes "wait_fair proc"
  shows "\<exists>r s'. waitPid proc pid s = Some (r, s')"
proof -
  let ?P = "\<lambda>n. fst (pe_waitpid proc pid (waits proc pid n s)) \<noteq> Inl EINTR"
  have P: "?P (LEAST n. ?P n)" using assms LeastI_ex [of ?P] by (auto simp: wait_fair_def)
  have "\<forall>i < (LEAST n. ?P n). fst (pe_waitpid proc pid (waits proc pid i s)) = Inl EINTR"
    using not_less_Least [of _ ?P] by blast
  from waitPid_after [OF this P] show ?thesis by (metis surj_pair)
qed

lemma wait_loop_returns:
  "fst (pe_waitpid proc pid (waits proc pid n s)) \<noteq> Inl EINTR \<Longrightarrow> wait_loop env proc pid s \<noteq> None"
proof (induction n arbitrary: s)
  case 0
  then have "code \<ge> 0" if "waitPidOrSignal proc pid s = (Inr code, s')" for code s'
    using waitPidOrSignal_interrupted [OF that] by fastforce
  then show ?case by (subst wait_loop.simps) (auto split: prod.splits sum.splits)
next
  case (Suc n)
  have "wait_loop env proc pid s' \<noteq> None" if "waitPidOrSignal proc pid s = (Inr code, s')" "\<not> 0 \<le> code" for code s'
    using Suc.IH [of s'] Suc.prems waitPidOrSignal_interrupted [OF that(1)] that(2) by simp
  then show ?case by (subst wait_loop.simps) (auto split: prod.splits sum.splits)
qed

lemma run_child_returns:
  assumes "wait_fair proc"
  shows "run_child env proc up pid names result s \<noteq> None"
proof -
  obtain n where "fst (pe_waitpid proc pid (waits proc pid n s)) \<noteq> Inl EINTR" using assms by (auto simp: wait_fair_def)
  from wait_loop_returns [OF this] obtain r s1 where "wait_loop env proc pid s = Some (r, s1)" by fast
  moreover obtain r' s2 where "waitPid proc pid (pe_kill proc pid SIGKILL s1) = Some (r', s2)" using waitPid_fair [OF assms] by blast
  ultimately show ?thesis by (simp add: run_child_def del: not_None_eq split: sum.split option.split)
qed

lemma start_and_run_returns: "wait_fair proc \<Longrightarrow> start_and_run env proc up names result s \<noteq> None"
  unfolding start_and_run_def Let_def by (auto simp: run_child_returns simp del: not_None_eq split: sum.splits prod.splits)

text \<open>
  C27: \<^verbatim>\<open>executeAndStore\<close> returns or throws as long as waiting for the child is not interrupted forever, also when
  a signal makes it kill the child and wait for its end.
\<close>

theorem executeAndStore_returns:
  assumes "wait_fair proc"
  shows "\<exists>r result' s'. executeAndStore env fenv proc up config result s = Some (r, result', s')"
proof -
  have "executeAndStore env fenv proc up config result s \<noteq> None"
    unfolding executeAndStore_def
    by (auto simp: start_and_run_returns [OF assms] simp del: not_None_eq split: sum.splits prod.splits bind_split)
  then show ?thesis by (metis option.exhaust prod_cases3)
qed

text \<open>The exit code comes from the last wait; without one a signal has been caught.\<close>

definition waited :: "'s runner_env \<Rightarrow> 's proc_env \<Rightarrow> int \<Rightarrow> int option result \<times> 's \<Rightarrow> bool" where
  "waited env proc pid y \<longleftrightarrow>
     (case y of
        (Inr None, s') \<Rightarrow> re_signal_status env s' \<noteq> 0
      | (Inr (Some code), s') \<Rightarrow> 0 \<le> code \<and> code \<le> 255 \<and> (\<exists>t. waitPidOrSignal proc pid t = (Inr code, s'))
      | _ \<Rightarrow> True)"

lemma waited_step:
  "waitPidOrSignal proc pid s = (Inr code, s') \<Longrightarrow> 0 \<le> code \<Longrightarrow> waited env proc pid (Inr (Some code), s')"
  using waitPidOrSignal_range [of proc pid s code s'] by (auto simp: waited_def)

lemma wait_loop_waited: "wait_loop env proc pid s = Some y \<Longrightarrow> waited env proc pid y"
proof (erule wait_loop.raw_induct [rotated])
  fix loop env proc pid s y
  assume IH: "\<And>env proc pid s y. loop env proc pid s = Some y \<Longrightarrow> waited env proc pid y"
    and step: "(if re_signal_status env s \<noteq> 0 then Some (Inr None, s)
      else case waitPidOrSignal proc pid s of (Inl e, s1) \<Rightarrow> Some (Inl e, s1)
        | (Inr exit_code, s1) \<Rightarrow> if exit_code \<ge> 0 then Some (Inr (Some exit_code), s1) else loop env proc pid s1) = Some y"
  show "waited env proc pid y"
  proof (cases "re_signal_status env s \<noteq> 0")
    case False
    then show ?thesis using step IH waited_step [of proc pid s _ _ env]
      by (cases "waitPidOrSignal proc pid s") (auto simp: waited_def [of env proc pid "(Inl _, _)"] split: sum.splits if_splits)
  qed (use step in \<open>auto simp: waited_def\<close>)
qed

text \<open>What a child that has been started leaves in the result, on normal return.\<close>

inductive executed ::
  "'s runner_env \<Rightarrow> 's proc_env \<Rightarrow> (string \<Rightarrow> string \<Rightarrow> 's \<Rightarrow> (digest \<times> digest) result \<times> 's) \<Rightarrow> int \<Rightarrow> (string \<times> string) option \<Rightarrow>
   runner_result \<Rightarrow> runner_result \<Rightarrow> 's \<Rightarrow> bool"
  for env proc up pid where
  killed: "re_signal_status env t \<noteq> 0 \<Longrightarrow> waitPid proc pid (pe_kill proc pid SIGKILL t) = Some (Inr c, t') \<Longrightarrow>
    executed env proc up pid names result result t'"
| exited: "waitPidOrSignal proc pid t = (Inr code, t1) \<Longrightarrow> 0 \<le> code \<Longrightarrow> code \<le> 255 \<Longrightarrow> re_now env t1 = (Inr completed, t2) \<Longrightarrow>
    executed env proc up pid None result (result\<lparr>rr_execution_completed := Some completed, rr_exit_code := code\<rparr>) t2"
| captured: "waitPidOrSignal proc pid t = (Inr code, t1) \<Longrightarrow> 0 \<le> code \<Longrightarrow> code \<le> 255 \<Longrightarrow> re_now env t1 = (Inr completed, t2) \<Longrightarrow>
    up out err t2 = (Inr (stdout_digest, stderr_digest), t3) \<Longrightarrow>
    executed env proc up pid (Some (out, err)) result
      (result\<lparr>rr_execution_completed := Some completed, rr_stdout_digest := stdout_digest, rr_stderr_digest := stderr_digest,
              rr_exit_code := code\<rparr>) t3"

lemma map_sum_eq: "map_sum id (\<lambda>_. ()) r = Inr () \<longleftrightarrow> (\<exists>c. r = Inr c)"
  by (cases r) simp_all

lemma run_child_executed:
  assumes "run_child env proc up pid names result s = Some (Inr (), result', s')"
  shows "executed env proc up pid names result result' s'"
proof -
  from assms obtain r s1 where w: "wait_loop env proc pid s = Some (r, s1)" by (auto simp: run_child_def split: bind_splits)
  show ?thesis
  proof (cases r)
    case (Inl e)
    then show ?thesis using assms w by (simp add: run_child_def)
  next
    case (Inr exit_code)
    show ?thesis
    proof (cases exit_code)
      case None
      then show ?thesis using assms w wait_loop_waited [OF w] Inr
        by (cases "waitPid proc pid (pe_kill proc pid SIGKILL s1)")
          (auto simp: run_child_def waited_def map_sum_eq intro: executed.killed)
    next
      case (Some code)
      then show ?thesis using assms w wait_loop_waited [OF w] Inr
        by (auto simp: run_child_def waited_def Let_def intro: executed.exited executed.captured split: prod.splits sum.splits option.splits)
    qed
  qed
qed

lemma start_and_run_executed:
  assumes "start_and_run env proc up names result s = Some (Inr (), result', s')"
  shows "\<exists>started t pid t' s'. re_now env s = (Inr started, t) \<and> pe_fork proc t = (Inr pid, t') \<and>
    executed env proc up pid names (result\<lparr>rr_execution_start := Some started\<rparr>) result' s'"
  using assms run_child_executed unfolding start_and_run_def Let_def by (fastforce split: prod.splits sum.splits)

text \<open>
  C35: When \<^verbatim>\<open>executeAndStore\<close> returns, a child was started at the recorded time, and either it ended and its exit
  code, between 0 and 255, the time of its end and the digests that the upload of the two files gave
  are in the result (no digests when the capture is skipped), or a signal was caught, the child was
  killed and waited for, and the result has nothing but the time of the start.
\<close>

theorem executeAndStore_result:
  assumes "executeAndStore env fenv proc up config result s = Some (Inr (), result', s')"
  shows "\<exists>names t0 started t1 pid t2 t3. re_now env t0 = (Inr started, t1) \<and> pe_fork proc t1 = (Inr pid, t2) \<and>
    executed env proc up pid names (result\<lparr>rr_execution_start := Some started\<rparr>) result' t3 \<and>
    (names = None \<longleftrightarrow> skip_capture config) \<and>
    (\<forall>out err. names = Some (out, err) \<longrightarrow> (stdout_file_path config \<noteq> [] \<longrightarrow> out = stdout_file_path config) \<and>
       (stderr_file_path config \<noteq> [] \<longrightarrow> err = stderr_file_path config))"
proof (cases "skip_capture config")
  case True
  then show ?thesis using start_and_run_executed [of env proc up None result s result' s'] assms by (fastforce simp: executeAndStore_def)
next
  case False
  then obtain stdoutFile s1 stderrFile s2 s3 where
      out: "StandardOutputFile fenv (stdout_file_path config) s = (Inr stdoutFile, s1)" and
      err: "StandardOutputFile fenv (stderr_file_path config) s1 = (Inr stderrFile, s2)" and
      run: "start_and_run env proc up (Some (output_name stdoutFile, output_name stderrFile)) result s2 = Some (Inr (), result', s3)"
    using assms by (auto simp: executeAndStore_def split: prod.splits sum.splits bind_splits)
  have "path \<noteq> [] \<Longrightarrow> StandardOutputFile fenv path t = (Inr f, t') \<Longrightarrow> output_name f = path" for path t f t'
    by (auto simp: StandardOutputFile_def output_name_def)
  then show ?thesis using start_and_run_executed [OF run] out err False by (metis option.distinct(1) option.inject prod.inject)
qed

section \<open>Uploaded outputs\<close>

definition failed_in :: "transfer_result \<Rightarrow> digest \<Rightarrow> bool" where
  "failed_in failed_blobs d \<longleftrightarrow> (\<exists>(digest, status) \<in> set failed_blobs. digest_eq digest d)"

lemma failed_in_simps [simp]:
  "\<not> failed_in [] d"
  "failed_in ((digest, status) # failed_blobs) d \<longleftrightarrow> digest_eq digest d \<or> failed_in failed_blobs d"
  by (auto simp: failed_in_def)

text \<open>Once the first output has failed, every report that is not for it drops the second.\<close>

lemma drop_failed_second:
  assumes "\<not> digest_eq d empty_digest" "e \<in> {d, empty_digest}"
    and "\<forall>(digest, status) \<in> set failed_blobs. digest_eq digest d"
  shows "drop_failed failed_blobs (empty_digest, e) = (empty_digest, if failed_blobs = [] then e else empty_digest)"
  using assms
proof (induction failed_blobs arbitrary: e)
  case (Cons b failed_blobs)
  then have "\<not> digest_eq (fst b) empty_digest" by (auto dest: digest_eq_trans simp: digest_eq_sym)
  then show ?case using Cons by (cases b) auto
qed simp

lemma drop_failed_exact:
  assumes "\<not> digest_eq od ed" "\<not> digest_eq ed empty_digest" "e \<in> {ed, empty_digest}"
    and "\<forall>(digest, status) \<in> set failed_blobs. digest_eq digest od \<or> digest_eq digest ed"
    and "length (filter (\<lambda>(digest, status). digest_eq digest od) failed_blobs) \<le> 1"
  shows "drop_failed failed_blobs (od, e) =
    (if failed_in failed_blobs od then empty_digest else od, if failed_in failed_blobs ed then empty_digest else e)"
  using assms(3-)
proof (induction failed_blobs arbitrary: e)
  case (Cons b failed_blobs)
  obtain digest status where b: "b = (digest, status)" by fastforce
  have split: "digest_eq digest od \<Longrightarrow> \<not> digest_eq digest ed" using assms(1) by (metis digest_eq_sym digest_eq_trans)
  show ?case
  proof (cases "digest_eq digest od")
    case True
    then have "filter (\<lambda>(digest, status). digest_eq digest od) failed_blobs = []" using Cons.prems(3) b by simp
    then have rest: "\<forall>(digest, status) \<in> set failed_blobs. digest_eq digest ed" using Cons.prems(2) by (auto simp: filter_empty_conv)
    then have "failed_in failed_blobs ed \<longleftrightarrow> failed_blobs \<noteq> []" by (cases failed_blobs) auto
    then show ?thesis using drop_failed_second [OF assms(2) Cons.prems(1) rest] True split b by simp
  next
    case False
    then show ?thesis using Cons.IH [of empty_digest] Cons.prems b by auto
  qed
qed simp

text \<open>
  C36: Of two outputs with different digests, \<^verbatim>\<open>uploadOutputs\<close> returns the digest of each one that no failure was
  reported for and the empty digest for the others, when the failures are for these blobs and there is no
  more than one for the first.
\<close>

theorem uploadOutputs_failures:
  assumes "hash_file stdout_file s = (Inr od, s1)" "hash_file stderr_file s1 = (Inr ed, s2)"
    and "uploadBlobs env cl sort_requests False
      [\<lparr>ur_digest = od, ur_data = [], ur_path = stdout_file\<rparr>, \<lparr>ur_digest = ed, ur_data = [], ur_path = stderr_file\<rparr>] s2 = (Inr failed_blobs, s3)"
    and "\<not> digest_eq od ed" "\<not> digest_eq ed empty_digest"
    and "\<forall>(digest, status) \<in> set failed_blobs. digest_eq digest od \<or> digest_eq digest ed"
    and "length (filter (\<lambda>(digest, status). digest_eq digest od) failed_blobs) \<le> 1"
  shows "uploadOutputs env cl sort_requests hash_file stdout_file stderr_file s =
    (Inr (if failed_in failed_blobs od then empty_digest else od, if failed_in failed_blobs ed then empty_digest else ed), s3)"
  using drop_failed_exact [OF assms(4,5) _ assms(6,7), of ed] assms(1-3) by (simp add: uploadOutputs_def)

text \<open>With equal contents one report drops the first digest only.\<close>

lemma drop_failed_equal: "drop_failed [(d, status)] (d, d) = (empty_digest, d)"
  by simp

section \<open>Witnesses\<close>

text \<open>A runner on the concrete files, with a child that exits with the code 3.\<close>

definition demo_action :: action where
  "demo_action = \<lparr>ac_command_digest = demo_digest, ac_input_root_digest = empty_digest\<rparr>"

definition demo_result :: runner_result where
  "demo_result = \<lparr>ar_output_files = [], ar_output_directories = [],
     rr_exit_code = 0, rr_stdout_digest = empty_digest, rr_stderr_digest = empty_digest,
     rr_execution_start = None, rr_execution_completed = None, rr_worker_start = None, rr_worker_completed = None\<rparr>"

definition demo_command :: command where
  "demo_command = \<lparr>cmd_working_directory = [], cmd_output_paths = [''a/b'', ''c''], cmd_output_files = [], cmd_output_directories = [],
     cmd_output_node_properties = []\<rparr>"

definition demo_write :: "string \<Rightarrow> demo_fs \<Rightarrow> demo_fs" where
  "demo_write data s = s\<lparr>df_files := (df_files s)(df_writing s := Some data)\<rparr>"

definition demo_runner :: "demo_fs runner_env" where
  "demo_runner =
     \<lparr>re_files = \<lparr>mf_open_read = (\<lambda>path s. (if df_files s (resolve [] path) = None then Inl ENOENT else Inr 0, s)),
        mf_open_write = (\<lambda>path s. (Inr 1, s\<lparr>df_writing := resolve [] path\<rparr>)), mf_close = (\<lambda>fd s. s)\<rparr>,
      re_parse_action = (\<lambda>fd s. (Some demo_action, s)),
      re_serialize_result = (\<lambda>result fd s. (True, demo_write ''result'' s)),
      re_serialize_status = (\<lambda>code fd s. (True, demo_write (if code = NOT_FOUND then ''5'' else ''13'') s)),
      re_hash_action = (\<lambda>a. Inr demo_digest), re_now = (\<lambda>s. (Inr (1, 0), s)), re_register_signal = (\<lambda>sig s. (True, s)),
      re_signal_status = (\<lambda>s. 0), re_init_client = (\<lambda>co s. (Inr (), s)),
      re_fetch_command = (\<lambda>d s. (if d = demo_digest then Inr demo_command else Inl (GrpcError NOT_FOUND), s)),
      re_execute = (\<lambda>c d s. (Inr demo_result, s))\<rparr>"

definition demo_child :: "demo_fs proc_env" where
  "demo_child =
     \<lparr>pe_waitpid = (\<lambda>pid s. (Inr 0x300, s)), pe_fork = (\<lambda>s. (Inr 7, s)), pe_kill = (\<lambda>_ _ s. s), pe_getcwd = (\<lambda>size s. Inr ''/''),
      pe_open_output = (\<lambda>_ s. (Inr 5, s)), pe_dup2 = (\<lambda>_ _ s. (None, s)), pe_close = (\<lambda>_ s. s)\<rparr>"

lemma demo_child_fair: "wait_fair demo_child"
  by (auto simp: wait_fair_def demo_child_def)

theorem executeAndStore_returns_witness:
  "\<exists>r result' s'. executeAndStore demo_runner demo_fe demo_child (\<lambda>out err s. (Inr (demo_digest, empty_digest), s))
     (rn_standardOutputsCaptureConfig new_runner) demo_result demo_files = Some (r, result', s')"
  by (rule executeAndStore_returns [OF demo_child_fair])

text \<open>The runner with the arguments of the command line.\<close>

definition demo_argv :: "string list" where
  "demo_argv = [''runner'', ''--remote=http://cas'', ''--action=/src'', ''--action-result=/res'']"

theorem fetchCommand_reports_witness:
  "\<exists>s'. fetchCommand demo_runner (new_runner\<lparr>rn_outputPath := ''/res''\<rparr>) empty_digest demo_files = (Exits 1, s') \<and>
     df_files s' [''res.error-status''] = Some ''5''"
proof -
  have r: "resolve [] ''/res.error-status'' = [''res.error-status'']" by code_simp
  have "empty_digest \<noteq> demo_digest" by (simp add: empty_digest_def demo_digest_def)
  then have "fetchCommand demo_runner (new_runner\<lparr>rn_outputPath := ''/res''\<rparr>) empty_digest demo_files =
      (Exits 1, demo_write ''5'' (demo_files\<lparr>df_writing := [''res.error-status'']\<rparr>))"
    by (intro fetchCommand_reports [where e = "GrpcError NOT_FOUND" and r = "Inr ()" and ?s1.0 = demo_files])
      (simp_all add: demo_runner_def reported_code_def writeProtobufToFile_def r)
  then show ?thesis by (simp add: demo_write_def)
qed



theorem createOutputDirectories_creates_witness:
  "\<exists>s'. createOutputDirectories demo_fe demo_command ''/etc'' demo_files = Some (Inr (), s') \<and>
     df_kind s' [''etc'', ''a''] = Some DirectoryFile"
proof -
  have r: "rfind slash ''a/b'' = Some 1" "rfind slash ''c'' = None" "resolve [] ''/etc/a'' = [''etc'', ''a'']" by code_simp+
  have c: "clear_way (df_kind demo_files) [''etc'', ''a'']"
    by (auto simp: clear_way_def df_kind_def demo_files_def is_prefix_def take_Cons')
  have p: "parents_of [] ''/etc'' [''a/b'', ''c''] = {[''etc'', ''a'']}" by (simp add: r)
  have "\<exists>s'. createOutputDirectories demo_fe demo_command ''/etc'' demo_files = Some (Inr (), s') \<and>
     df_kind s' = (\<lambda>q. if \<exists>l \<in> parents_of [] ''/etc'' [''a/b'', ''c'']. \<exists>k. q = take k l then Some DirectoryFile else df_kind demo_files q)"
    by (rule createOutputDirectories_creates [OF demo_mkdir_law]) (simp_all add: demo_command_def p c del: parents_of_simps)
  moreover have "\<exists>k. [''etc'', ''a''] = take k [''etc'', ''a'']" by (rule exI [of _ 2]) simp
  ultimately show ?thesis unfolding p by (elim exE conjE) (auto simp: fun_eq_iff)
qed

theorem executeAndStore_result_witness:
  "\<exists>t. executed demo_runner demo_child (\<lambda>out err s. (Inr (demo_digest, empty_digest), s)) 7 (Some (''/out'', ''/err''))
     (demo_result\<lparr>rr_execution_start := Some (1, 0)\<rparr>)
     (demo_result\<lparr>rr_execution_start := Some (1, 0), rr_execution_completed := Some (1, 0), rr_exit_code := 3, rr_stdout_digest := demo_digest\<rparr>) t"
proof -
  let ?c = "\<lparr>stdout_file_path = ''/out'', stderr_file_path = ''/err'', skip_capture = False\<rparr>"
    and ?r = "demo_result\<lparr>rr_execution_start := Some (1, 0), rr_execution_completed := Some (1, 0), rr_exit_code := 3, rr_stdout_digest := demo_digest\<rparr>"
  have w: "waitPidOrSignal demo_child 7 demo_files = (Inr 3, demo_files)"
    by (simp add: waitPidOrSignal_def demo_child_def WIFEXITED_def WTERMSIG_def WEXITSTATUS_def)
  have demo_env: "re_now demo_runner s = (Inr (1, 0), s)" "re_signal_status demo_runner s = 0" "pe_fork demo_child s = (Inr 7, s)" for s
    by (simp_all add: demo_runner_def demo_child_def)
  have l: "wait_loop demo_runner demo_child 7 demo_files = Some (Inr (Some 3), demo_files)" by (subst wait_loop.simps) (simp add: demo_env w)
  have "executeAndStore demo_runner demo_fe demo_child (\<lambda>out err s. (Inr (demo_digest, empty_digest), s)) ?c demo_result demo_files =
      Some (Inr (), ?r, demo_files)"
    by (simp add: executeAndStore_def StandardOutputFile_def start_and_run_def run_child_def l demo_env output_name_def output_destroy_def demo_result_def)
  from executeAndStore_result [OF this] obtain names t0 started t1 pid t2 t3 where e: "re_now demo_runner t0 = (Inr started, t1)"
      "pe_fork demo_child t1 = (Inr pid, t2)"
      "executed demo_runner demo_child (\<lambda>out err s. (Inr (demo_digest, empty_digest), s)) pid names
         (demo_result\<lparr>rr_execution_start := Some started\<rparr>) ?r t3"
      "names \<noteq> None" "\<forall>out err. names = Some (out, err) \<longrightarrow> out = ''/out'' \<and> err = ''/err''"
    by auto
  then have "started = (1, 0)" "pid = 7" "names = Some (''/out'', ''/err'')" by (auto simp: demo_runner_def demo_child_def)
  then show ?thesis using e(3) by blast
qed

theorem uploadOutputs_failures_witness:
  "uploadOutputs demo_cas demo_client (sort_key (\<lambda>r. size_bytes (ur_digest r)))
     (\<lambda>path s. (Inr (if path = ''out'' then demo_digest else demo_digest\<lparr>size_bytes := 2\<rparr>), s)) ''out'' ''err'' (demo_start\<lparr>dw_file := []\<rparr>) =
   (Inr (empty_digest, empty_digest), demo_start\<lparr>dw_file := []\<rparr>)"
proof -
  let ?e = "demo_digest\<lparr>size_bytes := 2\<rparr>"
  let ?u = "uploadBlobs demo_cas demo_client (sort_key (\<lambda>r. size_bytes (ur_digest r))) False
     [\<lparr>ur_digest = demo_digest, ur_data = [], ur_path = ''out''\<rparr>, \<lparr>ur_digest = ?e, ur_data = [], ur_path = ''err''\<rparr>] (demo_start\<lparr>dw_file := []\<rparr>)"
  have u: "?u = (Inr [(?e, DATA_LOSS), (demo_digest, DATA_LOSS)], demo_start\<lparr>dw_file := []\<rparr>)" by code_simp
  show ?thesis
    by (subst uploadOutputs_failures [OF _ _ u]) (simp_all add: digest_eq_def demo_digest_def empty_digest_def)
qed

end
