(* ===== verification/Staging.thy ===== *)
theory Staging
  imports Runner Staged
begin

text \<open>
  The life of a staged directory: the constructors and destructors of \<^verbatim>\<open>FallbackStagedDirectory\<close>
  (\<^verbatim>\<open>buildboxcommon_fallbackstageddirectory.cpp\<close>) and \<^verbatim>\<open>LocalCasStagedDirectory\<close>
  (\<^verbatim>\<open>buildboxcommon_localcasstageddirectory.cpp\<close>), which join the temporary directories, the deletion of
  directories and the download of a directory.
\<close>

section \<open>FallbackStagedDirectory\<close>

record fallback_directory =
  fb_stage_directory :: temporary_directory
  fb_stage_directory_fd :: nat

text \<open>
  The destructor of the temporary directory.  \<open>None\<close>: it does not return, because the deletion does not end or because
  an exception leaves the destructor, which terminates the process.
\<close>

definition destroy_stage :: "'s dir_env \<Rightarrow> temporary_directory \<Rightarrow> 's \<Rightarrow> 's option" where
  "destroy_stage denv td s =
     (case TemporaryDirectory_destroy (deleteDirectory denv) td s of
        Some (Inr _, s') \<Rightarrow> Some s'
      | _ \<Rightarrow> None)"

text \<open>
  \<open>open_directory\<close> is \<^verbatim>\<open>open\<close> with \<^verbatim>\<open>O_DIRECTORY | O_RDONLY\<close>, \<open>download_tree\<close> is \<^verbatim>\<open>Client::downloadDirectory\<close>.  When the
  constructor throws, the members are destroyed but the destructor of the class does not run.
\<close>

definition new_FallbackStagedDirectory ::
  "'s file_env \<Rightarrow> 's dir_env \<Rightarrow> (string \<Rightarrow> 's \<Rightarrow> (int + nat) \<times> 's) \<Rightarrow> (digest \<Rightarrow> string \<Rightarrow> 's \<Rightarrow> (unit result \<times> 's) option) \<Rightarrow>
   digest \<Rightarrow> string \<Rightarrow> 's \<Rightarrow> (fallback_directory result \<times> 's) option" where
  "new_FallbackStagedDirectory fenv denv open_directory download_tree digest path s =
     (case TemporaryDirectory_create fenv (Some path) ''buildboxrun'' s of
        (Inl e, s1) \<Rightarrow> Some (Inl e, s1)
      | (Inr td, s1) \<Rightarrow>
          (case open_directory (td_name td) s1 of
             (Inl errno, s2) \<Rightarrow> map_option (\<lambda>s3. (Inl (SystemError errno), s3)) (destroy_stage denv td s2)
           | (Inr fd, s2) \<Rightarrow>
               (case download_tree digest (td_name td) s2 of
                  None \<Rightarrow> None
                | Some (Inl e, s3) \<Rightarrow> map_option (\<lambda>s4. (Inl e, s4)) (destroy_stage denv td s3)
                | Some (Inr _, s3) \<Rightarrow> Some (Inr \<lparr>fb_stage_directory = td, fb_stage_directory_fd = fd\<rparr>, s3))))"

definition delete_FallbackStagedDirectory :: "'s dir_env \<Rightarrow> (nat \<Rightarrow> 's \<Rightarrow> 's) \<Rightarrow> fallback_directory \<Rightarrow> 's \<Rightarrow> 's option" where
  "delete_FallbackStagedDirectory denv close_descriptor fb s =
     destroy_stage denv (fb_stage_directory fb) (close_descriptor (fb_stage_directory_fd fb) s)"

text \<open>
  \<^verbatim>\<open>FallbackStagedDirectory::uploadDirectory\<close>: what could not be uploaded is in \<open>du_results\<close>, which is not looked at.
\<close>

definition fallback_uploadDirectory ::
  "(string \<Rightarrow> 's \<Rightarrow> dir_upload result \<times> 's) \<Rightarrow> (tree \<Rightarrow> 's \<Rightarrow> digest result \<times> 's) \<Rightarrow> string \<Rightarrow> 's \<Rightarrow> digest result \<times> 's" where
  "fallback_uploadDirectory upload_directory upload_message path s =
     (case upload_directory path s of
        (Inl e, s1) \<Rightarrow> (Inl e, s1)
      | (Inr u, s1) \<Rightarrow> upload_message (du_tree u) s1)"

definition uploadMessage ::
  "'s stream_env \<Rightarrow> client \<Rightarrow> ('m \<Rightarrow> string) \<Rightarrow> (string \<Rightarrow> digest result) \<Rightarrow> 'm \<Rightarrow> 's \<Rightarrow> digest result \<times> 's" where
  "uploadMessage env cl serialize hash msg s =
     (let str = serialize msg
      in case hash str of
           Inl e \<Rightarrow> (Inl e, s)
         | Inr digest \<Rightarrow> (let (r, s1) = upload_string env cl str digest s in (map_sum id (\<lambda>_. digest) r, s1)))"

section \<open>LocalCasStagedDirectory\<close>

record localcas_directory =
  lc_path :: string
  lc_staged_directory_fd :: nat

definition new_LocalCasStagedDirectory ::
  "'s stage_stream \<Rightarrow> client \<Rightarrow> (string \<Rightarrow> 's \<Rightarrow> (int + nat) \<times> 's) \<Rightarrow> digest \<Rightarrow> string \<Rightarrow> 's \<Rightarrow> localcas_directory result \<times> 's" where
  "new_LocalCasStagedDirectory stream cl open_directory digest path s =
     (case stage stream cl digest path s of
        (Inl e, s1) \<Rightarrow> (Inl e, s1)
      | (Inr staged_path, s1) \<Rightarrow>
          (case open_directory staged_path s1 of
             (Inl errno, s2) \<Rightarrow> (Inl (SystemError errno), unstage stream s2)
           | (Inr fd, s2) \<Rightarrow> (Inr \<lparr>lc_path = staged_path, lc_staged_directory_fd = fd\<rparr>, s2)))"

definition delete_LocalCasStagedDirectory :: "'s stage_stream \<Rightarrow> (nat \<Rightarrow> 's \<Rightarrow> 's) \<Rightarrow> localcas_directory \<Rightarrow> 's \<Rightarrow> 's" where
  "delete_LocalCasStagedDirectory stream close_descriptor lc s =
     unstage stream (close_descriptor (lc_staged_directory_fd lc) s)"

section \<open>A download stays in its directory\<close>

text \<open>\<open>s'\<close> differs from \<open>s\<close> only below the location \<open>l\<close>.\<close>

definition only_below :: "('s \<Rightarrow> nodes) \<Rightarrow> string list \<Rightarrow> 's \<Rightarrow> 's \<Rightarrow> bool" where
  "only_below nodes l s s' \<longleftrightarrow> (\<forall>q. \<not> (is_prefix l q \<and> q \<noteq> l) \<longrightarrow> nodes s' q = nodes s q) \<and> (tree_ok (nodes s) \<longrightarrow> tree_ok (nodes s'))"

lemma only_below_refl [simp]: "only_below nodes l s s"
  by (simp add: only_below_def)

lemma only_below_trans: "only_below nodes l s s' \<Longrightarrow> only_below nodes l s' s'' \<Longrightarrow> only_below nodes l s s''"
  by (simp add: only_below_def)

lemma only_below_deeper: "only_below nodes (l @ [n]) s s' \<Longrightarrow> only_below nodes l s s'"
  by (auto simp: only_below_def is_prefix_iff)

text \<open>
  The calls of a download change nothing but the place they are given; a request to the server changes no file.
\<close>

definition only_at :: "('s \<Rightarrow> nodes) \<Rightarrow> string list set \<Rightarrow> 's \<Rightarrow> 's \<Rightarrow> bool" where
  "only_at nodes ls s s' \<longleftrightarrow> (\<forall>q. q \<notin> ls \<longrightarrow> nodes s' q = nodes s q) \<and> (tree_ok (nodes s) \<longrightarrow> tree_ok (nodes s'))"

definition output_places :: "string list \<Rightarrow> output_map \<Rightarrow> string list set" where
  "output_places cwd outputs = (\<lambda>entry. resolve cwd (fst (snd entry))) ` set outputs"

definition download_law ::
  "'s cas_env \<Rightarrow> (digest list \<Rightarrow> output_map \<Rightarrow> 's \<Rightarrow> unit result \<times> 's) \<Rightarrow> (digest \<Rightarrow> 's \<Rightarrow> directory result \<times> 's) \<Rightarrow>
   string list \<Rightarrow> ('s \<Rightarrow> nodes) \<Rightarrow> bool" where
  "download_law env download_callback return_directory cwd nodes \<longleftrightarrow>
     (\<forall>path s. only_at nodes {resolve cwd path} s (snd (os_mkdir env path s))) \<and>
     (\<forall>target path s. only_at nodes {resolve cwd path} s (snd (os_symlink env target path s))) \<and>
     (\<forall>digests outputs s. only_at nodes (output_places cwd outputs) s (snd (download_callback digests outputs s))) \<and>
     (\<forall>digest s. only_at nodes {} s (snd (return_directory digest s)))"

text \<open>The names in a directory message are names: not empty, no dots, no slash.\<close>

definition names_plain :: "directory \<Rightarrow> bool" where
  "names_plain d \<longleftrightarrow>
     list_all (\<lambda>n. plain_name n \<and> n \<noteq> ''..'') (map fn_name (files d) @ map dn_name (directories d) @ map sn_name (symlinks d))"

definition serves_plain :: "(digest \<Rightarrow> 's \<Rightarrow> directory result \<times> 's) \<Rightarrow> bool" where
  "serves_plain return_directory \<longleftrightarrow> (\<forall>digest s d. fst (return_directory digest s) = Inr d \<longrightarrow> names_plain d)"

lemma resolve_entry:
  assumes "plain_name n" "n \<noteq> ''..''" "path \<noteq> []"
  shows "resolve cwd (path @ ''/'' @ n) = resolve cwd path @ [n]"
proof -
  have "split_at slash (path @ ''/'' @ n) = split_at slash path @ [n]"
    using assms(1) by (simp add: split_at_append_sep split_at_no_sep plain_name_def)
  moreover have "is_absolute (path @ ''/'' @ n) = is_absolute path" using assms(3) by (simp add: is_absolute_def)
  ultimately show ?thesis using assms(1,2) by (simp add: resolve_def walk_seg_def plain_name_def)
qed

lemma only_at_below: "only_at nodes ls s s' \<Longrightarrow> ls \<subseteq> {l @ [n] | n. True} \<Longrightarrow> only_below nodes l s s'"
  by (auto simp: only_at_def only_below_def is_prefix_iff)

lemma download_lawD:
  assumes "download_law env cb ret cwd nodes" "resolve cwd p = l @ [n]"
  shows "os_mkdir env p s = (r, s') \<Longrightarrow> only_below nodes l s s'"
    and "os_symlink env target p s = (r', s') \<Longrightarrow> only_below nodes l s s'"
proof -
  have law: "only_at nodes {l @ [n]} s (snd (os_mkdir env p s))" "only_at nodes {l @ [n]} s (snd (os_symlink env target p s))"
    using assms unfolding download_law_def by metis+
  show "os_mkdir env p s = (r, s') \<Longrightarrow> only_below nodes l s s'" using only_at_below [OF law(1), of l] by simp
  show "os_symlink env target p s = (r', s') \<Longrightarrow> only_below nodes l s s'" using only_at_below [OF law(2), of l] by simp
qed

lemma symlinks_below:
  assumes law: "download_law env cb ret cwd nodes" and path: "path \<noteq> []"
  shows "list_all (\<lambda>n. plain_name n \<and> n \<noteq> ''..'') (map sn_name links) \<Longrightarrow>
    make_symlinks env path links s = (r, s') \<Longrightarrow> only_below nodes (resolve cwd path) s s'"
proof (induction links arbitrary: s)
  case (Cons link links)
  obtain r1 s1 where step: "os_symlink env (sn_target link) (path @ ''/'' @ sn_name link) s = (r1, s1)" by fastforce
  have "only_below nodes (resolve cwd path) s s1"
    using download_lawD(2) [OF law resolve_entry step] Cons.prems(1) path by simp
  then show ?case
    using Cons step by (auto split: if_splits option.splits intro: only_below_trans)
qed simp

lemma outputs_below:
  assumes law: "download_law env cb ret cwd nodes" and path: "path \<noteq> []"
    and names: "list_all (\<lambda>n. plain_name n \<and> n \<noteq> ''..'') (map fn_name fs)"
    and cb: "cb ds (directory_outputs path fs) s = (r, s')"
  shows "only_below nodes (resolve cwd path) s s'"
proof (rule only_at_below)
  show "only_at nodes (output_places cwd (directory_outputs path fs)) s s'"
    using law cb unfolding download_law_def by (metis snd_conv)
  show "output_places cwd (directory_outputs path fs) \<subseteq> {resolve cwd path @ [n] | n. True}"
  proof
    fix q
    assume "q \<in> output_places cwd (directory_outputs path fs)"
    then obtain f where "f \<in> set fs" "q = resolve cwd (path @ ''/'' @ fn_name f)"
      by (auto simp: output_places_def directory_outputs_def)
    then show "q \<in> {resolve cwd path @ [n] | n. True}" using resolve_entry [OF _ _ path] names by (auto simp: list_all_iff)
  qed
qed

lemma subdirs_below:
  assumes law: "download_law env cb ret cwd nodes" and path: "path \<noteq> []"
    and deeper: "\<And>digest p s r s'. p \<noteq> [] \<Longrightarrow> recur digest p s = Some (r, s') \<Longrightarrow> only_below nodes (resolve cwd p) s s'"
  shows "list_all (\<lambda>n. plain_name n \<and> n \<noteq> ''..'') (map dn_name dirs) \<Longrightarrow>
    download_subdirs recur env path dirs s = Some (r, s') \<Longrightarrow> only_below nodes (resolve cwd path) s s'"
proof (induction dirs arbitrary: s)
  case (Cons node dirs)
  let ?p = "path @ ''/'' @ dn_name node" and ?l = "resolve cwd path"
  have p: "resolve cwd ?p = ?l @ [dn_name node]" using resolve_entry path Cons.prems(1) by simp
  obtain r1 s1 where mkdir: "os_mkdir env ?p s = (r1, s1)" by fastforce
  have 1: "only_below nodes ?l s s1" using download_lawD(1) [OF law p mkdir] .
  show ?case
  proof (cases "r1 = None \<and> (\<exists>r2 s2. recur (dn_digest node) ?p s1 = Some (r2, s2))")
    case True
    then obtain r2 s2 where r2: "recur (dn_digest node) ?p s1 = Some (r2, s2)" by blast
    then have "only_below nodes ?l s s2" using deeper [OF _ r2] only_below_deeper 1 p by (metis Nil_is_append_conv only_below_trans path)
    then show ?thesis using Cons True mkdir r2 by (auto simp: Let_def split: sum.splits intro: only_below_trans)
  next
    case False
    then show ?thesis using Cons.prems(2) mkdir 1 by (auto simp: Let_def split: option.splits prod.splits sum.splits)
  qed
qed simp

lemma downloadDirectory_below:
  assumes law: "download_law env cb ret cwd nodes"
    and names: "serves_plain ret"
  shows "path \<noteq> [] \<Longrightarrow> downloadDirectory fuel env cb ret digest path s = Some (r, s') \<Longrightarrow> only_below nodes (resolve cwd path) s s'"
proof (induction fuel arbitrary: digest path s r s')
  case (Suc fuel)
  let ?l = "resolve cwd path"
  obtain r1 s1 where ret: "ret digest s = (r1, s1)" by fastforce
  then have 1: "only_below nodes ?l s s1" using law only_at_below [of nodes "{}"] unfolding download_law_def by (metis empty_subsetI snd_conv)
  show ?case
  proof (cases r1)
    case (Inl e)
    then show ?thesis using Suc.prems ret 1 by simp
  next
    case (Inr d)
    then have plain: "names_plain d" using names ret unfolding serves_plain_def by (metis fst_conv)
    obtain r2 s2 where cb: "cb (map fn_digest (files d)) (directory_outputs path (files d)) s1 = (r2, s2)" by fastforce
    have 2: "only_below nodes ?l s s2"
      using outputs_below [OF law Suc.prems(1) _ cb] plain only_below_trans [OF 1] by (auto simp: names_plain_def)
    show ?thesis
    proof (cases "download_subdirs (downloadDirectory fuel env cb ret) env path (directories d) s2")
      case None
      then show ?thesis using Suc.prems(2) ret cb Inr 2 by (auto split: sum.splits)
    next
      case (Some w)
      then obtain r3 s3 where w: "download_subdirs (downloadDirectory fuel env cb ret) env path (directories d) s2 = Some (r3, s3)"
        by (cases w) simp
      have 3: "only_below nodes ?l s s3"
        using subdirs_below [OF law Suc.prems(1) Suc.IH _ w] plain only_below_trans [OF 2] by (auto simp: names_plain_def)
      have "list_all (\<lambda>n. plain_name n \<and> n \<noteq> ''..'') (map sn_name (symlinks d))" using plain by (simp add: names_plain_def)
      then show ?thesis
        using Suc.prems(2) ret cb Inr w 2 3 symlinks_below [OF law Suc.prems(1)] by (auto split: sum.splits intro: only_below_trans)
    qed
  qed
qed simp


section \<open>The fallback directory is removed\<close>

text \<open>
  The calls of the constructor and the destructor: \<^verbatim>\<open>mkdtemp\<close> makes a directory with a new name or fails, and opening and
  closing a descriptor changes no file.
\<close>

definition new_stage :: "string list \<Rightarrow> ('s \<Rightarrow> nodes) \<Rightarrow> string \<Rightarrow> 's \<Rightarrow> 's \<Rightarrow> bool" where
  "new_stage cwd nodes name s s' \<longleftrightarrow>
     name \<noteq> [] \<and> \<not> is_dots (last (split_at slash name)) \<and> resolve cwd name \<noteq> [] \<and> nodes s (resolve cwd name) = None \<and>
     nodes s' = (nodes s)(resolve cwd name \<mapsto> DirectoryFile) \<and> (tree_ok (nodes s) \<longrightarrow> tree_ok (nodes s'))"

definition mkdtemp_law :: "'s file_env \<Rightarrow> string list \<Rightarrow> ('s \<Rightarrow> nodes) \<Rightarrow> bool" where
  "mkdtemp_law fenv cwd nodes \<longleftrightarrow>
     (\<forall>template s errno s'. fe_mkdtemp fenv template s = (Inl errno, s') \<longrightarrow> nodes s' = nodes s) \<and>
     (\<forall>template s name s'. fe_mkdtemp fenv template s = (Inr name, s') \<longrightarrow> new_stage cwd nodes name s s')"

definition descriptor_law ::
  "(string \<Rightarrow> 's \<Rightarrow> (int + nat) \<times> 's) \<Rightarrow> (nat \<Rightarrow> 's \<Rightarrow> 's) \<Rightarrow> ('s \<Rightarrow> nodes) \<Rightarrow> bool" where
  "descriptor_law open_directory close_descriptor nodes \<longleftrightarrow>
     (\<forall>path s. nodes (snd (open_directory path s)) = nodes s) \<and> (\<forall>fd s. nodes (close_descriptor fd s) = nodes s)"

lemma nothing_below:
  assumes "tree_ok N" "N l = None" "l \<noteq> []" "is_prefix l q"
  shows "N q = None"
proof (rule ccontr)
  assume some: "N q \<noteq> None"
  obtain l' x where l: "l = l' @ [x]" using assms(3) rev_exhaust by blast
  have "q \<noteq> l" using some assms(2) by auto
  then obtain n r where "q = l' @ x # n # r" using assms(4) l is_prefix_strict [of l q] by auto
  then have "N l = Some DirectoryFile" using tree_okD(4) [OF assms(1), of l' x "n # r"] some l by simp
  then show False using assms(2) by simp
qed

lemma stage_created:
  assumes "mkdtemp_law fenv cwd nodes" "TemporaryDirectory_create fenv (Some path) p s = (r, s1)"
  shows "case r of Inl e \<Rightarrow> nodes s1 = nodes s | Inr td \<Rightarrow> td_auto_remove td \<and> new_stage cwd nodes (td_name td) s s1"
  using assms by (auto simp: TemporaryDirectory_create_def constructTmpDirPath_def mkdtemp_law_def split: prod.splits sum.splits)

text \<open>
  Removing the stage undoes everything that happened at and below it since it was made.
\<close>

lemma destroy_restores:
  assumes "dir_law denv cwd nodes streams" "tree_ok (nodes s0)" "td_auto_remove td"
    and new: "new_stage cwd nodes (td_name td) s0 s1" and below: "only_below nodes (resolve cwd (td_name td)) s1 s"
  shows "\<exists>s'. destroy_stage denv td s = Some s' \<and> nodes s' = nodes s0 \<and> streams s' = streams s"
proof -
  let ?l = "resolve cwd (td_name td)"
  have l: "?l \<noteq> []" "nodes s0 ?l = None" and made: "nodes s1 = (nodes s0)(?l \<mapsto> DirectoryFile)" and "tree_ok (nodes s)"
    using new below assms(2) by (auto simp: new_stage_def only_below_def)
  moreover have "nodes s ?l = Some DirectoryFile" using made below by (simp add: only_below_def)
  ultimately obtain s' where s': "deleteDirectory denv (td_name td) s = Some (Inr (), s')" "streams s' = streams s" "nodes s' = removed ?l (nodes s)"
    using deleteDirectory_removes [OF assms(1)] new unfolding new_stage_def by blast
  have "nodes s' q = nodes s0 q" for q
  proof (cases "is_prefix ?l q")
    case True
    then show ?thesis using s'(3) nothing_below [OF assms(2) l(2,1)] by (simp add: removed_def)
  next
    case False
    then have "q \<noteq> ?l" by (auto simp: is_prefix_iff)
    then show ?thesis using False s'(3) made below by (simp add: removed_def only_below_def)
  qed
  then show ?thesis using s' assms(3) by (auto simp: destroy_stage_def TemporaryDirectory_destroy_def)
qed

lemma delete_restores:
  assumes "dir_law denv cwd nodes streams" "descriptor_law open_directory close_descriptor nodes" "tree_ok (nodes s0)" "td_auto_remove td"
    and "new_stage cwd nodes (td_name td) s0 s1" "only_below nodes (resolve cwd (td_name td)) s1 s"
  shows "\<exists>s'. delete_FallbackStagedDirectory denv close_descriptor \<lparr>fb_stage_directory = td, fb_stage_directory_fd = fd\<rparr> s = Some s' \<and>
    nodes s' = nodes s0"
proof -
  have "nodes (close_descriptor fd s) = nodes s" using assms(2) by (simp add: descriptor_law_def)
  then have "only_below nodes (resolve cwd (td_name td)) s1 (close_descriptor fd s)" using assms(6) by (simp add: only_below_def)
  from destroy_restores [OF assms(1,3-5) this] show ?thesis by (auto simp: delete_FallbackStagedDirectory_def)
qed

text \<open>
  C23: Staging with the fallback leaves nothing behind, for a server that sends plain names: when the constructor throws, whatever the
  reason, the file system is what it was; when it returns, only the new directory has changed, and after any work in it the
  destructor removes it and all that is in it.
\<close>

theorem fallback_stage_cleans:
  assumes laws: "dir_law denv cwd nodes streams" "mkdtemp_law fenv cwd nodes" "descriptor_law open_directory close_descriptor nodes"
      "download_law env cb ret cwd nodes"
    and names: "serves_plain ret"
    and enough: "\<And>path s. downloadDirectory fuel env cb ret digest path s \<noteq> None"
    and ok: "tree_ok (nodes s)"
  shows "\<exists>r s'. new_FallbackStagedDirectory fenv denv open_directory (downloadDirectory fuel env cb ret) digest path s = Some (r, s') \<and>
    (case r of
       Inl e \<Rightarrow> nodes s' = nodes s
     | Inr fb \<Rightarrow>
         (let l = resolve cwd (td_name (fb_stage_directory fb))
          in nodes s' l = Some DirectoryFile \<and> (\<forall>q. \<not> is_prefix l q \<longrightarrow> nodes s' q = nodes s q) \<and>
             (\<forall>s2. only_below nodes l s' s2 \<longrightarrow>
                (\<exists>s3. delete_FallbackStagedDirectory denv close_descriptor fb s2 = Some s3 \<and> nodes s3 = nodes s))))"
proof -
  obtain r1 s1 where create: "TemporaryDirectory_create fenv (Some path) ''buildboxrun'' s = (r1, s1)" by fastforce
  note created = stage_created [OF laws(2) create]
  show ?thesis
  proof (cases r1)
    case (Inl e)
    then show ?thesis using created create by (simp add: new_FallbackStagedDirectory_def)
  next
    case (Inr td)
    let ?l = "resolve cwd (td_name td)"
    have new: "new_stage cwd nodes (td_name td) s s1" and auto: "td_auto_remove td" using created Inr by simp_all
    note restores = destroy_restores [OF laws(1) ok auto new]
    obtain r2 s2 where opened: "open_directory (td_name td) s1 = (r2, s2)" by fastforce
    have "nodes s2 = nodes s1" using laws(3) opened unfolding descriptor_law_def by (metis snd_conv)
    then have 2: "only_below nodes ?l s1 s2" by (simp add: only_below_def)
    show ?thesis
    proof (cases r2)
      case (Inl errno)
      then show ?thesis using restores [OF 2] create Inr opened by (auto simp: new_FallbackStagedDirectory_def)
    next
      case (Inr fd)
      obtain r3 s3 where down: "downloadDirectory fuel env cb ret digest (td_name td) s2 = Some (r3, s3)" using enough by fast
      have 3: "only_below nodes ?l s1 s3"
        using downloadDirectory_below [OF laws(4) names _ down] new only_below_trans [OF 2] by (auto simp: new_stage_def)
      show ?thesis
      proof (cases r3)
        case (Inl e)
        then show ?thesis using restores [OF 3] create \<open>r1 = Inr td\<close> opened \<open>r2 = Inr fd\<close> down by (auto simp: new_FallbackStagedDirectory_def)
      next
        case u: (Inr u)
        note deleted = delete_restores [OF laws(1,3) ok auto new only_below_trans [OF 3], of _ fd]
        have "nodes s3 ?l = Some DirectoryFile" "\<not> is_prefix ?l q \<Longrightarrow> nodes s3 q = nodes s q" for q
          using new 3 by (auto simp: new_stage_def only_below_def is_prefix_iff)
        then show ?thesis
          using create \<open>r1 = Inr td\<close> opened \<open>r2 = Inr fd\<close> down u deleted by (auto simp: new_FallbackStagedDirectory_def Let_def)
      qed
    qed
  qed
qed

text \<open>
  When the download fails, the descriptor of the stage stays open: the constructor throws, so that the destructor, which
  would close it, does not run.
\<close>

theorem fallback_stage_leaks:
  assumes "dir_law denv cwd nodes streams" "mkdtemp_law fenv cwd nodes" "tree_ok (nodes s)"
    and "TemporaryDirectory_create fenv (Some path) ''buildboxrun'' s = (Inr td, s1)"
    and "open_directory (td_name td) s1 = (Inr fd, s2)" "nodes s2 = nodes s1" "streams s2 fd \<noteq> None"
    and "download_tree digest (td_name td) s2 = Some (Inl e, s3)" "nodes s3 = nodes s2" "streams s3 = streams s2"
  shows "\<exists>s'. new_FallbackStagedDirectory fenv denv open_directory download_tree digest path s = Some (Inl e, s') \<and>
    nodes s' = nodes s \<and> streams s' fd \<noteq> None"
proof -
  have new: "new_stage cwd nodes (td_name td) s s1" "td_auto_remove td" using stage_created [OF assms(2,4)] by simp_all
  have "only_below nodes (resolve cwd (td_name td)) s1 s3" using assms(6,9) by (simp add: only_below_def)
  from destroy_restores [OF assms(1,3) new(2,1) this] show ?thesis
    using assms(4-10) by (auto simp: new_FallbackStagedDirectory_def)
qed


section \<open>Names that are not names\<close>

text \<open>
  The names a server sends are not checked: a file called \<open>../evil\<close> is written beside the directory that is downloaded.
\<close>

theorem downloadDirectory_escapes:
  "downloadDirectory 1 logging_cas (\<lambda>ds outs s. (Inr (), s @ [Fetch ds outs]))
     (\<lambda>d s. (Inr (empty_directory\<lparr>files := [\<lparr>fn_name = ''../evil'', fn_digest = d, fn_is_executable = False, fn_mtime = None\<rparr>]\<rparr>), s))
     empty_digest ''/stage/d'' [] =
   Some (Inr (), [Fetch [empty_digest] [(hash_other empty_digest, (''/stage/d/../evil'', False))]]) \<and>
   resolve [] ''/stage/d/../evil'' = [''stage'', ''evil'']"
proof -
  have "resolve [] ''/stage/d/../evil'' = [''stage'', ''evil'']" by code_simp
  then show ?thesis by (simp add: directory_outputs_def empty_directory_def)
qed

section \<open>The local service cleans up\<close>

text \<open>
  \<open>staged s\<close> is the path of the tree that the server keeps for the stream.  The server answers a request with the path it has
  staged the tree at, and removes it after an empty request.
\<close>

definition stage_law :: "'s stage_stream \<Rightarrow> ('s \<Rightarrow> string option) \<Rightarrow> bool" where
  "stage_law stream staged \<longleftrightarrow>
     (\<forall>request s. staged s = None \<longrightarrow> staged (snd (st_write stream request s)) = None) \<and>
     (\<forall>s. staged (snd (st_write stream empty_stage_request s)) = None) \<and>
     (\<forall>s r s'. st_read stream s = (r, s') \<longrightarrow> staged s = None \<longrightarrow> staged s' = r) \<and>
     (\<forall>s. staged (st_writes_done stream s) = staged s) \<and> (\<forall>s. staged (snd (st_finish stream s)) = staged s)"

lemma unstage_clears: "stage_law stream staged \<Longrightarrow> staged (unstage stream s) = None"
  by (simp add: stage_law_def unstage_def)

lemma stage_staged:
  assumes "stage_law stream staged" "staged s = None" "stage stream cl digest path s = (r, s')"
  shows "staged s' = (case r of Inl e \<Rightarrow> None | Inr p \<Rightarrow> Some p)"
proof -
  obtain written s1 where wr: "st_write stream \<lparr>sr_instance_name = d_instanceName cl, sr_root_digest = digest, sr_path = path\<rparr> s = (written, s1)"
    by fastforce
  have s1: "staged s1 = None" using assms(1,2) wr unfolding stage_law_def by (metis snd_conv)
  obtain a s2 where a: "st_read stream s1 = (a, s2)" by fastforce
  then have "staged s2 = a" using assms(1) s1 unfolding stage_law_def by metis
  then show ?thesis using assms wr a s1 by (cases written; cases a) (auto simp: stage_def stage_law_def)
qed

text \<open>
  The server keeps a staged tree exactly as long as the object exists: not when the constructor throws, also when only opening
  the directory fails, and not after the destructor.
\<close>

theorem localcas_stage_paired:
  assumes "stage_law stream staged" "staged s = None"
    and keeps: "\<And>path s. staged (snd (open_directory path s)) = staged s" "\<And>fd s. staged (close_descriptor fd s) = staged s"
    and new: "new_LocalCasStagedDirectory stream cl open_directory digest path s = (r, s')"
  shows "case r of
      Inl e \<Rightarrow> staged s' = None
    | Inr lc \<Rightarrow> staged s' = Some (lc_path lc) \<and> (\<forall>s2. staged (delete_LocalCasStagedDirectory stream close_descriptor lc s2) = None)"
proof -
  obtain r1 s1 where st: "stage stream cl digest path s = (r1, s1)" by fastforce
  note staged = stage_staged [OF assms(1,2) st]
  show ?thesis
  proof (cases r1)
    case (Inl e)
    then show ?thesis using new st staged by (auto simp: new_LocalCasStagedDirectory_def)
  next
    case (Inr p)
    obtain r2 s2 where opened: "open_directory p s1 = (r2, s2)" by fastforce
    have "staged s2 = Some p" using keeps(1) [of p s1] opened staged Inr by simp
    then show ?thesis
      using new st Inr opened unstage_clears [OF assms(1)]
      by (cases r2) (auto simp: new_LocalCasStagedDirectory_def delete_LocalCasStagedDirectory_def)
  qed
qed

definition demo_stage :: "string option stage_stream" where
  "demo_stage =
     \<lparr>st_write = (\<lambda>request s. (True, if request = empty_stage_request then None else s)),
      st_read = (\<lambda>s. (Some ''/cas/tree'', Some ''/cas/tree'')), st_writes_done = (\<lambda>s. s), st_finish = (\<lambda>s. (status_of OK, s))\<rparr>"

theorem localcas_stage_paired_witness:
  "new_LocalCasStagedDirectory demo_stage demo_client (\<lambda>path s. (Inr 3, s)) empty_digest ''/w'' None =
     (Inr \<lparr>lc_path = ''/cas/tree'', lc_staged_directory_fd = 3\<rparr>, Some ''/cas/tree'') \<and>
   delete_LocalCasStagedDirectory demo_stage (\<lambda>fd s. s) \<lparr>lc_path = ''/cas/tree'', lc_staged_directory_fd = 3\<rparr> (Some ''/cas/tree'') = None"
proof -
  have law: "stage_law demo_stage (\<lambda>s. s)" by (auto simp: stage_law_def demo_stage_def)
  have new: "new_LocalCasStagedDirectory demo_stage demo_client (\<lambda>path s. (Inr 3, s)) empty_digest ''/w'' None =
      (Inr \<lparr>lc_path = ''/cas/tree'', lc_staged_directory_fd = 3\<rparr>, Some ''/cas/tree'')"
    by (simp add: new_LocalCasStagedDirectory_def stage_def demo_stage_def)
  from localcas_stage_paired [OF law _ _ _ new, of "\<lambda>fd s. s"] show ?thesis using new by simp
qed

section \<open>Staging in memory\<close>

text \<open>A node is added in a directory that exists, under a name that is not taken.\<close>

definition mem_add :: "file_kind \<Rightarrow> string list \<Rightarrow> memory \<Rightarrow> int option \<times> memory" where
  "mem_add kind l m =
     (if l \<noteq> [] \<and> last l \<noteq> [] \<and> \<not> is_dots (last l) \<and> slash \<notin> set (last l) \<and> mem_view m l = None \<and>
         (butlast l = [] \<or> mem_view m (butlast l) = Some DirectoryFile)
      then (None, m\<lparr>mem_nodes := (l, kind) # mem_nodes m\<rparr>) else (Some ENOENT, m))"

lemma tree_ok_add:
  assumes ok: "tree_ok N" and x: "x \<noteq> []" "\<not> is_dots x" "slash \<notin> set x" and free: "N (l @ [x]) = None"
    and parent: "l = [] \<or> N l = Some DirectoryFile"
  shows "tree_ok (N(l @ [x] \<mapsto> kind))"
  unfolding tree_ok_def
proof (intro conjI allI impI)
  show "finite (dom (N(l @ [x] \<mapsto> kind)))" using ok by (simp add: tree_ok_def)
  fix a n r
  assume some: "(N(l @ [x] \<mapsto> kind)) (a @ n # r) \<noteq> None"
  show "n \<noteq> []" "\<not> is_dots n" "slash \<notin> set n" "r \<noteq> [] \<Longrightarrow> (N(l @ [x] \<mapsto> kind)) (a @ [n]) = Some DirectoryFile"
  proof -
    have "n \<noteq> [] \<and> \<not> is_dots n \<and> slash \<notin> set n \<and> (r \<noteq> [] \<longrightarrow> (N(l @ [x] \<mapsto> kind)) (a @ [n]) = Some DirectoryFile)"
    proof (cases "a @ n # r = l @ [x]")
      case False
      then have N: "N (a @ n # r) \<noteq> None" using some by simp
      then have "r \<noteq> [] \<Longrightarrow> a @ [n] \<noteq> l @ [x]" using tree_okD(4) [OF ok N] free by auto
      then show ?thesis using tree_okD [OF ok N] by auto
    next
      case True
      show ?thesis
      proof (cases r rule: rev_cases)
        case Nil
        then show ?thesis using True x by simp
      next
        case (snoc r' y)
        then have l: "l = a @ n # r'" using True by simp
        then have N: "N (a @ n # r') \<noteq> None" using parent by auto
        have "N (a @ [n]) = Some DirectoryFile" using tree_okD(4) [OF ok N] parent l by (cases r') auto
        then show ?thesis using tree_okD [OF ok N] l snoc by simp
      qed
    qed
    then show "n \<noteq> []" "\<not> is_dots n" "slash \<notin> set n" "r \<noteq> [] \<Longrightarrow> (N(l @ [x] \<mapsto> kind)) (a @ [n]) = Some DirectoryFile" by blast+
  qed
qed

lemma mem_add_only_at: "only_at mem_view {l} m (snd (mem_add kind l m))"
proof (cases "fst (mem_add kind l m) = None")
  case True
  then have "l = butlast l @ [last l]" "snd (mem_add kind l m) = m\<lparr>mem_nodes := (l, kind) # mem_nodes m\<rparr>"
    by (auto simp: mem_add_def split: if_splits)
  moreover have "tree_ok ((mem_view m)(butlast l @ [last l] \<mapsto> kind))" if "tree_ok (mem_view m)"
    using True that by (intro tree_ok_add) (auto simp: mem_add_def split: if_splits)
  ultimately show ?thesis by (auto simp: only_at_def)
next
  case False
  then have "snd (mem_add kind l m) = m" by (auto simp: mem_add_def split: if_splits)
  then show ?thesis by (simp add: only_at_def)
qed

definition mem_files :: "memory file_env" where
  "mem_files =
     \<lparr>fe_stat = (\<lambda>path m. Inl ENOENT), fe_lstat = (\<lambda>path m. Inl ENOENT), fe_fstat = (\<lambda>fd m. Inl EIO), fe_mkdir = (\<lambda>path mode m. (Some EIO, m)),
      fe_chmod = (\<lambda>path mode m. (Some EIO, m)), fe_fchmod = (\<lambda>fd mode m. (Some EIO, m)), fe_utimensat = (\<lambda>path a b m. (Some EIO, m)),
      fe_futimens = (\<lambda>fd a b m. (Some EIO, m)), fe_open_read = (\<lambda>path m. (Inl EIO, m)), fe_open_write = (\<lambda>path mode m. (Inl EIO, m)),
      fe_read = (\<lambda>fd n m. (Inl EIO, m)), fe_write = (\<lambda>fd buf m. (Inl EIO, m)), fe_close = (\<lambda>fd m. (None, m)), fe_unlink = (\<lambda>path m. (Some EIO, m)),
      fe_rename = (\<lambda>a b m. (Some EIO, m)), fe_mkstemp = (\<lambda>template m. (Inl EIO, m)),
      fe_mkdtemp = (\<lambda>template m. case mem_add DirectoryFile [''stage''] m of (None, m') \<Rightarrow> (Inr ''/stage'', m') | (Some e, m') \<Rightarrow> (Inl e, m')),
      fe_read_stream = (\<lambda>path m. (None, m)), fe_write_stream = (\<lambda>path data m. (Some EIO, m)), fe_getenv = (\<lambda>_. None)\<rparr>"

definition mem_cas :: "memory cas_env" where
  "mem_cas =
     \<lparr>ce_stream = \<lparr>bs_read = (\<lambda>c rn off m. (([], status_of OK), m)), bs_open_write = (\<lambda>c m. m), bs_write = (\<lambda>q m. (True, m)),
        bs_finish = (\<lambda>m. ((status_of OK, 0), m)), fd_open_read = (\<lambda>p m. (None, m)), fd_open_write = (\<lambda>p m. (None, m)), fd_close = (\<lambda>m. m),
        fd_rewind = (\<lambda>m. m), fd_read = (\<lambda>n m. (Inr [], m)), fd_write = (\<lambda>d m. (Inr (length d), m)), fd_size = (\<lambda>m. 0)\<rparr>,
      cas_batch_update = (\<lambda>c inst es m. ((status_of OK, []), m)), cas_batch_read = (\<lambda>c inst ds m. ((status_of OK, []), m)),
      cas_find_missing = (\<lambda>c inst ds m. ((status_of OK, []), m)), cas_get_tree = (\<lambda>c inst d m. (([], status_of OK), m)),
      ce_getFileContents = (\<lambda>p m. (Inr [], m)), ce_writeFileAtomically = (\<lambda>p data mode m. (Inr (), m)),
      write_ofstream = (\<lambda>p data m. (None, m)),
      os_mkdir = (\<lambda>p m. mem_add DirectoryFile (resolve [] p) m), os_symlink = (\<lambda>t p m. mem_add SymbolicLink (resolve [] p) m)\<rparr>"

lemma stage_place: "resolve [] ''/stage'' = [''stage'']" "\<not> is_dots (last (split_at slash ''/stage''))"
  by code_simp+

lemma mem_staging_laws:
  "mkdtemp_law mem_files [] mem_view"
  "descriptor_law (de_opendir mem_env) (de_close mem_env) mem_view"
  "download_law mem_cas (\<lambda>ds outs m. (Inr (), m)) (\<lambda>d m. (Inr (demo_dirs d), m)) [] mem_view"
proof -
  have "new_stage [] mem_view ''/stage'' m m'" if "mem_add DirectoryFile [''stage''] m = (None, m')" for m m'
    using that mem_add_only_at [of "[''stage'']" m DirectoryFile] stage_place
    by (auto simp: new_stage_def mem_add_def only_at_def split: if_splits)
  moreover have "m' = m" if "mem_add DirectoryFile [''stage''] m = (Some e, m')" for m m' e
    using that by (auto simp: mem_add_def split: if_splits)
  ultimately show "mkdtemp_law mem_files [] mem_view" by (fastforce simp: mkdtemp_law_def mem_files_def split: prod.splits option.splits)
  show "descriptor_law (de_opendir mem_env) (de_close mem_env) mem_view"
    by (auto simp: descriptor_law_def mem_env_def mem_open_def Let_def)
  show "download_law mem_cas (\<lambda>ds outs m. (Inr (), m)) (\<lambda>d m. (Inr (demo_dirs d), m)) [] mem_view"
    using mem_add_only_at by (auto simp: download_law_def mem_cas_def) (auto simp: only_at_def)
qed


theorem fallback_stage_cleans_witness:
  "\<exists>r m. new_FallbackStagedDirectory mem_files mem_env (de_opendir mem_env)
      (downloadDirectory 2 mem_cas (\<lambda>ds outs m. (Inr (), m)) (\<lambda>d m. (Inr (demo_dirs d), m))) demo_digest ''/tmp'' demo_memory = Some (Inr r, m) \<and>
    mem_view m [''stage''] = Some DirectoryFile \<and> mem_view m [''keep''] = Some RegularFile \<and>
    (\<exists>m'. delete_FallbackStagedDirectory mem_env (de_close mem_env) r m = Some m' \<and> mem_view m' = mem_view demo_memory)"
proof -
  let ?ret = "\<lambda>d m. (Inr (demo_dirs d), m)" and ?cb = "\<lambda>ds outs m. (Inr (), m)"
  let ?new = "new_FallbackStagedDirectory mem_files mem_env (de_opendir mem_env) (downloadDirectory 2 mem_cas ?cb ?ret) demo_digest ''/tmp'' demo_memory"
  have dirs: "demo_dirs demo_digest = \<lparr>files = [], symlinks = [\<lparr>sn_name = ''l'', sn_target = ''t''\<rparr>],
      directories = [\<lparr>dn_name = ''sub'', dn_digest = empty_digest\<rparr>]\<rparr>" "demo_dirs empty_digest = empty_directory"
    by (simp_all add: demo_dirs_def demo_digest_def empty_digest_def)
  have enough: "downloadDirectory 2 mem_cas ?cb ?ret demo_digest path m \<noteq> None" for path m
    by (auto simp: numeral_2_eq_2 dirs empty_directory_def directory_outputs_def Let_def split: prod.splits option.splits)
  have plain: "serves_plain ?ret"
    by (auto simp: serves_plain_def demo_dirs_def names_plain_def plain_name_def empty_directory_def)
  have "case ?new of Some (Inr fb, m) \<Rightarrow> td_name (fb_stage_directory fb) = ''/stage'' | _ \<Rightarrow> False" by code_simp
  then obtain fb m where new: "?new = Some (Inr fb, m)" "td_name (fb_stage_directory fb) = ''/stage''"
    by (auto split: option.splits prod.splits sum.splits)
  have stage: "mem_view m [''stage''] = Some DirectoryFile" "\<forall>q. \<not> is_prefix [''stage''] q \<longrightarrow> mem_view m q = mem_view demo_memory q"
      "\<forall>m2. only_below mem_view [''stage''] m m2 \<longrightarrow>
         (\<exists>m3. delete_FallbackStagedDirectory mem_env (de_close mem_env) fb m2 = Some m3 \<and> mem_view m3 = mem_view demo_memory)"
    using fallback_stage_cleans [OF mem_law mem_staging_laws plain enough demo_memory_ok, where path = "''/tmp''"] new
    by (auto simp: Let_def stage_place)
  have "mem_view m [''keep''] = Some RegularFile" using stage(2) by (simp add: is_prefix_def demo_memory_def)
  moreover obtain m' where "delete_FallbackStagedDirectory mem_env (de_close mem_env) fb m = Some m'" "mem_view m' = mem_view demo_memory"
    using stage(3) only_below_refl [of mem_view "[''stage'']" m] by fast
  ultimately show ?thesis using new(1) stage(1) by (intro exI [of _ fb] exI [of _ m]) simp
qed

end
