(* ===== verification/Support.thy ===== *)
theory Support
  imports Staging Logstream
begin

text \<open>
  The parts around the client and the runner: the initialisation of a client and of a log stream from connection options, the metadata of its requests
  (\<^verbatim>\<open>buildboxcommon_requestmetadata.cpp\<close>), the child process of a runner and the names of platforms (\<^verbatim>\<open>buildboxcommon_platformutils.cpp\<close>).
\<close>

section \<open>Request metadata\<close>

record tool_details =
  tool_name :: string
  tool_version :: string

record request_metadata =
  rm_tool_details :: tool_details
  rm_action_id :: string
  rm_tool_invocation_id :: string
  rm_correlated_invocations_id :: string

record metadata_generator =
  mg_tool_details :: tool_details
  mg_action_id :: string
  mg_tool_invocation_id :: string
  mg_correlated_invocations_id :: string

definition HEADER_NAME :: string where
  "HEADER_NAME = ''requestmetadata-bin''"

definition new_metadata_generator :: metadata_generator where
  "new_metadata_generator =
     \<lparr>mg_tool_details = \<lparr>tool_name = [], tool_version = []\<rparr>, mg_action_id = [], mg_tool_invocation_id = [], mg_correlated_invocations_id = []\<rparr>"

definition set_tool_details :: "string \<Rightarrow> string \<Rightarrow> metadata_generator \<Rightarrow> metadata_generator" where
  "set_tool_details name version gen = gen\<lparr>mg_tool_details := \<lparr>tool_name = name, tool_version = version\<rparr>\<rparr>"

definition new_metadata_generator_for :: "string \<Rightarrow> string \<Rightarrow> metadata_generator" where
  "new_metadata_generator_for name version = set_tool_details name version new_metadata_generator"

definition set_action_id :: "string \<Rightarrow> metadata_generator \<Rightarrow> metadata_generator" where
  "set_action_id action_id gen = gen\<lparr>mg_action_id := action_id\<rparr>"

definition set_tool_invocation_id :: "string \<Rightarrow> metadata_generator \<Rightarrow> metadata_generator" where
  "set_tool_invocation_id tool_invocation_id gen = gen\<lparr>mg_tool_invocation_id := tool_invocation_id\<rparr>"

definition set_correlated_invocations_id :: "string \<Rightarrow> metadata_generator \<Rightarrow> metadata_generator" where
  "set_correlated_invocations_id correlated_invocations_id gen = gen\<lparr>mg_correlated_invocations_id := correlated_invocations_id\<rparr>"

definition generate_request_metadata :: "metadata_generator \<Rightarrow> string \<Rightarrow> string \<Rightarrow> string \<Rightarrow> request_metadata" where
  "generate_request_metadata gen action_id tool_invocation_id correlated_invocations_id =
     \<lparr>rm_tool_details = mg_tool_details gen, rm_action_id = action_id, rm_tool_invocation_id = tool_invocation_id,
      rm_correlated_invocations_id = correlated_invocations_id\<rparr>"

text \<open>\<open>serialize\<close> is \<^verbatim>\<open>SerializeAsString\<close>; \<^verbatim>\<open>AddMetadata\<close> appends to what the context has.\<close>

definition attach_metadata ::
  "(request_metadata \<Rightarrow> string) \<Rightarrow> metadata_generator \<Rightarrow> string \<Rightarrow> string \<Rightarrow> string \<Rightarrow> client_context \<Rightarrow> client_context" where
  "attach_metadata serialize gen action_id tool_invocation_id correlated_invocations_id context =
     context @ [(HEADER_NAME, serialize (generate_request_metadata gen action_id tool_invocation_id correlated_invocations_id))]"

definition attach_request_metadata :: "(request_metadata \<Rightarrow> string) \<Rightarrow> metadata_generator \<Rightarrow> attacher" where
  "attach_request_metadata serialize gen =
     attach_metadata serialize gen (mg_action_id gen) (mg_tool_invocation_id gen) (mg_correlated_invocations_id gen)"

section \<open>The client\<close>

text \<open>
  \<^verbatim>\<open>d_metadata_attach_function\<close> of a client attaches what its generator has at the time of the call; the setters of the client
  change the generator.
\<close>

definition with_generator :: "(request_metadata \<Rightarrow> string) \<Rightarrow> metadata_generator \<Rightarrow> client \<Rightarrow> client" where
  "with_generator serialize gen cl = cl\<lparr>d_metadata_attach := attach_request_metadata serialize gen\<rparr>"

definition set_request_metadata :: "string \<Rightarrow> string \<Rightarrow> string \<Rightarrow> metadata_generator \<Rightarrow> metadata_generator" where
  "set_request_metadata action_id tool_invocation_id correlated_invocations_id gen =
     set_correlated_invocations_id correlated_invocations_id (set_tool_invocation_id tool_invocation_id (set_action_id action_id gen))"

definition client_setInstanceName :: "string \<Rightarrow> client \<Rightarrow> client" where
  "client_setInstanceName instance_name cl = cl\<lparr>d_instanceName := instance_name\<rparr>"

text \<open>
  \<^verbatim>\<open>Client::init(const ConnectionOptions &)\<close>: \<open>stubs\<close> are those made for the channel, here only the request for the capabilities.
  The limit is an \<^verbatim>\<open>int\<close> that becomes the \<^verbatim>\<open>unsigned int\<close> of a retrier.  A string made of a null pointer is undefined.
\<close>

definition stoi_option :: "string option \<Rightarrow> int result" where
  "stoi_option v = (case v of None \<Rightarrow> Inl Undefined | Some str \<Rightarrow> stoi str)"

definition init_options ::
  "(connection_options \<Rightarrow> channel result) \<Rightarrow> (channel \<Rightarrow> client_context \<Rightarrow> string \<Rightarrow> 's \<Rightarrow> (grpc_status \<times> int) \<times> 's) \<Rightarrow> string \<Rightarrow>
   connection_options \<Rightarrow> client \<Rightarrow> 's \<Rightarrow> client result \<times> 's" where
  "init_options create_channel stubs uuid options cl s =
     (case create_channel options of
        Inl e \<Rightarrow> (Inl e, s)
      | Inr channel \<Rightarrow>
          (case stoi_option (co_retryLimit options) of
             Inl e \<Rightarrow> (Inl e, s)
           | Inr limit \<Rightarrow>
               (case stoi_option (co_retryDelay options) of
                  Inl e \<Rightarrow> (Inl e, s)
                | Inr delay \<Rightarrow>
                    init (stubs channel) uuid
                      (cl\<lparr>d_grpcRetryLimit := nat (limit mod 2 ^ 32), d_grpcRetryDelay := delay,
                          d_instanceName := (case co_instanceName options of None \<Rightarrow> d_instanceName cl | Some name \<Rightarrow> name)\<rparr>) s)))"

section \<open>The child process of a runner\<close>

text \<open>
  \<^verbatim>\<open>Runner::execute\<close> and the part of \<^verbatim>\<open>executeAndStore\<close> that runs in the child.  \<open>exec_error\<close> is the error of \<^verbatim>\<open>execv\<close>, which does not
  return otherwise.  An exception leaves \<^verbatim>\<open>executeAndStore\<close> in the child as it would in the parent, through the destructors of the two
  files.
\<close>

definition execute :: "(string list \<Rightarrow> int) \<Rightarrow> string list \<Rightarrow> unit outcome" where
  "execute exec_error command = Exits (executeCommand exec_error command)"

definition child_process ::
  "'s file_env \<Rightarrow> 's proc_env \<Rightarrow> (string list \<Rightarrow> int) \<Rightarrow> (output_target \<times> output_target) option \<Rightarrow> string list \<Rightarrow> 's \<Rightarrow> unit outcome \<times> 's" where
  "child_process fenv proc exec_error targets command s =
     (case targets of
        None \<Rightarrow> (execute exec_error command, s)
      | Some (stdoutFile, stderrFile) \<Rightarrow>
          (let unwind = \<lambda>e s. (Throws e, output_destroy fenv stdoutFile (output_destroy fenv stderrFile s))
           in case redirectStandardOutputToFile proc 1 (output_name stdoutFile) s of
                (Inl e, s1) \<Rightarrow> unwind e s1
              | (Inr _, s1) \<Rightarrow>
                  (case redirectStandardOutputToFile proc 2 (output_name stderrFile) s1 of
                     (Inl e, s2) \<Rightarrow> unwind e s2
                   | (Inr _, s2) \<Rightarrow> (execute exec_error command, s2))))"

section \<open>Names of platforms\<close>

text \<open>\<^verbatim>\<open>uname\<close> gives an error or \<open>sysname\<close> and \<open>machine\<close>; the code is that for Linux.\<close>

definition getHostOSFamily :: "int + string \<times> string \<Rightarrow> string result" where
  "getHostOSFamily uname = (case uname of Inl e \<Rightarrow> Inl (SystemError e) | Inr (sysname, _) \<Rightarrow> Inr (map tolower sysname))"

definition canonical_arch :: "string \<Rightarrow> string" where
  "canonical_arch arch =
     (if arch \<in> {''i386'', ''i486'', ''i586'', ''i686''} then ''x86-32''
      else if arch = ''amd64'' \<or> arch = ''x86_64'' then ''x86-64''
      else if arch = ''arm'' then ''aarch32''
      else if arch = ''armv8l'' then ''aarch64''
      else if arch = ''armv8b'' then ''aarch64-be''
      else if arch = ''ppc64'' then ''power-isa-be''
      else if arch = ''ppc64le'' then ''power-isa-le''
      else if arch = ''sparc'' \<or> arch = ''sparc64'' \<or> arch = ''sun4v'' then ''sparc-v9''
      else arch)"

definition getHostISA :: "int + string \<times> string \<Rightarrow> string result" where
  "getHostISA uname = (case uname of Inl e \<Rightarrow> Inl (SystemError e) | Inr (_, machine) \<Rightarrow> Inr (canonical_arch machine))"

section \<open>What a client sends and keeps\<close>

text \<open>
  Whatever request a client makes, each attempt carries one header with the tool, the action and the invocations that were set
  last.
\<close>

theorem requests_carry_metadata:
  "let gen' = set_request_metadata action invocation correlated (set_tool_details name version gen);
       retrier = makeRetrier (with_generator serialize gen' cl);
       metadata = \<lparr>rm_tool_details = \<lparr>tool_name = name, tool_version = version\<rparr>, rm_action_id = action,
         rm_tool_invocation_id = invocation, rm_correlated_invocations_id = correlated\<rparr>
   in issueRequest call retrier s = issueRequest (\<lambda>_. call [(''requestmetadata-bin'', serialize metadata)]) retrier s"
proof -
  let ?gen = "set_request_metadata action invocation correlated (set_tool_details name version gen)"
  let ?a = "Some (attach_request_metadata serialize ?gen)"
  have "d_metadataAttacher ((makeRetrier (with_generator serialize ?gen cl))\<lparr>d_retryAttempts := 0\<rparr>) = ?a"
    by (simp add: makeRetrier_def setMetadataAttacher_def with_generator_def)
  from issue_loop_context [OF this, of call s "[]"] show ?thesis
    by (simp add: issueRequest_def attach_def attach_request_metadata_def attach_metadata_def HEADER_NAME_def generate_request_metadata_def
        set_request_metadata_def set_action_id_def set_tool_invocation_id_def set_correlated_invocations_id_def set_tool_details_def)
qed

text \<open>
  A client that has been initialised from connection options retries as the options say, uses the instance they name, and puts no
  more into a batch than the default and, when it states one, the limit of the server.
\<close>

theorem init_options_result:
  assumes "init_options create_channel stubs uuid options cl s = (Inr cl', s')"
  shows "\<exists>limit delay. stoi_option (co_retryLimit options) = Inr limit \<and> stoi_option (co_retryDelay options) = Inr delay \<and>
    d_grpcRetryLimit cl' = nat (limit mod 2 ^ 32) \<and> d_grpcRetryDelay cl' = delay \<and> d_uuid cl' = uuid \<and>
    d_instanceName cl' = (case co_instanceName options of None \<Rightarrow> d_instanceName cl | Some name \<Rightarrow> name) \<and>
    0 < d_maxBatchTotalSizeBytes cl' \<and> d_maxBatchTotalSizeBytes cl' \<le> default_max_batch"
proof -
  obtain channel limit delay where opts: "create_channel options = Inr channel" "stoi_option (co_retryLimit options) = Inr limit"
      "stoi_option (co_retryDelay options) = Inr delay"
    using assms by (auto simp: init_options_def split: sum.splits)
  let ?cl = "cl\<lparr>d_grpcRetryLimit := nat (limit mod 2 ^ 32), d_grpcRetryDelay := delay,
      d_instanceName := (case co_instanceName options of None \<Rightarrow> d_instanceName cl | Some name \<Rightarrow> name)\<rparr>"
  let ?call = "capabilities_call (stubs channel) (d_instanceName ?cl)"
  have "init (stubs channel) uuid ?cl s = (Inr cl', s')" using assms opts by (simp add: init_options_def)
  then have cl': "cl' = ?cl\<lparr>d_maxBatchTotalSizeBytes := snd (i_state (issueRequest ?call (makeRetrier ?cl) (s, default_max_batch))), d_uuid := uuid\<rparr>"
    by (auto simp: init_def Let_def split: sum.splits if_splits)
  have "0 < snd (i_state (issueRequest ?call (makeRetrier ?cl) (s, default_max_batch))) \<and>
      snd (i_state (issueRequest ?call (makeRetrier ?cl) (s, default_max_batch))) \<le> default_max_batch"
    unfolding issueRequest_def
  proof (rule issue_loop_keeps [where keep = "\<lambda>w. 0 < snd w \<and> snd w \<le> default_max_batch"])
    show "0 < snd (s, default_max_batch) \<and> snd (s, default_max_batch) \<le> default_max_batch"
      by (simp add: default_max_batch_def GRPC_DEFAULT_MAX_RECV_MESSAGE_LENGTH_def)
    show "0 < snd (snd (?call c w)) \<and> snd (snd (?call c w)) \<le> default_max_batch" if "0 < snd w \<and> snd w \<le> default_max_batch" for c w
      using that by (auto simp: capabilities_call_def adjust_max_batch_def Let_def split: prod.split)
  qed
  then show ?thesis using cl' opts by simp
qed


definition demo_stubs :: "channel \<Rightarrow> client_context \<Rightarrow> string \<Rightarrow> unit \<Rightarrow> (grpc_status \<times> int) \<times> unit" where
  "demo_stubs channel context instance_name s = ((status_of OK, 1000), ())"

definition demo_options :: connection_options where
  "demo_options = new_connection_options\<lparr>co_url := Some ''http://cas'', co_instanceName := Some ''main''\<rparr>"

theorem init_options_result_witness:
  "\<exists>cl'. init_options (createChannel (\<lambda>_. Inl RuntimeError) False 0) demo_stubs ''uuid'' demo_options demo_client () = (Inr cl', ()) \<and>
     d_grpcRetryLimit cl' = 4 \<and> d_grpcRetryDelay cl' = 1000 \<and> d_instanceName cl' = ''main'' \<and> 0 < d_maxBatchTotalSizeBytes cl'"
proof -
  let ?init = "init_options (createChannel (\<lambda>_. Inl RuntimeError) False 0) demo_stubs ''uuid'' demo_options demo_client ()"
  have "case fst ?init of Inr _ \<Rightarrow> True | _ \<Rightarrow> False" by code_simp
  then obtain cl' where cl': "?init = (Inr cl', ())" by (cases ?init) (auto split: sum.splits)
  have "stoi_option (co_retryLimit demo_options) = Inr 4" "stoi_option (co_retryDelay demo_options) = Inr 1000" by code_simp+
  with init_options_result [OF cl'] cl' show ?thesis by (auto simp: demo_options_def)
qed

text \<open>A negative limit is a very large one.\<close>

lemma init_options_negative_limit:
  assumes "init_options create_channel stubs uuid (options\<lparr>co_retryLimit := Some ''-1''\<rparr>) cl s = (Inr cl', s')"
  shows "d_grpcRetryLimit cl' = 4294967295"
proof -
  have "stoi_option (Some ''-1'') = Inr (- 1)" by code_simp
  then show ?thesis using assms
    by (auto simp: init_options_def init_def Let_def split: sum.splits if_splits)
qed

section \<open>The child process ends\<close>

text \<open>
  The child of a runner ends with 126 or 127 when the command cannot be started, once its outputs are redirected.  When
  redirecting one of them fails, the exception goes on in the child, which still is a copy of the runner, after removing the temporary
  files of its parent.
\<close>

theorem child_process_ends:
  "case child_process fenv proc exec_error targets command s of
     (Exits code, s') \<Rightarrow> code = (if exec_error command = ENOENT then 127 else 126)
   | (Throws e, s') \<Rightarrow> (\<exists>stdoutFile stderrFile s1. targets = Some (stdoutFile, stderrFile) \<and>
       s' = output_destroy fenv stdoutFile (output_destroy fenv stderrFile s1))
   | (Returns _, s') \<Rightarrow> False"
  by (auto simp: child_process_def execute_def executeCommand_def Let_def split: option.split prod.split sum.split)

section \<open>Canonical names\<close>

text \<open>
  The names of instruction sets are canonical: giving the name that \<^verbatim>\<open>getHostISA\<close> returns as the machine again gives the same
  name, and the family of the operating system has no upper case letter.
\<close>

theorem host_names_canonical:
  "getHostISA (map_sum id (map_prod id canonical_arch) uname) = getHostISA uname \<and>
   (\<forall>family c. getHostOSFamily uname = Inr family \<and> c \<in> set family \<longrightarrow> tolower c = c)"
proof -
  have "canonical_arch (canonical_arch arch) = canonical_arch arch" for arch
    by (auto simp: canonical_arch_def)
  moreover have "tolower (tolower c) = tolower c" for c
    by (simp add: tolower_def Let_def)
  ultimately show ?thesis by (auto simp: getHostISA_def getHostOSFamily_def split: sum.splits)
qed


section \<open>Log streams from connection options\<close>

text \<open>
  The constructor and \<^verbatim>\<open>createLogStream\<close> of a log stream with connection options.  The channel is made first in \<^verbatim>\<open>createLogStream\<close>; the
  order of the arguments of the constructor is up to the compiler, and is the one of the text here.
\<close>

definition new_log_writer_options ::
  "(connection_options \<Rightarrow> channel result) \<Rightarrow> string \<Rightarrow> connection_options \<Rightarrow> (channel \<times> log_writer) result" where
  "new_log_writer_options create_channel resourceName options =
     (case create_channel options of
        Inl e \<Rightarrow> Inl e
      | Inr channel \<Rightarrow>
          (case stoi_option (co_retryLimit options) of
             Inl e \<Rightarrow> Inl e
           | Inr limit \<Rightarrow>
               (case stoi_option (co_retryDelay options) of
                  Inl e \<Rightarrow> Inl e
                | Inr delay \<Rightarrow> Inr (channel, new_log_writer resourceName limit delay))))"

definition createLogStream_options ::
  "(connection_options \<Rightarrow> channel result) \<Rightarrow> (channel \<Rightarrow> 's log_env) \<Rightarrow> string \<Rightarrow> connection_options \<Rightarrow> 's \<Rightarrow> (string \<times> string) result \<times> 's" where
  "createLogStream_options create_channel new_stub parent options s =
     (case create_channel options of
        Inl e \<Rightarrow> (Inl e, s)
      | Inr channel \<Rightarrow>
          (case stoi_option (co_retryLimit options) of
             Inl e \<Rightarrow> (Inl e, s)
           | Inr retryLimit \<Rightarrow>
               (case stoi_option (co_retryDelay options) of
                  Inl e \<Rightarrow> (Inl e, s)
                | Inr retryDelay \<Rightarrow> createLogStream (Some (new_stub channel)) parent retryLimit retryDelay s)))"

lemma init_options_parts:
  assumes "init_options create_channel stubs uuid options cl s = (Inr cl', s')"
  obtains channel limit delay where "create_channel options = Inr channel" "stoi_option (co_retryLimit options) = Inr limit"
    "stoi_option (co_retryDelay options) = Inr delay" "d_grpcRetryLimit cl' = nat (limit mod 2 ^ 32)" "d_grpcRetryDelay cl' = delay"
  using assms by (auto simp: init_options_def init_def Let_def split: sum.splits if_splits)

text \<open>
  A log stream made from the options of a client uses the channel and the retries of that client, and its constructor does not
  throw when the client could be initialised.
\<close>

theorem log_stream_retries_alike:
  assumes "init_options create_channel stubs uuid options cl s = (Inr cl', s')"
  shows "\<exists>channel. create_channel options = Inr channel \<and>
    new_log_writer_options create_channel resourceName options =
      Inr (channel, new_log_writer resourceName (int (d_grpcRetryLimit cl')) (d_grpcRetryDelay cl')) \<and>
    createLogStream_options create_channel new_stub parent options w =
      createLogStream (Some (new_stub channel)) parent (int (d_grpcRetryLimit cl')) (d_grpcRetryDelay cl') w"
proof -
  obtain channel limit delay where opts: "create_channel options = Inr channel" "stoi_option (co_retryLimit options) = Inr limit"
    "stoi_option (co_retryDelay options) = Inr delay" "d_grpcRetryLimit cl' = nat (limit mod 2 ^ 32)" "d_grpcRetryDelay cl' = delay"
    using assms by (rule init_options_parts)
  have "(word_of_int (int (nat (limit mod 2 ^ 32))) :: 32 word) = word_of_int limit"
    by (simp add: word_of_int_eq_iff take_bit_eq_mod)
  with opts show ?thesis
    by (simp add: new_log_writer_options_def createLogStream_options_def new_log_writer_def createLogStream_def)
qed

theorem log_stream_retries_alike_witness:
  "\<exists>channel cl'. init_options (createChannel (\<lambda>_. Inl RuntimeError) False 0) demo_stubs ''uuid'' demo_options demo_client () = (Inr cl', ()) \<and>
     new_log_writer_options (createChannel (\<lambda>_. Inl RuntimeError) False 0) ''log'' demo_options =
       Inr (channel, new_log_writer ''log'' (int (d_grpcRetryLimit cl')) (d_grpcRetryDelay cl'))"
proof -
  let ?init = "init_options (createChannel (\<lambda>_. Inl RuntimeError) False 0) demo_stubs ''uuid'' demo_options demo_client ()"
  have "case fst ?init of Inr _ \<Rightarrow> True | _ \<Rightarrow> False" by code_simp
  then obtain cl' where "?init = (Inr cl', ())" by (cases ?init) (auto split: sum.splits)
  with log_stream_retries_alike [OF this, where resourceName = "''log''" and w = "()"] show ?thesis by blast
qed

end
