(* ===== verification/Logger.thy ===== *)
theory Logger
  imports Runner_Args
begin

text \<open>
  The logger of \<^verbatim>\<open>buildboxcommon_logging.cpp\<close>, which sets flags of glog, the macros of \<^verbatim>\<open>buildboxcommon_logging.h\<close>, and
  how a runner uses them; with the scope guard of \<^verbatim>\<open>buildboxcommon_scopeguard.cpp\<close>, which logs.
\<close>

section \<open>Levels and severities\<close>

datatype severity = GLOG_INFO | GLOG_WARNING | GLOG_ERROR | GLOG_FATAL

text \<open>Both are enumerations that the code compares by their values.\<close>

fun level_number :: "log_level \<Rightarrow> nat" where
  "level_number TRACE = 0"
| "level_number DEBUG = 1"
| "level_number INFO = 2"
| "level_number WARNING = 3"
| "level_number ERROR = 4"

fun severity_number :: "severity \<Rightarrow> nat" where
  "severity_number GLOG_INFO = 0"
| "severity_number GLOG_WARNING = 1"
| "severity_number GLOG_ERROR = 2"
| "severity_number GLOG_FATAL = 3"

lemma level_number_inj: "level_number a = level_number b \<Longrightarrow> a = b"
  by (cases a; cases b) simp_all

lemma severity_number_inj: "severity_number a = severity_number b \<Longrightarrow> a = b"
  by (cases a; cases b) simp_all

instantiation log_level :: linorder
begin

definition less_eq_log_level :: "log_level \<Rightarrow> log_level \<Rightarrow> bool" where
  "less_eq_log_level a b \<longleftrightarrow> level_number a \<le> level_number b"

definition less_log_level :: "log_level \<Rightarrow> log_level \<Rightarrow> bool" where
  "less_log_level a b \<longleftrightarrow> level_number a < level_number b"

instance
  by standard (auto simp: less_eq_log_level_def less_log_level_def intro: level_number_inj)

end

instantiation severity :: linorder
begin

definition less_eq_severity :: "severity \<Rightarrow> severity \<Rightarrow> bool" where
  "less_eq_severity a b \<longleftrightarrow> severity_number a \<le> severity_number b"

definition less_severity :: "severity \<Rightarrow> severity \<Rightarrow> bool" where
  "less_severity a b \<longleftrightarrow> severity_number a < severity_number b"

instance
  by standard (auto simp: less_eq_severity_def less_severity_def intro: severity_number_inj)

end

lemmas level_order = less_eq_log_level_def less_log_level_def less_eq_severity_def less_severity_def

text \<open>The map from levels to names is an ordered map.\<close>

lemma logLevelToStringMap_sorted: "sorted_wrt (<) (map fst logLevelToStringMap)"
  by (simp add: logLevelToStringMap_def level_order)

section \<open>The logger\<close>


text \<open>The members of the logger and the flags of glog that it sets.\<close>

record logger =
  lg_logOutputDirectory :: "string option"
  lg_glogInitialized :: bool
  FLAGS_log_dir :: string
  FLAGS_logtostderr :: bool
  FLAGS_alsologtostderr :: bool
  FLAGS_log_prefix :: bool
  FLAGS_stderrthreshold :: severity
  vlog_level :: int

definition setOutputDirectory :: "string option \<Rightarrow> logger \<Rightarrow> unit result \<times> logger" where
  "setOutputDirectory outputDirectory lg =
     (if lg_glogInitialized lg then (Inl RuntimeError, lg) else (Inr (), lg\<lparr>lg_logOutputDirectory := outputDirectory\<rparr>))"

definition initialize_logger :: "string option \<Rightarrow> logger \<Rightarrow> unit result \<times> logger" where
  "initialize_logger programName lg =
     (if programName = None \<or> programName = Some [] then (Inl RuntimeError, lg)
      else if lg_glogInitialized lg then (Inl RuntimeError, lg)
      else
        (let lg1 = (case lg_logOutputDirectory lg of
                      Some dir \<Rightarrow> lg\<lparr>FLAGS_log_dir := dir, FLAGS_logtostderr := False, FLAGS_alsologtostderr := False\<rparr>
                    | None \<Rightarrow> lg\<lparr>FLAGS_logtostderr := True\<rparr>)
         in (Inr (), lg1\<lparr>FLAGS_log_prefix := False, lg_glogInitialized := True\<rparr>)))"

definition setLogLevel :: "log_level \<Rightarrow> logger \<Rightarrow> logger" where
  "setLogLevel logLevel lg =
     (if FLAGS_logtostderr lg \<or> FLAGS_alsologtostderr lg
      then
        (let lg1 = lg\<lparr>FLAGS_stderrthreshold :=
                        (if logLevel = WARNING then GLOG_WARNING else if logLevel = ERROR then GLOG_ERROR else GLOG_INFO)\<rparr>
         in if logLevel = DEBUG then lg1\<lparr>vlog_level := 1\<rparr> else if logLevel = TRACE then lg1\<lparr>vlog_level := 2\<rparr> else lg1)
      else lg)"

definition disableStderr :: "logger \<Rightarrow> logger" where
  "disableStderr lg = lg\<lparr>FLAGS_logtostderr := False, FLAGS_alsologtostderr := False, FLAGS_stderrthreshold := GLOG_FATAL\<rparr>"

section \<open>Messages\<close>

text \<open>The macros: messages of the two lowest levels are verbose messages of glog, the others have a severity.\<close>

datatype log_statement = Vlog int | Log severity

fun log_macro :: "log_level \<Rightarrow> log_statement" where
  "log_macro TRACE = Vlog 2"
| "log_macro DEBUG = Vlog 1"
| "log_macro INFO = Log GLOG_INFO"
| "log_macro WARNING = Log GLOG_WARNING"
| "log_macro ERROR = Log GLOG_ERROR"

text \<open>A message is at or above what the logger has set; whether it is written is up to glog.\<close>

definition wanted :: "logger \<Rightarrow> log_level \<Rightarrow> bool" where
  "wanted lg m = (case log_macro m of Vlog n \<Rightarrow> n \<le> vlog_level lg | Log sev \<Rightarrow> FLAGS_stderrthreshold lg \<le> sev)"

section \<open>A runner\<close>

text \<open>
  When \<^verbatim>\<open>parseArguments\<close> succeeds and leaves these options to the base class: the arguments that concern the logger, in their
  order, then \<^verbatim>\<open>initialize\<close> and the level of \<^verbatim>\<open>--log-level\<close>.
\<close>

definition runner_logger_arg :: "(string \<Rightarrow> bool) \<Rightarrow> string \<Rightarrow> logger \<Rightarrow> logger" where
  "runner_logger_arg is_directory arg lg =
     (if arg = ''--verbose'' then setLogLevel DEBUG lg
      else if take 2 arg = ''--'' then
        (case split_option (drop 2 arg) of
           (key, Some value) \<Rightarrow> if key = ''log-directory'' \<and> is_directory value then snd (setOutputDirectory (Some value) lg) else lg
         | (_, None) \<Rightarrow> lg)
      else lg)"

definition runner_logger :: "(string \<Rightarrow> bool) \<Rightarrow> string list \<Rightarrow> log_level \<Rightarrow> logger \<Rightarrow> unit result \<times> logger" where
  "runner_logger is_directory argv logLevel lg =
     (case initialize_logger (Some (hd argv)) (foldl (\<lambda>lg arg. runner_logger_arg is_directory arg lg) lg (tl argv)) of
        (Inl e, lg1) \<Rightarrow> (Inl e, lg1)
      | (Inr _, lg1) \<Rightarrow> (Inr (), setLogLevel logLevel lg1))"

section \<open>The destination of the log\<close>

datatype logger_call = SetOutputDirectory "string option" | Initialize "string option" | SetLogLevel log_level | DisableStderr

text \<open>A call; the caller goes on after an exception.\<close>

fun logger_do :: "logger_call \<Rightarrow> logger \<Rightarrow> logger" where
  "logger_do (SetOutputDirectory dir) lg = snd (setOutputDirectory dir lg)"
| "logger_do (Initialize name) lg = snd (initialize_logger name lg)"
| "logger_do (SetLogLevel level) lg = setLogLevel level lg"
| "logger_do DisableStderr lg = disableStderr lg"

text \<open>Once initialised, and with a directory, nothing goes to standard error but what glog copies there.\<close>

definition logger_inv :: "logger \<Rightarrow> bool" where
  "logger_inv lg \<longleftrightarrow> (lg_glogInitialized lg \<longrightarrow>
     (case lg_logOutputDirectory lg of
        None \<Rightarrow> True
      | Some dir \<Rightarrow> FLAGS_log_dir lg = dir \<and> \<not> FLAGS_logtostderr lg \<and> \<not> FLAGS_alsologtostderr lg))"

lemma logger_inv_do: "logger_inv lg \<Longrightarrow> logger_inv (logger_do c lg)"
  by (cases c) (auto simp: logger_inv_def setOutputDirectory_def initialize_logger_def setLogLevel_def disableStderr_def Let_def split: option.splits)

lemma logger_do_fixed:
  "lg_glogInitialized lg \<Longrightarrow> lg_glogInitialized (logger_do c lg) \<and> lg_logOutputDirectory (logger_do c lg) = lg_logOutputDirectory lg \<and>
     FLAGS_log_dir (logger_do c lg) = FLAGS_log_dir lg"
  by (cases c) (auto simp: setOutputDirectory_def initialize_logger_def setLogLevel_def disableStderr_def Let_def)

text \<open>
  The destination of the log is fixed by the first successful \<^verbatim>\<open>initialize\<close>: whatever is called before and afterwards, a log that
  goes to a directory goes to the one set before \<^verbatim>\<open>initialize\<close> and not to standard error, and a second \<^verbatim>\<open>initialize\<close> or
  \<^verbatim>\<open>setOutputDirectory\<close> throws.
\<close>

theorem logger_destination_fixed:
  assumes "\<not> lg_glogInitialized lg0" "lg = foldl (\<lambda>lg c. logger_do c lg) lg0 calls_before"
    and "initialize_logger (Some name) lg = (Inr (), lg1)" "lg2 = foldl (\<lambda>lg c. logger_do c lg) lg1 calls_after"
  shows "lg_logOutputDirectory lg2 = lg_logOutputDirectory lg \<and> fst (initialize_logger (Some name') lg2) = Inl RuntimeError \<and>
    fst (setOutputDirectory dir' lg2) = Inl RuntimeError \<and>
    (\<forall>dir. lg_logOutputDirectory lg = Some dir \<longrightarrow> FLAGS_log_dir lg2 = dir \<and> \<not> FLAGS_logtostderr lg2)"
proof -
  have "logger_inv (foldl (\<lambda>lg c. logger_do c lg) l cs)" if "logger_inv l" for l cs
    using that by (induction cs arbitrary: l) (auto intro: logger_inv_do)
  moreover have "logger_inv lg0" using assms(1) by (simp add: logger_inv_def)
  moreover have "lg1 = logger_do (Initialize (Some name)) lg" using assms(3) by simp
  ultimately have inv: "logger_inv lg2" using assms(2,4) logger_inv_do by metis
  have fixed: "lg_glogInitialized l \<Longrightarrow> lg_glogInitialized (foldl (\<lambda>lg c. logger_do c lg) l cs) \<and>
      lg_logOutputDirectory (foldl (\<lambda>lg c. logger_do c lg) l cs) = lg_logOutputDirectory l" for l cs
    using logger_do_fixed by (induction cs arbitrary: l) auto
  have "lg_glogInitialized lg1" "lg_logOutputDirectory lg1 = lg_logOutputDirectory lg"
    using assms(3) by (auto simp: initialize_logger_def Let_def split: if_splits option.splits)
  then have "lg_glogInitialized lg2" "lg_logOutputDirectory lg2 = lg_logOutputDirectory lg" using fixed assms(4) by auto
  then show ?thesis using inv by (auto simp: logger_inv_def initialize_logger_def setOutputDirectory_def)
qed

definition fresh_logger :: logger where
  "fresh_logger = \<lparr>lg_logOutputDirectory = None, lg_glogInitialized = False, FLAGS_log_dir = [], FLAGS_logtostderr = False,
     FLAGS_alsologtostderr = False, FLAGS_log_prefix = True, FLAGS_stderrthreshold = GLOG_ERROR, vlog_level = 0\<rparr>"

definition demo_logger :: logger where
  "demo_logger = foldl (\<lambda>lg c. logger_do c lg) fresh_logger [SetOutputDirectory (Some ''/logs'')]"

definition demo_logger_later :: logger where
  "demo_logger_later =
     foldl (\<lambda>lg c. logger_do c lg) (snd (initialize_logger (Some ''runner'') demo_logger)) [SetLogLevel TRACE, SetOutputDirectory None]"

theorem logger_destination_fixed_witness:
  "FLAGS_log_dir demo_logger_later = ''/logs'' \<and> \<not> FLAGS_logtostderr demo_logger_later \<and>
   fst (setOutputDirectory None demo_logger_later) = Inl RuntimeError"
proof -
  have "initialize_logger (Some ''runner'') demo_logger = (Inr (), snd (initialize_logger (Some ''runner'') demo_logger))"
    and dir: "lg_logOutputDirectory demo_logger = Some ''/logs''" and new: "\<not> lg_glogInitialized fresh_logger"
    by (simp_all add: demo_logger_def fresh_logger_def initialize_logger_def setOutputDirectory_def)
  from logger_destination_fixed [OF new demo_logger_def this(1) demo_logger_later_def] dir show ?thesis by simp
qed

section \<open>Levels\<close>

text \<open>
  After one call of \<^verbatim>\<open>setLogLevel\<close> exactly the messages of that level and above are wanted, for a log that goes to standard error.
\<close>

theorem setLogLevel_wanted:
  assumes "FLAGS_logtostderr lg" "vlog_level lg = 0"
  shows "wanted (setLogLevel level lg) m \<longleftrightarrow> level \<le> m"
  using assms by (cases level; cases m) (simp_all add: wanted_def setLogLevel_def level_order)

theorem setLogLevel_wanted_witness:
  "wanted (setLogLevel DEBUG (snd (initialize_logger (Some ''run'') fresh_logger))) INFO \<and>
   \<not> wanted (setLogLevel DEBUG (snd (initialize_logger (Some ''run'') fresh_logger))) TRACE"
proof -
  let ?lg = "snd (initialize_logger (Some ''run'') fresh_logger)"
  have "FLAGS_logtostderr ?lg" "vlog_level ?lg = 0" by (simp_all add: initialize_logger_def fresh_logger_def)
  then show ?thesis using setLogLevel_wanted [of ?lg DEBUG] by (simp add: level_order)
qed

text \<open>
  A second call does not lower the level of verbose messages: after \<^verbatim>\<open>TRACE\<close>, trace messages are wanted at every other level but
  \<^verbatim>\<open>DEBUG\<close>.
\<close>

theorem setLogLevel_stays_verbose:
  "FLAGS_logtostderr lg \<Longrightarrow> level \<noteq> DEBUG \<Longrightarrow> wanted (setLogLevel level (setLogLevel TRACE lg)) TRACE"
  by (cases level) (simp_all add: setLogLevel_def wanted_def)

definition quiet :: "logger \<Rightarrow> bool" where
  "quiet lg \<longleftrightarrow> \<not> FLAGS_logtostderr lg \<and> \<not> FLAGS_alsologtostderr lg"

lemma quiet_setLogLevel: "quiet lg \<Longrightarrow> setLogLevel level lg = lg"
  by (simp add: quiet_def setLogLevel_def)

lemma quiet_setOutputDirectory: "quiet lg \<Longrightarrow> quiet (snd (setOutputDirectory dir lg))"
  by (simp add: quiet_def setOutputDirectory_def)

lemma quiet_arg: "quiet lg \<Longrightarrow> quiet (runner_logger_arg is_directory arg lg)"
  unfolding runner_logger_arg_def
  by (cases "split_option (drop 2 arg)"; cases "snd (split_option (drop 2 arg))")
    (simp_all only: quiet_setLogLevel quiet_setOutputDirectory prod.case option.case snd_conv if_True if_False split: if_split, simp_all)

lemma quiet_verbose: "quiet lg \<Longrightarrow> runner_logger_arg is_directory ''--verbose'' lg = lg"
  by (simp only: runner_logger_arg_def quiet_setLogLevel if_True refl)

lemma quiet_args:
  "quiet lg \<Longrightarrow> foldl (\<lambda>lg arg. runner_logger_arg is_directory arg lg) lg args =
     foldl (\<lambda>lg arg. runner_logger_arg is_directory arg lg) lg (filter (\<lambda>arg. arg \<noteq> ''--verbose'') args)"
proof (induction args arbitrary: lg)
  case (Cons arg args)
  show ?case
  proof (cases "arg = ''--verbose''")
    case True
    then show ?thesis using Cons.IH [OF Cons.prems] quiet_verbose [OF Cons.prems] by (simp only: foldl.simps filter.simps if_False not_True_eq_False simp_thms)
  next
    case False
    then show ?thesis using Cons.IH [OF quiet_arg [OF Cons.prems]] by (simp only: foldl.simps filter.simps if_True not_False_eq_True)
  qed
qed simp

text \<open>
  The option \<^verbatim>\<open>--verbose\<close> of a runner has no effect: it sets the level before the logger is initialised, when no log goes to
  standard error.
\<close>

theorem runner_verbose_ignored:
  assumes "\<not> FLAGS_logtostderr lg" "\<not> FLAGS_alsologtostderr lg"
  shows "runner_logger is_directory (program # args) level lg =
    runner_logger is_directory (program # filter (\<lambda>arg. arg \<noteq> ''--verbose'') args) level lg"
  unfolding runner_logger_def list.sel using quiet_args [of lg is_directory args] assms by (simp add: quiet_def)

theorem runner_verbose_ignored_witness:
  "runner_logger (\<lambda>_. False) (''run'' # [''--verbose'', ''--remote=unix:/x'']) INFO fresh_logger =
   runner_logger (\<lambda>_. False) (''run'' # [''--remote=unix:/x'']) INFO fresh_logger"
proof -
  have "filter (\<lambda>arg. arg \<noteq> ''--verbose'') [''--verbose'', ''--remote=unix:/x''] = [''--remote=unix:/x'']" by simp
  moreover have "\<not> FLAGS_logtostderr fresh_logger" "\<not> FLAGS_alsologtostderr fresh_logger" by (simp_all add: fresh_logger_def)
  note runner_verbose_ignored [OF this, of "\<lambda>_. False" "''run''" "[''--verbose'', ''--remote=unix:/x'']" INFO]
  ultimately show ?thesis by metis
qed

section \<open>Scope guards\<close>

text \<open>
  \<^verbatim>\<open>ScopeGuard\<close> (\<^verbatim>\<open>buildboxcommon_scopeguard.cpp\<close>) calls a function when it is destroyed and logs how that ended.  \<open>CallbackThrew\<close> has the text
  of a \<^verbatim>\<open>std::exception\<close> and \<open>None\<close> for anything else that is thrown; an empty \<^verbatim>\<open>std::function\<close> is one that throws.
\<close>

datatype callback_end = CallbackReturned | CallbackThrew "string option"

definition destroy_ScopeGuard :: "('s \<Rightarrow> callback_end \<times> 's) \<Rightarrow> 's \<Rightarrow> (log_level \<times> string) \<times> 's" where
  "destroy_ScopeGuard d_callback s =
     (case d_callback s of
        (CallbackReturned, s') \<Rightarrow> ((DEBUG, ''Callback function returned successfully''), s')
      | (CallbackThrew (Some what), s') \<Rightarrow> ((WARNING, ''Callback function threw an exception: '' @ what), s')
      | (CallbackThrew None, s') \<Rightarrow> ((WARNING, ''Callback function threw''), s'))"

text \<open>A block with a guard, for each guard of a list in the order of their declarations; the body returns or throws.\<close>

fun guarded :: "('s \<Rightarrow> callback_end \<times> 's) list \<Rightarrow> ('s \<Rightarrow> 'a result \<times> 's) \<Rightarrow> 's \<Rightarrow> ('a result \<times> (log_level \<times> string) list) \<times> 's" where
  "guarded [] body s = (let (r, s') = body s in ((r, []), s'))"
| "guarded (callback # callbacks) body s =
     (let ((r, lines), s1) = guarded callbacks body s; (line, s2) = destroy_ScopeGuard callback s1 in ((r, lines @ [line]), s2))"

lemma destroy_ScopeGuard_calls:
  "snd (destroy_ScopeGuard callback s) = snd (callback s)"
  by (auto simp: destroy_ScopeGuard_def split: prod.split callback_end.split option.split)

text \<open>
  Whatever the callbacks throw and whether the body returns or throws, each callback is called once, after the body and in the
  reverse order of the declarations, the outcome is that of the body, and each guard logs one line.
\<close>

theorem scope_guards_run:
  "snd (guarded callbacks body s) = foldr (\<lambda>callback s. snd (callback s)) callbacks (snd (body s)) \<and>
   fst (fst (guarded callbacks body s)) = fst (body s) \<and> length (snd (fst (guarded callbacks body s))) = length callbacks"
  by (induction callbacks) (simp_all add: destroy_ScopeGuard_calls case_prod_beta Let_def)


end
