(* ===== verification/Texts.thy ===== *)
theory Texts
  imports Support Logger
begin

text \<open>
  The texts that the code prints: connection options and their help, the help of a runner, default values and argument
  specifications, the messages of exceptions and of retries, and the beginning of a line of the log.  Numbers that the library
  formats, and the time, are given as text.
\<close>

definition quote :: string where
  "quote = [CHR 0x22]"

text \<open>The last component of a path to a source file, which does not end in a slash.\<close>

definition file_part :: "string \<Rightarrow> string" where
  "file_part path = (case rfind slash path of None \<Rightarrow> path | Some i \<Rightarrow> drop (i + 1) path)"

section \<open>Connection options\<close>

definition safeStream :: "string option \<Rightarrow> string" where
  "safeStream var = (case var of Some v \<Rightarrow> v | None \<Rightarrow> ''null'')"

definition quoted :: "string option \<Rightarrow> string" where
  "quoted var = quote @ safeStream var @ quote"

text \<open>The quotation mark after the delay is printed twice.\<close>

definition show_connection_options :: "connection_options \<Rightarrow> string" where
  "show_connection_options obj =
     ''url = '' @ quoted (co_url obj) @ '', instance = '' @ quoted (co_instanceName obj) @
     '', serverCert = '' @ quoted (co_serverCert obj) @ '', serverCertPath = '' @ quoted (co_serverCertPath obj) @
     '', clientKey = '' @ quoted (co_clientKey obj) @ '', clientKeyPath = '' @ quoted (co_clientKeyPath obj) @
     '', clientCert = '' @ quoted (co_clientCert obj) @ '', clientCertPath = '' @ quoted (co_clientCertPath obj) @
     '', accessTokenPath = '' @ quoted (co_accessTokenPath obj) @
     '', token-reload-interval = '' @ quoted (co_tokenReloadInterval obj) @
     '', googleapi-auth = '' @ show_bool (co_useGoogleApiAuth obj) @ '', retry-limit = '' @ quoted (co_retryLimit obj) @
     '', retry-delay = '' @ quoted (co_retryDelay obj) @ quote @ '', load-balancing-policy = '' @ quoted (co_loadBalancingPolicy obj)"

definition printPadded :: "int \<Rightarrow> string \<Rightarrow> string" where
  "printPadded padWidth str = ''    '' @ str @ replicate (nat (padWidth - 5) - length str) (CHR '' '') @ '' ''"

text \<open>An option of the help: its name, what stands after the equals sign if there is one, and the description.\<close>

type_synonym help_entry = "string \<times> string option \<times> string"

definition show_entry :: "int \<Rightarrow> string \<Rightarrow> help_entry \<Rightarrow> string" where
  "show_entry padWidth p entry =
     (case entry of (name, arg, desc) \<Rightarrow>
        printPadded padWidth (''--'' @ p @ name @ (case arg of None \<Rightarrow> [] | Some a \<Rightarrow> ''='' @ a)) @ desc @ [CHR 0x0A])"

definition connection_help :: "string \<Rightarrow> help_entry list" where
  "connection_help serviceName =
     [(''remote'', Some ''URL'', ''URL for '' @ serviceName @ '' service''),
      (''instance'', Some ''NAME'', ''Name of the '' @ serviceName @ '' instance''),
      (''server-cert'', Some ''PATH'', ''Public server certificate for TLS (PEM-encoded)''),
      (''client-key'', Some ''PATH'', ''Private client key for TLS (PEM-encoded)''),
      (''client-cert'', Some ''PATH'', ''Public client certificate for TLS (PEM-encoded)''),
      (''access-token'', Some ''PATH'',
       ''Access Token for authentication (e.g. JWT, OAuth access token, etc), will be included as an HTTP Authorization bearer token.''),
      (''token-reload-interval'', Some ''MINUTES'',
       ''Time to wait before refreshing access token from disk again. The following suffixes can be optionally specified: M (minutes), H (hours). Value defaults to minutes if suffix not specified.''),
      (''googleapi-auth'', None, ''Use GoogleAPIAuth when this flag is set.''),
      (''retry-limit'', Some ''INT'', ''Number of times to retry on grpc errors''),
      (''retry-delay'', Some ''MILLISECONDS'', ''How long to wait before the first grpc retry''),
      (''load-balancing-policy'', None,
       ''Which grpc load balancing policy to use. Valid options are '' @ [CHR 0x27] @ ''round_robin'' @ [CHR 0x27] @ '' and '' @ [CHR 0x27] @ ''grpclb'' @ [CHR 0x27])]"

definition printArgHelp :: "int \<Rightarrow> string \<Rightarrow> string option \<Rightarrow> string" where
  "printArgHelp padWidth serviceName p =
     concat (map (show_entry padWidth (case p of None \<Rightarrow> [] | Some q \<Rightarrow> q)) (connection_help serviceName))"

section \<open>A runner\<close>

definition runner_help :: "help_entry list" where
  "runner_help =
     [(''action'', Some ''PATH'', ''Path to read input Action from''),
      (''action-result'', Some ''PATH'', ''Path to write output ActionResult to''),
      (''log-level'', Some ''LEVEL'', ''(default: info) Log verbosity: '' @ stringifyLogLevels),
      (''verbose'', None, ''Set log level to debug''),
      (''log-directory'', Some ''DIR'', ''Write logs to this directory with filenames:''),
      (''use-localcas'', None, ''Use LocalCAS protocol methods (default behavior)''),
      (''disable-localcas'', None, ''Do not use LocalCAS protocol methods''),
      (''workspace-path'', Some ''PATH'', ''Location on disk which runner will use as root when executing jobs''),
      (''stdout-file'', Some ''FILE'', ''File to redirect the command'' @ [CHR 0x27] @ ''s stdout to''),
      (''stderr-file'', Some ''FILE'', ''File to redirect the command'' @ [CHR 0x27] @ ''s stderr to''),
      (''no-logs-capture'', None, ''Do not capture and upload the contents written to stdout and stderr''),
      (''capabilities'', None, ''Print capabilities supported by this runner''),
      (''validate-parameters'', None, ''Only check whether all the required parameters are being passed and that no'')]"

text \<open>The lines that follow an entry on lines of their own.\<close>

definition help_continued :: "string \<Rightarrow> string \<Rightarrow> string" where
  "help_continued programName name =
     (if name = ''log-directory'' then
        replicate 32 (CHR '' '') @ programName @ ''.<hostname>.<user name>.log.<severity level>.<date>.<time>.<pid>'' @ [CHR 0x0A]
      else if name = ''use-localcas'' then replicate 32 (CHR '' '') @ ''NOTE: this option will be deprecated.'' @ [CHR 0x0A]
      else if name = ''validate-parameters'' then
        replicate 32 (CHR '' '') @ ''unknown options are given. Exits with a status code containing the result (0 if successful).'' @ [CHR 0x0A]
      else [])"

definition runner_usage :: "string \<Rightarrow> string" where
  "runner_usage name =
     [CHR 0x0A] @ ''usage: '' @ name @ '' [OPTIONS]'' @ [CHR 0x0A] @
     concat (map (\<lambda>entry. show_entry 32 [] entry @ help_continued (file_part name) (fst entry)) runner_help) @
     printArgHelp 32 ''CAS'' None"

section \<open>Default values and argument specifications\<close>

text \<open>
  The members of a default value that its constructor does not initialise are indeterminate; the string always is empty at least.
\<close>

definition default_getString :: "'d default_value \<Rightarrow> string" where
  "default_getString d = (case d of DefaultString s \<Rightarrow> s | _ \<Rightarrow> [])"

definition default_getInt :: "'d default_value \<Rightarrow> int result" where
  "default_getInt d = (case d of NoDefault \<Rightarrow> Inr 0 | DefaultInt i \<Rightarrow> Inr i | _ \<Rightarrow> Inl Undefined)"

definition default_getDouble :: "'d::zero default_value \<Rightarrow> 'd result" where
  "default_getDouble d = (case d of NoDefault \<Rightarrow> Inr 0 | DefaultDouble x \<Rightarrow> Inr x | _ \<Rightarrow> Inl Undefined)"

definition default_getBool :: "'d default_value \<Rightarrow> bool result" where
  "default_getBool d = (case d of NoDefault \<Rightarrow> Inr False | DefaultBool b \<Rightarrow> Inr b | _ \<Rightarrow> Inl Undefined)"

definition default_print :: "('d::zero \<Rightarrow> string) \<Rightarrow> 'd default_value \<Rightarrow> data_type \<Rightarrow> string result" where
  "default_print show_double d t =
     map_sum id (\<lambda>v. ''['' @ v @ '']'')
       (case t of
          COMMANDLINE_DT_STRING \<Rightarrow> Inr (quote @ default_getString d @ quote)
        | COMMANDLINE_DT_INT \<Rightarrow> map_sum id show_int (default_getInt d)
        | COMMANDLINE_DT_DOUBLE \<Rightarrow> map_sum id show_double (default_getDouble d)
        | COMMANDLINE_DT_BOOL \<Rightarrow> map_sum id show_bool (default_getBool d)
        | _ \<Rightarrow> Inr [])"

text \<open>The enumerations are printed as their numbers.\<close>

fun data_type_number :: "data_type \<Rightarrow> int" where
  "data_type_number COMMANDLINE_DT_STRING = 0"
| "data_type_number COMMANDLINE_DT_INT = 1"
| "data_type_number COMMANDLINE_DT_DOUBLE = 2"
| "data_type_number COMMANDLINE_DT_BOOL = 3"
| "data_type_number COMMANDLINE_DT_STRING_ARRAY = 4"
| "data_type_number COMMANDLINE_DT_STRING_PAIR_ARRAY = 5"
| "data_type_number COMMANDLINE_DT_UNKNOWN = 6"

definition show_type_info :: "type_info \<Rightarrow> string" where
  "show_type_info obj = show_int (data_type_number (ti_dataType obj))"

definition show_argument_spec :: "('d::zero \<Rightarrow> string) \<Rightarrow> 'd argument_spec \<Rightarrow> string result" where
  "show_argument_spec show_double obj =
     map_sum id
       (\<lambda>v. ''['' @ quote @ as_name obj @ quote @ '', '' @ quote @ as_desc obj @ quote @ '', '' @ show_type_info (as_typeInfo obj) @ '', '' @
          (case as_occurrence obj of O_OPTIONAL \<Rightarrow> ''0'' | O_REQUIRED \<Rightarrow> ''1'') @ '', '' @
          (case as_constraint obj of C_WITH_ARG \<Rightarrow> ''0'' | C_WITHOUT_ARG \<Rightarrow> ''1'') @ '', '' @ v)
       (default_print show_double (as_defaultValue obj) (spec_dataType obj))"

section \<open>Messages\<close>

text \<open>The macros of \<^verbatim>\<open>buildboxcommon_exception.h\<close>; \<open>what\<close> is the descriptive text.\<close>

definition exception_what :: "string \<Rightarrow> string \<Rightarrow> int \<Rightarrow> string \<Rightarrow> string" where
  "exception_what exception_name source_file line what =
     exception_name @ '' exception thrown at ['' @ file_part source_file @ '':'' @ show_int line @ ''], errMsg = '' @ quote @ what @ quote"

definition system_exception_what :: "string \<Rightarrow> string \<Rightarrow> int \<Rightarrow> string \<Rightarrow> int \<Rightarrow> string \<Rightarrow> string" where
  "system_exception_what exception_name source_file line category err what =
     exception_name @ '' exception thrown at ['' @ file_part source_file @ '':'' @ show_int line @ ''] ['' @ category @ '':'' @ show_int err @
     ''], errMsg = '' @ quote @ what @ quote @ '', errno ''"

definition for_invocation :: "string \<Rightarrow> string" where
  "for_invocation grpcInvocationName = (if grpcInvocationName \<noteq> [] then '' for '' @ quote @ grpcInvocationName @ quote else [])"

text \<open>
  The messages of both retry interfaces.  The numbers are 32-bit integers, signed in \<^verbatim>\<open>GrpcRetry\<close> (\<open>attempts = id\<close>) and
  unsigned in \<^verbatim>\<open>GrpcRetrier\<close>, where they wrap around; the error is its code and message.
\<close>

definition unsigned32 :: "int \<Rightarrow> int" where
  "unsigned32 n = n mod 2 ^ 32"

definition retryingInvocationWarningMessage :: "(int \<Rightarrow> int) \<Rightarrow> string \<Rightarrow> int \<times> string \<Rightarrow> int \<Rightarrow> int \<Rightarrow> string \<Rightarrow> string" where
  "retryingInvocationWarningMessage attempts grpcInvocationName grpcError attemptNumber totalAttempts retryDelayMs =
     ''Attempt '' @ show_int (attempts (attemptNumber + 1)) @ ''/'' @ show_int (attempts (totalAttempts + 1)) @ for_invocation grpcInvocationName @
     '' failed with gRPC error ['' @ show_int (fst grpcError) @ '': '' @ snd grpcError @ ''], retrying in '' @ retryDelayMs @ '' ms...''"

definition retryAttemptsExceededErrorMessage :: "string \<Rightarrow> int \<times> string \<Rightarrow> int \<Rightarrow> string" where
  "retryAttemptsExceededErrorMessage grpcInvocationName grpcError retryLimit =
     ''Retry limit ('' @ show_int retryLimit @ '') exceeded'' @ for_invocation grpcInvocationName @
     '', last gRPC error was ['' @ show_int (fst grpcError) @ '': '' @ snd grpcError @ '']''"

text \<open>\<open>time\<close> is the local time with its milliseconds and zone.\<close>

definition log_prefix :: "string \<Rightarrow> int \<Rightarrow> string \<Rightarrow> string \<Rightarrow> string \<Rightarrow> int \<Rightarrow> string" where
  "log_prefix time pid thread severity_name source_file lineNumber =
     time @ '' ['' @ show_int pid @ '':'' @ thread @ ''] ['' @ file_part source_file @ '':'' @ show_int lineNumber @ ''] ['' @ severity_name @ ''] ''"

section \<open>The help is true\<close>

text \<open>An entry of the help as a user writes it.\<close>

definition entry_argument :: "string \<Rightarrow> string \<Rightarrow> help_entry \<Rightarrow> string" where
  "entry_argument p v entry = (case entry of (name, arg, _) \<Rightarrow> ''--'' @ p @ name @ (if arg = None then [] else ''='' @ v))"

text \<open>
  Every option in the help for connections is accepted with any prefix and any value, but for the one that is shown without
  the value it needs.
\<close>

theorem connection_help_accepted:
  "list_all (\<lambda>entry. fst (parseArg (entry_argument p v entry) (Some p) co) = (fst entry \<noteq> ''load-balancing-policy''))
     (connection_help serviceName)"
  by (simp add: connection_help_def entry_argument_def parseArg_def Let_def split_option_def assign_option_def)

text \<open>
  Every option in the help of a runner is accepted by the base class, with a directory that exists and a level that is named
  there: none of them is taken for an unknown argument.
\<close>

theorem runner_help_accepted:
  "list_all (\<lambda>entry. fst (runner_arg (\<lambda>_ x. (False, x)) (\<lambda>_. Inr True)
       (entry_argument [] (if fst entry = ''log-level'' then ''debug'' else v) entry) rn x) \<noteq> Returns False) runner_help"
  by (simp add: runner_help_def entry_argument_def runner_arg_def parseArg_def Let_def split_option_def assign_option_def value_option_def
      flag_option_def stringToLogLevelMap_def tolower_def smap_find_def split: option.split)

text \<open>
  The getters of a default value give back what its constructor was given, and printing it as its own type shows that; as
  another type it reads a member that was never set, unless that is a string.
\<close>

theorem default_getters:
  "default_getString (DefaultString str) = str \<and> default_getInt (DefaultInt i) = Inr i \<and> default_getDouble (DefaultDouble x) = Inr x \<and>
   default_getBool (DefaultBool b) = Inr b \<and>
   (default_print show_double d t = Inl Undefined \<longleftrightarrow>
      t \<in> {COMMANDLINE_DT_INT, COMMANDLINE_DT_DOUBLE, COMMANDLINE_DT_BOOL} \<and> d \<noteq> NoDefault \<and> default_dataType d \<noteq> t)"
  by (cases d; cases t)
    (simp_all add: default_getString_def default_getInt_def default_getDouble_def default_getBool_def default_print_def)

text \<open>The beginning of a line of the log names a file without its directories.\<close>

lemma file_part_last: "slash \<notin> set name \<Longrightarrow> file_part (dir @ slash # name) = name" "slash \<notin> set name \<Longrightarrow> file_part name = name"
  using rfind_last [of slash name dir] by (simp_all add: file_part_def rfind_def)

end
