(* ===== verification/Metrics.thy ===== *)
theory Metrics
  imports Utils "HOL-Library.AList" "HOL-Library.Multiset"
begin

text \<open>
  The metrics library, \<^verbatim>\<open>buildboxcommonmetrics\<close>: metric values and their StatsD text, the collectors that
  aggregate them by name, the timers and guards that record them, and the reading of the text by a
  server.

  Counts and durations are 64-bit signed integers, whose overflow is undefined behaviour.  A
  \<^verbatim>\<open>std::unordered_map\<close> is an association list with distinct keys; the order in which it is iterated is a
  parameter.  A point in time of the steady clock is a number of nanoseconds.
\<close>

section \<open>Values\<close>

definition add64 :: "int \<Rightarrow> int \<Rightarrow> int result" where
  "add64 a b = (if - (2 ^ 63) \<le> a + b \<and> a + b < 2 ^ 63 then Inr (a + b) else Inl Undefined)"

datatype counting_metric_value = CountingMetricValue (counting_value: int)

definition counting_toStatsD :: "string \<Rightarrow> counting_metric_value \<Rightarrow> string" where
  "counting_toStatsD myName v = myName @ '':'' @ show_int (counting_value v) @ ''|c''"

definition counting_plus :: "counting_metric_value \<Rightarrow> counting_metric_value \<Rightarrow> counting_metric_value result" where
  "counting_plus v other = map_sum id CountingMetricValue (add64 (counting_value v) (counting_value other))"

definition counting_plus_count :: "counting_metric_value \<Rightarrow> int \<Rightarrow> counting_metric_value result" where
  "counting_plus_count v k = map_sum id CountingMetricValue (add64 (counting_value v) k)"

definition counting_increment :: "counting_metric_value \<Rightarrow> counting_metric_value result" where
  "counting_increment v = map_sum id CountingMetricValue (add64 (counting_value v) 1)"

datatype gauge_metric_value = GaugeMetricValue (gauge_value: int) (isDelta: bool)

text \<open>The absolute value of the smallest number does not fit.\<close>

definition gauge_toStatsD :: "string \<Rightarrow> gauge_metric_value \<Rightarrow> string result" where
  "gauge_toStatsD name v =
     (if isDelta v
      then if gauge_value v = - (2 ^ 63) then Inl Undefined
           else Inr (name @ '':'' @ (if gauge_value v \<ge> 0 then ''+'' else ''-'') @ show_int \<bar>gauge_value v\<bar> @ ''|g'')
      else Inr (name @ '':'' @ (if gauge_value v < 0 then ''0|g'' @ [CHR 0x0A] @ name @ '':'' else '''') @
                show_int (gauge_value v) @ ''|g''))"

definition gauge_plus :: "gauge_metric_value \<Rightarrow> gauge_metric_value \<Rightarrow> gauge_metric_value result" where
  "gauge_plus v other =
     (if isDelta other then map_sum id (\<lambda>n. GaugeMetricValue n (isDelta v)) (add64 (gauge_value v) (gauge_value other))
      else Inr (GaugeMetricValue (gauge_value other) False))"

text \<open>Durations are counted in microseconds and printed in milliseconds.\<close>

datatype duration_metric_value = DurationMetricValue (duration_value: int)
datatype total_duration_metric_value = TotalDurationMetricValue (total_value: int)

definition duration_toStatsD :: "string \<Rightarrow> duration_metric_value \<Rightarrow> string" where
  "duration_toStatsD myName v = myName @ '':'' @ show_int (duration_value v sdiv 1000) @ ''|ms''"

definition total_toStatsD :: "string \<Rightarrow> total_duration_metric_value \<Rightarrow> string" where
  "total_toStatsD myName v = myName @ '':'' @ show_int (total_value v sdiv 1000) @ ''|ms''"

definition total_plus :: "total_duration_metric_value \<Rightarrow> total_duration_metric_value \<Rightarrow> total_duration_metric_value result" where
  "total_plus v other = map_sum id TotalDurationMetricValue (add64 (total_value v) (total_value other))"

datatype distribution_metric_value = DistributionMetricValue (distribution_value: int)

definition distribution_toStatsD :: "string \<Rightarrow> distribution_metric_value \<Rightarrow> string" where
  "distribution_toStatsD name v = name @ '':'' @ show_int (distribution_value v) @ ''|d''"

section \<open>Collectors\<close>

type_synonym 'v metrics = "(string \<times> 'v) list"

text \<open>The collector of a type with \<^verbatim>\<open>isAggregatable\<close> has one entry for each name.\<close>

definition store_aggregated :: "('v \<Rightarrow> 'v \<Rightarrow> 'v result) \<Rightarrow> string \<Rightarrow> 'v \<Rightarrow> 'v metrics \<Rightarrow> 'v metrics result" where
  "store_aggregated add name v d_metrics =
     (case map_of d_metrics name of
        Some entry \<Rightarrow> map_sum id (\<lambda>w. AList.update name w d_metrics) (add entry v)
      | None \<Rightarrow> Inr (AList.update name v d_metrics))"

definition store_listed :: "string \<Rightarrow> 'v \<Rightarrow> 'v metrics \<Rightarrow> 'v metrics result" where
  "store_listed name v d_metrics = Inr (d_metrics @ [(name, v)])"

definition getSnapshot :: "'v metrics \<Rightarrow> 'v metrics \<times> 'v metrics" where
  "getSnapshot d_metrics = (d_metrics, [])"

text \<open>The factory: the flag and the static collector of each value type.\<close>

record factory =
  f_metricsEnabled :: bool
  f_counting :: "counting_metric_value metrics"
  f_duration :: "duration_metric_value metrics"
  f_total :: "total_duration_metric_value metrics"
  f_gauge :: "gauge_metric_value metrics"
  f_distribution :: "distribution_metric_value metrics"

definition new_factory :: factory where
  "new_factory = \<lparr>f_metricsEnabled = True, f_counting = [], f_duration = [], f_total = [], f_gauge = [], f_distribution = []\<rparr>"

definition setMetricsEnabled :: "bool \<Rightarrow> factory \<Rightarrow> factory" where
  "setMetricsEnabled enabled fs = fs\<lparr>f_metricsEnabled := enabled\<rparr>"

definition enableMetrics :: "factory \<Rightarrow> factory" where
  "enableMetrics = setMetricsEnabled True"

definition disableMetrics :: "factory \<Rightarrow> factory" where
  "disableMetrics = setMetricsEnabled False"

text \<open>\<^verbatim>\<open>MetricCollectorFactoryUtil::store\<close> on the collector it selects.\<close>

definition factory_store :: "bool \<Rightarrow> ('c \<Rightarrow> 'c result) \<Rightarrow> 'c \<Rightarrow> 'c result" where
  "factory_store enabled store collector = (if enabled then store collector else Inr collector)"

definition store_counting :: "string \<Rightarrow> counting_metric_value \<Rightarrow> factory \<Rightarrow> factory result" where
  "store_counting name v fs =
     map_sum id (\<lambda>m. fs\<lparr>f_counting := m\<rparr>) (factory_store (f_metricsEnabled fs) (store_aggregated counting_plus name v) (f_counting fs))"

definition store_duration :: "string \<Rightarrow> duration_metric_value \<Rightarrow> factory \<Rightarrow> factory result" where
  "store_duration name v fs =
     map_sum id (\<lambda>m. fs\<lparr>f_duration := m\<rparr>) (factory_store (f_metricsEnabled fs) (store_listed name v) (f_duration fs))"

definition store_total :: "string \<Rightarrow> total_duration_metric_value \<Rightarrow> factory \<Rightarrow> factory result" where
  "store_total name v fs =
     map_sum id (\<lambda>m. fs\<lparr>f_total := m\<rparr>) (factory_store (f_metricsEnabled fs) (store_aggregated total_plus name v) (f_total fs))"

definition store_gauge :: "string \<Rightarrow> gauge_metric_value \<Rightarrow> factory \<Rightarrow> factory result" where
  "store_gauge name v fs =
     map_sum id (\<lambda>m. fs\<lparr>f_gauge := m\<rparr>) (factory_store (f_metricsEnabled fs) (store_aggregated gauge_plus name v) (f_gauge fs))"

definition store_distribution :: "string \<Rightarrow> distribution_metric_value \<Rightarrow> factory \<Rightarrow> factory result" where
  "store_distribution name v fs =
     map_sum id (\<lambda>m. fs\<lparr>f_distribution := m\<rparr>) (factory_store (f_metricsEnabled fs) (store_listed name v) (f_distribution fs))"

section \<open>Recording\<close>

record counting_metric =
  cm_value :: counting_metric_value
  cm_name :: string

definition new_CountingMetric :: "string \<Rightarrow> counting_metric" where
  "new_CountingMetric name = \<lparr>cm_value = CountingMetricValue 0, cm_name = name\<rparr>"

definition CountingMetric_setValue :: "counting_metric_value \<Rightarrow> counting_metric \<Rightarrow> counting_metric" where
  "CountingMetric_setValue v m = m\<lparr>cm_value := v\<rparr>"

definition CountingMetric_add :: "int \<Rightarrow> counting_metric \<Rightarrow> counting_metric result" where
  "CountingMetric_add k m = map_sum id (\<lambda>n. m\<lparr>cm_value := CountingMetricValue n\<rparr>) (add64 (counting_value (cm_value m)) k)"

definition CountingMetric_start :: "counting_metric \<Rightarrow> counting_metric result" where
  "CountingMetric_start m = map_sum id (\<lambda>v. m\<lparr>cm_value := v\<rparr>) (counting_increment (cm_value m))"

definition CountingMetric_stop :: "counting_metric \<Rightarrow> counting_metric result" where
  "CountingMetric_stop m = Inr m"

definition recordCounterMetric :: "counting_metric \<Rightarrow> factory \<Rightarrow> factory result" where
  "recordCounterMetric m fs = store_counting (cm_name m) (cm_value m) fs"

definition recordCounterMetric_value :: "string \<Rightarrow> counting_metric_value \<Rightarrow> factory \<Rightarrow> factory result" where
  "recordCounterMetric_value name v fs = recordCounterMetric \<lparr>cm_value = v, cm_name = name\<rparr> fs"

definition recordCounterMetric_count :: "string \<Rightarrow> int \<Rightarrow> factory \<Rightarrow> factory result" where
  "recordCounterMetric_count name k fs = recordCounterMetric_value name (CountingMetricValue k) fs"

record gauge_metric =
  gm_name :: string
  gm_value :: gauge_metric_value

definition recordGauge :: "gauge_metric \<Rightarrow> factory \<Rightarrow> factory result" where
  "recordGauge m fs = store_gauge (gm_name m) (gm_value m) fs"

definition setGauge :: "string \<Rightarrow> int \<Rightarrow> factory \<Rightarrow> factory result" where
  "setGauge name n fs = recordGauge \<lparr>gm_name = name, gm_value = GaugeMetricValue n False\<rparr> fs"

definition adjustGauge :: "string \<Rightarrow> int \<Rightarrow> factory \<Rightarrow> factory result" where
  "adjustGauge name delta fs = recordGauge \<lparr>gm_name = name, gm_value = GaugeMetricValue delta True\<rparr> fs"

record distribution_metric =
  dm_name :: string
  dm_value :: distribution_metric_value

definition recordDistributionMetric :: "distribution_metric \<Rightarrow> factory \<Rightarrow> factory result" where
  "recordDistributionMetric m fs = store_distribution (dm_name m) (dm_value m) fs"

definition recordDistributionMetric_value :: "string \<Rightarrow> int \<Rightarrow> factory \<Rightarrow> factory result" where
  "recordDistributionMetric_value name n fs =
     recordDistributionMetric \<lparr>dm_name = name, dm_value = DistributionMetricValue n\<rparr> fs"

text \<open>The two timers differ in the type of their value.\<close>

record 'v metric_timer =
  mt_done :: bool
  mt_start :: int
  mt_value :: 'v
  mt_name :: string

definition new_DurationMetricTimer :: "string \<Rightarrow> duration_metric_value metric_timer" where
  "new_DurationMetricTimer name = \<lparr>mt_done = False, mt_start = 0, mt_value = DurationMetricValue 0, mt_name = name\<rparr>"

definition new_TotalDurationMetricTimer :: "string \<Rightarrow> total_duration_metric_value metric_timer" where
  "new_TotalDurationMetricTimer name = \<lparr>mt_done = False, mt_start = 0, mt_value = TotalDurationMetricValue 0, mt_name = name\<rparr>"

definition DurationMetricTimer_start :: "int \<Rightarrow> duration_metric_value metric_timer \<Rightarrow> duration_metric_value metric_timer result" where
  "DurationMetricTimer_start t m = (if mt_done m then Inl LogicError else Inr (m\<lparr>mt_start := t\<rparr>))"

definition DurationMetricTimer_stop :: "int \<Rightarrow> duration_metric_value metric_timer \<Rightarrow> duration_metric_value metric_timer result" where
  "DurationMetricTimer_stop t m =
     (if mt_done m then Inl LogicError
      else Inr (m\<lparr>mt_done := True, mt_value := DurationMetricValue ((t - mt_start m) sdiv 1000)\<rparr>))"

definition TotalDurationMetricTimer_start ::
  "int \<Rightarrow> total_duration_metric_value metric_timer \<Rightarrow> total_duration_metric_value metric_timer result" where
  "TotalDurationMetricTimer_start t m = (if mt_done m then Inl LogicError else Inr (m\<lparr>mt_start := t\<rparr>))"

definition TotalDurationMetricTimer_stop ::
  "int \<Rightarrow> total_duration_metric_value metric_timer \<Rightarrow> total_duration_metric_value metric_timer result" where
  "TotalDurationMetricTimer_stop t m =
     (if mt_done m then Inl LogicError
      else Inr (m\<lparr>mt_done := True, mt_value := TotalDurationMetricValue ((t - mt_start m) sdiv 1000)\<rparr>))"

text \<open>
  A scoped metric starts the metric it is given and stores it at the end of the scope; an exception of the
  destructor ends the process.
\<close>

definition ScopedMetric_create :: "('m \<Rightarrow> 'm result) \<Rightarrow> factory \<Rightarrow> 'm \<Rightarrow> 'm result" where
  "ScopedMetric_create start fs metric = (if f_metricsEnabled fs then start metric else Inr metric)"

definition ScopedMetric_destroy ::
  "('m \<Rightarrow> 'm result) \<Rightarrow> ('m \<Rightarrow> factory \<Rightarrow> factory result) \<Rightarrow> 'm \<Rightarrow> factory \<Rightarrow> ('m \<times> factory) result" where
  "ScopedMetric_destroy stop store metric fs =
     (if f_metricsEnabled fs
      then (case stop metric of Inl e \<Rightarrow> Inl e | Inr metric \<Rightarrow> map_sum id (Pair metric) (store metric fs))
      else Inr (metric, fs))"

text \<open>
  \<^verbatim>\<open>MetricGuard\<close> for the two timers: the scope begins at \<open>t\<close> and ends at \<open>t'\<close>; \<open>body\<close> is what happens to the
  collectors in between, however the scope is left.
\<close>

definition guard_duration :: "string \<Rightarrow> int \<Rightarrow> int \<Rightarrow> (factory \<Rightarrow> factory) \<Rightarrow> factory \<Rightarrow> factory result" where
  "guard_duration name t t' body fs =
     (case ScopedMetric_create (DurationMetricTimer_start t) fs (new_DurationMetricTimer name) of
        Inl e \<Rightarrow> Inl e
      | Inr m \<Rightarrow> map_sum id snd (ScopedMetric_destroy (DurationMetricTimer_stop t') (\<lambda>m. store_duration (mt_name m) (mt_value m)) m (body fs)))"

definition guard_total :: "string \<Rightarrow> int \<Rightarrow> int \<Rightarrow> (factory \<Rightarrow> factory) \<Rightarrow> factory \<Rightarrow> factory result" where
  "guard_total name t t' body fs =
     (case ScopedMetric_create (TotalDurationMetricTimer_start t) fs (new_TotalDurationMetricTimer name) of
        Inl e \<Rightarrow> Inl e
      | Inr m \<Rightarrow> map_sum id snd (ScopedMetric_destroy (TotalDurationMetricTimer_stop t') (\<lambda>m. store_total (mt_name m) (mt_value m)) m (body fs)))"

text \<open>A scoped metric around a \<^verbatim>\<open>CountingMetric\<close> that outlives the scope.\<close>

definition scoped_counting :: "(factory \<Rightarrow> factory) \<Rightarrow> counting_metric \<Rightarrow> factory \<Rightarrow> (counting_metric \<times> factory) result" where
  "scoped_counting body m fs =
     (case ScopedMetric_create CountingMetric_start fs m of
        Inl e \<Rightarrow> Inl e
      | Inr m \<Rightarrow> ScopedMetric_destroy CountingMetric_stop recordCounterMetric m (body fs))"

section \<open>Aggregation\<close>

text \<open>
  What a value does to the number a server has for its name.  \<open>collected\<close> is what the entries of a collector
  do to all numbers.
\<close>

definition count_effect :: "counting_metric_value \<Rightarrow> int \<Rightarrow> int" where
  "count_effect v x = x + counting_value v"

definition gauge_effect :: "gauge_metric_value \<Rightarrow> int \<Rightarrow> int" where
  "gauge_effect v x = (if isDelta v then x + gauge_value v else gauge_value v)"

definition total_effect :: "total_duration_metric_value \<Rightarrow> int \<Rightarrow> int" where
  "total_effect v x = x + total_value v"

definition collected :: "('v \<Rightarrow> 'x \<Rightarrow> 'x) \<Rightarrow> 'v metrics \<Rightarrow> (string \<Rightarrow> 'x) \<Rightarrow> string \<Rightarrow> 'x" where
  "collected effect m f name = (case map_of m name of None \<Rightarrow> f name | Some v \<Rightarrow> effect v (f name))"

lemma collected_Nil [simp]: "collected effect [] f = f"
  by (simp add: collected_def fun_eq_iff)

definition apply_entry :: "('v \<Rightarrow> 'x \<Rightarrow> 'x) \<Rightarrow> string \<times> 'v \<Rightarrow> (string \<Rightarrow> 'x) \<Rightarrow> string \<Rightarrow> 'x" where
  "apply_entry effect e f = f(fst e := effect (snd e) (f (fst e)))"

lemma apply_entries:
  "distinct (map fst m) \<Longrightarrow> fold (apply_entry effect) m f = collected effect m f"
proof (induction m arbitrary: f)
  case (Cons e m)
  have "map_of m (fst e) = None" using Cons.prems by (simp add: map_of_eq_None_iff)
  then show ?case using Cons by (auto simp: fun_eq_iff collected_def apply_entry_def)
qed simp

lemma collected_order:
  assumes "distinct (map fst m)" "mset m' = mset m"
  shows "fold (apply_entry effect) m' f = collected effect m f" and "distinct (map fst m')"
proof -
  have d: "distinct (map fst m')" using assms by (metis mset_eq_imp_distinct_iff mset_map)
  then show "distinct (map fst m')" .
  have "map_of m' = map_of m" using assms d by (metis map_of_inject_set set_mset_mset)
  then show "fold (apply_entry effect) m' f = collected effect m f"
    using apply_entries [OF d] by (simp add: collected_def fun_eq_iff)
qed

definition bounded :: "('v \<Rightarrow> int) \<Rightarrow> int \<Rightarrow> 'v metrics \<Rightarrow> bool" where
  "bounded magnitude b m \<longleftrightarrow> (\<forall>(name, v) \<in> set m. magnitude v \<le> b)"

lemma bounded_Nil [simp]: "bounded magnitude b []"
  by (simp add: bounded_def)

lemma bounded_mono: "bounded magnitude b m \<Longrightarrow> b \<le> b' \<Longrightarrow> bounded magnitude b' m"
  by (force simp: bounded_def)

lemma set_alist_update: "(n, w) \<in> set (AList.update name v m) \<Longrightarrow> (n, w) = (name, v) \<or> (n, w) \<in> set m"
  by (induction m) (auto split: if_splits)

text \<open>
  The contract between a value type and its collector: \<^verbatim>\<open>operator+=\<close> makes one value that does what the two
  do one after the other, unless it overflows.
\<close>

locale aggregation =
  fixes add :: "'v \<Rightarrow> 'v \<Rightarrow> 'v result"
    and effect :: "'v \<Rightarrow> 'x \<Rightarrow> 'x"
    and magnitude :: "'v \<Rightarrow> int"
  assumes add_effect: "add v w = Inr u \<Longrightarrow> effect u x = effect w (effect v x)"
    and add_bounded: "magnitude v + magnitude w < 2 ^ 63 \<Longrightarrow> \<exists>u. add v w = Inr u \<and> magnitude u \<le> magnitude v + magnitude w"
    and magnitude_nonneg: "0 \<le> magnitude v"
begin

lemma store_collected:
  assumes "store_aggregated add name v m = Inr m'"
  shows "collected effect m' f = apply_entry effect (name, v) (collected effect m f)"
  using assms
  by (auto simp: store_aggregated_def collected_def apply_entry_def fun_eq_iff update_conv add_effect map_sum_def
      split: option.splits sum.splits)

lemma store_distinct: "store_aggregated add name v m = Inr m' \<Longrightarrow> distinct (map fst m) \<Longrightarrow> distinct (map fst m')"
  by (auto simp: store_aggregated_def map_sum_def distinct_update split: option.splits sum.splits)

lemma store_bounded:
  assumes "bounded magnitude b m" "0 \<le> b" "b + magnitude v < 2 ^ 63"
  shows "\<exists>m'. store_aggregated add name v m = Inr m' \<and> bounded magnitude (b + magnitude v) m'"
proof (cases "map_of m name")
  case None
  then show ?thesis using assms magnitude_nonneg [of v]
    by (fastforce simp: store_aggregated_def bounded_def dest: set_alist_update)
next
  case (Some w)
  then have w: "magnitude w \<le> b" using assms(1) by (auto simp: bounded_def dest: map_of_SomeD)
  then obtain u where u: "add w v = Inr u" "magnitude u \<le> magnitude w + magnitude v" using add_bounded [of w v] assms(3) by auto
  then show ?thesis using Some assms(1) w magnitude_nonneg [of v]
    by (fastforce simp: store_aggregated_def bounded_def dest: set_alist_update)
qed

end

interpretation counts: aggregation counting_plus count_effect "\<lambda>v. \<bar>counting_value v\<bar>"
  by unfold_locales (auto simp: counting_plus_def count_effect_def add64_def map_sum_def split: if_splits)

interpretation gauges: aggregation gauge_plus gauge_effect "\<lambda>v. \<bar>gauge_value v\<bar>"
  by unfold_locales (auto simp: gauge_plus_def gauge_effect_def add64_def map_sum_def split: if_splits)

interpretation totals: aggregation total_plus total_effect "\<lambda>v. \<bar>total_value v\<bar>"
  by unfold_locales (auto simp: total_plus_def total_effect_def add64_def map_sum_def split: if_splits)

end
