(* ===== verification/Metrics_Publisher.thy ===== *)
theory Metrics_Publisher
  imports Metrics
begin

text \<open>
  The configuration of the metrics and the publisher: options, host and port, the writers to a file and to a UDP
  socket, and \<^verbatim>\<open>StatsDPublisher\<close>, which empties the collectors and writes their text.  What a StatsD server
  reads from that text is in theory \<open>Statsd_Server\<close>.
\<close>

section \<open>Configuration\<close>

definition DEFAULT_PUBLISH_INTERVAL :: nat where
  "DEFAULT_PUBLISH_INTERVAL = 15"

record metrics_config =
  mc_file :: string
  mc_udpServer :: string
  mc_enable :: bool
  mc_publishInterval :: nat

definition new_MetricsConfigType :: metrics_config where
  "new_MetricsConfigType =
     \<lparr>mc_file = '''', mc_udpServer = '''', mc_enable = False, mc_publishInterval = DEFAULT_PUBLISH_INTERVAL\<rparr>"

definition createMetricsConfig :: "string \<Rightarrow> string \<Rightarrow> bool \<Rightarrow> nat \<Rightarrow> metrics_config result" where
  "createMetricsConfig path udp_server enable interval =
     (if enable \<and> udp_server \<noteq> '''' \<and> path \<noteq> '''' then Inl RuntimeError
      else Inr \<lparr>mc_file = path, mc_udpServer = udp_server, mc_enable = enable, mc_publishInterval = interval\<rparr>)"

definition isMetricsOption :: "string \<Rightarrow> bool" where
  "isMetricsOption option \<longleftrightarrow> take (length ''metrics-'') option = ''metrics-''"

text \<open>\<^verbatim>\<open>value.find(separator)\<close>: the two parts around the first occurrence.\<close>

fun cut_at :: "string \<Rightarrow> string \<Rightarrow> (string \<times> string) option" where
  "cut_at separator s =
     (if take (length separator) s = separator then Some ('''', drop (length separator) s)
      else case s of [] \<Rightarrow> None | c # s \<Rightarrow> map_option (\<lambda>(l, r). (c # l, r)) (cut_at separator s))"

declare cut_at.simps [simp del]

definition metricsParser :: "string \<Rightarrow> string \<Rightarrow> metrics_config \<Rightarrow> metrics_config result" where
  "metricsParser argument_name v config =
     (if argument_name = ''metrics-mode''
      then
        if v = ''stderr'' \<or> v = ''stderr://'' then Inr (config\<lparr>mc_enable := True\<rparr>)
        else
          (case cut_at ''://'' v of
             None \<Rightarrow> Inl RuntimeError
           | Some (mode, rest) \<Rightarrow>
               if rest = '''' then Inl RuntimeError
               else if mode = ''udp'' then Inr (config\<lparr>mc_enable := True, mc_udpServer := rest\<rparr>)
               else if mode = ''file'' then Inr (config\<lparr>mc_enable := True, mc_file := rest\<rparr>)
               else Inl RuntimeError)
      else if argument_name = ''metrics-publish-interval''
      then map_sum id (\<lambda>n. config\<lparr>mc_publishInterval := nat (n mod 2 ^ 64)\<rparr>) (stoi v)
      else Inl RuntimeError)"

text \<open>
  \<^verbatim>\<open>std::stoul\<close>: spaces, a sign, digits up to the first other character; a number with a minus sign is
  negated in 64 bits.
\<close>

definition stoul :: "string \<Rightarrow> int result" where
  "stoul str =
     (let s1 = dropWhile is_space str;
          negative = (s1 \<noteq> [] \<and> hd s1 = CHR ''-'');
          s2 = (if s1 \<noteq> [] \<and> (hd s1 = CHR ''-'' \<or> hd s1 = CHR ''+'') then tl s1 else s1);
          ds = takeWhile is_digit s2
      in if ds = [] then Inl InvalidArgument
         else if digits_value ds \<ge> 2 ^ 64 then Inl OutOfRange
         else Inr (if negative then (- digits_value ds) mod 2 ^ 64 else digits_value ds))"

text \<open>
  The port is cut to 32 bits before it is compared; \<^verbatim>\<open>std::range_error\<close> is a runtime error.
\<close>

definition parseHostPortString :: "string \<Rightarrow> (string \<times> nat) result" where
  "parseHostPortString inputString =
     (case rfind (CHR '':'') inputString of
        Some split \<Rightarrow>
          if split + 2 < length inputString
          then
            (case stoul (drop (split + 1) inputString) of
               Inl e \<Rightarrow> Inl e
             | Inr n \<Rightarrow>
                 (let tmp = n mod 2 ^ 32
                  in if tmp > 65535 then Inl RuntimeError else Inr (take split inputString, nat tmp)))
          else Inr (take split inputString, 8125)
      | None \<Rightarrow> Inr (inputString, 8125))"

section \<open>The publisher\<close>

datatype publish_method = StdErr | File | UDP

record statsd_publisher =
  sp_method :: publish_method
  sp_path :: string
  sp_port :: int

definition new_StatsDPublisher :: "publish_method \<Rightarrow> string \<Rightarrow> int \<Rightarrow> statsd_publisher result" where
  "new_StatsDPublisher publishMethod publishPath publishPort =
     (let self = \<lparr>sp_method = publishMethod, sp_path = publishPath, sp_port = publishPort\<rparr>
      in case publishMethod of
           File \<Rightarrow> if length publishPath = 0 then Inl RuntimeError else Inr self
         | UDP \<Rightarrow> if length publishPath = 0 \<or> publishPort \<le> 0 then Inl RuntimeError else Inr self
         | StdErr \<Rightarrow> Inr self)"

definition fromConfig :: "metrics_config \<Rightarrow> statsd_publisher result" where
  "fromConfig metricsConfig =
     (if mc_udpServer metricsConfig \<noteq> ''''
      then (case parseHostPortString (mc_udpServer metricsConfig) of
              Inl e \<Rightarrow> Inl e
            | Inr (publishPath, publishPort) \<Rightarrow> new_StatsDPublisher UDP publishPath (int publishPort))
      else if mc_file metricsConfig \<noteq> '''' then new_StatsDPublisher File (mc_file metricsConfig) 0
      else new_StatsDPublisher StdErr '''' 0)"

text \<open>\<^verbatim>\<open>createMetricsPublisherWithConfig\<close> also sets the flag of the factory.\<close>

definition createStatsdPublisher :: "metrics_config \<Rightarrow> factory \<Rightarrow> statsd_publisher result \<times> factory" where
  "createStatsdPublisher metricsConfig fs = (fromConfig metricsConfig, setMetricsEnabled (mc_enable metricsConfig) fs)"

datatype value_type = Counting | Duration | TotalDuration | Gauge | Distribution

text \<open>The types of \<^verbatim>\<open>publisherTypeOfAllValueTypes\<close>, in its order.\<close>

definition publisherTypeOfAllValueTypes :: "value_type list" where
  "publisherTypeOfAllValueTypes = [Counting, Duration, TotalDuration, Gauge]"

text \<open>The orders in which the snapshots of the collectors are iterated.\<close>

record iteration =
  it_counting :: "counting_metric_value metrics \<Rightarrow> counting_metric_value metrics"
  it_total :: "total_duration_metric_value metrics \<Rightarrow> total_duration_metric_value metrics"
  it_gauge :: "gauge_metric_value metrics \<Rightarrow> gauge_metric_value metrics"

fun print_entries :: "(string \<Rightarrow> 'v \<Rightarrow> string result) \<Rightarrow> 'v metrics \<Rightarrow> string list \<Rightarrow> string list result" where
  "print_entries toStatsD [] statsDMetrics = Inr statsDMetrics"
| "print_entries toStatsD ((metricName, metricValue) # snapshot) statsDMetrics =
     (case toStatsD metricName metricValue of
        Inl e \<Rightarrow> Inl e
      | Inr line \<Rightarrow> print_entries toStatsD snapshot (statsDMetrics @ [line]))"

definition gatherStatsDFromValueTypeCollector ::
  "iteration \<Rightarrow> value_type \<Rightarrow> string list \<Rightarrow> factory \<Rightarrow> string list result \<times> factory" where
  "gatherStatsDFromValueTypeCollector it ty statsDMetrics fs =
     (case ty of
        Counting \<Rightarrow>
          (let (snapshot, m) = getSnapshot (f_counting fs)
           in (print_entries (\<lambda>n v. Inr (counting_toStatsD n v)) (it_counting it snapshot) statsDMetrics, fs\<lparr>f_counting := m\<rparr>))
      | Duration \<Rightarrow>
          (let (snapshot, m) = getSnapshot (f_duration fs)
           in (print_entries (\<lambda>n v. Inr (duration_toStatsD n v)) snapshot statsDMetrics, fs\<lparr>f_duration := m\<rparr>))
      | TotalDuration \<Rightarrow>
          (let (snapshot, m) = getSnapshot (f_total fs)
           in (print_entries (\<lambda>n v. Inr (total_toStatsD n v)) (it_total it snapshot) statsDMetrics, fs\<lparr>f_total := m\<rparr>))
      | Gauge \<Rightarrow>
          (let (snapshot, m) = getSnapshot (f_gauge fs)
           in (print_entries gauge_toStatsD (it_gauge it snapshot) statsDMetrics, fs\<lparr>f_gauge := m\<rparr>))
      | Distribution \<Rightarrow>
          (let (snapshot, m) = getSnapshot (f_distribution fs)
           in (print_entries (\<lambda>n v. Inr (distribution_toStatsD n v)) snapshot statsDMetrics, fs\<lparr>f_distribution := m\<rparr>)))"

fun gatherStatsDFromNextCollectors ::
  "iteration \<Rightarrow> value_type list \<Rightarrow> string list \<Rightarrow> factory \<Rightarrow> string list result \<times> factory" where
  "gatherStatsDFromNextCollectors it [] statsDMetrics fs = (Inr statsDMetrics, fs)"
| "gatherStatsDFromNextCollectors it (ty # rest) statsDMetrics fs =
     (case gatherStatsDFromValueTypeCollector it ty statsDMetrics fs of
        (Inl e, fs) \<Rightarrow> (Inl e, fs)
      | (Inr statsDMetrics, fs) \<Rightarrow> gatherStatsDFromNextCollectors it rest statsDMetrics fs)"

text \<open>
  What the writers need of the system; \<open>'s\<close> is its state and \<open>'a\<close> an address.  The results of \<^verbatim>\<open>sendto\<close> and of
  writing to a stream are ignored.
\<close>

record ('s, 'a) publish_env =
  pe_open_append :: "string \<Rightarrow> 's \<Rightarrow> bool \<times> 's"
  pe_append :: "string \<Rightarrow> string \<Rightarrow> 's \<Rightarrow> 's"
  pe_getaddrinfo :: "string \<Rightarrow> string \<Rightarrow> 's \<Rightarrow> 'a option"
  pe_socket :: "'a \<Rightarrow> 's \<Rightarrow> int \<times> 's"
  pe_sendto :: "int \<Rightarrow> 'a \<Rightarrow> string \<Rightarrow> 's \<Rightarrow> 's"
  pe_close :: "int \<Rightarrow> 's \<Rightarrow> 's"
  pe_cerr :: "string \<Rightarrow> 's \<Rightarrow> 's"
  pe_time :: "'s \<Rightarrow> string"

definition new_FileWriter :: "('s, 'a) publish_env \<Rightarrow> string \<Rightarrow> 's \<Rightarrow> string result \<times> 's" where
  "new_FileWriter env filePath s = (let (good, s) = pe_open_append env filePath s in (if good then Inr filePath else Inl RuntimeError, s))"

definition FileWriter_write :: "('s, 'a) publish_env \<Rightarrow> string \<Rightarrow> string \<Rightarrow> 's \<Rightarrow> 's" where
  "FileWriter_write env d_of buffer s = pe_append env d_of buffer s"

definition UDPWriter_connect :: "('s, 'a) publish_env \<Rightarrow> string \<Rightarrow> string \<Rightarrow> 's \<Rightarrow> (int \<times> 'a) result \<times> 's" where
  "UDPWriter_connect env d_server_name d_server_port s =
     (case pe_getaddrinfo env d_server_name d_server_port s of
        None \<Rightarrow> (Inl RuntimeError, s)
      | Some address_info \<Rightarrow>
          (let (d_sockfd, s) = pe_socket env address_info s
           in (if d_sockfd < 0 then Inl RuntimeError else Inr (d_sockfd, address_info), s)))"

definition new_UDPWriter :: "('s, 'a) publish_env \<Rightarrow> int \<Rightarrow> string \<Rightarrow> 's \<Rightarrow> (int \<times> 'a) result \<times> 's" where
  "new_UDPWriter env server_port server_name s = UDPWriter_connect env server_name (show_int server_port) s"

definition UDPWriter_write :: "('s, 'a) publish_env \<Rightarrow> int \<times> 'a \<Rightarrow> string \<Rightarrow> 's \<Rightarrow> 's" where
  "UDPWriter_write env w buffer s = pe_sendto env (fst w) (snd w) buffer s"

definition UDPWriter_destroy :: "('s, 'a) publish_env \<Rightarrow> int \<times> 'a \<Rightarrow> 's \<Rightarrow> 's" where
  "UDPWriter_destroy env w s = (if fst w \<noteq> 0 then pe_close env (fst w) s else s)"

abbreviation newline :: string where
  "newline \<equiv> [CHR 0x0A]"

definition publish ::
  "('s, 'a) publish_env \<Rightarrow> iteration \<Rightarrow> value_type list \<Rightarrow> statsd_publisher \<Rightarrow> factory \<Rightarrow> 's \<Rightarrow> unit result \<times> factory \<times> 's" where
  "publish env it tys self fs s =
     (case gatherStatsDFromNextCollectors it tys [] fs of
        (Inl e, fs) \<Rightarrow> (Inl e, fs, s)
      | (Inr statsDMetrics, fs) \<Rightarrow>
          (case sp_method self of
             StdErr \<Rightarrow>
               (Inr (), fs,
                fold (\<lambda>metric. pe_cerr env (metric @ newline)) statsDMetrics
                  (pe_cerr env (pe_time env s @ '' buildbox Metrics:'' @ newline) s))
           | File \<Rightarrow>
               (case new_FileWriter env (sp_path self) s of
                  (Inl e, s) \<Rightarrow> (Inl e, fs, s)
                | (Inr d_of, s) \<Rightarrow> (Inr (), fs, fold (\<lambda>metric. FileWriter_write env d_of (metric @ newline)) statsDMetrics s))
           | UDP \<Rightarrow>
               (case new_UDPWriter env (sp_port self) (sp_path self) s of
                  (Inl e, s) \<Rightarrow> (Inl e, fs, s)
                | (Inr w, s) \<Rightarrow>
                    (Inr (), fs, UDPWriter_destroy env w (fold (\<lambda>metric. UDPWriter_write env w (metric @ newline)) statsDMetrics s)))))"

text \<open>\<^verbatim>\<open>PublisherGuard\<close> publishes at the end of its scope.\<close>

definition PublisherGuard_destroy ::
  "('s, 'a) publish_env \<Rightarrow> iteration \<Rightarrow> value_type list \<Rightarrow> bool \<Rightarrow> statsd_publisher \<Rightarrow> factory \<Rightarrow> 's \<Rightarrow> unit result \<times> factory \<times> 's" where
  "PublisherGuard_destroy env it tys enabled publisher fs s =
     (if \<not> enabled then (Inr (), fs, s) else publish env it tys publisher fs s)"

section \<open>Options\<close>

lemma stoul_show: "int n < 2 ^ 64 \<Longrightarrow> stoul (show_nat n) = Inr (int n)"
proof -
  assume n: "int n < 2 ^ 64"
  obtain d ds where d: "show_nat n = d # ds" using show_nat_value [of n] by (cases "show_nat n") auto
  then have v: "digits_value (d # ds) = int n" "list_all is_digit (d # ds)" using show_nat_value [of n] by auto
  then have "takeWhile is_digit (d # ds) = d # ds" by (simp add: list_all_iff)
  moreover have "\<not> is_space d" "d \<noteq> CHR ''-''" "d \<noteq> CHR ''+''" using v(2) digit_not_space [of d] by auto
  ultimately show ?thesis using v(1) n by (simp add: stoul_def d Let_def del: takeWhile.simps takeWhile_eq_all_conv)
qed

lemma colon_not_digit: "CHR '':'' \<notin> set (show_nat n)"
  using show_nat_value [of n] by (auto simp: list_all_iff is_digit_def Let_def)

lemma rfind_port: "rfind (CHR '':'') (host @ '':'' @ show_nat port) = Some (length host)"
  using rfind_last [OF colon_not_digit [of port], of host] by simp

lemma show_nat_length: "length (show_nat n) = 1 \<longleftrightarrow> n < 10"
  using show_nat_value [of "n div 10"] by (subst show_nat.simps) auto

lemma parseHostPort_port:
  assumes "10 \<le> port" "port < 65536"
  shows "parseHostPortString (host @ '':'' @ show_nat port) = Inr (host, port)"
proof -
  have "length (show_nat port) \<noteq> 0" "length (show_nat port) \<noteq> 1" using show_nat_length [of port] show_nat_value [of port] assms(1) by auto
  then have "length (show_nat port) \<ge> 2" by linarith
  moreover have "int port mod 2 ^ 32 = int port" using assms(2) by simp
  ultimately show ?thesis using rfind_port [of host port] stoul_show [of port] assms(2) by (simp add: parseHostPortString_def Let_def)
qed

lemma cut_udp: "cut_at ''://'' (''udp://'' @ rest) = Some (''udp'', rest)"
  by (simp add: cut_at.simps)

text \<open>
  The option \<^verbatim>\<open>--metrics-mode=udp://HOST:PORT\<close> makes a publisher to that host and port, for ports of at least
  two digits.
\<close>

theorem metrics_mode_udp:
  assumes "host \<noteq> ''''" "10 \<le> port" "port < 65536"
  shows "\<exists>config'. metricsParser ''metrics-mode'' (''udp://'' @ host @ '':'' @ show_nat port) config = Inr config' \<and>
    createStatsdPublisher config' fs =
      (Inr \<lparr>sp_method = UDP, sp_path = host, sp_port = int port\<rparr>, fs\<lparr>f_metricsEnabled := True\<rparr>)"
proof -
  let ?server = "host @ '':'' @ show_nat port"
  have "metricsParser ''metrics-mode'' (''udp://'' @ ?server) config = Inr (config\<lparr>mc_enable := True, mc_udpServer := ?server\<rparr>)"
    using cut_udp [of ?server] by (simp add: metricsParser_def)
  moreover have "fromConfig (config\<lparr>mc_enable := True, mc_udpServer := ?server\<rparr>) =
      Inr \<lparr>sp_method = UDP, sp_path = host, sp_port = int port\<rparr>"
    using parseHostPort_port [OF assms(2,3), of host] assms by (simp add: fromConfig_def new_StatsDPublisher_def)
  ultimately show ?thesis by (simp add: createStatsdPublisher_def setMetricsEnabled_def)
qed

theorem metrics_mode_udp_witness:
  "\<exists>config'. metricsParser ''metrics-mode'' ''udp://localhost:80'' new_MetricsConfigType = Inr config' \<and>
    createStatsdPublisher config' new_factory =
      (Inr \<lparr>sp_method = UDP, sp_path = ''localhost'', sp_port = 80\<rparr>, new_factory\<lparr>f_metricsEnabled := True\<rparr>)"
proof -
  have "show_nat 80 = ''80''" by code_simp
  then show ?thesis using metrics_mode_udp [of "''localhost''" 80 new_MetricsConfigType new_factory] by simp
qed

text \<open>
  A port of one digit is not read: the host is contacted at port 8125.  A port is taken modulo \<open>2 ^ 32\<close>,
  so that one that is too large can be accepted as another.
\<close>

theorem host_port_divergence:
  "parseHostPortString (host @ '':'' @ show_nat (port mod 10)) = Inr (host, 8125) \<and>
   parseHostPortString ''localhost:4294967376'' = Inr (''localhost'', 80)"
proof
  have "length (show_nat (port mod 10)) = 1" by (simp add: show_nat_length [unfolded One_nat_def])
  then show "parseHostPortString (host @ '':'' @ show_nat (port mod 10)) = Inr (host, 8125)"
    using rfind_port [of host "port mod 10"] by (simp add: parseHostPortString_def)
  show "parseHostPortString ''localhost:4294967376'' = Inr (''localhost'', 80)" by code_simp
qed


section \<open>Inspection of the collectors\<close>

text \<open>
  \<^verbatim>\<open>buildboxcommonmetrics_testingutils.h\<close>: each query takes a snapshot, which empties the collector it looks at.
\<close>

definition collectedByName :: "string \<Rightarrow> 'v metrics \<Rightarrow> bool \<times> 'v metrics" where
  "collectedByName metric collector =
     (let (metrics_container, collector) = getSnapshot collector
      in (length (filter (\<lambda>e. fst e = metric) metrics_container) \<noteq> 0, collector))"

definition collectedByNameWithValue :: "string \<Rightarrow> 'v \<Rightarrow> 'v metrics \<Rightarrow> bool \<times> 'v metrics" where
  "collectedByNameWithValue name v collector =
     (let (metrics_container, collector) = getSnapshot collector
      in (case List.find (\<lambda>e. fst e = name \<and> snd e = v) metrics_container of None \<Rightarrow> False | Some e \<Rightarrow> snd e = v, collector))"

definition allCollectedByName :: "string list \<Rightarrow> 'v metrics \<Rightarrow> bool \<times> 'v metrics" where
  "allCollectedByName names collector =
     (let (metrics_container, collector) = getSnapshot collector
      in (list_all (\<lambda>metric. List.find (\<lambda>e. fst e = metric) metrics_container \<noteq> None) names, collector))"

definition allCollectedByNameWithValues :: "(string \<times> 'v) list \<Rightarrow> 'v metrics \<Rightarrow> bool \<times> 'v metrics" where
  "allCollectedByNameWithValues name_values collector =
     (let (metrics_container, collector) = getSnapshot collector
      in (list_all (\<lambda>metric. case List.find (\<lambda>e. fst e = fst metric \<and> snd e = snd metric) metrics_container of
                              None \<Rightarrow> False | Some e \<Rightarrow> snd e = snd metric) name_values, collector))"

definition allCollectedByNameWithValuesAndAllMissingByName ::
  "(string \<times> 'v) list \<Rightarrow> string list \<Rightarrow> 'v metrics \<Rightarrow> bool \<times> 'v metrics" where
  "allCollectedByNameWithValuesAndAllMissingByName expectedMetrics expectedMissingMetrics collector =
     (let (metrics_container, collector) = getSnapshot collector
      in (list_all (\<lambda>name. length (filter (\<lambda>e. fst e = name) metrics_container) = 0) expectedMissingMetrics \<and>
          list_all (\<lambda>metric. List.find (\<lambda>e. fst e = fst metric \<and> snd e = snd metric) metrics_container \<noteq> None) expectedMetrics,
          collector))"

definition clearMetricCollection :: "'v metrics \<Rightarrow> 'v metrics" where
  "clearMetricCollection collector = snd (getSnapshot collector)"

fun clearAllMetricValueTypes :: "value_type list \<Rightarrow> factory \<Rightarrow> factory" where
  "clearAllMetricValueTypes [] fs = fs"
| "clearAllMetricValueTypes (ty # tys) fs =
     clearAllMetricValueTypes tys
       (case ty of
          Counting \<Rightarrow> fs\<lparr>f_counting := snd (getSnapshot (f_counting fs))\<rparr>
        | Duration \<Rightarrow> fs\<lparr>f_duration := snd (getSnapshot (f_duration fs))\<rparr>
        | TotalDuration \<Rightarrow> fs\<lparr>f_total := snd (getSnapshot (f_total fs))\<rparr>
        | Gauge \<Rightarrow> fs\<lparr>f_gauge := snd (getSnapshot (f_gauge fs))\<rparr>
        | Distribution \<Rightarrow> fs\<lparr>f_distribution := snd (getSnapshot (f_distribution fs))\<rparr>)"

definition clearAllMetricCollection :: "factory \<Rightarrow> factory" where
  "clearAllMetricCollection fs = clearAllMetricValueTypes publisherTypeOfAllValueTypes fs"

lemma find_entry: "List.find (\<lambda>e. fst e = n \<and> snd e = v) m = (if (n, v) \<in> set m then Some (n, v) else None)"
  by (induction m) auto

text \<open>The queries answer as the collector says, once: the same query asked again finds nothing.\<close>

lemma collectedByNameWithValue_once:
  "collectedByNameWithValue n v m = ((n, v) \<in> set m, [])"
  "allCollectedByNameWithValues nvs m = (set nvs \<subseteq> set m, [])"
  "allCollectedByNameWithValuesAndAllMissingByName nvs missing m = (set missing \<inter> fst ` set m = {} \<and> set nvs \<subseteq> set m, [])"
  by (auto simp: collectedByNameWithValue_def allCollectedByNameWithValues_def allCollectedByNameWithValuesAndAllMissingByName_def
      getSnapshot_def find_entry list_all_iff filter_empty_conv split: if_splits option.splits)

lemma collectedByName_once:
  "collectedByName n m = (n \<in> fst ` set m, [])" "allCollectedByName ns m = (set ns \<subseteq> fst ` set m, [])"
proof -
  have "List.find (\<lambda>e. fst e = n) m \<noteq> None \<longleftrightarrow> n \<in> fst ` set m" for n by (induction m) auto
  then show "collectedByName n m = (n \<in> fst ` set m, [])" "allCollectedByName ns m = (set ns \<subseteq> fst ` set m, [])"
    by (auto simp: collectedByName_def allCollectedByName_def getSnapshot_def list_all_iff filter_empty_conv simp del: not_None_eq)
qed

lemma clearAllMetricCollection_rest: "clearAllMetricCollection fs = fs\<lparr>f_counting := [], f_duration := [], f_total := [], f_gauge := []\<rparr>"
  by (simp add: clearAllMetricCollection_def publisherTypeOfAllValueTypes_def getSnapshot_def)

end
