(* ===== verification/Statsd_Server.thy ===== *)
theory Statsd_Server
  imports Metrics_Publisher
begin

text \<open>
  The specification of the metrics: a StatsD server that reads what the publisher sends, as the protocol that
  \<^verbatim>\<open>README.md\<close> and \<^verbatim>\<open>GaugeMetricValue::toStatsD\<close> describe it.  After a publication the server has what it
  would have if every recorded value had been sent to it at once.
\<close>

section \<open>The server\<close>

record statsd =
  sd_counters :: "string \<Rightarrow> int"
  sd_gauges :: "string \<Rightarrow> int"
  sd_timings :: "string \<Rightarrow> int list"

definition read_number :: "string \<Rightarrow> int" where
  "read_number s =
     (if s \<noteq> '''' \<and> hd s = CHR ''-'' then - digits_value (tl s)
      else if s \<noteq> '''' \<and> hd s = CHR ''+'' then digits_value (tl s)
      else digits_value s)"

text \<open>A gauge with a sign is a change, one without is set.\<close>

definition statsd_metric :: "string \<Rightarrow> string \<Rightarrow> string \<Rightarrow> statsd \<Rightarrow> statsd" where
  "statsd_metric name number kind srv =
     (if kind = ''c'' then srv\<lparr>sd_counters := (sd_counters srv)(name := sd_counters srv name + read_number number)\<rparr>
      else if kind = ''g''
      then srv\<lparr>sd_gauges := (sd_gauges srv)
             (name := (if number \<noteq> '''' \<and> (hd number = CHR ''+'' \<or> hd number = CHR ''-'') then sd_gauges srv name else 0) + read_number number)\<rparr>
      else if kind = ''ms'' then srv\<lparr>sd_timings := (sd_timings srv)(name := sd_timings srv name @ [read_number number])\<rparr>
      else srv)"

definition statsd_line :: "string \<Rightarrow> statsd \<Rightarrow> statsd" where
  "statsd_line line srv =
     (let name = takeWhile (\<lambda>c. c \<noteq> CHR '':'') line; rest = tl (dropWhile (\<lambda>c. c \<noteq> CHR '':'') line);
          number = takeWhile (\<lambda>c. c \<noteq> CHR ''|'') rest; kind = tl (dropWhile (\<lambda>c. c \<noteq> CHR ''|'') rest)
      in statsd_metric name number kind srv)"

definition statsd_receive :: "string \<Rightarrow> statsd \<Rightarrow> statsd" where
  "statsd_receive message srv = fold statsd_line (split_at (CHR 0x0A) message) srv"

definition valid_name :: "string \<Rightarrow> bool" where
  "valid_name name \<longleftrightarrow> CHR '':'' \<notin> set name \<and> CHR ''|'' \<notin> set name \<and> CHR 0x0A \<notin> set name"

section \<open>Reading the text of the values\<close>

lemma show_int_chars: "c \<in> set (show_int i) \<Longrightarrow> is_digit c \<or> c = CHR ''-''"
  using show_nat_value [of "nat \<bar>i\<bar>"] by (auto simp: show_int_def list_all_iff split: if_splits)

lemma show_int_no_sep: "CHR ''|'' \<notin> set (show_int i)" "CHR 0x0A \<notin> set (show_int i)"
  using show_int_chars [of _ i] by (auto simp: is_digit_def Let_def dest!: show_int_chars)

lemma show_nat_hd: "show_nat n \<noteq> [] \<and> hd (show_nat n) \<noteq> CHR ''-'' \<and> hd (show_nat n) \<noteq> CHR ''+''"
  using show_nat_value [of n] digit_not_space [of "hd (show_nat n)"] by (cases "show_nat n") auto

lemma read_show_int: "read_number (show_int i) = i"
  using show_nat_value [of "nat \<bar>i\<bar>"] show_nat_hd [of "nat i"] by (auto simp: read_number_def show_int_def)

lemma show_int_abs: "show_int \<bar>i\<bar> = show_nat (nat \<bar>i\<bar>)"
  by (simp add: show_int_def)

lemma statsd_line_print:
  assumes "CHR '':'' \<notin> set name" "CHR ''|'' \<notin> set number"
  shows "statsd_line (name @ '':'' @ number @ ''|'' @ kind) srv = statsd_metric name number kind srv"
proof -
  let ?n = "\<lambda>c. c \<noteq> CHR '':''" and ?m = "\<lambda>c. c \<noteq> CHR ''|''"
  have "takeWhile ?n (name @ CHR '':'' # r) = name" "dropWhile ?n (name @ CHR '':'' # r) = CHR '':'' # r" for r
    using assms(1) by (simp_all add: takeWhile_append dropWhile_append takeWhile_eq_all_conv dropWhile_eq_Nil_conv)
  moreover have "takeWhile ?m (number @ CHR ''|'' # r) = number" "dropWhile ?m (number @ CHR ''|'' # r) = CHR ''|'' # r" for r
    using assms(2) by (simp_all add: takeWhile_append dropWhile_append takeWhile_eq_all_conv dropWhile_eq_Nil_conv)
  ultimately show ?thesis by (simp add: statsd_line_def Let_def)
qed

lemma receive_line:
  assumes "valid_name name" "CHR ''|'' \<notin> set number" "CHR 0x0A \<notin> set number" "CHR 0x0A \<notin> set kind"
  shows "statsd_receive ((name @ '':'' @ number @ ''|'' @ kind) @ newline) srv = statsd_metric name number kind srv"
proof -
  let ?line = "name @ '':'' @ number @ ''|'' @ kind"
  have "CHR 0x0A \<notin> set ?line" using assms by (simp add: valid_name_def)
  then have "split_at (CHR 0x0A) (?line @ newline) = [?line, '''']" using split_at_sep [of "CHR 0x0A" ?line "[]"] by simp
  moreover have "statsd_line '''' = id" by (simp add: fun_eq_iff statsd_line_def statsd_metric_def)
  ultimately show ?thesis using statsd_line_print assms by (simp add: statsd_receive_def valid_name_def)
qed

lemma receive_counting:
  assumes "valid_name name"
  shows "statsd_receive (counting_toStatsD name v @ newline) srv =
    srv\<lparr>sd_counters := apply_entry count_effect (name, v) (sd_counters srv)\<rparr>"
  using receive_line [OF assms show_int_no_sep, of "''c''" "counting_value v" srv]
  by (simp add: counting_toStatsD_def statsd_metric_def read_show_int apply_entry_def count_effect_def)

lemma receive_duration:
  assumes "valid_name name"
  shows "statsd_receive (duration_toStatsD name v @ newline) srv =
    srv\<lparr>sd_timings := (sd_timings srv)(name := sd_timings srv name @ [duration_value v sdiv 1000])\<rparr>"
  using receive_line [OF assms show_int_no_sep, of "''ms''" "duration_value v sdiv 1000" srv]
  by (simp add: duration_toStatsD_def statsd_metric_def read_show_int)

lemma receive_total:
  assumes "valid_name name"
  shows "statsd_receive (total_toStatsD name v @ newline) srv =
    srv\<lparr>sd_timings := (sd_timings srv)(name := sd_timings srv name @ [total_value v sdiv 1000])\<rparr>"
  using receive_line [OF assms show_int_no_sep, of "''ms''" "total_value v sdiv 1000" srv]
  by (simp add: total_toStatsD_def statsd_metric_def read_show_int)

lemma receive_gauge:
  assumes "valid_name name" "gauge_toStatsD name v = Inr line"
  shows "statsd_receive (line @ newline) srv = srv\<lparr>sd_gauges := apply_entry gauge_effect (name, v) (sd_gauges srv)\<rparr>"
proof (cases "isDelta v")
  case True
  let ?number = "(if gauge_value v \<ge> 0 then ''+'' else ''-'') @ show_int \<bar>gauge_value v\<bar>"
  have line: "line = name @ '':'' @ ?number @ ''|'' @ ''g''" using assms(2) True by (auto simp: gauge_toStatsD_def split: if_splits)
  have "CHR ''|'' \<notin> set ?number" "CHR 0x0A \<notin> set ?number" using show_int_no_sep by auto
  then have "statsd_receive (line @ newline) srv = statsd_metric name ?number ''g'' srv"
    unfolding line by (rule receive_line [OF assms(1)]) simp
  moreover have "read_number ?number = gauge_value v"
    using show_nat_value [of "nat \<bar>gauge_value v\<bar>"] by (auto simp: read_number_def show_int_abs)
  ultimately show ?thesis using True by (simp add: statsd_metric_def apply_entry_def gauge_effect_def)
next
  case False
  let ?number = "show_int (gauge_value v)"
  note set = receive_line [OF assms(1) show_int_no_sep, of "''g''" "gauge_value v"]
  show ?thesis
  proof (cases "gauge_value v < 0")
    case True
    let ?zero = "name @ '':'' @ ''0'' @ ''|'' @ ''g''"
    have "line = (?zero @ newline) @ name @ '':'' @ ?number @ ''|'' @ ''g''" using assms(2) False True by (simp add: gauge_toStatsD_def)
    then have "statsd_receive (line @ newline) srv =
        statsd_receive ((name @ '':'' @ ?number @ ''|'' @ ''g'') @ newline) (statsd_receive ?zero srv)"
      by (simp add: statsd_receive_def split_at_append_sep [of _ ?zero, simplified])
    also have "statsd_receive ?zero srv = statsd_metric name ''0'' ''g'' srv"
      using statsd_line_print [of name "''0''" "''g''" srv] assms(1)
      by (subst statsd_receive_def) (simp add: split_at_no_sep valid_name_def)
    finally show ?thesis using set False True
      by (simp add: statsd_metric_def read_number_def [of "''0''"] read_show_int apply_entry_def gauge_effect_def digits_value_def)
  next
    case nonneg: False
    then have "hd ?number \<noteq> CHR ''-''" "hd ?number \<noteq> CHR ''+''" using show_nat_hd [of "nat (gauge_value v)"] by (simp_all add: show_int_def)
    moreover have "line = name @ '':'' @ ?number @ ''|'' @ ''g''" using assms(2) False nonneg by (simp add: gauge_toStatsD_def)
    ultimately show ?thesis using set [of srv] False by (simp add: statsd_metric_def read_show_int apply_entry_def gauge_effect_def)
  qed
qed

section \<open>Publication\<close>

definition deliver :: "string list \<Rightarrow> statsd \<Rightarrow> statsd" where
  "deliver statsDMetrics srv = fold (\<lambda>metric. statsd_receive (metric @ newline)) statsDMetrics srv"

definition valid_names :: "'v metrics \<Rightarrow> bool" where
  "valid_names m \<longleftrightarrow> list_all (\<lambda>e. valid_name (fst e)) m"

lemma deliver_print:
  assumes "\<And>n v line srv. valid_name n \<Longrightarrow> toStatsD n v = Inr line \<Longrightarrow> statsd_receive (line @ newline) srv = upd (n, v) srv"
    and "valid_names m" "print_entries toStatsD m acc = Inr lines"
  shows "deliver lines srv = fold upd m (deliver acc srv)"
  using assms(2,3)
proof (induction m arbitrary: acc)
  case (Cons e m)
  obtain n v where e: "e = (n, v)" by fastforce
  then obtain line where line: "toStatsD n v = Inr line" "print_entries toStatsD m (acc @ [line]) = Inr lines"
    using Cons.prems by (auto split: sum.splits)
  then show ?case using Cons assms(1) [of n v line] e by (simp add: valid_names_def deliver_def)
qed simp

definition duration_effect :: "duration_metric_value \<Rightarrow> int list \<Rightarrow> int list" where
  "duration_effect v xs = xs @ [duration_value v sdiv 1000]"

definition total_line_effect :: "total_duration_metric_value \<Rightarrow> int list \<Rightarrow> int list" where
  "total_line_effect v xs = xs @ [total_value v sdiv 1000]"

text \<open>What the collectors hold, applied to a server.\<close>

definition flushed :: "factory \<Rightarrow> statsd \<Rightarrow> statsd" where
  "flushed fs srv =
     \<lparr>sd_counters = collected count_effect (f_counting fs) (sd_counters srv),
      sd_gauges = collected gauge_effect (f_gauge fs) (sd_gauges srv),
      sd_timings = collected total_line_effect (f_total fs) (fold (apply_entry duration_effect) (f_duration fs) (sd_timings srv))\<rparr>"

definition emptied :: "factory \<Rightarrow> factory" where
  "emptied fs = fs\<lparr>f_counting := [], f_duration := [], f_total := [], f_gauge := []\<rparr>"

definition iterates :: "iteration \<Rightarrow> bool" where
  "iterates it \<longleftrightarrow>
     (\<forall>m. mset (it_counting it m) = mset m) \<and> (\<forall>m. mset (it_total it m) = mset m) \<and> (\<forall>m. mset (it_gauge it m) = mset m)"

definition factory_ok :: "int \<Rightarrow> factory \<Rightarrow> bool" where
  "factory_ok b fs \<longleftrightarrow> f_metricsEnabled fs \<and> 0 \<le> b \<and>
     distinct (map fst (f_counting fs)) \<and> distinct (map fst (f_total fs)) \<and> distinct (map fst (f_gauge fs)) \<and>
     valid_names (f_counting fs) \<and> valid_names (f_total fs) \<and> valid_names (f_gauge fs) \<and> valid_names (f_duration fs) \<and>
     bounded (\<lambda>v. \<bar>counting_value v\<bar>) b (f_counting fs) \<and> bounded (\<lambda>v. \<bar>total_value v\<bar>) b (f_total fs) \<and>
     bounded (\<lambda>v. \<bar>gauge_value v\<bar>) b (f_gauge fs)"

lemma valid_names_order: "mset m' = mset m \<Longrightarrow> valid_names m' = valid_names m"
  by (metis list_all_iff set_mset_mset valid_names_def)

lemma fold_counters: "fold (\<lambda>e srv. srv\<lparr>sd_counters := f e (sd_counters srv)\<rparr>) m srv = srv\<lparr>sd_counters := fold f m (sd_counters srv)\<rparr>"
  by (induction m arbitrary: srv) simp_all

lemma fold_gauges: "fold (\<lambda>e srv. srv\<lparr>sd_gauges := f e (sd_gauges srv)\<rparr>) m srv = srv\<lparr>sd_gauges := fold f m (sd_gauges srv)\<rparr>"
  by (induction m arbitrary: srv) simp_all

lemma fold_timings: "fold (\<lambda>e srv. srv\<lparr>sd_timings := f e (sd_timings srv)\<rparr>) m srv = srv\<lparr>sd_timings := fold f m (sd_timings srv)\<rparr>"
  by (induction m arbitrary: srv) simp_all

lemma print_total: "\<exists>lines. print_entries (\<lambda>n v. Inr (f n v)) m acc = Inr lines"
  by (induction m arbitrary: acc) auto

lemma print_gauges:
  "bounded (\<lambda>v. \<bar>gauge_value v\<bar>) b m \<Longrightarrow> b < 2 ^ 63 \<Longrightarrow> \<exists>lines. print_entries gauge_toStatsD m acc = Inr lines"
proof (induction gauge_toStatsD m acc rule: print_entries.induct)
  case (2 n v m acc)
  then have "gauge_value v \<noteq> - (2 ^ 63)" by (auto simp: bounded_def)
  then have "\<exists>line. gauge_toStatsD n v = Inr line" by (simp add: gauge_toStatsD_def)
  then show ?case using 2 by (auto simp: bounded_def)
qed simp

lemma bounded_order: "mset m' = mset m \<Longrightarrow> bounded magnitude b m' = bounded magnitude b m"
  by (metis bounded_def set_mset_mset)

text \<open>Each collector by itself.\<close>

lemma gather_counting:
  assumes "iterates it" "valid_names (f_counting fs)" "distinct (map fst (f_counting fs))"
  shows "\<exists>lines. gatherStatsDFromValueTypeCollector it Counting acc fs = (Inr lines, fs\<lparr>f_counting := []\<rparr>) \<and>
    (\<forall>srv. deliver lines srv = (deliver acc srv)\<lparr>sd_counters := collected count_effect (f_counting fs) (sd_counters (deliver acc srv))\<rparr>)"
proof -
  let ?m = "it_counting it (f_counting fs)" and ?f = "\<lambda>n v. Inr (counting_toStatsD n v)"
  have m: "mset ?m = mset (f_counting fs)" using assms(1) by (simp add: iterates_def)
  obtain lines where lines: "print_entries ?f ?m acc = Inr lines" using print_total by blast
  have "deliver lines srv = fold (\<lambda>e srv. srv\<lparr>sd_counters := apply_entry count_effect e (sd_counters srv)\<rparr>) ?m (deliver acc srv)" for srv
    by (rule deliver_print [OF _ _ lines]) (use valid_names_order [OF m] assms(2) in \<open>auto simp: receive_counting\<close>)
  then show ?thesis using lines collected_order(1) [OF assms(3) m, where effect = count_effect]
    by (simp add: gatherStatsDFromValueTypeCollector_def getSnapshot_def fold_counters)
qed

lemma gather_total:
  assumes "iterates it" "valid_names (f_total fs)" "distinct (map fst (f_total fs))"
  shows "\<exists>lines. gatherStatsDFromValueTypeCollector it TotalDuration acc fs = (Inr lines, fs\<lparr>f_total := []\<rparr>) \<and>
    (\<forall>srv. deliver lines srv = (deliver acc srv)\<lparr>sd_timings := collected total_line_effect (f_total fs) (sd_timings (deliver acc srv))\<rparr>)"
proof -
  let ?m = "it_total it (f_total fs)" and ?f = "\<lambda>n v. Inr (total_toStatsD n v)"
  have m: "mset ?m = mset (f_total fs)" using assms(1) by (simp add: iterates_def)
  obtain lines where lines: "print_entries ?f ?m acc = Inr lines" using print_total by blast
  have "deliver lines srv = fold (\<lambda>e srv. srv\<lparr>sd_timings := apply_entry total_line_effect e (sd_timings srv)\<rparr>) ?m (deliver acc srv)" for srv
    by (rule deliver_print [OF _ _ lines])
      (use valid_names_order [OF m] assms(2) in \<open>auto simp: receive_total apply_entry_def total_line_effect_def\<close>)
  then show ?thesis using lines collected_order(1) [OF assms(3) m, where effect = total_line_effect]
    by (simp add: gatherStatsDFromValueTypeCollector_def getSnapshot_def fold_timings)
qed

lemma gather_gauge_lines:
  assumes "iterates it" "valid_names (f_gauge fs)" "distinct (map fst (f_gauge fs))"
    and "gatherStatsDFromValueTypeCollector it Gauge acc fs = (Inr lines, fs')"
  shows "deliver lines srv = (deliver acc srv)\<lparr>sd_gauges := collected gauge_effect (f_gauge fs) (sd_gauges (deliver acc srv))\<rparr>"
    and "fs' = fs\<lparr>f_gauge := []\<rparr>"
proof -
  let ?m = "it_gauge it (f_gauge fs)"
  have m: "mset ?m = mset (f_gauge fs)" using assms(1) by (simp add: iterates_def)
  have lines: "print_entries gauge_toStatsD ?m acc = Inr lines" and "fs' = fs\<lparr>f_gauge := []\<rparr>"
    using assms(4) by (simp_all add: gatherStatsDFromValueTypeCollector_def getSnapshot_def)
  then show "fs' = fs\<lparr>f_gauge := []\<rparr>" by simp
  have "deliver lines srv = fold (\<lambda>e srv. srv\<lparr>sd_gauges := apply_entry gauge_effect e (sd_gauges srv)\<rparr>) ?m (deliver acc srv)"
    by (rule deliver_print [OF _ _ lines]) (use valid_names_order [OF m] assms(2) in \<open>auto simp: receive_gauge\<close>)
  then show "deliver lines srv = (deliver acc srv)\<lparr>sd_gauges := collected gauge_effect (f_gauge fs) (sd_gauges (deliver acc srv))\<rparr>"
    using collected_order(1) [OF assms(3) m, where effect = gauge_effect] by (simp add: fold_gauges)
qed

lemma gather_gauge_defined:
  assumes "iterates it" "bounded (\<lambda>v. \<bar>gauge_value v\<bar>) b (f_gauge fs)" "b < 2 ^ 63"
  shows "\<exists>lines. gatherStatsDFromValueTypeCollector it Gauge acc fs = (Inr lines, fs\<lparr>f_gauge := []\<rparr>)"
proof -
  have "mset (it_gauge it (f_gauge fs)) = mset (f_gauge fs)" using assms(1) by (simp add: iterates_def)
  from bounded_order [OF this] show ?thesis using print_gauges [of b "it_gauge it (f_gauge fs)" acc] assms(2,3)
    by (simp add: gatherStatsDFromValueTypeCollector_def getSnapshot_def)
qed

lemma gather_duration:
  assumes "valid_names (f_duration fs)"
  shows "\<exists>lines. gatherStatsDFromValueTypeCollector it Duration acc fs = (Inr lines, fs\<lparr>f_duration := []\<rparr>) \<and>
    (\<forall>srv. deliver lines srv = (deliver acc srv)\<lparr>sd_timings := fold (apply_entry duration_effect) (f_duration fs) (sd_timings (deliver acc srv))\<rparr>)"
proof -
  let ?f = "\<lambda>n v. Inr (duration_toStatsD n v)"
  obtain lines where lines: "print_entries ?f (f_duration fs) acc = Inr lines" using print_total by blast
  have "deliver lines srv =
      fold (\<lambda>e srv. srv\<lparr>sd_timings := apply_entry duration_effect e (sd_timings srv)\<rparr>) (f_duration fs) (deliver acc srv)" for srv
    by (rule deliver_print [OF _ assms lines]) (auto simp: receive_duration apply_entry_def duration_effect_def)
  then show ?thesis using lines by (simp add: gatherStatsDFromValueTypeCollector_def getSnapshot_def fold_timings)
qed

lemma gather_all:
  assumes "iterates it" "factory_ok b fs" "b < 2 ^ 63"
  shows "\<exists>lines. gatherStatsDFromNextCollectors it publisherTypeOfAllValueTypes [] fs = (Inr lines, emptied fs) \<and>
    (\<forall>srv. deliver lines srv = flushed fs srv)"
proof -
  note ok = assms(2) [unfolded factory_ok_def]
  define fs1 where "fs1 = fs\<lparr>f_counting := []\<rparr>"
  define fs2 where "fs2 = fs1\<lparr>f_duration := []\<rparr>"
  define fs3 where "fs3 = fs2\<lparr>f_total := []\<rparr>"
  note defs = fs1_def fs2_def fs3_def
  obtain l1 where l1: "gatherStatsDFromValueTypeCollector it Counting [] fs = (Inr l1, fs1)"
    "\<And>srv. deliver l1 srv = srv\<lparr>sd_counters := collected count_effect (f_counting fs) (sd_counters srv)\<rparr>"
    using gather_counting [OF assms(1), of fs "[]"] ok by (auto simp: deliver_def defs)
  obtain l2 where l2: "gatherStatsDFromValueTypeCollector it Duration l1 fs1 = (Inr l2, fs2)"
    "\<And>srv. deliver l2 srv = (deliver l1 srv)\<lparr>sd_timings := fold (apply_entry duration_effect) (f_duration fs) (sd_timings (deliver l1 srv))\<rparr>"
    using gather_duration [of fs1 it l1] ok by (auto simp: defs)
  obtain l3 where l3: "gatherStatsDFromValueTypeCollector it TotalDuration l2 fs2 = (Inr l3, fs3)"
    "\<And>srv. deliver l3 srv = (deliver l2 srv)\<lparr>sd_timings := collected total_line_effect (f_total fs) (sd_timings (deliver l2 srv))\<rparr>"
    using gather_total [OF assms(1), of fs2 l2] ok by (auto simp: defs)
  obtain l4 where l4: "gatherStatsDFromValueTypeCollector it Gauge l3 fs3 = (Inr l4, fs3\<lparr>f_gauge := []\<rparr>)"
    "\<And>srv. deliver l4 srv = (deliver l3 srv)\<lparr>sd_gauges := collected gauge_effect (f_gauge fs) (sd_gauges (deliver l3 srv))\<rparr>"
    using gather_gauge_defined [OF assms(1), of b fs3 l3] gather_gauge_lines [OF assms(1), of fs3 l3] ok assms(3) by (auto simp: defs)
  have "gatherStatsDFromNextCollectors it publisherTypeOfAllValueTypes [] fs = (Inr l4, emptied fs)"
    using l1(1) l2(1) l3(1) l4(1) by (simp add: publisherTypeOfAllValueTypes_def emptied_def defs)
  moreover have "deliver l4 srv = flushed fs srv" for srv
    using l1(2) l2(2) l3(2) l4(2) by (simp add: flushed_def)
  ultimately show ?thesis by blast
qed


text \<open>
  What is assumed of the system below the writers, for a view \<open>server\<close> of its state: the file can be
  opened and is read by the server, or host and socket can be had and no datagram is lost.
\<close>

definition delivers :: "('s, 'a) publish_env \<Rightarrow> statsd_publisher \<Rightarrow> ('s \<Rightarrow> statsd) \<Rightarrow> bool" where
  "delivers env p server \<longleftrightarrow>
     (case sp_method p of
        StdErr \<Rightarrow> False
      | File \<Rightarrow>
          (\<forall>s. fst (pe_open_append env (sp_path p) s) \<and> server (snd (pe_open_append env (sp_path p) s)) = server s) \<and>
          (\<forall>buffer s. server (pe_append env (sp_path p) buffer s) = statsd_receive buffer (server s))
      | UDP \<Rightarrow>
          (\<forall>s. pe_getaddrinfo env (sp_path p) (show_int (sp_port p)) s \<noteq> None) \<and>
          (\<forall>a s. 0 \<le> fst (pe_socket env a s) \<and> server (snd (pe_socket env a s)) = server s) \<and>
          (\<forall>fd a buffer s. server (pe_sendto env fd a buffer s) = statsd_receive buffer (server s)) \<and>
          (\<forall>fd s. server (pe_close env fd s) = server s))"

lemma fold_view:
  "(\<And>x s. view (step x s) = step' x (view s)) \<Longrightarrow> view (fold step xs s) = fold step' xs (view s)"
  by (induction xs arbitrary: s) simp_all

lemma publish_delivers:
  assumes "delivers env p server" "iterates it" "factory_ok b fs" "b < 2 ^ 63"
  shows "\<exists>s'. publish env it publisherTypeOfAllValueTypes p fs s = (Inr (), emptied fs, s') \<and> server s' = flushed fs (server s)"
proof -
  obtain lines where lines: "gatherStatsDFromNextCollectors it publisherTypeOfAllValueTypes [] fs = (Inr lines, emptied fs)"
    "\<And>srv. fold (\<lambda>metric. statsd_receive (metric @ newline)) lines srv = flushed fs srv"
    using gather_all [OF assms(2-4)] by (auto simp: deliver_def)
  show ?thesis
  proof (cases "sp_method p")
    case StdErr
    then show ?thesis using assms(1) by (simp add: delivers_def)
  next
    case File
    let ?s = "snd (pe_open_append env (sp_path p) s)"
    have "server (fold (\<lambda>metric. FileWriter_write env (sp_path p) (metric @ newline)) lines ?s) = flushed fs (server ?s)"
      using assms(1) File lines(2)
      by (subst fold_view [where step' = "\<lambda>metric. statsd_receive (metric @ newline)"]) (simp_all add: FileWriter_write_def delivers_def)
    then show ?thesis using lines(1) File assms(1) by (simp add: publish_def new_FileWriter_def delivers_def case_prod_beta)
  next
    case UDP
    then have "pe_getaddrinfo env (sp_path p) (show_int (sp_port p)) s \<noteq> None" using assms(1) by (simp add: delivers_def)
    then obtain a where a: "pe_getaddrinfo env (sp_path p) (show_int (sp_port p)) s = Some a" by blast
    let ?s = "snd (pe_socket env a s)"
    have "server (fold (\<lambda>metric. UDPWriter_write env (fd, a) (metric @ newline)) lines ?s) = flushed fs (server ?s)" for fd
      using assms(1) UDP lines(2)
      by (subst fold_view [where step' = "\<lambda>metric. statsd_receive (metric @ newline)"]) (simp_all add: UDPWriter_write_def delivers_def)
    then show ?thesis using lines(1) UDP assms(1) a
      by (simp add: publish_def new_UDPWriter_def UDPWriter_connect_def UDPWriter_destroy_def delivers_def case_prod_beta not_less)
  qed
qed

section \<open>Recording and publishing\<close>

datatype metric_event =
    RecordCount string int
  | SetGauge string int
  | AdjustGauge string int
  | TimeScope string int int
  | TotalTimeScope string int int
  | RecordDistribution string int
  | PublishAll

fun record_event :: "metric_event \<Rightarrow> factory \<Rightarrow> factory result" where
  "record_event (RecordCount n k) fs = recordCounterMetric_count n k fs"
| "record_event (SetGauge n k) fs = setGauge n k fs"
| "record_event (AdjustGauge n k) fs = adjustGauge n k fs"
| "record_event (TimeScope n t t') fs = guard_duration n t t' id fs"
| "record_event (TotalTimeScope n t t') fs = guard_total n t t' id fs"
| "record_event (RecordDistribution n k) fs = recordDistributionMetric_value n k fs"
| "record_event PublishAll fs = Inr fs"

definition run_event ::
  "('s, 'a) publish_env \<Rightarrow> iteration \<Rightarrow> statsd_publisher \<Rightarrow> metric_event \<Rightarrow> factory \<times> 's \<Rightarrow> (factory \<times> 's) result" where
  "run_event env it p e st =
     (if e = PublishAll
      then (case publish env it publisherTypeOfAllValueTypes p (fst st) (snd st) of
              (Inl x, _) \<Rightarrow> Inl x
            | (Inr _, fs, s) \<Rightarrow> Inr (fs, s))
      else map_sum id (\<lambda>fs. (fs, snd st)) (record_event e (fst st)))"

declare run_event_def [simp]

fun run_events ::
  "('s, 'a) publish_env \<Rightarrow> iteration \<Rightarrow> statsd_publisher \<Rightarrow> metric_event list \<Rightarrow> factory \<times> 's \<Rightarrow> (factory \<times> 's) result" where
  "run_events env it p [] st = Inr st"
| "run_events env it p (e # es) st = (case run_event env it p e st of Inl x \<Rightarrow> Inl x | Inr st \<Rightarrow> run_events env it p es st)"

text \<open>The specification: every value acts on the server when it is recorded.\<close>

fun direct_event :: "metric_event \<Rightarrow> statsd \<Rightarrow> statsd" where
  "direct_event (RecordCount n k) srv = srv\<lparr>sd_counters := (sd_counters srv)(n := sd_counters srv n + k)\<rparr>"
| "direct_event (SetGauge n k) srv = srv\<lparr>sd_gauges := (sd_gauges srv)(n := k)\<rparr>"
| "direct_event (AdjustGauge n k) srv = srv\<lparr>sd_gauges := (sd_gauges srv)(n := sd_gauges srv n + k)\<rparr>"
| "direct_event (TimeScope n t t') srv = srv\<lparr>sd_timings := (sd_timings srv)(n := sd_timings srv n @ [(t' - t) sdiv 1000 sdiv 1000])\<rparr>"
| "direct_event e srv = srv"

fun event_name :: "metric_event \<Rightarrow> string" where
  "event_name (RecordCount n k) = n"
| "event_name (SetGauge n k) = n"
| "event_name (AdjustGauge n k) = n"
| "event_name (TimeScope n t t') = n"
| "event_name (TotalTimeScope n t t') = n"
| "event_name (RecordDistribution n k) = n"
| "event_name PublishAll = ''''"

fun magnitude :: "metric_event \<Rightarrow> int" where
  "magnitude (RecordCount n k) = \<bar>k\<bar>"
| "magnitude (SetGauge n k) = \<bar>k\<bar>"
| "magnitude (AdjustGauge n k) = \<bar>k\<bar>"
| "magnitude (TotalTimeScope n t t') = \<bar>(t' - t) sdiv 1000\<bar>"
| "magnitude e = 0"

fun total_time :: "string \<Rightarrow> metric_event \<Rightarrow> int" where
  "total_time name (TotalTimeScope n t t') = (if n = name then (t' - t) sdiv 1000 else 0)"
| "total_time name e = 0"

fun times_total :: "string \<Rightarrow> metric_event \<Rightarrow> bool" where
  "times_total name (TotalTimeScope n t t') = (n = name)"
| "times_total name e = False"

fun times_scope :: "string \<Rightarrow> metric_event \<Rightarrow> bool" where
  "times_scope name (TimeScope n t t') = (n = name)"
| "times_scope name e = False"

lemma magnitude_nonneg: "0 \<le> magnitude e"
  by (cases e) simp_all

lemmas record_defs =
  recordCounterMetric_count_def recordCounterMetric_value_def recordCounterMetric_def store_counting_def
  setGauge_def adjustGauge_def recordGauge_def store_gauge_def
  guard_duration_def guard_total_def ScopedMetric_create_def ScopedMetric_destroy_def
  DurationMetricTimer_start_def DurationMetricTimer_stop_def new_DurationMetricTimer_def store_duration_def
  TotalDurationMetricTimer_start_def TotalDurationMetricTimer_stop_def new_TotalDurationMetricTimer_def store_total_def
  recordDistributionMetric_value_def recordDistributionMetric_def store_distribution_def store_listed_def factory_store_def

lemma valid_names_store:
  "store_aggregated add n v m = Inr m' \<Longrightarrow> valid_names m \<Longrightarrow> valid_name n \<Longrightarrow> valid_names m'"
proof -
  have "valid_names m \<Longrightarrow> valid_name n \<Longrightarrow> valid_names (AList.update n w m)" for w
    by (induction m) (auto simp: valid_names_def)
  then show "store_aggregated add n v m = Inr m' \<Longrightarrow> valid_names m \<Longrightarrow> valid_name n \<Longrightarrow> valid_names m'"
    by (auto simp: store_aggregated_def map_sum_def split: option.splits sum.splits)
qed


text \<open>
  The simulation, for the names \<open>T\<close> of the total durations: server and collectors together have what the
  specification has.
\<close>

definition simulates :: "string set \<Rightarrow> int \<Rightarrow> factory \<Rightarrow> statsd \<Rightarrow> statsd \<Rightarrow> bool" where
  "simulates T b fs srv spec \<longleftrightarrow> factory_ok b fs \<and> fst ` set (f_total fs) \<subseteq> T \<and>
     collected count_effect (f_counting fs) (sd_counters srv) = sd_counters spec \<and>
     collected gauge_effect (f_gauge fs) (sd_gauges srv) = sd_gauges spec \<and>
     (\<forall>n. n \<notin> T \<longrightarrow> fold (apply_entry duration_effect) (f_duration fs) (sd_timings srv) n = sd_timings spec n)"

lemma factory_ok_mono: "factory_ok b fs \<Longrightarrow> b \<le> b' \<Longrightarrow> factory_ok b' fs"
  by (auto simp: factory_ok_def intro: bounded_mono)

lemma simulates_flushed:
  assumes "simulates T b fs srv spec"
  shows "simulates T b (emptied fs) (flushed fs srv) spec"
proof -
  have "map_of (f_total fs) n = None" if "n \<notin> T" for n
    using assms that by (auto simp: simulates_def map_of_eq_None_iff)
  then have "collected total_line_effect (f_total fs) f n = f n" if "n \<notin> T" for f n using that by (simp add: collected_def)
  then show ?thesis using assms by (simp add: simulates_def emptied_def flushed_def factory_ok_def valid_names_def)
qed

lemma keys_store: "store_aggregated add n v m = Inr m' \<Longrightarrow> fst ` set m' = insert n (fst ` set m)"
proof -
  have "fst ` set (AList.update n w m) = insert n (fst ` set m)" for w by (induction m) auto
  then show "store_aggregated add n v m = Inr m' \<Longrightarrow> fst ` set m' = insert n (fst ` set m)"
    by (auto simp: store_aggregated_def map_sum_def split: option.splits sum.splits)
qed

lemma run_count:
  assumes "simulates T b fs srv spec" "valid_name n" "b + \<bar>k\<bar> < 2 ^ 63"
  shows "\<exists>fs'. recordCounterMetric_count n k fs = Inr fs' \<and>
    simulates T (b + \<bar>k\<bar>) fs' srv (direct_event (RecordCount n k) spec)"
proof -
  let ?v = "CountingMetricValue k"
  note ok = assms(1) [unfolded simulates_def factory_ok_def]
  obtain m where m: "store_aggregated counting_plus n ?v (f_counting fs) = Inr m" "bounded (\<lambda>v. \<bar>counting_value v\<bar>) (b + \<bar>k\<bar>) m"
    using counts.store_bounded [of b "f_counting fs" ?v n] ok assms(3) by auto
  have "factory_ok (b + \<bar>k\<bar>) (fs\<lparr>f_counting := m\<rparr>)"
    using ok m(2) counts.store_distinct [OF m(1)] valid_names_store [OF m(1)] assms(2)
    by (auto simp: factory_ok_def intro: bounded_mono)
  then show ?thesis
    using ok m(1) counts.store_collected [OF m(1), of "sd_counters srv"]
    by (auto simp: record_defs simulates_def apply_entry_def count_effect_def)
qed

lemma run_gauge:
  assumes "simulates T b fs srv spec" "valid_name n" "b + \<bar>gauge_value v\<bar> < 2 ^ 63"
  shows "\<exists>fs'. store_gauge n v fs = Inr fs' \<and>
    simulates T (b + \<bar>gauge_value v\<bar>) fs' srv (spec\<lparr>sd_gauges := apply_entry gauge_effect (n, v) (sd_gauges spec)\<rparr>)"
proof -
  note ok = assms(1) [unfolded simulates_def factory_ok_def]
  obtain m where m: "store_aggregated gauge_plus n v (f_gauge fs) = Inr m" "bounded (\<lambda>v. \<bar>gauge_value v\<bar>) (b + \<bar>gauge_value v\<bar>) m"
    using gauges.store_bounded [of b "f_gauge fs" v n] ok assms(3) by auto
  have "factory_ok (b + \<bar>gauge_value v\<bar>) (fs\<lparr>f_gauge := m\<rparr>)"
    using ok m(2) gauges.store_distinct [OF m(1)] valid_names_store [OF m(1)] assms(2)
    by (auto simp: factory_ok_def intro: bounded_mono)
  then show ?thesis
    using ok m(1) gauges.store_collected [OF m(1), of "sd_gauges srv"] by (auto simp: record_defs simulates_def)
qed

lemma run_total:
  assumes "simulates T b fs srv spec" "valid_name n" "n \<in> T" "b + \<bar>(t' - t) sdiv 1000\<bar> < 2 ^ 63"
  shows "\<exists>m. guard_total n t t' id fs = Inr (fs\<lparr>f_total := m\<rparr>) \<and>
    store_aggregated total_plus n (TotalDurationMetricValue ((t' - t) sdiv 1000)) (f_total fs) = Inr m \<and>
    simulates T (b + \<bar>(t' - t) sdiv 1000\<bar>) (fs\<lparr>f_total := m\<rparr>) srv spec"
proof -
  let ?d = "(t' - t) sdiv 1000"
  let ?v = "TotalDurationMetricValue ?d"
  note ok = assms(1) [unfolded simulates_def factory_ok_def]
  obtain m where m: "store_aggregated total_plus n ?v (f_total fs) = Inr m" "bounded (\<lambda>v. \<bar>total_value v\<bar>) (b + \<bar>?d\<bar>) m"
    using totals.store_bounded [of b "f_total fs" ?v n] ok assms(4) by auto
  have "factory_ok (b + \<bar>?d\<bar>) (fs\<lparr>f_total := m\<rparr>)"
    using ok m(2) totals.store_distinct [OF m(1)] valid_names_store [OF m(1)] assms(2)
    by (auto simp: factory_ok_def intro: bounded_mono)
  then show ?thesis using ok m(1) keys_store [OF m(1)] assms(3) by (auto simp: record_defs simulates_def)
qed

lemma run_scope:
  assumes "simulates T b fs srv spec" "valid_name n"
  shows "\<exists>fs'. guard_duration n t t' id fs = Inr fs' \<and> simulates T b fs' srv (direct_event (TimeScope n t t') spec)"
  using assms
  by (auto simp: record_defs simulates_def factory_ok_def valid_names_def apply_entry_def duration_effect_def)

lemma run_event_simulates:
  assumes "simulates T b fs (server s) spec" "valid_name (event_name e)" "b + magnitude e < 2 ^ 63"
    and "\<And>n. times_total n e \<Longrightarrow> n \<in> T"
    and "delivers env p server" "iterates it"
  shows "\<exists>fs' s'. run_event env it p e (fs, s) = Inr (fs', s') \<and> simulates T (b + magnitude e) fs' (server s') (direct_event e spec)"
proof (cases e)
  case (RecordCount n k)
  then show ?thesis using run_count [OF assms(1)] assms(2,3) by fastforce
next
  case (SetGauge n k)
  have "\<exists>fs'. setGauge n k fs = Inr fs' \<and> simulates T (b + \<bar>k\<bar>) fs' (server s) (direct_event (SetGauge n k) spec)"
    using run_gauge [OF assms(1), of n "GaugeMetricValue k False"] assms(2,3) SetGauge
    by (auto simp: setGauge_def recordGauge_def apply_entry_def gauge_effect_def)
  then show ?thesis using SetGauge by fastforce
next
  case (AdjustGauge n k)
  have "\<exists>fs'. adjustGauge n k fs = Inr fs' \<and> simulates T (b + \<bar>k\<bar>) fs' (server s) (direct_event (AdjustGauge n k) spec)"
    using run_gauge [OF assms(1), of n "GaugeMetricValue k True"] assms(2,3) AdjustGauge
    by (auto simp: adjustGauge_def recordGauge_def apply_entry_def gauge_effect_def)
  then show ?thesis using AdjustGauge by fastforce
next
  case (TimeScope n t t')
  then show ?thesis using run_scope [OF assms(1), of n t t'] assms(2) by fastforce
next
  case (TotalTimeScope n t t')
  then show ?thesis using run_total [OF assms(1), of n t' t] assms(2,3,4) by fastforce
next
  case (RecordDistribution n k)
  then show ?thesis using assms(1) by (auto simp: record_defs simulates_def factory_ok_def)
next
  case PublishAll
  have b: "factory_ok b fs" "b < 2 ^ 63" using assms(1,3) PublishAll by (simp_all add: simulates_def)
  obtain s' where "publish env it publisherTypeOfAllValueTypes p fs s = (Inr (), emptied fs, s')" "server s' = flushed fs (server s)"
    using publish_delivers [OF assms(5,6) b, of s] by blast
  then show ?thesis using PublishAll simulates_flushed [OF assms(1)] by simp
qed

lemma run_events_simulates:
  assumes "delivers env p server" "iterates it"
    and "simulates T b fs (server s) spec" "list_all (\<lambda>e. valid_name (event_name e)) es"
    and "b + sum_list (map magnitude es) < 2 ^ 63" "\<And>e n. e \<in> set es \<Longrightarrow> times_total n e \<Longrightarrow> n \<in> T"
  shows "\<exists>fs' s'. run_events env it p es (fs, s) = Inr (fs', s') \<and>
    simulates T (b + sum_list (map magnitude es)) fs' (server s') (fold direct_event es spec)"
  using assms(3-6)
proof (induction es arbitrary: b fs s spec)
  case (Cons e es)
  have "0 \<le> sum_list (map magnitude es)" using magnitude_nonneg by (intro sum_list_nonneg) auto
  then have bound: "b + magnitude e < 2 ^ 63" using Cons.prems(3) by simp
  have "valid_name (event_name e)" "\<And>n. times_total n e \<Longrightarrow> n \<in> T" using Cons.prems(2,4) by auto
  with bound obtain fs' s' where step: "run_event env it p e (fs, s) = Inr (fs', s')" "simulates T (b + magnitude e) fs' (server s') (direct_event e spec)"
    using run_event_simulates [OF Cons.prems(1) _ _ _ assms(1,2)] by blast
  then show ?case using Cons.IH [OF step(2)] Cons.prems(2-4) by (auto simp: add.assoc)
qed simp

lemma simulates_new: "simulates T 0 new_factory srv srv"
  by (simp add: simulates_def factory_ok_def new_factory_def valid_names_def)

lemma run_events_append:
  "run_events env it p (es @ es') st = (case run_events env it p es st of Inl x \<Rightarrow> Inl x | Inr st \<Rightarrow> run_events env it p es' st)"
  by (induction es arbitrary: st) (simp_all split: sum.split)



text \<open>A system in which the state is that of the server.\<close>

definition demo_env :: "(statsd, unit) publish_env" where
  "demo_env =
     \<lparr>pe_open_append = (\<lambda>path s. (False, s)), pe_append = (\<lambda>path buffer s. s), pe_getaddrinfo = (\<lambda>host port s. Some ()),
      pe_socket = (\<lambda>a s. (3, s)), pe_sendto = (\<lambda>fd a buffer s. statsd_receive buffer s), pe_close = (\<lambda>fd s. s),
      pe_cerr = (\<lambda>t s. s), pe_time = (\<lambda>s. '''')\<rparr>"

definition demo_publisher :: statsd_publisher where
  "demo_publisher = \<lparr>sp_method = UDP, sp_path = ''localhost'', sp_port = 8125\<rparr>"

definition demo_iteration :: iteration where
  "demo_iteration = \<lparr>it_counting = rev, it_total = rev, it_gauge = rev\<rparr>"

definition empty_statsd :: statsd where
  "empty_statsd = \<lparr>sd_counters = \<lambda>_. 0, sd_gauges = \<lambda>_. 0, sd_timings = \<lambda>_. []\<rparr>"

lemma demo_delivers: "delivers demo_env demo_publisher id" "iterates demo_iteration"
  by (simp_all add: delivers_def demo_publisher_def demo_env_def iterates_def demo_iteration_def)

definition demo_events :: "metric_event list" where
  "demo_events =
     [RecordCount ''a'' 2, SetGauge ''g'' (- 5), PublishAll, RecordCount ''a'' 3, AdjustGauge ''g'' 7, AdjustGauge ''g'' 1,
      TimeScope ''t'' 0 2500000, TotalTimeScope ''u'' 0 1999999, TotalTimeScope ''u'' 0 1000000]"


section \<open>Total durations\<close>

text \<open>
  A total duration is rounded down once in each publication.  For a name that is used for nothing else: what has been
  published and what is collected fall behind what was measured by less than a millisecond for each
  publication.
\<close>

definition collected_total :: "string \<Rightarrow> factory \<Rightarrow> int" where
  "collected_total name fs = (case map_of (f_total fs) name of None \<Rightarrow> 0 | Some v \<Rightarrow> total_value v)"

definition total_tracked :: "string \<Rightarrow> int \<Rightarrow> int \<Rightarrow> factory \<Rightarrow> statsd \<Rightarrow> bool" where
  "total_tracked name measured publications fs srv \<longleftrightarrow>
     (let published = 1000 * sum_list (sd_timings srv name)
      in 0 \<le> collected_total name fs \<and> published + collected_total name fs \<le> measured \<and>
         measured \<le> published + collected_total name fs + 999 * publications) \<and>
     name \<notin> fst ` set (f_duration fs)"

lemma durations_elsewhere: "name \<notin> fst ` set m \<Longrightarrow> fold (apply_entry effect) m f name = f name"
  by (induction m arbitrary: f) (auto simp: apply_entry_def)

lemma sdiv_nonneg: "0 \<le> x \<Longrightarrow> x sdiv 1000 = x div (1000 :: int)"
  by (cases "x = 0") (simp_all add: signed_divide_int_def)

lemma total_flushed:
  assumes "total_tracked name measured k fs srv"
  shows "total_tracked name measured (k + 1) (emptied fs) (flushed fs srv)"
proof -
  let ?xs = "sd_timings srv name"
  have d: "fold (apply_entry duration_effect) (f_duration fs) (sd_timings srv) name = ?xs"
    using assms by (intro durations_elsewhere) (simp add: total_tracked_def)
  show ?thesis
  proof (cases "map_of (f_total fs) name")
    case None
    then show ?thesis using assms d by (simp add: total_tracked_def flushed_def collected_def emptied_def collected_total_def Let_def)
  next
    case (Some v)
    then have v: "0 \<le> total_value v" using assms by (simp add: total_tracked_def collected_total_def Let_def)
    have "1000 * (total_value v div 1000) \<le> total_value v" "total_value v \<le> 1000 * (total_value v div 1000) + 999"
      using mult_div_mod_eq [of 1000 "total_value v"] pos_mod_bound [of 1000 "total_value v"] pos_mod_sign [of 1000 "total_value v"] by linarith+
    then show ?thesis using assms d Some v
      by (simp add: total_tracked_def flushed_def collected_def emptied_def collected_total_def Let_def total_line_effect_def sdiv_nonneg algebra_simps)
  qed
qed

fun publications :: "metric_event \<Rightarrow> int" where
  "publications PublishAll = 1"
| "publications e = 0"

lemma collected_total_store:
  assumes "store_aggregated total_plus n v (f_total fs) = Inr m"
  shows "collected_total name (fs\<lparr>f_total := m\<rparr>) = collected_total name fs + (if n = name then total_value v else 0)"
proof -
  have eq: "collected_total name fs' = collected total_effect (f_total fs') (\<lambda>_. 0) name" for fs'
    by (simp add: collected_total_def collected_def total_effect_def split: option.split)
  show ?thesis using totals.store_collected [OF assms, of "\<lambda>_. 0"] by (simp add: eq apply_entry_def total_effect_def)
qed

lemma other_fields:
  "recordCounterMetric_count n k fs = Inr fs' \<Longrightarrow> f_total fs' = f_total fs \<and> f_duration fs' = f_duration fs"
  "setGauge n k fs = Inr fs' \<Longrightarrow> f_total fs' = f_total fs \<and> f_duration fs' = f_duration fs"
  "adjustGauge n k fs = Inr fs' \<Longrightarrow> f_total fs' = f_total fs \<and> f_duration fs' = f_duration fs"
  "recordDistributionMetric_value n k fs = Inr fs' \<Longrightarrow> f_total fs' = f_total fs \<and> f_duration fs' = f_duration fs"
  by (auto simp: record_defs map_sum_def split: sum.splits if_splits)


lemma run_event_total:
  assumes "simulates T b fs (server s) spec" "valid_name (event_name e)" "b + magnitude e < 2 ^ 63"
    and "\<And>n. times_total n e \<Longrightarrow> n \<in> T" and "delivers env p server" "iterates it"
    and "total_tracked name measured k fs (server s)" "\<not> times_scope name e" "0 \<le> total_time name e"
    and "run_event env it p e (fs, s) = Inr (fs', s')"
  shows "total_tracked name (measured + total_time name e) (k + publications e) fs' (server s')"
proof (cases e)
  case (RecordCount n c)
  then show ?thesis using assms(7,10) other_fields(1) [of n c fs]
    by (auto simp: total_tracked_def collected_total_def map_sum_def split: sum.splits)
next
  case (SetGauge n c)
  then show ?thesis using assms(7,10) other_fields(2) [of n c fs]
    by (auto simp: total_tracked_def collected_total_def map_sum_def split: sum.splits)
next
  case (AdjustGauge n c)
  then show ?thesis using assms(7,10) other_fields(3) [of n c fs]
    by (auto simp: total_tracked_def collected_total_def map_sum_def split: sum.splits)
next
  case (TimeScope n t t')
  then show ?thesis using assms(1,7,8,10) by (auto simp: record_defs total_tracked_def collected_total_def simulates_def factory_ok_def)
next
  case (TotalTimeScope n t t')
  obtain m where "guard_total n t t' id fs = Inr (fs\<lparr>f_total := m\<rparr>)"
    "store_aggregated total_plus n (TotalDurationMetricValue ((t' - t) sdiv 1000)) (f_total fs) = Inr m"
    using run_total [OF assms(1), of n t' t] assms(2-4) TotalTimeScope by auto
  then show ?thesis using collected_total_store [of n _ fs m name] TotalTimeScope assms(7,9,10)
    by (auto simp: total_tracked_def Let_def split: if_splits)
next
  case (RecordDistribution n c)
  then show ?thesis using assms(7,10) other_fields(4) [of n c fs]
    by (auto simp: total_tracked_def collected_total_def map_sum_def split: sum.splits)
next
  case PublishAll
  have "factory_ok b fs" "b < 2 ^ 63" using assms(1,3) PublishAll by (simp_all add: simulates_def)
  then show ?thesis using publish_delivers [OF assms(5,6), of b fs s] total_flushed [OF assms(7)] PublishAll assms(10) by auto
qed

lemma run_events_total:
  assumes "delivers env p server" "iterates it"
    and "simulates T b fs (server s) spec" "list_all (\<lambda>e. valid_name (event_name e)) es"
    and "b + sum_list (map magnitude es) < 2 ^ 63" "\<And>e n. e \<in> set es \<Longrightarrow> times_total n e \<Longrightarrow> n \<in> T"
    and "total_tracked name measured k fs (server s)" "list_all (\<lambda>e. \<not> times_scope name e \<and> 0 \<le> total_time name e) es"
  shows "\<exists>fs' s'. run_events env it p es (fs, s) = Inr (fs', s') \<and>
    total_tracked name (measured + sum_list (map (total_time name) es)) (k + sum_list (map publications es)) fs' (server s')"
  using assms(3-8)
proof (induction es arbitrary: b fs s spec measured k)
  case (Cons e es)
  have "0 \<le> sum_list (map magnitude es)" using magnitude_nonneg by (intro sum_list_nonneg) auto
  then have bound: "b + magnitude e < 2 ^ 63" using Cons.prems(3) by simp
  have e: "valid_name (event_name e)" "\<And>n. times_total n e \<Longrightarrow> n \<in> T" "\<not> times_scope name e" "0 \<le> total_time name e"
    using Cons.prems(2,4,6) by auto
  obtain fs' s' where step: "run_event env it p e (fs, s) = Inr (fs', s')" "simulates T (b + magnitude e) fs' (server s') (direct_event e spec)"
    using run_event_simulates [OF Cons.prems(1) e(1) bound e(2) assms(1,2)] by blast
  have "total_tracked name (measured + total_time name e) (k + publications e) fs' (server s')"
    using run_event_total [OF Cons.prems(1) e(1) bound e(2) assms(1,2) Cons.prems(5) e(3,4) step(1)] by simp
  from Cons.IH [OF step(2) _ _ _ this] show ?case using Cons.prems(2-4,6) step(1) by (auto simp: add.assoc)
qed simp

text \<open>
  The milliseconds published for a total duration, which is rounded down in each publication, are at most the time that was
  measured and less than one millisecond below it for each publication.
\<close>

theorem total_duration_published:
  assumes "delivers env p server" "iterates it" "list_all (\<lambda>e. valid_name (event_name e)) es"
    and "sum_list (map magnitude es) < 2 ^ 63" "sd_timings (server s) name = []"
    and "list_all (\<lambda>e. \<not> times_scope name e \<and> 0 \<le> total_time name e) es"
  shows "\<exists>fs s'. run_events env it p (es @ [PublishAll]) (new_factory, s) = Inr (fs, s') \<and>
    1000 * sum_list (sd_timings (server s') name) \<le> sum_list (map (total_time name) es) \<and>
    sum_list (map (total_time name) es) \<le> 1000 * sum_list (sd_timings (server s') name) + 999 * (sum_list (map publications es) + 1)"
proof -
  let ?T = "{n. \<exists>e \<in> set es. times_total n e}"
  have start: "total_tracked name 0 0 new_factory (server s)"
    using assms(5) by (simp add: total_tracked_def collected_total_def new_factory_def)
  have "\<exists>fs' s'. run_events env it p (es @ [PublishAll]) (new_factory, s) = Inr (fs', s') \<and>
      total_tracked name (0 + sum_list (map (total_time name) (es @ [PublishAll]))) (0 + sum_list (map publications (es @ [PublishAll]))) fs' (server s')"
    by (rule run_events_total [OF assms(1,2) simulates_new [of ?T "server s"] _ _ _ start])
      (use assms(3,4,6) in \<open>auto simp: valid_name_def\<close>)
  moreover have "collected_total name (emptied fs) = 0" for fs by (simp add: collected_total_def emptied_def)
  moreover have "f_total fs = []" if "run_events env it p (es @ [PublishAll]) (new_factory, s) = Inr (fs, s')" for fs s'
  proof -
    obtain fs1 s1 where 1: "run_events env it p es (new_factory, s) = Inr (fs1, s1)"
      "simulates ?T (sum_list (map magnitude es)) fs1 (server s1) (fold direct_event es (server s))"
      using run_events_simulates [OF assms(1,2) simulates_new [of ?T "server s"] assms(3)] assms(4) by auto
    then show ?thesis
      using that publish_delivers [OF assms(1,2) _ assms(4), of fs1 s1] by (auto simp: run_events_append simulates_def emptied_def)
  qed
  ultimately show ?thesis by (fastforce simp: total_tracked_def Let_def collected_total_def)
qed

theorem total_duration_published_witness:
  "\<exists>fs s'. run_events demo_env demo_iteration demo_publisher (demo_events @ [PublishAll]) (new_factory, empty_statsd) = Inr (fs, s') \<and>
    1000 * sum_list (sd_timings s' ''u'') \<le> 2999 \<and> 2999 \<le> 1000 * sum_list (sd_timings s' ''u'') + 1998"
proof -
  have "list_all (\<lambda>e. valid_name (event_name e)) demo_events" "sum_list (map magnitude demo_events) < 2 ^ 63"
    "list_all (\<lambda>e. \<not> times_scope ''u'' e \<and> 0 \<le> total_time ''u'' e) demo_events"
    "sum_list (map (total_time ''u'') demo_events) = 2999" "sum_list (map publications demo_events) = 1"
    by code_simp+
  then show ?thesis
    using total_duration_published [OF demo_delivers, of demo_events empty_statsd "''u''"] by (simp add: empty_statsd_def)
qed

section \<open>Values that are not published\<close>

text \<open>
  The publisher of all value types leaves out the distributions: they are recorded and stay in their collector
  however often it publishes.
\<close>

theorem distributions_not_published:
  "f_distribution (snd (gatherStatsDFromNextCollectors it publisherTypeOfAllValueTypes lines fs)) = f_distribution fs \<and>
   fst (gatherStatsDFromNextCollectors it publisherTypeOfAllValueTypes lines (fs\<lparr>f_distribution := m\<rparr>)) =
   fst (gatherStatsDFromNextCollectors it publisherTypeOfAllValueTypes lines fs)"
  by (auto simp: publisherTypeOfAllValueTypes_def gatherStatsDFromValueTypeCollector_def getSnapshot_def split: sum.splits)

text \<open>
  A publication that cannot open its file loses what was collected: the collectors are emptied before the file is
  opened.
\<close>

theorem publish_failure_loses:
  assumes "sp_method p = File" "pe_open_append env (sp_path p) s = (False, s')" "iterates it" "factory_ok b fs" "b < 2 ^ 63"
  shows "publish env it publisherTypeOfAllValueTypes p fs s = (Inl RuntimeError, emptied fs, s')"
  using gather_all [OF assms(3-5)] assms(1,2) by (auto simp: publish_def new_FileWriter_def)

text \<open>
  A scoped metric stores the whole value of its counter at the end of each scope: after three scopes around one
  counter, as in the example of the documentation, the collector has counted six.
\<close>

theorem scoped_counting_repeated:
  "Option.bind (case scoped_counting id (new_CountingMetric name) new_factory of Inl _ \<Rightarrow> None | Inr p \<Rightarrow> Some p) (\<lambda>(m, fs).
   Option.bind (case scoped_counting id m fs of Inl _ \<Rightarrow> None | Inr p \<Rightarrow> Some p) (\<lambda>(m, fs).
     case scoped_counting id m fs of Inl _ \<Rightarrow> None | Inr p \<Rightarrow> Some (cm_value (fst p), f_counting (snd p)))) =
   Some (CountingMetricValue 3, [(name, CountingMetricValue 6)])"
  by (simp add: scoped_counting_def ScopedMetric_create_def ScopedMetric_destroy_def CountingMetric_start_def CountingMetric_stop_def
      counting_increment_def new_CountingMetric_def new_factory_def add64_def recordCounterMetric_def store_counting_def
      factory_store_def store_aggregated_def counting_plus_def)

end
