(* ===== verification/Publisher_Daemon.thy ===== *)
theory Publisher_Daemon
  imports Statsd_Server
begin

text \<open>
  \<^verbatim>\<open>ScopedPeriodicPublisherDaemon\<close>: a thread that publishes at intervals until it is told to stop, and a last
  publication by the destructor.

  A step relation interleaves the publisher's thread, the thread that owns the daemon and the threads that
  record metrics.  Every access to a collector and every line that is written is a step of its own.  The
  time is not modelled: a wait can end at any moment.  An exception of a publication ends the process, and with it
  the run.
\<close>

section \<open>The machine\<close>

text \<open>
  \<open>PubIdle\<close>: before locking the mutex; \<open>PubWaiting\<close>: in \<^verbatim>\<open>wait_for\<close>, which has released it; while gathering and
  writing the thread holds it.
\<close>

datatype pub_pc = PubIdle | PubWaiting | PubGathering "value_type list" "string list" | PubWriting "string list" | PubExited

text \<open>\<open>Joining\<close> is the rest of \<^verbatim>\<open>stop\<close>, called by the destructor or not.\<close>

datatype main_pc = Alive | Joining bool | LastGathering "value_type list" "string list" | LastWriting "string list" | Destroyed

record daemon =
  ds_enabled :: bool
  ds_shutDown :: bool
  ds_locked :: bool
  ds_pub :: pub_pc
  ds_main :: main_pc
  ds_factory :: factory
  ds_server :: statsd
  ds_spec :: statsd
  ds_late :: bool

text \<open>
  \<open>ds_spec\<close> is the server to which every value goes when it is recorded, and \<open>ds_late\<close> says that something was
  recorded when the last publication had begun; the program has neither.
\<close>

definition daemon_start :: "bool \<Rightarrow> factory \<Rightarrow> statsd \<Rightarrow> daemon" where
  "daemon_start enabled fs srv =
     \<lparr>ds_enabled = enabled, ds_shutDown = False, ds_locked = False, ds_pub = (if enabled then PubIdle else PubExited),
      ds_main = Alive, ds_factory = fs, ds_server = srv, ds_spec = flushed fs srv, ds_late = False\<rparr>"

inductive daemon_step :: "iteration \<Rightarrow> daemon \<Rightarrow> daemon \<Rightarrow> bool" for it where
  record_metric: "record_event e (ds_factory s) = Inr fs \<Longrightarrow> valid_name (event_name e) \<Longrightarrow>
    daemon_step it s (s\<lparr>ds_factory := fs, ds_spec := direct_event e (ds_spec s),
      ds_late := (ds_late s \<or> \<not> (ds_main s = Alive \<or> (\<exists>d. ds_main s = Joining d)))\<rparr>)"
| lock_wait: "ds_pub s = PubIdle \<Longrightarrow> \<not> ds_locked s \<Longrightarrow>
    daemon_step it s (s\<lparr>ds_pub := (if ds_shutDown s then PubExited else PubWaiting)\<rparr>)"
| notified: "ds_pub s = PubWaiting \<Longrightarrow> \<not> ds_locked s \<Longrightarrow> ds_shutDown s \<Longrightarrow> daemon_step it s (s\<lparr>ds_pub := PubExited\<rparr>)"
| timeout: "ds_pub s = PubWaiting \<Longrightarrow> \<not> ds_locked s \<Longrightarrow> \<not> ds_shutDown s \<Longrightarrow>
    daemon_step it s (s\<lparr>ds_locked := True, ds_pub := PubGathering publisherTypeOfAllValueTypes []\<rparr>)"
| gather_next: "ds_pub s = PubGathering (ty # tys) lines \<Longrightarrow>
    gatherStatsDFromValueTypeCollector it ty lines (ds_factory s) = (Inr lines', fs) \<Longrightarrow>
    daemon_step it s (s\<lparr>ds_factory := fs, ds_pub := PubGathering tys lines'\<rparr>)"
| gathered: "ds_pub s = PubGathering [] lines \<Longrightarrow> daemon_step it s (s\<lparr>ds_pub := PubWriting lines\<rparr>)"
| write_line: "ds_pub s = PubWriting (line # lines) \<Longrightarrow>
    daemon_step it s (s\<lparr>ds_server := statsd_receive (line @ newline) (ds_server s), ds_pub := PubWriting lines\<rparr>)"
| written: "ds_pub s = PubWriting [] \<Longrightarrow> daemon_step it s (s\<lparr>ds_locked := False, ds_pub := PubIdle\<rparr>)"
| stop: "ds_enabled s \<Longrightarrow> ds_main s = Alive \<Longrightarrow> \<not> ds_locked s \<Longrightarrow>
    daemon_step it s (s\<lparr>ds_shutDown := True, ds_main := Joining destroying\<rparr>)"
| join: "ds_main s = Joining destroying \<Longrightarrow> ds_pub s = PubExited \<Longrightarrow>
    daemon_step it s (s\<lparr>ds_main := (if destroying then LastGathering publisherTypeOfAllValueTypes [] else Alive)\<rparr>)"
| last_gather: "ds_main s = LastGathering (ty # tys) lines \<Longrightarrow>
    gatherStatsDFromValueTypeCollector it ty lines (ds_factory s) = (Inr lines', fs) \<Longrightarrow>
    daemon_step it s (s\<lparr>ds_factory := fs, ds_main := LastGathering tys lines'\<rparr>)"
| last_gathered: "ds_main s = LastGathering [] lines \<Longrightarrow> daemon_step it s (s\<lparr>ds_main := LastWriting lines\<rparr>)"
| last_write: "ds_main s = LastWriting (line # lines) \<Longrightarrow>
    daemon_step it s (s\<lparr>ds_server := statsd_receive (line @ newline) (ds_server s), ds_main := LastWriting lines\<rparr>)"
| last_written: "ds_main s = LastWriting [] \<Longrightarrow> daemon_step it s (s\<lparr>ds_main := Destroyed\<rparr>)"
| destroy_disabled: "\<not> ds_enabled s \<Longrightarrow> ds_main s = Alive \<Longrightarrow> daemon_step it s (s\<lparr>ds_main := Destroyed\<rparr>)"

abbreviation daemon_run :: "iteration \<Rightarrow> daemon \<Rightarrow> daemon \<Rightarrow> bool" where
  "daemon_run it \<equiv> (daemon_step it)\<^sup>*\<^sup>*"

section \<open>Safety\<close>

definition pub_publishing :: "pub_pc \<Rightarrow> bool" where
  "pub_publishing pc \<longleftrightarrow> (case pc of PubGathering _ _ \<Rightarrow> True | PubWriting _ \<Rightarrow> True | _ \<Rightarrow> False)"

definition main_publishing :: "main_pc \<Rightarrow> bool" where
  "main_publishing pc \<longleftrightarrow> (case pc of LastGathering _ _ \<Rightarrow> True | LastWriting _ \<Rightarrow> True | _ \<Rightarrow> False)"

definition in_flight :: "daemon \<Rightarrow> string list" where
  "in_flight s =
     (case ds_pub s of PubGathering _ lines \<Rightarrow> lines | PubWriting lines \<Rightarrow> lines
      | _ \<Rightarrow> (case ds_main s of LastGathering _ lines \<Rightarrow> lines | LastWriting lines \<Rightarrow> lines | _ \<Rightarrow> []))"

text \<open>Server, lines on their way and collectors together have what was recorded.\<close>

definition conserves :: "factory \<Rightarrow> statsd \<Rightarrow> statsd \<Rightarrow> bool" where
  "conserves fs srv spec \<longleftrightarrow> f_metricsEnabled fs \<and>
     distinct (map fst (f_counting fs)) \<and> distinct (map fst (f_gauge fs)) \<and> distinct (map fst (f_total fs)) \<and>
     valid_names (f_counting fs) \<and> valid_names (f_gauge fs) \<and> valid_names (f_total fs) \<and> valid_names (f_duration fs) \<and>
     valid_names (f_distribution fs) \<and>
     collected count_effect (f_counting fs) (sd_counters srv) = sd_counters spec \<and>
     collected gauge_effect (f_gauge fs) (sd_gauges srv) = sd_gauges spec"

definition daemon_inv :: "daemon \<Rightarrow> bool" where
  "daemon_inv s \<longleftrightarrow>
     conserves (ds_factory s) (deliver (in_flight s) (ds_server s)) (ds_spec s) \<and>
     (pub_publishing (ds_pub s) \<longleftrightarrow> ds_locked s) \<and>
     (ds_enabled s \<and> (main_publishing (ds_main s) \<or> ds_main s = Destroyed) \<longrightarrow> ds_pub s = PubExited) \<and>
     (\<not> ds_enabled s \<longrightarrow> ds_pub s = PubExited \<and> \<not> main_publishing (ds_main s) \<and> (\<forall>d. ds_main s \<noteq> Joining d)) \<and>
     (ds_enabled s \<and> \<not> ds_late s \<longrightarrow>
        (case ds_main s of
           LastGathering tys _ \<Rightarrow>
             (Counting \<notin> set tys \<longrightarrow> f_counting (ds_factory s) = []) \<and> (Gauge \<notin> set tys \<longrightarrow> f_gauge (ds_factory s) = [])
         | LastWriting _ \<Rightarrow> f_counting (ds_factory s) = [] \<and> f_gauge (ds_factory s) = []
         | Destroyed \<Rightarrow> f_counting (ds_factory s) = [] \<and> f_gauge (ds_factory s) = []
         | _ \<Rightarrow> True))"


lemma receive_distribution:
  assumes "valid_name name"
  shows "statsd_receive (distribution_toStatsD name v @ newline) srv = srv"
  using receive_line [OF assms show_int_no_sep, of "''d''" "distribution_value v" srv]
  by (simp add: distribution_toStatsD_def statsd_metric_def)

lemma gather_distribution:
  assumes "valid_names (f_distribution fs)" "gatherStatsDFromValueTypeCollector it Distribution acc fs = (Inr lines, fs')"
  shows "deliver lines srv = deliver acc srv" and "fs' = fs\<lparr>f_distribution := []\<rparr>"
proof -
  have lines: "print_entries (\<lambda>n v. Inr (distribution_toStatsD n v)) (f_distribution fs) acc = Inr lines" "fs' = fs\<lparr>f_distribution := []\<rparr>"
    using assms(2) by (simp_all add: gatherStatsDFromValueTypeCollector_def getSnapshot_def)
  then show "fs' = fs\<lparr>f_distribution := []\<rparr>" by simp
  have "deliver lines srv = fold (\<lambda>e srv. srv) (f_distribution fs) (deliver acc srv)"
    by (rule deliver_print [OF _ assms(1) lines(1)]) (auto simp: receive_distribution)
  also have "fold (\<lambda>e srv. srv) m x = x" for m and x :: statsd by (induction m) simp_all
  finally show "deliver lines srv = deliver acc srv" .
qed

lemma gather_conserves:
  assumes "iterates it" "conserves fs (deliver acc srv) spec" "gatherStatsDFromValueTypeCollector it ty acc fs = (Inr lines, fs')"
  shows "conserves fs' (deliver lines srv) spec"
    and "f_counting fs' = (if ty = Counting then [] else f_counting fs)" "f_gauge fs' = (if ty = Gauge then [] else f_gauge fs)"
proof -
  note ok = assms(2) [unfolded conserves_def]
  have "conserves fs' (deliver lines srv) spec \<and> f_counting fs' = (if ty = Counting then [] else f_counting fs) \<and>
      f_gauge fs' = (if ty = Gauge then [] else f_gauge fs)"
  proof (cases ty)
    case Counting
    then show ?thesis using gather_counting [OF assms(1), of fs acc] assms(3) ok by (auto simp: conserves_def valid_names_def)
  next
    case Duration
    then show ?thesis using gather_duration [of fs it acc] assms(3) ok by (auto simp: conserves_def valid_names_def)
  next
    case TotalDuration
    then show ?thesis using gather_total [OF assms(1), of fs acc] assms(3) ok by (auto simp: conserves_def valid_names_def)
  next
    case Gauge
    then show ?thesis using gather_gauge_lines [OF assms(1), of fs acc lines fs'] assms(3) ok by (auto simp: conserves_def valid_names_def)
  next
    case Distribution
    then show ?thesis using gather_distribution [of fs it acc lines fs'] assms(3) ok by (auto simp: conserves_def valid_names_def)
  qed
  then show "conserves fs' (deliver lines srv) spec" "f_counting fs' = (if ty = Counting then [] else f_counting fs)"
    "f_gauge fs' = (if ty = Gauge then [] else f_gauge fs)" by blast+
qed

lemma store_conserves:
  assumes "store_aggregated add n v m = Inr m'" "valid_names m" "distinct (map fst m)" "valid_name n"
  shows "valid_names m' \<and> distinct (map fst m')"
  using assms valid_names_store [OF assms(1)]
  by (auto simp: store_aggregated_def map_sum_def distinct_update split: option.splits sum.splits)

lemma record_conserves:
  assumes "conserves fs srv spec" "record_event e fs = Inr fs'" "valid_name (event_name e)"
  shows "conserves fs' srv (direct_event e spec)"
proof (cases e)
  case (RecordCount n k)
  then obtain m where m: "store_aggregated counting_plus n (CountingMetricValue k) (f_counting fs) = Inr m" "fs' = fs\<lparr>f_counting := m\<rparr>"
    using assms(1,2) by (auto simp: record_defs conserves_def map_sum_def split: sum.splits)
  then show ?thesis using assms(1,3) RecordCount store_conserves [OF m(1)] counts.store_collected [OF m(1), of "sd_counters srv"]
    by (simp add: conserves_def apply_entry_def count_effect_def)
next
  case (SetGauge n k)
  then obtain m where m: "store_aggregated gauge_plus n (GaugeMetricValue k False) (f_gauge fs) = Inr m" "fs' = fs\<lparr>f_gauge := m\<rparr>"
    using assms(1,2) by (auto simp: record_defs conserves_def map_sum_def split: sum.splits)
  then show ?thesis using assms(1,3) SetGauge store_conserves [OF m(1)] gauges.store_collected [OF m(1), of "sd_gauges srv"]
    by (simp add: conserves_def apply_entry_def gauge_effect_def)
next
  case (AdjustGauge n k)
  then obtain m where m: "store_aggregated gauge_plus n (GaugeMetricValue k True) (f_gauge fs) = Inr m" "fs' = fs\<lparr>f_gauge := m\<rparr>"
    using assms(1,2) by (auto simp: record_defs conserves_def map_sum_def split: sum.splits)
  then show ?thesis using assms(1,3) AdjustGauge store_conserves [OF m(1)] gauges.store_collected [OF m(1), of "sd_gauges srv"]
    by (simp add: conserves_def apply_entry_def gauge_effect_def)
next
  case (TimeScope n t t')
  then show ?thesis using assms by (auto simp: record_defs conserves_def valid_names_def)
next
  case (TotalTimeScope n t t')
  then obtain m where m: "store_aggregated total_plus n (TotalDurationMetricValue ((t' - t) sdiv 1000)) (f_total fs) = Inr m" "fs' = fs\<lparr>f_total := m\<rparr>"
    using assms(1,2) by (auto simp: record_defs conserves_def map_sum_def split: sum.splits)
  then show ?thesis using assms(1,3) TotalTimeScope store_conserves [OF m(1)] by (simp add: conserves_def)
next
  case (RecordDistribution n k)
  then show ?thesis using assms by (auto simp: record_defs conserves_def valid_names_def)
qed (use assms in simp)

lemmas daemon_defs = daemon_inv_def in_flight_def pub_publishing_def main_publishing_def

lemma daemon_inv_step:
  assumes "iterates it" "daemon_step it s s'" "daemon_inv s"
  shows "daemon_inv s'"
  using assms(2,3)
proof (induction rule: daemon_step.induct)
  case (record_metric e s fs)
  have "conserves fs (deliver (in_flight s) (ds_server s)) (direct_event e (ds_spec s))"
    by (rule record_conserves) (use record_metric in \<open>simp_all add: daemon_inv_def\<close>)
  then show ?case using record_metric.prems by (auto simp: daemon_defs split: main_pc.splits)
next
  case (gather_next s ty tys lines lines' fs)
  have "conserves (ds_factory s) (deliver lines (ds_server s)) (ds_spec s)" using gather_next by (simp add: daemon_defs)
  from gather_conserves [OF assms(1) this gather_next.hyps(2)] show ?case
    using gather_next by (auto simp: daemon_defs split: main_pc.splits)
next
  case (last_gather s ty tys lines lines' fs)
  have exited: "ds_pub s = PubExited" using last_gather by (auto simp: daemon_defs)
  then have "conserves (ds_factory s) (deliver lines (ds_server s)) (ds_spec s)" using last_gather by (simp add: daemon_defs)
  from gather_conserves [OF assms(1) this last_gather.hyps(2)] show ?case
    using last_gather exited by (auto simp: daemon_defs split: if_splits)
next
  case (write_line s line lines)
  then show ?case by (auto simp: daemon_defs deliver_def split: main_pc.splits)
next
  case (last_write s line lines)
  then have "ds_pub s = PubExited" by (auto simp: daemon_defs)
  then show ?case using last_write by (auto simp: daemon_defs deliver_def)
qed (auto simp: daemon_defs deliver_def publisherTypeOfAllValueTypes_def split: main_pc.splits pub_pc.splits if_splits)


lemma daemon_inv_run: "daemon_run it s s' \<Longrightarrow> iterates it \<Longrightarrow> daemon_inv s \<Longrightarrow> daemon_inv s'"
  by (induction rule: rtranclp_induct) (auto intro: daemon_inv_step)

lemma daemon_inv_start: "daemon_inv (daemon_start enabled new_factory srv)"
  by (auto simp: daemon_defs daemon_start_def conserves_def new_factory_def valid_names_def flushed_def deliver_def)

lemma daemon_start_spec: "ds_spec (daemon_start enabled new_factory srv) = srv"
  by (simp add: daemon_start_def flushed_def new_factory_def)

lemma daemon_enabled: "daemon_run it s s' \<Longrightarrow> ds_enabled s' = ds_enabled s"
proof (induction rule: rtranclp_induct)
  case (step s' s'')
  from step.hyps(2) have "ds_enabled s'' = ds_enabled s'" by cases simp_all
  then show ?case using step.IH by simp
qed simp


section \<open>Stopping\<close>

text \<open>A gauge of the smallest number as a change cannot be printed; without one every publication can go on.\<close>

definition gauges_printable :: "factory \<Rightarrow> bool" where
  "gauges_printable fs \<longleftrightarrow> bounded (\<lambda>v. \<bar>gauge_value v\<bar>) (2 ^ 63 - 1) (f_gauge fs)"

lemma gather_defined:
  assumes "iterates it" "gauges_printable fs"
  shows "\<exists>lines' fs'. gatherStatsDFromValueTypeCollector it ty lines fs = (Inr lines', fs') \<and> gauges_printable fs'"
proof (cases ty)
  case Gauge
  then show ?thesis using gather_gauge_defined [OF assms(1), of "2 ^ 63 - 1" fs lines] assms(2) by (auto simp: gauges_printable_def)
qed (use assms(2) in \<open>auto simp: print_total gatherStatsDFromValueTypeCollector_def getSnapshot_def gauges_printable_def\<close>)

lemma write_ends:
  "ds_pub s = PubWriting lines \<Longrightarrow> \<exists>srv. daemon_run it s (s\<lparr>ds_server := srv, ds_locked := False, ds_pub := PubIdle\<rparr>)"
proof (induction lines arbitrary: s)
  case Nil
  have "daemon_step it s (s\<lparr>ds_locked := False, ds_pub := PubIdle\<rparr>)" using Nil by (rule daemon_step.written)
  moreover have "s\<lparr>ds_locked := False, ds_pub := PubIdle\<rparr> = s\<lparr>ds_server := ds_server s, ds_locked := False, ds_pub := PubIdle\<rparr>" by simp
  ultimately show ?case by (metis r_into_rtranclp)
next
  case (Cons line lines)
  let ?s = "s\<lparr>ds_server := statsd_receive (line @ newline) (ds_server s), ds_pub := PubWriting lines\<rparr>"
  have "daemon_step it s ?s" using Cons.prems by (rule daemon_step.write_line)
  moreover obtain srv where "daemon_run it ?s (?s\<lparr>ds_server := srv, ds_locked := False, ds_pub := PubIdle\<rparr>)" using Cons.IH [of ?s] by auto
  ultimately have "daemon_run it s (?s\<lparr>ds_server := srv, ds_locked := False, ds_pub := PubIdle\<rparr>)" by (rule converse_rtranclp_into_rtranclp)
  then show ?case by (auto simp: exI)
qed

lemma gather_ends:
  assumes "iterates it"
  shows "ds_pub s = PubGathering tys lines \<Longrightarrow> gauges_printable (ds_factory s) \<Longrightarrow>
    \<exists>fs srv. daemon_run it s (s\<lparr>ds_factory := fs, ds_server := srv, ds_locked := False, ds_pub := PubIdle\<rparr>)"
proof (induction tys arbitrary: s lines)
  case Nil
  let ?s = "s\<lparr>ds_pub := PubWriting lines\<rparr>"
  have "daemon_step it s ?s" using Nil(1) by (rule daemon_step.gathered)
  moreover obtain srv where "daemon_run it ?s (?s\<lparr>ds_server := srv, ds_locked := False, ds_pub := PubIdle\<rparr>)" using write_ends [of ?s lines it] by auto
  ultimately have "daemon_run it s (?s\<lparr>ds_server := srv, ds_locked := False, ds_pub := PubIdle\<rparr>)" by (rule converse_rtranclp_into_rtranclp)
  moreover have "?s\<lparr>ds_server := srv, ds_locked := False, ds_pub := PubIdle\<rparr> =
      s\<lparr>ds_factory := ds_factory s, ds_server := srv, ds_locked := False, ds_pub := PubIdle\<rparr>" by simp
  ultimately show ?case by metis
next
  case (Cons ty tys)
  obtain lines' fs where g: "gatherStatsDFromValueTypeCollector it ty lines (ds_factory s) = (Inr lines', fs)" "gauges_printable fs"
    using gather_defined [OF assms Cons.prems(2)] by blast
  let ?s = "s\<lparr>ds_factory := fs, ds_pub := PubGathering tys lines'\<rparr>"
  have "daemon_step it s ?s" using Cons.prems(1) g(1) by (rule daemon_step.gather_next)
  moreover obtain fs' srv where "daemon_run it ?s (?s\<lparr>ds_factory := fs', ds_server := srv, ds_locked := False, ds_pub := PubIdle\<rparr>)"
    using Cons.IH [of ?s lines'] g(2) by auto
  ultimately have "daemon_run it s (?s\<lparr>ds_factory := fs', ds_server := srv, ds_locked := False, ds_pub := PubIdle\<rparr>)"
    by (rule converse_rtranclp_into_rtranclp)
  then show ?case by (auto simp: exI)
qed

lemma thread_idles:
  assumes "iterates it" "gauges_printable (ds_factory s)" "pub_publishing (ds_pub s)"
  shows "\<exists>fs srv. daemon_run it s (s\<lparr>ds_factory := fs, ds_server := srv, ds_locked := False, ds_pub := PubIdle\<rparr>)"
proof (cases "ds_pub s")
  case (PubGathering tys lines)
  then show ?thesis using gather_ends [OF assms(1)] assms(2) by blast
next
  case (PubWriting lines)
  then obtain srv where "daemon_run it s (s\<lparr>ds_server := srv, ds_locked := False, ds_pub := PubIdle\<rparr>)" using write_ends by blast
  moreover have "s\<lparr>ds_server := srv, ds_locked := False, ds_pub := PubIdle\<rparr> =
      s\<lparr>ds_factory := ds_factory s, ds_server := srv, ds_locked := False, ds_pub := PubIdle\<rparr>" by simp
  ultimately show ?thesis by metis
qed (use assms(3) in \<open>simp_all add: pub_publishing_def\<close>)

lemma exits_unlocked:
  assumes "\<not> ds_locked s" "ds_shutDown s" "\<not> pub_publishing (ds_pub s)"
  shows "\<exists>s'. daemon_run it s s' \<and> ds_pub s' = PubExited \<and> ds_main s' = ds_main s"
proof (cases "ds_pub s")
  case PubIdle
  then have "daemon_step it s (s\<lparr>ds_pub := PubExited\<rparr>)" using daemon_step.lock_wait [of s it] assms by simp
  then show ?thesis by (auto intro!: exI [of _ "s\<lparr>ds_pub := PubExited\<rparr>"])
next
  case PubWaiting
  then have "daemon_step it s (s\<lparr>ds_pub := PubExited\<rparr>)" using daemon_step.notified assms by simp
  then show ?thesis by (auto intro!: exI [of _ "s\<lparr>ds_pub := PubExited\<rparr>"])
qed (use assms(3) in \<open>auto simp: pub_publishing_def\<close>)

definition shutdown_inv :: "daemon \<Rightarrow> bool" where
  "shutdown_inv s \<longleftrightarrow> ((\<exists>d. ds_main s = Joining d) \<longrightarrow> ds_shutDown s)"

lemma shutdown_inv_run: "daemon_run it s s' \<Longrightarrow> shutdown_inv s \<Longrightarrow> shutdown_inv s'"
proof (induction rule: rtranclp_induct)
  case (step s' s'')
  from step.hyps(2) step.IH [OF step.prems] show ?case by cases (auto simp: shutdown_inv_def)
qed

text \<open>
  C38: Stopping ends: from every state in which the owner waits for the publisher's thread, the thread can finish the
  publication it is in and exit, and the owner goes on.
\<close>

theorem daemon_stops:
  assumes "iterates it" "daemon_run it (daemon_start True new_factory srv) s"
    and "ds_main s = Joining destroying" "gauges_printable (ds_factory s)"
  shows "\<exists>s'. daemon_run it s s' \<and> ds_pub s' = PubExited \<and>
    ds_main s' = (if destroying then LastGathering publisherTypeOfAllValueTypes [] else Alive)"
proof -
  have inv: "daemon_inv s" using daemon_inv_run [OF assms(2,1)] daemon_inv_start by simp
  have "shutdown_inv (daemon_start True new_factory srv)" by (simp add: shutdown_inv_def daemon_start_def)
  then have down: "ds_shutDown s" using shutdown_inv_run [OF assms(2)] assms(3) by (auto simp: shutdown_inv_def)
  obtain s1 where 1: "daemon_run it s s1" "\<not> ds_locked s1" "ds_shutDown s1" "\<not> pub_publishing (ds_pub s1)" "ds_main s1 = ds_main s"
  proof (cases "pub_publishing (ds_pub s)")
    case True
    then obtain fs srv' where "daemon_run it s (s\<lparr>ds_factory := fs, ds_server := srv', ds_locked := False, ds_pub := PubIdle\<rparr>)"
      using thread_idles [OF assms(1,4)] by blast
    then show thesis by (rule that) (simp_all add: down pub_publishing_def)
  next
    case False
    then show thesis using that [of s] inv down by (auto simp: daemon_inv_def)
  qed
  obtain s2 where 2: "daemon_run it s1 s2" "ds_pub s2 = PubExited" "ds_main s2 = Joining destroying"
    using exits_unlocked [OF 1(2-4)] 1(5) assms(3) by auto
  have "daemon_step it s2 (s2\<lparr>ds_main := (if destroying then LastGathering publisherTypeOfAllValueTypes [] else Alive)\<rparr>)"
    using 2(3,2) by (rule daemon_step.join)
  then have "daemon_run it s (s2\<lparr>ds_main := (if destroying then LastGathering publisherTypeOfAllValueTypes [] else Alive)\<rparr>)"
    using 1(1) 2(1) by (meson rtranclp.rtrancl_into_rtrancl rtranclp_trans)
  then show ?thesis using 2(2) by force
qed


text \<open>A run: a count is recorded and the daemon is destroyed before the first interval has passed.\<close>

definition demo_factory :: factory where
  "demo_factory = new_factory\<lparr>f_counting := [(''a'', CountingMetricValue 2)]\<rparr>"

definition demo_recorded :: daemon where
  "demo_recorded = (daemon_start True new_factory empty_statsd)
     \<lparr>ds_factory := demo_factory, ds_spec := direct_event (RecordCount ''a'' 2) empty_statsd\<rparr>"

definition demo_joining :: daemon where
  "demo_joining = demo_recorded\<lparr>ds_shutDown := True, ds_main := Joining True\<rparr>"

definition demo_destroyed :: daemon where
  "demo_destroyed = demo_joining\<lparr>ds_pub := PubExited, ds_main := Destroyed, ds_factory := new_factory,
     ds_server := statsd_receive (counting_toStatsD ''a'' (CountingMetricValue 2) @ newline) empty_statsd\<rparr>"

lemma demo_joins: "daemon_run demo_iteration (daemon_start True new_factory empty_statsd) demo_joining"
proof -
  let ?s = "daemon_start True new_factory empty_statsd"
  have "record_event (RecordCount ''a'' 2) new_factory = Inr demo_factory"
    by (simp add: record_defs store_aggregated_def new_factory_def demo_factory_def)
  then have "daemon_step demo_iteration ?s demo_recorded"
    using daemon_step.record_metric [of "RecordCount ''a'' 2" ?s demo_factory demo_iteration]
    by (simp add: demo_recorded_def daemon_start_def valid_name_def flushed_def new_factory_def empty_statsd_def)
  moreover have "daemon_step demo_iteration demo_recorded demo_joining"
    using daemon_step.stop [of demo_recorded demo_iteration True] by (simp add: demo_joining_def demo_recorded_def daemon_start_def)
  ultimately show ?thesis by (meson converse_rtranclp_into_rtranclp r_into_rtranclp)
qed

lemma demo_last_gather:
  "gatherStatsDFromValueTypeCollector demo_iteration Counting [] demo_factory =
     (Inr [counting_toStatsD ''a'' (CountingMetricValue 2)], new_factory)"
  "gatherStatsDFromValueTypeCollector demo_iteration Duration lines new_factory = (Inr lines, new_factory)"
  "gatherStatsDFromValueTypeCollector demo_iteration TotalDuration lines new_factory = (Inr lines, new_factory)"
  "gatherStatsDFromValueTypeCollector demo_iteration Gauge lines new_factory = (Inr lines, new_factory)"
  by (simp_all add: gatherStatsDFromValueTypeCollector_def getSnapshot_def demo_iteration_def demo_factory_def new_factory_def)

lemma demo_destroys: "daemon_run demo_iteration demo_joining demo_destroyed"
proof -
  let ?line = "counting_toStatsD ''a'' (CountingMetricValue 2)"
  let ?at = "\<lambda>fs pc. demo_joining\<lparr>ds_pub := PubExited, ds_factory := fs, ds_main := pc\<rparr>"
  let ?step = "daemon_step demo_iteration"
  have "?step demo_joining (?at demo_factory (Joining True))"
    using daemon_step.lock_wait [of demo_joining demo_iteration] by (simp add: demo_joining_def demo_recorded_def daemon_start_def)
  moreover have "?step (?at demo_factory (Joining True)) (?at demo_factory (LastGathering [Counting, Duration, TotalDuration, Gauge] []))"
    using daemon_step.join [of "?at demo_factory (Joining True)" True demo_iteration] by (simp add: publisherTypeOfAllValueTypes_def)
  moreover have gather: "?step (?at fs (LastGathering (ty # tys) lines)) (?at fs' (LastGathering tys lines'))"
    if "gatherStatsDFromValueTypeCollector demo_iteration ty lines fs = (Inr lines', fs')" for ty tys lines lines' fs fs'
    using daemon_step.last_gather [of "?at fs (LastGathering (ty # tys) lines)" ty tys lines demo_iteration lines' fs'] that by simp
  moreover have "?step (?at new_factory (LastGathering [] [?line])) (?at new_factory (LastWriting [?line]))"
    using daemon_step.last_gathered [of "?at new_factory (LastGathering [] [?line])" "[?line]" demo_iteration] by simp
  moreover have "?step (?at new_factory (LastWriting [?line])) (demo_destroyed\<lparr>ds_main := LastWriting []\<rparr>)"
    using daemon_step.last_write [of "?at new_factory (LastWriting [?line])" ?line "[]" demo_iteration]
    by (simp add: demo_destroyed_def demo_joining_def demo_recorded_def daemon_start_def)
  moreover have "?step (demo_destroyed\<lparr>ds_main := LastWriting []\<rparr>) demo_destroyed"
    using daemon_step.last_written [of "demo_destroyed\<lparr>ds_main := LastWriting []\<rparr>" demo_iteration] by (simp add: demo_destroyed_def demo_joining_def demo_recorded_def daemon_start_def)
  ultimately show ?thesis
    using gather [OF demo_last_gather(1)] gather [OF demo_last_gather(2)] gather [OF demo_last_gather(3)] gather [OF demo_last_gather(4)]
    by (meson converse_rtranclp_into_rtranclp rtranclp.rtrancl_refl)
qed


theorem daemon_stops_witness:
  "\<exists>s'. daemon_run demo_iteration demo_joining s' \<and> ds_pub s' = PubExited \<and> ds_main s' = LastGathering publisherTypeOfAllValueTypes []"
  using daemon_stops [OF demo_delivers(2) demo_joins, of True]
  by (simp add: demo_joining_def demo_recorded_def demo_factory_def gauges_printable_def new_factory_def)

end
