(* ===== verification/Spec2Isabelle.thy ===== *)
theory Spec2Isabelle
  imports Paths Merklize_Fs Mergeutil Output_Stream Token_Reload Texts Publisher_Daemon
begin

text \<open>
  A verification of \<^verbatim>\<open>buildbox-common\<close>, the C++ library that the BuildBox workers and tools share: a client of the remote execution
  API (content-addressable storage, byte streams, log streams, the local service), a framework for runners that execute one action,
  command lines, connections and credentials, file system helpers, an implementation of BLAKE3, and a metrics library.
  \<^verbatim>\<open>BC\<close> stands for \<^verbatim>\<open>src/buildbox-common/buildboxcommon\<close> and \<^verbatim>\<open>BM\<close> for \<^verbatim>\<open>src/buildbox-common/buildboxcommonmetrics\<close> below.  This theory
  imports all others; the properties stand in the theories of their components.

  \<^bold>\<open>How the parts interact.\<close>  A runner parses its arguments (connection options, logger), reads an action, fetches the command
  with the client, stages the input root (by the local service, or by a download into a temporary directory), executes the command
  in a child process, captures the outputs below the root, uploads them and writes the result.  The client issues each request
  through a retrier, splits many small blobs into batches and sends large ones as byte streams; digests are made with the hash
  functions of \<^verbatim>\<open>BC/buildboxcommon_cashash.cpp\<close>, of which one is the BLAKE3 code.  Directories become Merkle trees, and two trees can be
  merged.  The standard output of a command is followed by a file monitor and sent to a log stream.  Metrics are collected by
  value type and published in intervals by a thread.

  \<^bold>\<open>Shared.\<close>  Theory \<open>Prelude\<close>: exceptions and results, ordered maps, splitting of strings.  Theory \<open>Protos\<close>: the messages as records and
  maps keyed by digests (\<^verbatim>\<open>BC/buildboxcommon_protos.h\<close>, \<^verbatim>\<open>BC/buildboxcommon_merklize.h\<close>).  Theory \<open>Utils\<close>: strings, times and \<^verbatim>\<open>std::stoi\<close>
  (\<^verbatim>\<open>BC/buildboxcommon_stringutils.cpp\<close>, \<^verbatim>\<open>BC/buildboxcommon_timeutils.cpp\<close>).

  \<^bold>\<open>Paths and files.\<close>
  \<^item> \<open>Paths\<close>: \<^verbatim>\<open>normalizePath\<close>, \<^verbatim>\<open>makePathAbsolute\<close>, \<^verbatim>\<open>makePathRelative\<close>, \<^verbatim>\<open>joinPathSegments\<close>, \<^verbatim>\<open>joinPathSegmentsNoEscape\<close> of
    \<^verbatim>\<open>BC/buildboxcommon_fileutils.cpp\<close>.  The specification is lexical resolution.  Normalisation keeps the location and has a normal
    form; a join that must not escape does not, and succeeds exactly when it may.
  \<^item> \<open>File_System\<close>: the functions of the same file on the file system, and \<^verbatim>\<open>BC/buildboxcommon_temporaryfile.cpp\<close>,
    \<^verbatim>\<open>BC/buildboxcommon_temporarydirectory.cpp\<close>.  Atomic writes leave all or nothing; a directory is created with its parents.
  \<^item> \<open>Traversal\<close>: \<^verbatim>\<open>BC/buildboxcommon_direntwrapper.cpp\<close>, the recursive traversal, deleting and clearing, and the recursive change of
    permissions.  Deletion returns and removes exactly what is below the directory, without following links.
  \<^item> \<open>System_Utils\<close>: \<^verbatim>\<open>BC/buildboxcommon_systemutils.cpp\<close>.  Waiting returns through interruptions; the search of commands and of the
    working directory.

  \<^bold>\<open>Digests and trees.\<close>
  \<^item> \<open>Blake3_Compress\<close>, \<open>Blake3\<close>: \<^verbatim>\<open>BC/blake3_impl.h\<close>, \<^verbatim>\<open>BC/blake3_portable.cpp\<close>, \<^verbatim>\<open>BC/blake3_dispatch.cpp\<close>, \<^verbatim>\<open>BC/blake3.cpp\<close> on machine words.
    \<open>Blake3_Tree\<close> defines the hash as a tree over chunks, and \<open>Blake3_Hasher\<close> shows which sequences of updates compute it and that every
    other one is undefined behaviour.
  \<^item> \<open>Cashash\<close>: \<^verbatim>\<open>BC/buildboxcommon_cashash.cpp\<close>, digests of blobs and of files read in pieces.
  \<^item> \<open>Merklize\<close>, \<open>Merklize_Fs\<close>: \<^verbatim>\<open>BC/buildboxcommon_merklize.cpp\<close>.  Additions are one update at a path, their order is irrelevant, the digest
    is that of the tree, and reading a file system gives what is there.
  \<^item> \<open>Mergeutil\<close>: \<^verbatim>\<open>BC/buildboxcommon_mergeutil.cpp\<close>.  A merge keeps the files of both trees and detects collisions of files.

  \<^bold>\<open>The client.\<close>
  \<^item> \<open>Retrier\<close>: \<^verbatim>\<open>BC/buildboxcommon_grpcretrier.cpp\<close> and \<^verbatim>\<open>BC/buildboxcommon_grpcretry.cpp\<close>, and that both have the same outcome.
  \<^item> \<open>Client_Batch\<close>, \<open>Client_Stream\<close>, \<open>Client_Blobs\<close>, \<open>Client_Dirs\<close>: \<^verbatim>\<open>BC/buildboxcommon_client.cpp\<close>.  Batches partition the work and fit the
    limit; what is returned by a download has the digest that was asked for, also over several attempts; every upload is attempted and
    reported; a directory is downloaded completely.
  \<^item> \<open>Logstream\<close>: \<^verbatim>\<open>BC/buildboxcommon_logstreamwriter.cpp\<close>.  \<open>File_Monitor\<close>: \<^verbatim>\<open>BC/buildboxcommon_streamingstandardoutputfilemonitor.cpp\<close> and the
    two monitors by \<^verbatim>\<open>stat\<close> and by inotify, and \<^verbatim>\<open>BC/buildboxcommon_standardoutputstreamer.cpp\<close>.  \<open>Output_Stream\<close>: when the streamer stops with
    success, the log is the whole file.
  \<^item> \<open>Staged\<close>: \<^verbatim>\<open>BC/buildboxcommon_stageddirectory.cpp\<close> and the captures of \<^verbatim>\<open>BC/buildboxcommon_fallbackstageddirectory.cpp\<close> and
    \<^verbatim>\<open>BC/buildboxcommon_localcasstageddirectory.cpp\<close>: nothing outside of the root is looked at.  \<open>Staging\<close>: their constructors and destructors
    leave nothing behind.
  \<^item> \<open>Connection\<close>: \<^verbatim>\<open>BC/buildboxcommon_connectionoptions.cpp\<close>, its description for the parser, and one call of
    \<^verbatim>\<open>BC/buildboxcommon_reloadtokenauthenticator.cpp\<close>; \<open>Token_Reload\<close>: concurrent calls of it.

  \<^bold>\<open>Command lines and runners.\<close>
  \<^item> \<open>Commandline\<close>: \<^verbatim>\<open>BC/buildboxcommon_commandline.cpp\<close> and \<^verbatim>\<open>BC/buildboxcommon_commandlinetypes.h\<close>.  Parsed values have the types of the
    specification, and printed options are read back.
  \<^item> \<open>Runner_Args\<close>, \<open>Runner\<close>: \<^verbatim>\<open>BC/buildboxcommon_runner.cpp\<close>.  What a runner has done when it returns 0, what is in the result of an
    execution, that it returns, and how failed uploads show.
  \<^item> \<open>Support\<close>: initialisation from connection options, \<^verbatim>\<open>BC/buildboxcommon_requestmetadata.cpp\<close>, the child process,
    \<^verbatim>\<open>BC/buildboxcommon_platformutils.cpp\<close>.  \<open>Logger\<close>: \<^verbatim>\<open>BC/buildboxcommon_logging.cpp\<close>, its macros, \<^verbatim>\<open>BC/buildboxcommon_scopeguard.cpp\<close>.
    \<open>Texts\<close>: help texts, messages of exceptions and of retries, the beginning of a line of the log.

  \<^bold>\<open>Metrics\<close> (\<^verbatim>\<open>BM\<close>).  \<open>Metrics\<close>: values, collectors, timers and guards.  \<open>Metrics_Publisher\<close>: configuration and publication.
  \<open>Statsd_Server\<close>: the server has after a publication what it would have if each value had been sent at once.
  \<open>Publisher_Daemon\<close>: the thread that publishes, interleaved with its owner and with the threads that record.

  \<^bold>\<open>Contracts.\<close>  Five locales state what one part relies on in another, and are interpreted on the definitions of the model:
  \<open>path_normalizer\<close> (a normaliser keeps the location of a path; \<open>fnorm\<close>), used by the joins and the checks of staged paths; \<open>retried_call\<close>
  (what an attempt that fails keeps, so that it can be repeated, and what one that is answered establishes; \<open>fetch\<close>, \<open>dl\<close>, \<open>un\<close>, \<open>commit_request\<close>), by the transfers of the client and the log
  streams; \<open>batching\<close> (ranges that follow each other; \<open>mb\<close>), by the uploads and downloads of many blobs; \<open>aggregation\<close> (adding values and
  then sending them is sending each; \<open>counts\<close>, \<open>gauges\<close>, \<open>totals\<close>), by the specification of the metrics; \<open>file_monitor\<close> (what a monitor has
  passed on is a beginning of the file, and all of it when it ends completely; \<open>stat\<close>, \<open>inotify\<close>), by the streaming of an output.

  \<^bold>\<open>Environment.\<close>  The operating system, the servers and the libraries (OpenSSL, protobuf, glog, gRPC) are arguments: records of
  functions on a state of any type, or functions.  What a theorem needs of them is a predicate on that argument: \<open>mkdir_law\<close>,
  \<open>open_law\<close>, \<open>read_law\<close>, \<open>write_law\<close>, \<open>keep_law\<close>, \<open>replace_law\<close>, \<open>times_law\<close> and \<open>dir_law\<close> for the file system, relative to a view of the
  state; \<open>getcwd_law\<close>, \<open>mkdtemp_law\<close>, \<open>descriptor_law\<close>; \<open>incremental\<close> for a hash function; \<open>log_server\<close>, \<open>stage_law\<close>, \<open>download_law\<close> and
  \<open>delivers\<close> for servers.  Each theorem with such a predicate is applied in a witness to a concrete environment.

  \<^bold>\<open>Numbers, loops and fuel.\<close>  Sizes that the code adds are 64-bit words where they can wrap around; BLAKE3 works on words of 8 and 32
  bits, with the wrap-around of its counters written out; metric values are bounded integers whose overflow is undefined.  Undefined
  behaviour is a value of its own (\<open>Undefined\<close> of \<open>exn\<close>, \<open>None\<close> in BLAKE3), so that a theorem about a result excludes it.  Loops that
  depend on the environment are partial functions into \<open>option\<close>, where \<open>None\<close> is not returning: creating directories, copying,
  waiting, the working directory and the traversal; that they return is part of their theorems.  The recursions over messages
  of a server, \<open>downloadDirectory\<close> and \<open>buildFlattenedPath\<close>, have a fuel that bounds the depth, and their theorems hold for every fuel above
  the depth of the tree; a tree that contains itself, on which the code would not end, has no depth.  Threads are step relations, with invariants over every run.

  \<^bold>\<open>Not modelled.\<close>  The code that the build generates from the protocol files, and gRPC itself: they are parameters.  The SIMD parts of
  BLAKE3, which are commented out in \<^verbatim>\<open>BC/blake3_dispatch.cpp\<close> and \<^verbatim>\<open>BC/blake3_impl.h\<close>.  The parts of the command line types for C++17.  The
  code for other systems than Linux.  What glog writes and where.  The rounding of the delays between attempts, the length of the
  publishing interval and the sleeps of the monitors.  The lifetime of the strings that \<^verbatim>\<open>const char *\<close> members point to.  The declarations
  and comments of the headers, the tests, and the mock classes they use.
\<close>

end
